(* ===== verification/Oyster_Prelude.thy ===== *)
theory Oyster_Prelude
  imports Main "HOL-Library.Word" "HOL-Library.Sublist" "HOL-Library.Multiset"
begin

text \<open>
  The prelude of the development: the machine types of the Rust sources, the library operations
  the components share (saturating and checked arithmetic on words, big-endian encodings, slices
  that may be out of range, substring tests on strings), the lemma collections and the interface
  of a transition system whose invariant is kept by every step.

  Conventions. A Rust function that can panic returns an \<open>option\<close>, with \<open>None\<close> for the panic; a
  Rust \<open>Result\<close> is a sum, with \<open>Inl\<close> for the error; a function that can do both returns an option
  of a sum. Durations and instants are counted in nanoseconds, as natural numbers.
\<close>

unbundle bit_operations_syntax

named_theorems panic_simps \<open>when a slice, an index or a division is in range\<close>
named_theorems width_simps \<open>values of words that stay below their width\<close>

section \<open>Machine types\<close>

type_synonym u8 = "8 word"
type_synonym u16 = "16 word"
type_synonym u32 = "32 word"
type_synonym i32 = "32 word"
type_synonym u64 = "64 word"
type_synonym i64 = "64 word"
type_synonym u128 = "128 word"
type_synonym u256 = "256 word"
type_synonym b256 = "256 word"
type_synonym bytes = "u8 list"
type_synonym duration = nat
type_synonym instant = nat

text \<open>A fallible operation: an error message, or a value.\<close>

type_synonym 'a rust_result = "string + 'a"

definition duration_from_secs :: "u64 \<Rightarrow> duration" where
  "duration_from_secs s = unat s * 1000000000"

lemma duration_from_secs_mono: "a \<le> b \<Longrightarrow> duration_from_secs a \<le> duration_from_secs b"
  by (simp add: duration_from_secs_def word_le_nat_alt)

lemma duration_from_secs_0 [simp]: "duration_from_secs 0 = 0"
  by (simp add: duration_from_secs_def)

section \<open>Saturating and checked arithmetic\<close>

definition saturating_to_u64 :: "u256 \<Rightarrow> u64" where
  "saturating_to_u64 x = (if unat x < 2 ^ 64 then ucast x else - 1)"

definition saturating_sub :: "'a::len word \<Rightarrow> 'a word \<Rightarrow> 'a word" where
  "saturating_sub a b = (if b \<le> a then a - b else 0)"

definition saturating_mul :: "'a::len word \<Rightarrow> 'a word \<Rightarrow> 'a word" where
  "saturating_mul a b = (if unat a * unat b < 2 ^ LENGTH('a) then a * b else - 1)"

definition checked_div :: "'a::len word \<Rightarrow> 'a word \<Rightarrow> 'a word option" where
  "checked_div a b = (if b = 0 then None else Some (a div b))"

lemma unat_ucast_256_64: "unat (x :: u256) < 2 ^ 64 \<Longrightarrow> unat (ucast x :: u64) = unat x"
  by (simp add: unsigned_ucast_eq take_bit_nat_eq_self)

lemma unat_minus_one: "unat (- 1 :: 'a::len word) = 2 ^ LENGTH('a) - 1"
  by (simp add: unsigned_minus_1_eq_mask mask_eq_exp_minus_1)

lemma unat_saturating_to_u64 [width_simps]:
  "unat (saturating_to_u64 x) = min (unat x) (2 ^ 64 - 1)"
  by (auto simp: saturating_to_u64_def unat_ucast_256_64 unat_minus_one min_def)

lemma unat_saturating_sub [width_simps]: "unat (saturating_sub a b) = unat a - unat b"
proof (cases "b \<le> a")
  case True
  then show ?thesis by (simp add: saturating_sub_def unat_sub)
next
  case False
  then have "unat a < unat b" by (simp add: word_le_nat_alt)
  with False show ?thesis by (simp add: saturating_sub_def)
qed

lemma unat_saturating_mul [width_simps]:
  fixes a b :: "'a::len word"
  shows "unat (saturating_mul a b) = min (unat a * unat b) (2 ^ LENGTH('a) - 1)"
proof (cases "unat a * unat b < 2 ^ LENGTH('a)")
  case True
  then show ?thesis by (simp add: saturating_mul_def unat_word_ariths)
next
  case False
  then show ?thesis by (simp add: saturating_mul_def unat_minus_one)
qed

lemma checked_div_Some [panic_simps]: "b \<noteq> 0 \<Longrightarrow> checked_div a b = Some (a div b)"
  by (simp add: checked_div_def)

lemma checked_div_None_iff [simp]: "checked_div a b = None \<longleftrightarrow> b = 0"
  by (simp add: checked_div_def)

section \<open>Big-endian encodings\<close>

definition u16_to_be_bytes :: "u16 \<Rightarrow> bytes" where
  "u16_to_be_bytes x = [ucast (drop_bit 8 x), ucast x]"

definition u16_from_be_bytes :: "u8 \<Rightarrow> u8 \<Rightarrow> u16" where
  "u16_from_be_bytes h l = push_bit 8 (ucast h) OR ucast l"

lemma length_u16_to_be_bytes [simp]: "length (u16_to_be_bytes x) = 2"
  by (simp add: u16_to_be_bytes_def)

lemma u16_be_roundtrip:
  "u16_from_be_bytes (ucast (drop_bit 8 x)) (ucast x) = x"
  unfolding u16_from_be_bytes_def
  by (rule bit_word_eqI) (auto simp: bit_simps)

section \<open>Slices and vectors\<close>

text \<open>\<open>&xs[a..b]\<close> panics unless \<open>a \<le> b \<le> xs.len()\<close>.\<close>

definition vslice :: "'a list \<Rightarrow> nat \<Rightarrow> nat \<Rightarrow> 'a list option" where
  "vslice xs a b = (if a \<le> b \<and> b \<le> length xs then Some (take (b - a) (drop a xs)) else None)"

definition vindex :: "'a list \<Rightarrow> nat \<Rightarrow> 'a option" where
  "vindex xs i = (if i < length xs then Some (xs ! i) else None)"

lemma vslice_Some [panic_simps]:
  "a \<le> b \<Longrightarrow> b \<le> length xs \<Longrightarrow> vslice xs a b = Some (take (b - a) (drop a xs))"
  by (simp add: vslice_def)

lemma vslice_None_iff: "vslice xs a b = None \<longleftrightarrow> b < a \<or> length xs < b"
  by (auto simp: vslice_def)

lemma vslice_length: "vslice xs a b = Some ys \<Longrightarrow> length ys = b - a"
  by (auto simp: vslice_def split: if_splits)

lemma vindex_Some [panic_simps]: "i < length xs \<Longrightarrow> vindex xs i = Some (xs ! i)"
  by (simp add: vindex_def)

lemma vindex_None_iff [simp]: "vindex xs i = None \<longleftrightarrow> length xs \<le> i"
  by (auto simp: vindex_def)

text \<open>\<open>Vec::swap_remove(0)\<close> takes the first element and moves the last one into its place.\<close>

fun swap_remove_0 :: "'a list \<Rightarrow> ('a \<times> 'a list) option" where
  "swap_remove_0 [] = None"
| "swap_remove_0 [x] = Some (x, [])"
| "swap_remove_0 (x # y # ys) = Some (x, last (y # ys) # butlast (y # ys))"

lemma mset_last_butlast: "xs \<noteq> [] \<Longrightarrow> add_mset (last xs) (mset (butlast xs)) = mset xs"
  by (metis add_mset_add_single append_butlast_last_id mset.simps(1) mset.simps(2) mset_append)

lemma mset_swap_remove_0: "swap_remove_0 xs = Some (x, ys) \<Longrightarrow> mset xs = add_mset x (mset ys)"
  by (induction xs rule: swap_remove_0.induct)
     (auto simp del: last.simps butlast.simps simp: mset_last_butlast)

lemma swap_remove_0_None [simp]: "swap_remove_0 xs = None \<longleftrightarrow> xs = []"
  by (cases xs rule: swap_remove_0.cases) auto

section \<open>Strings\<close>

fun str_contains :: "string \<Rightarrow> string \<Rightarrow> bool" where
  "str_contains [] p = (p = [])"
| "str_contains (c # cs) p = (prefix p (c # cs) \<or> str_contains cs p)"

lemma str_contains_iff: "str_contains s p \<longleftrightarrow> sublist p s"
  by (induction s) (auto simp: sublist_Cons_right)

section \<open>Transition systems\<close>

text \<open>
  A component is a function that takes a state and an event to the next state, or to \<open>None\<close> when
  the event cannot happen there. \<open>run_steps\<close> runs it over a list of events.
\<close>

fun run_steps :: "('s \<Rightarrow> 'e \<Rightarrow> 's option) \<Rightarrow> 's \<Rightarrow> 'e list \<Rightarrow> 's option" where
  "run_steps step s [] = Some s"
| "run_steps step s (e # es) = (case step s e of None \<Rightarrow> None | Some s' \<Rightarrow> run_steps step s' es)"

lemma run_steps_append:
  "run_steps step s (xs @ ys) = Option.bind (run_steps step s xs) (\<lambda>s'. run_steps step s' ys)"
  by (induction xs arbitrary: s) (auto split: option.split)

text \<open>
  The interface of a component with an invariant: every step keeps it, so every run does; and a
  quantity that no step decreases is not decreased by a run.
\<close>

locale invariant_system =
  fixes step :: "'s \<Rightarrow> 'e \<Rightarrow> 's option"
    and inv :: "'s \<Rightarrow> bool"
  assumes step_inv: "inv s \<Longrightarrow> step s e = Some s' \<Longrightarrow> inv s'"
begin

lemma run_inv: "inv s \<Longrightarrow> run_steps step s es = Some s' \<Longrightarrow> inv s'"
  by (induction es arbitrary: s) (auto split: option.splits dest: step_inv)

lemma run_relation:
  assumes refl: "\<And>s. R s s"
    and trans: "\<And>s t u. R s t \<Longrightarrow> R t u \<Longrightarrow> R s u"
    and step_rel: "\<And>s e t. inv s \<Longrightarrow> step s e = Some t \<Longrightarrow> R s t"
  shows "inv s \<Longrightarrow> run_steps step s es = Some s' \<Longrightarrow> R s s'"
proof (induction es arbitrary: s)
  case Nil
  then show ?case by (simp add: refl)
next
  case (Cons e es)
  from Cons.prems(2) obtain t where t: "step s e = Some t" and run: "run_steps step t es = Some s'"
    by (auto split: option.splits)
  from Cons.prems(1) t have "inv t" by (rule step_inv)
  then have "R t s'" using run by (rule Cons.IH)
  with step_rel [OF Cons.prems(1) t] show ?case by (rule trans)
qed

end

end
