(* ===== verification/CP_Market.thy ===== *)
theory CP_Market
  imports Oyster_Prelude
begin

text \<open>
  The job state of the operator's control plane (\<open>operator/control-plane/src/market.rs\<close>): the data
  the market contract's events carry, \<open>JobState\<close> with its solvency and scheduling operations, and
  \<open>process_log\<close>, the handler of the nine job events, with every early return of the source.

  What is not under \<open>src/\<close> is the record \<open>chain_lib\<close>, an argument of the definitions that use it:
  the ABI decoders, \<open>keccak256\<close> and the hexadecimal printer of the alloy crate and the JSON parser of
  the \<open>serde_json\<close> crate. The 256-bit integers are words: the operators of the crate wrap around and
  division by zero panics. The wall clock (\<open>SystemContext::now_timestamp\<close>) and the monotonic clock
  (\<open>Instant::now\<close>) are arguments.
\<close>

section \<open>Data\<close>

record job_id =
  jid_id :: string
  jid_operator :: string
  jid_contract :: string
  jid_chain :: string

record rate_card =
  rc_instance :: string
  rc_min_rate :: u256
  rc_cpu :: u32
  rc_memory :: u32
  rc_arch :: string

record regional_rates =
  rr_region :: string
  rr_rate_cards :: "rate_card list"

record gb_rate_card =
  gb_region :: string
  gb_region_code :: string
  gb_rate :: u256

text \<open>A JSON document as \<open>serde_json::Value\<close> has it. Indexing a value with a key that is not there
  gives \<open>Null\<close>.\<close>

datatype json_number = PosInt u64 | NegInt i64 | Float string

datatype json =
    JNull
  | JBool bool
  | JNumber json_number
  | JString string
  | JArray "json list"
  | JObject "(string \<times> json) list"

fun json_get :: "json \<Rightarrow> string \<Rightarrow> json" where
  "json_get (JObject kvs) k = (case map_of kvs k of Some v \<Rightarrow> v | None \<Rightarrow> JNull)"
| "json_get _ k = JNull"

fun as_str :: "json \<Rightarrow> string option" where
  "as_str (JString s) = Some s"
| "as_str _ = None"

fun as_bool :: "json \<Rightarrow> bool option" where
  "as_bool (JBool b) = Some b"
| "as_bool _ = None"

fun as_i64 :: "json \<Rightarrow> i64 option" where
  "as_i64 (JNumber (PosInt n)) = (if unat n < 2 ^ 63 then Some n else None)"
| "as_i64 (JNumber (NegInt n)) = Some n"
| "as_i64 _ = None"

text \<open>\<open>TryInto::<i32>\<close> on an \<open>i64\<close>.\<close>

definition i64_to_i32 :: "i64 \<Rightarrow> i32 option" where
  "i64_to_i32 t = (if - (2 ^ 31) \<le> sint t \<and> sint t < 2 ^ 31 then Some (ucast t) else None)"

definition i32_max :: i32 where
  "i32_max = 0x7FFFFFFF"

record log =
  log_topics :: "b256 list"
  log_data :: bytes
  log_block :: "u64 option"
  log_removed :: bool

record chain_lib =
  keccak256 :: "string \<Rightarrow> b256"
  encode_hex :: "b256 \<Rightarrow> string"
  decode_opened :: "bytes \<Rightarrow> (string \<times> u256 \<times> u256 \<times> u256) option"
  decode_u256_pair :: "bytes \<Rightarrow> (u256 \<times> u256) option"
  decode_u256 :: "bytes \<Rightarrow> u256 option"
  decode_string :: "bytes \<Rightarrow> string option"
  parse_json :: "string \<Rightarrow> json option"

definition sig_opened :: string where
  "sig_opened = ''JobOpened(bytes32,string,address,address,uint256,uint256,uint256)''"
definition sig_settled :: string where
  "sig_settled = ''JobSettled(bytes32,uint256,uint256)''"
definition sig_closed :: string where
  "sig_closed = ''JobClosed(bytes32)''"
definition sig_deposited :: string where
  "sig_deposited = ''JobDeposited(bytes32,address,uint256)''"
definition sig_withdrew :: string where
  "sig_withdrew = ''JobWithdrew(bytes32,address,uint256)''"
definition sig_revise_initiated :: string where
  "sig_revise_initiated = ''JobReviseRateInitiated(bytes32,uint256)''"
definition sig_revise_cancelled :: string where
  "sig_revise_cancelled = ''JobReviseRateCancelled(bytes32)''"
definition sig_revise_finalized :: string where
  "sig_revise_finalized = ''JobReviseRateFinalized(bytes32,uint256)''"
definition sig_metadata :: string where
  "sig_metadata = ''JobMetadataUpdated(bytes32,string)''"

definition job_signatures :: "string list" where
  "job_signatures = [sig_opened, sig_settled, sig_closed, sig_deposited, sig_withdrew,
     sig_revise_initiated, sig_revise_cancelled, sig_revise_finalized, sig_metadata]"

section \<open>The job state\<close>

record job_state =
  job_id :: job_id
  launch_delay :: u64
  allowed_regions :: "string list"
  balance :: u256
  last_settled :: duration
  rate :: u256
  original_rate :: u256
  instance_id :: string
  family :: string
  min_rate :: u256
  bandwidth :: u64
  eif_url :: string
  instance_type :: string
  region :: string
  req_vcpus :: i32
  req_mem :: i64
  debug :: bool
  infra_state :: bool
  infra_change_time :: instant
  infra_change_scheduled :: bool
  eif_update :: bool

definition job_state_new :: "duration \<Rightarrow> instant \<Rightarrow> job_id \<Rightarrow> u64 \<Rightarrow> string list \<Rightarrow> job_state" where
  "job_state_new now_ts now jid delay regions = \<lparr>
     job_id = jid,
     launch_delay = delay,
     allowed_regions = regions,
     balance = 360,
     last_settled = now_ts,
     rate = 1,
     original_rate = 1,
     instance_id = [],
     family = ''salmon'',
     min_rate = - 1,
     bandwidth = 0,
     eif_url = [],
     instance_type = ''c6a.xlarge'',
     region = ''ap-south-1'',
     req_vcpus = 2,
     req_mem = 4096,
     debug = False,
     infra_state = False,
     infra_change_time = now,
     infra_change_scheduled = False,
     eif_update = False \<rparr>"

text \<open>
  \<open>insolvency_duration\<close>: the balance, scaled by \<open>10^12\<close> with wrap-around, divided by the rate, less
  a margin of 300 seconds, counted from the last settlement.
\<close>

definition solvent_secs :: "job_state \<Rightarrow> u64" where
  "solvent_secs st = saturating_sub (saturating_to_u64 (balance st * 10 ^ 12 div rate st)) 300"

definition insolvency_duration :: "duration \<Rightarrow> job_state \<Rightarrow> duration" where
  "insolvency_duration now_ts st =
     (if rate st = 0 then duration_from_secs 0
      else duration_from_secs (solvent_secs st) - (now_ts - last_settled st))"

definition schedule_launch :: "instant \<Rightarrow> u64 \<Rightarrow> job_state \<Rightarrow> job_state" where
  "schedule_launch now delay st =
     st\<lparr>infra_change_scheduled := True,
        infra_change_time := now + duration_from_secs delay,
        infra_state := True\<rparr>"

definition schedule_termination :: "instant \<Rightarrow> u64 \<Rightarrow> job_state \<Rightarrow> job_state" where
  "schedule_termination now delay st =
     st\<lparr>infra_change_scheduled := True,
        infra_change_time := now + duration_from_secs delay,
        infra_state := False\<rparr>"

definition handle_insolvency :: "instant \<Rightarrow> job_state \<Rightarrow> job_state" where
  "handle_insolvency now st = schedule_termination now 0 st"

section \<open>Whitelist and blacklist\<close>

text \<open>The check reads the third topic of the log only when a list is not empty; \<open>None\<close> is the
  panic of the index.\<close>

definition whitelist_blacklist_check ::
    "chain_lib \<Rightarrow> log \<Rightarrow> string list \<Rightarrow> string list \<Rightarrow> bool option" where
  "whitelist_blacklist_check lib l whitelist blacklist =
     (let owner = map_option (encode_hex lib) (vindex (log_topics l) 2) in
      if whitelist \<noteq> [] \<and> owner = None then None
      else if whitelist \<noteq> [] \<and> \<not> list_ex (\<lambda>s. Some s = owner) whitelist then Some False
      else if blacklist \<noteq> [] \<and> owner = None then None
      else if blacklist \<noteq> [] \<and> list_ex (\<lambda>s. Some s = owner) blacklist then Some False
      else Some True)"

section \<open>The handlers of \<open>process_log\<close>\<close>

text \<open>Each handler returns the code of the source and the state as it was left: 0 on success, -1
  when the stream ended, -2 for an error that cannot be retried, -3 for an owner that is not
  allowed. A panic is \<open>None\<close>.\<close>

text \<open>The metadata of an opened job, field by field; \<open>Inl\<close> carries the state at the early return.\<close>

definition opened_metadata :: "json \<Rightarrow> job_state \<Rightarrow> job_state + job_state" where
  "opened_metadata v st0 =
     (case as_str (json_get v ''instance'') of None \<Rightarrow> Inl st0 | Some inst \<Rightarrow>
      let st1 = st0\<lparr>instance_type := inst\<rparr> in
      case as_str (json_get v ''region'') of None \<Rightarrow> Inl st1 | Some rg \<Rightarrow>
      let st2 = st1\<lparr>region := rg\<rparr> in
      if rg \<notin> set (allowed_regions st2) then Inl st2 else
      case as_i64 (json_get v ''memory'') of None \<Rightarrow> Inl st2 | Some mem \<Rightarrow>
      let st3 = st2\<lparr>req_mem := mem\<rparr> in
      case as_i64 (json_get v ''vcpu'') of None \<Rightarrow> Inl st3 | Some vcpu \<Rightarrow>
      let st4 = st3\<lparr>req_vcpus := (case i64_to_i32 vcpu of Some n \<Rightarrow> n | None \<Rightarrow> i32_max)\<rparr> in
      case as_str (json_get v ''url'') of None \<Rightarrow> Inl st4 | Some url \<Rightarrow>
      let st5 = st4\<lparr>eif_url := url\<rparr>;
          st6 = (case as_str (json_get v ''family'') of Some f \<Rightarrow> st5\<lparr>family := f\<rparr> | None \<Rightarrow> st5);
          st7 = (case as_bool (json_get v ''debug'') of Some b \<Rightarrow> st6\<lparr>debug := b\<rparr> | None \<Rightarrow> st6)
      in Inr st7)"

text \<open>The two nested loops over the rate cards: the first entry of the region, then the first card
  of the instance type.\<close>

definition find_min_rate :: "regional_rates list \<Rightarrow> string \<Rightarrow> string \<Rightarrow> u256 option" where
  "find_min_rate rates rg inst =
     (case find (\<lambda>e. rr_region e = rg) rates of
        None \<Rightarrow> None
      | Some e \<Rightarrow> map_option rc_min_rate (find (\<lambda>c. rc_instance c = inst) (rr_rate_cards e)))"

text \<open>The bandwidth the surplus over the minimum rate pays for; \<open>None\<close> is the panic of a division by
  a zero price.\<close>

definition opened_bandwidth :: "gb_rate_card list \<Rightarrow> job_state \<Rightarrow> job_state option" where
  "opened_bandwidth gb_rates st =
     (case find (\<lambda>e. gb_region_code e = region st) gb_rates of
        None \<Rightarrow> Some st
      | Some e \<Rightarrow>
          (case checked_div (saturating_mul (rate st - min_rate st) (1024 * 1024 * 8)) (gb_rate e) of
             None \<Rightarrow> None
           | Some q \<Rightarrow> Some (st\<lparr>bandwidth := saturating_to_u64 q\<rparr>)))"

definition process_opened ::
    "chain_lib \<Rightarrow> instant \<Rightarrow> regional_rates list \<Rightarrow> gb_rate_card list \<Rightarrow> string list \<Rightarrow> string list
     \<Rightarrow> log \<Rightarrow> job_state \<Rightarrow> (int \<times> job_state) option" where
  "process_opened lib now rates gb_rates whitelist blacklist l st =
     (case decode_opened lib (log_data l) of None \<Rightarrow> Some (-2, st)
      | Some (metadata, r, b, timestamp) \<Rightarrow>
      let st1 = st\<lparr>balance := b, rate := r, original_rate := r,
                   last_settled := duration_from_secs (saturating_to_u64 timestamp)\<rparr> in
      case parse_json lib metadata of None \<Rightarrow> Some (-2, st1)
      | Some v \<Rightarrow>
      case opened_metadata v st1 of Inl st2 \<Rightarrow> Some (-2, st2)
      | Inr st2 \<Rightarrow>
      case whitelist_blacklist_check lib l whitelist blacklist of None \<Rightarrow> None
      | Some allowed \<Rightarrow>
      if \<not> allowed then Some (-3, schedule_termination now 0 st2) else
      case find_min_rate rates (region st2) (instance_type st2) of None \<Rightarrow> Some (-2, st2)
      | Some m \<Rightarrow>
      let st3 = st2\<lparr>min_rate := m\<rparr> in
      if min_rate st3 \<le> rate st3
      then map_option (\<lambda>st4. (0, schedule_launch now (launch_delay st4) st4))
             (opened_bandwidth gb_rates st3)
      else Some (0, schedule_termination now 0 st3))"

definition process_settled :: "chain_lib \<Rightarrow> log \<Rightarrow> job_state \<Rightarrow> int \<times> job_state" where
  "process_settled lib l st =
     (case decode_u256_pair lib (log_data l) of None \<Rightarrow> (-2, st)
      | Some (amount, timestamp) \<Rightarrow>
          (0, st\<lparr>balance := balance st - amount,
                 last_settled := duration_from_secs (saturating_to_u64 timestamp)\<rparr>))"

definition process_closed :: "instant \<Rightarrow> job_state \<Rightarrow> int \<times> job_state" where
  "process_closed now st = (0, schedule_termination now 0 st)"

definition process_deposited :: "chain_lib \<Rightarrow> log \<Rightarrow> job_state \<Rightarrow> int \<times> job_state" where
  "process_deposited lib l st =
     (case decode_u256 lib (log_data l) of None \<Rightarrow> (-2, st)
      | Some amount \<Rightarrow> (0, st\<lparr>balance := balance st + amount\<rparr>))"

definition process_withdrew :: "chain_lib \<Rightarrow> log \<Rightarrow> job_state \<Rightarrow> int \<times> job_state" where
  "process_withdrew lib l st =
     (case decode_u256 lib (log_data l) of None \<Rightarrow> (-2, st)
      | Some amount \<Rightarrow> (0, st\<lparr>balance := balance st - amount\<rparr>))"

definition process_revise_initiated ::
    "chain_lib \<Rightarrow> instant \<Rightarrow> log \<Rightarrow> job_state \<Rightarrow> int \<times> job_state" where
  "process_revise_initiated lib now l st =
     (case decode_u256 lib (log_data l) of None \<Rightarrow> (-2, st)
      | Some new_rate \<Rightarrow>
          let st1 = st\<lparr>original_rate := rate st, rate := new_rate\<rparr> in
          (0, if rate st1 < min_rate st1 then schedule_termination now 0 st1 else st1))"

definition process_revise_cancelled :: "job_state \<Rightarrow> int \<times> job_state" where
  "process_revise_cancelled st = (0, st\<lparr>rate := original_rate st\<rparr>)"

definition process_revise_finalized :: "chain_lib \<Rightarrow> log \<Rightarrow> job_state \<Rightarrow> int \<times> job_state" where
  "process_revise_finalized lib l st =
     (case decode_u256 lib (log_data l) of None \<Rightarrow> (-2, st)
      | Some new_rate \<Rightarrow>
          if rate st \<noteq> new_rate then (-2, st) else (0, st\<lparr>original_rate := new_rate\<rparr>))"

text \<open>The metadata of an update must repeat every field of the job but the image URL, which must
  change. \<open>None\<close> is the branch that schedules a termination and returns -2.\<close>

definition updated_url :: "json \<Rightarrow> job_state \<Rightarrow> string option" where
  "updated_url v st =
     (case as_str (json_get v ''instance'') of None \<Rightarrow> None | Some inst \<Rightarrow>
      if instance_type st \<noteq> inst then None else
      case as_str (json_get v ''region'') of None \<Rightarrow> None | Some rg \<Rightarrow>
      if region st \<noteq> rg then None else
      case as_i64 (json_get v ''memory'') of None \<Rightarrow> None | Some mem \<Rightarrow>
      if req_mem st \<noteq> mem then None else
      case as_i64 (json_get v ''vcpu'') of None \<Rightarrow> None | Some vcpu \<Rightarrow>
      if req_vcpus st \<noteq> (case i64_to_i32 vcpu of Some n \<Rightarrow> n | None \<Rightarrow> 2) then None else
      if (case as_str (json_get v ''family'') of Some f \<Rightarrow> family st \<noteq> f | None \<Rightarrow> False) then None else
      if debug st \<noteq> (case as_bool (json_get v ''debug'') of Some b \<Rightarrow> b | None \<Rightarrow> False) then None else
      case as_str (json_get v ''url'') of None \<Rightarrow> None | Some url \<Rightarrow>
      if eif_url st = url then None else Some url)"

definition process_metadata_updated ::
    "chain_lib \<Rightarrow> instant \<Rightarrow> log \<Rightarrow> job_state \<Rightarrow> int \<times> job_state" where
  "process_metadata_updated lib now l st =
     (case decode_string lib (log_data l) of None \<Rightarrow> (-2, st)
      | Some metadata \<Rightarrow>
      case parse_json lib metadata of None \<Rightarrow> (-2, schedule_termination now 0 st)
      | Some v \<Rightarrow>
      case updated_url v st of None \<Rightarrow> (-2, schedule_termination now 0 st)
      | Some url \<Rightarrow>
          (0, schedule_launch now (launch_delay st) (st\<lparr>eif_url := url, eif_update := True\<rparr>)))"

definition process_log ::
    "chain_lib \<Rightarrow> instant \<Rightarrow> regional_rates list \<Rightarrow> gb_rate_card list \<Rightarrow> string list \<Rightarrow> string list
     \<Rightarrow> log option \<Rightarrow> job_state \<Rightarrow> (int \<times> job_state) option" where
  "process_log lib now rates gb_rates whitelist blacklist ol st =
     (case ol of None \<Rightarrow> Some (-1, st) | Some l \<Rightarrow>
      case vindex (log_topics l) 0 of None \<Rightarrow> None | Some topic \<Rightarrow>
      if topic = keccak256 lib sig_opened
      then process_opened lib now rates gb_rates whitelist blacklist l st
      else if topic = keccak256 lib sig_settled then Some (process_settled lib l st)
      else if topic = keccak256 lib sig_closed then Some (process_closed now st)
      else if topic = keccak256 lib sig_deposited then Some (process_deposited lib l st)
      else if topic = keccak256 lib sig_withdrew then Some (process_withdrew lib l st)
      else if topic = keccak256 lib sig_revise_initiated then Some (process_revise_initiated lib now l st)
      else if topic = keccak256 lib sig_revise_cancelled then Some (process_revise_cancelled st)
      else if topic = keccak256 lib sig_revise_finalized then Some (process_revise_finalized lib l st)
      else if topic = keccak256 lib sig_metadata then Some (process_metadata_updated lib now l st)
      else Some (-2, st))"

text \<open>
  The log branch of the loop of \<open>job_manager_once\<close>: the codes -1 and -2 leave the loop, 0 and -3 stay
  in it. An event is the reading of the monotonic clock and the log.
\<close>

definition market_step ::
    "chain_lib \<Rightarrow> regional_rates list \<Rightarrow> gb_rate_card list \<Rightarrow> string list \<Rightarrow> string list
     \<Rightarrow> job_state \<Rightarrow> instant \<times> log \<Rightarrow> job_state option" where
  "market_step lib rates gb_rates whitelist blacklist st e =
     (case process_log lib (fst e) rates gb_rates whitelist blacklist (Some (snd e)) st of
        None \<Rightarrow> None
      | Some (code, st') \<Rightarrow> if code = -2 \<or> code = -1 then None else Some st')"

section \<open>Specification\<close>

definition topic0 :: "log \<Rightarrow> b256 option" where
  "topic0 l = vindex (log_topics l) 0"

text \<open>The keccak hashes of the nine signatures are different.\<close>

definition no_collisions :: "chain_lib \<Rightarrow> bool" where
  "no_collisions lib = distinct (map (keccak256 lib) job_signatures)"

text \<open>What a log adds to the account of the job, as an integer.\<close>

definition job_delta :: "chain_lib \<Rightarrow> log \<Rightarrow> int" where
  "job_delta lib l =
     (if topic0 l = Some (keccak256 lib sig_deposited)
      then (case decode_u256 lib (log_data l) of Some a \<Rightarrow> uint a | None \<Rightarrow> 0)
      else if topic0 l = Some (keccak256 lib sig_withdrew)
      then (case decode_u256 lib (log_data l) of Some a \<Rightarrow> - uint a | None \<Rightarrow> 0)
      else if topic0 l = Some (keccak256 lib sig_settled)
      then (case decode_u256_pair lib (log_data l) of Some (a, _) \<Rightarrow> - uint a | None \<Rightarrow> 0)
      else 0)"

text \<open>A termination is due and a launch is not.\<close>

definition termination_pending :: "job_state \<Rightarrow> bool" where
  "termination_pending st \<longleftrightarrow> infra_change_scheduled st \<and> \<not> infra_state st"

section \<open>Lemmas\<close>

lemmas schedule_defs = schedule_launch_def schedule_termination_def handle_insolvency_def

lemmas process_simple_defs = process_settled_def process_closed_def process_deposited_def
  process_withdrew_def process_revise_initiated_def process_revise_cancelled_def
  process_revise_finalized_def process_metadata_updated_def

lemma collisionsD:
  assumes "no_collisions lib"
  shows "keccak256 lib sig_deposited \<noteq> keccak256 lib sig_settled"
    "keccak256 lib sig_withdrew \<noteq> keccak256 lib sig_settled"
    "keccak256 lib sig_withdrew \<noteq> keccak256 lib sig_deposited"
    "keccak256 lib sig_deposited \<noteq> keccak256 lib sig_closed"
    "keccak256 lib sig_withdrew \<noteq> keccak256 lib sig_closed"
  using assms by (auto simp: no_collisions_def job_signatures_def)

lemma metadata_distinct:
  assumes "no_collisions lib"
  shows "list_all (\<lambda>s. keccak256 lib sig_metadata \<noteq> keccak256 lib s)
    [sig_opened, sig_settled, sig_closed, sig_deposited, sig_withdrew,
     sig_revise_initiated, sig_revise_cancelled, sig_revise_finalized]"
  using assms by (auto simp: no_collisions_def job_signatures_def)

lemma process_log_metadata:
  assumes "no_collisions lib" and "topic0 l = Some (keccak256 lib sig_metadata)"
  shows "process_log lib now rates gbs wl bl (Some l) st =
    Some (process_metadata_updated lib now l st)"
  using metadata_distinct [OF assms(1)] assms(2) by (simp add: process_log_def topic0_def)

lemma opened_metadata_frame:
  assumes "opened_metadata v st = Inr st'"
  shows "balance st' = balance st" "rate st' = rate st" "original_rate st' = original_rate st"
    "last_settled st' = last_settled st" "min_rate st' = min_rate st" "bandwidth st' = bandwidth st"
    "launch_delay st' = launch_delay st" "region st' \<in> set (allowed_regions st)"
    "allowed_regions st' = allowed_regions st" "instance_id st' = instance_id st"
  using assms by (auto simp: opened_metadata_def Let_def split: option.splits if_splits)

lemma process_opened_codes:
  "process_opened lib now rates gbs wl bl l st = Some (c, st') \<Longrightarrow> c \<in> {0, -2, -3}"
  by (auto simp: process_opened_def Let_def split: option.splits sum.splits if_splits prod.splits)

lemma process_log_codes:
  "process_log lib now rates gbs wl bl ol st = Some (c, st') \<Longrightarrow> c \<in> {0, -1, -2, -3}"
  by (auto simp: process_log_def process_simple_defs Let_def dest: process_opened_codes
      split: option.splits if_splits prod.splits)

lemma opened_bandwidth_total:
  "(\<forall>e \<in> set gbs. gb_rate e \<noteq> 0) \<Longrightarrow> opened_bandwidth gbs st \<noteq> None"
  by (auto simp: opened_bandwidth_def find_Some_iff checked_div_def split: option.splits)

lemma check_total: "3 \<le> length (log_topics l) \<Longrightarrow> whitelist_blacklist_check lib l wl bl \<noteq> None"
  by (auto simp: whitelist_blacklist_check_def vindex_def Let_def)

lemma process_opened_total:
  assumes "3 \<le> length (log_topics l)" and "\<forall>e \<in> set gbs. gb_rate e \<noteq> 0"
  shows "process_opened lib now rates gbs wl bl l st \<noteq> None"
  using check_total [OF assms(1), of lib wl bl] opened_bandwidth_total [OF assms(2)]
  by (auto simp: process_opened_def Let_def split: option.splits sum.splits prod.splits)

lemma opened_success:
  assumes "process_opened lib now rates gbs wl bl l st = Some (0, st')"
  shows "\<exists>m r b t v st2 mr. decode_opened lib (log_data l) = Some (m, r, b, t)
    \<and> parse_json lib m = Some v
    \<and> opened_metadata v (st\<lparr>balance := b, rate := r, original_rate := r,
         last_settled := duration_from_secs (saturating_to_u64 t)\<rparr>) = Inr st2
    \<and> whitelist_blacklist_check lib l wl bl = Some True
    \<and> find_min_rate rates (region st2) (instance_type st2) = Some mr
    \<and> (if mr \<le> rate st2
       then (\<exists>st4. opened_bandwidth gbs (st2\<lparr>min_rate := mr\<rparr>) = Some st4
               \<and> st' = schedule_launch now (launch_delay st4) st4)
       else st' = schedule_termination now 0 (st2\<lparr>min_rate := mr\<rparr>))"
  using assms
  by (auto simp: process_opened_def Let_def split: option.splits sum.splits prod.splits if_splits)

lemma opened_bandwidth_frame:
  "opened_bandwidth gbs st = Some st' \<Longrightarrow> \<exists>bw. st' = st\<lparr>bandwidth := bw\<rparr>"
  by (auto simp: opened_bandwidth_def split: option.splits intro: exI [of _ "bandwidth st"])

lemma opened_result:
  assumes "process_opened lib now rates gbs wl bl l st = Some (0, st')"
  obtains st2 mr bw where "whitelist_blacklist_check lib l wl bl = Some True"
    and "region st2 \<in> set (allowed_regions st)" and "launch_delay st2 = launch_delay st"
    and "find_min_rate rates (region st2) (instance_type st2) = Some mr"
    and "st' = (if mr \<le> rate st2
           then schedule_launch now (launch_delay st) (st2\<lparr>min_rate := mr, bandwidth := bw\<rparr>)
           else schedule_termination now 0 (st2\<lparr>min_rate := mr\<rparr>))"
    and "mr \<le> rate st2 \<Longrightarrow> opened_bandwidth gbs (st2\<lparr>min_rate := mr\<rparr>) =
           Some (st2\<lparr>min_rate := mr, bandwidth := bw\<rparr>)"
proof -
  from opened_success [OF assms] obtain m r b t v st2 mr
    where md: "opened_metadata v (st\<lparr>balance := b, rate := r, original_rate := r,
         last_settled := duration_from_secs (saturating_to_u64 t)\<rparr>) = Inr st2"
      and al: "whitelist_blacklist_check lib l wl bl = Some True"
      and mr: "find_min_rate rates (region st2) (instance_type st2) = Some mr"
      and cs: "if mr \<le> rate st2
       then (\<exists>st4. opened_bandwidth gbs (st2\<lparr>min_rate := mr\<rparr>) = Some st4
               \<and> st' = schedule_launch now (launch_delay st4) st4)
       else st' = schedule_termination now 0 (st2\<lparr>min_rate := mr\<rparr>)"
    by blast
  have fr: "region st2 \<in> set (allowed_regions st)" "launch_delay st2 = launch_delay st"
    using opened_metadata_frame [OF md] by simp_all
  show ?thesis
  proof (cases "mr \<le> rate st2")
    case True
    with cs obtain st4 where "opened_bandwidth gbs (st2\<lparr>min_rate := mr\<rparr>) = Some st4"
        and "st' = schedule_launch now (launch_delay st4) st4"
      by auto
    with True fr show ?thesis
      using that [OF al fr mr] opened_bandwidth_frame [of gbs "st2\<lparr>min_rate := mr\<rparr>"] by fastforce
  next
    case False
    with cs show ?thesis using that [OF al fr mr] by simp
  qed
qed

lemma schedule_job [simp]:
  "job_id (schedule_launch now d st) = job_id st" "job_id (schedule_termination now d st) = job_id st"
  by (simp_all add: schedule_defs)

lemma opened_metadata_job:
  "opened_metadata v st = Inr st' \<Longrightarrow> job_id st' = job_id st"
  "opened_metadata v st = Inl st' \<Longrightarrow> job_id st' = job_id st"
  by (auto simp: opened_metadata_def Let_def split: option.splits if_splits)

lemma process_opened_job:
  "process_opened lib now rates gbs wl bl l st = Some (c, st') \<Longrightarrow> job_id st' = job_id st"
  by (auto simp: process_opened_def Let_def dest!: opened_metadata_job opened_bandwidth_frame
      split: option.splits sum.splits if_splits prod.splits)

lemma process_log_job:
  "process_log lib now rates gbs wl bl ol st = Some (c, st') \<Longrightarrow> job_id st' = job_id st"
  by (auto simp: process_log_def process_simple_defs Let_def dest: process_opened_job
      split: option.splits if_splits prod.splits)

lemma updated_url_Some:
  "updated_url v st = Some url \<Longrightarrow> as_str (json_get v ''url'') = Some url \<and> url \<noteq> eif_url st"
  by (auto simp: updated_url_def split: option.splits if_splits)

lemma balance_schedule [simp]:
  "balance (schedule_launch now d st) = balance st"
  "balance (schedule_termination now d st) = balance st"
  by (simp_all add: schedule_defs)

lemma market_step_balance:
  assumes "no_collisions lib" and "topic0 l \<noteq> Some (keccak256 lib sig_opened)"
    and "market_step lib rates gbs wl bl st (now, l) = Some st'"
  shows "balance st' = balance st + word_of_int (job_delta lib l)"
  using assms(2,3) collisionsD [OF assms(1)]
  by (auto simp: market_step_def process_log_def process_simple_defs job_delta_def topic0_def Let_def
      split: option.splits if_splits prod.splits)

lemma run_balance:
  assumes "no_collisions lib"
    and "\<forall>e \<in> set es. topic0 (snd e) \<noteq> Some (keccak256 lib sig_opened)"
    and "run_steps (market_step lib rates gbs wl bl) st es = Some st'"
  shows "balance st' = balance st + word_of_int (sum_list (map (job_delta lib \<circ> snd) es))"
  using assms(2,3)
proof (induction es arbitrary: st)
  case Nil
  then show ?case by simp
next
  case (Cons e es)
  from Cons.prems(2) obtain t where t: "market_step lib rates gbs wl bl st e = Some t"
      and run: "run_steps (market_step lib rates gbs wl bl) t es = Some st'"
    by (auto split: option.splits)
  have "balance t = balance st + word_of_int (job_delta lib (snd e))"
    using market_step_balance [OF assms(1), of "snd e" rates gbs wl bl st "fst e"] t Cons.prems(1)
    by simp
  moreover have "balance st' = balance t + word_of_int (sum_list (map (job_delta lib \<circ> snd) es))"
    using Cons.prems(1) run by (intro Cons.IH) auto
  ultimately show ?case by (simp add: comp_def)
qed

lemma market_step_pending:
  assumes "topic0 l \<noteq> Some (keccak256 lib sig_opened)" "topic0 l \<noteq> Some (keccak256 lib sig_metadata)"
    and "termination_pending st" and "market_step lib rates gbs wl bl st (now, l) = Some st'"
  shows "termination_pending st'"
  using assms
  by (auto simp: market_step_def process_log_def process_simple_defs topic0_def Let_def
      termination_pending_def schedule_defs split: option.splits if_splits prod.splits)

section \<open>Sample data\<close>

text \<open>A library for concrete inputs: the nine signatures hash to the numbers 1 to 9, the data of a log
  are decoded from its first byte.\<close>

definition sample_keccak :: "string \<Rightarrow> b256" where
  "sample_keccak s =
     (case map_of (zip job_signatures [1, 2, 3, 4, 5, 6, 7, 8, 9]) s of Some n \<Rightarrow> n | None \<Rightarrow> 0)"

definition sample_json :: "string \<Rightarrow> json" where
  "sample_json url = JObject
     [(''instance'', JString ''c6a.xlarge''), (''region'', JString ''ap-south-1''),
      (''memory'', JNumber (PosInt 4096)), (''vcpu'', JNumber (PosInt 2)), (''url'', JString url)]"

definition sample_lib :: chain_lib where
  "sample_lib = \<lparr>
     keccak256 = sample_keccak,
     encode_hex = (\<lambda>w. if w = 77 then ''0x4d'' else ''0x00''),
     decode_opened = (\<lambda>bs. case bs of [] \<Rightarrow> None | b # _ \<Rightarrow> Some (''m1'', ucast b, 1000, 5)),
     decode_u256_pair = (\<lambda>bs. case bs of [] \<Rightarrow> None | b # _ \<Rightarrow> Some (ucast b, 9)),
     decode_u256 = (\<lambda>bs. case bs of [] \<Rightarrow> None | b # _ \<Rightarrow> Some (ucast b)),
     decode_string = (\<lambda>bs. case bs of [] \<Rightarrow> None | b # _ \<Rightarrow> Some ''m2''),
     parse_json = (\<lambda>s. if s = ''m1'' then Some (sample_json ''u1'')
                        else if s = ''m2'' then Some (sample_json ''u2'') else None) \<rparr>"

definition sample_log :: "b256 \<Rightarrow> u8 \<Rightarrow> log" where
  "sample_log topic b = \<lparr>log_topics = [topic, 5, 77], log_data = [b], log_block = Some 1,
     log_removed = False\<rparr>"

definition sample_rates :: "regional_rates list" where
  "sample_rates = [\<lparr>rr_region = ''ap-south-1'', rr_rate_cards =
     [\<lparr>rc_instance = ''c6a.xlarge'', rc_min_rate = 29, rc_cpu = 4, rc_memory = 8, rc_arch = ''amd64''\<rparr>]\<rparr>]"

definition sample_gb_rates :: "gb_rate_card list" where
  "sample_gb_rates = [\<lparr>gb_region = ''Mumbai'', gb_region_code = ''ap-south-1'', gb_rate = 8192\<rparr>]"

definition sample_job :: job_id where
  "sample_job = \<lparr>jid_id = ''0x05'', jid_operator = ''op'', jid_contract = ''c'', jid_chain = ''1''\<rparr>"

definition sample_state :: job_state where
  "sample_state = job_state_new 0 0 sample_job 3 [''ap-south-1'']"

lemmas sample_market_defs = sample_json_def sample_log_def sample_rates_def sample_gb_rates_def
  sample_job_def sample_state_def job_state_new_def

lemma sample_hash [simp]:
  "keccak256 sample_lib sig_opened = 1" "keccak256 sample_lib sig_settled = 2"
  "keccak256 sample_lib sig_closed = 3" "keccak256 sample_lib sig_deposited = 4"
  "keccak256 sample_lib sig_withdrew = 5" "keccak256 sample_lib sig_revise_initiated = 6"
  "keccak256 sample_lib sig_revise_cancelled = 7" "keccak256 sample_lib sig_revise_finalized = 8"
  "keccak256 sample_lib sig_metadata = 9"
  by code_simp+

lemma sample_decode [simp]:
  "encode_hex sample_lib 77 = ''0x4d''"
  "decode_opened sample_lib (b # bs) = Some (''m1'', ucast b, 1000, 5)"
  "decode_u256_pair sample_lib (b # bs) = Some (ucast b, 9)"
  "decode_u256 sample_lib (b # bs) = Some (ucast b)"
  "decode_string sample_lib (b # bs) = Some ''m2''"
  "parse_json sample_lib ''m1'' = Some (sample_json ''u1'')"
  "parse_json sample_lib ''m2'' = Some (sample_json ''u2'')"
  by (simp_all add: sample_lib_def)

lemma sample_no_collisions: "no_collisions sample_lib"
  by (simp add: no_collisions_def job_signatures_def)

lemmas sample_eval = sample_market_defs market_step_def process_log_def process_opened_def
  opened_metadata_def find_min_rate_def opened_bandwidth_def whitelist_blacklist_check_def
  process_simple_defs updated_url_def schedule_defs vindex_def topic0_def job_delta_def
  checked_div_def Let_def

section \<open>Properties\<close>

text \<open>C8: the balance is the ledger. However the deposits, withdrawals and settlements of a job are
  interleaved with its other events, the balance after them is the balance before plus the amounts
  deposited less those withdrawn and settled; with words, exactly that sum whenever the sum itself
  fits, even if a partial sum did not.\<close>

theorem balance_is_ledger:
  assumes "no_collisions lib"
    and "\<forall>e \<in> set es. topic0 (snd e) \<noteq> Some (keccak256 lib sig_opened)"
    and "run_steps (market_step lib rates gbs wl bl) st es = Some st'"
    and "0 \<le> uint (balance st) + sum_list (map (job_delta lib \<circ> snd) es)"
    and "uint (balance st) + sum_list (map (job_delta lib \<circ> snd) es) < 2 ^ 256"
  shows "uint (balance st') = uint (balance st) + sum_list (map (job_delta lib \<circ> snd) es)"
proof -
  have "uint (balance st') =
      (uint (balance st) + sum_list (map (job_delta lib \<circ> snd) es)) mod 2 ^ 256"
    using run_balance [OF assms(1-3)]
    by (simp add: uint_word_ariths uint_word_of_int mod_add_right_eq)
  with assms(4,5) show ?thesis by simp
qed

theorem balance_is_ledger_witness:
  "uint (balance (the (run_steps (market_step sample_lib [] [] [] []) sample_state
     [(1, sample_log 4 100), (2, sample_log 2 60), (3, sample_log 5 30)]))) = 370"
proof -
  let ?es = "[(1, sample_log 4 100), (2, sample_log 2 60), (3, sample_log 5 30)] :: (instant \<times> log) list"
  obtain t where run: "run_steps (market_step sample_lib [] [] [] []) sample_state ?es = Some t"
    by (simp add: sample_eval)
  show ?thesis
    using balance_is_ledger [OF sample_no_collisions _ run] run by (simp add: sample_eval)
qed

text \<open>an opened job that is accepted. When the handler of \<open>JobOpened\<close> returns 0, the owner passed
  the lists, the region is allowed, the minimum rate is the one of the rate cards for the job's
  region and instance type, and a change of the infrastructure is scheduled: a launch after the
  launch delay if the rate reaches the minimum, a termination otherwise.\<close>

lemma opened_schedules:
  assumes "process_opened lib now rates gbs wl bl l st = Some (0, st')"
  shows "whitelist_blacklist_check lib l wl bl = Some True
    \<and> region st' \<in> set (allowed_regions st)
    \<and> find_min_rate rates (region st') (instance_type st') = Some (min_rate st')
    \<and> infra_change_scheduled st'
    \<and> (infra_state st' \<longleftrightarrow> min_rate st' \<le> rate st')
    \<and> infra_change_time st' =
        (if infra_state st' then now + duration_from_secs (launch_delay st) else now)"
  by (rule opened_result [OF assms]) (simp add: schedule_defs)

lemma opened_schedules_witness:
  "infra_state (snd (the (process_opened sample_lib 9 sample_rates sample_gb_rates [''0x4d''] []
     (sample_log 1 30) sample_state)))"
proof -
  obtain t where t: "process_opened sample_lib 9 sample_rates sample_gb_rates [''0x4d''] []
      (sample_log 1 30) sample_state = Some (0, t)" and "min_rate t \<le> rate t"
    by (simp add: sample_eval)
  with opened_schedules [OF t] show ?thesis by simp
qed

text \<open>the bandwidth of a launched job. It is the surplus of the rate over the minimum rate, times
  \<open>2^23\<close>, divided by the price of the first bandwidth card of the region, each step capped at its
  width; a region without a card leaves the bandwidth as it was.\<close>

lemma opened_bandwidth_value:
  assumes "find (\<lambda>e. gb_region_code e = region st) gbs = Some gc" and "gb_rate gc \<noteq> 0"
    and "min_rate st \<le> rate st"
  shows "\<exists>st'. opened_bandwidth gbs st = Some st' \<and>
    unat (bandwidth st') = min (min ((unat (rate st) - unat (min_rate st)) * 2 ^ 23) (2 ^ 256 - 1)
        div unat (gb_rate gc)) (2 ^ 64 - 1)"
  using assms
  by (simp add: opened_bandwidth_def checked_div_def width_simps unat_div unat_sub)

lemma opened_bandwidth_value_witness:
  "\<exists>st'. opened_bandwidth sample_gb_rates (sample_state\<lparr>rate := 30, min_rate := 29\<rparr>) = Some st' \<and>
     unat (bandwidth st') = 1024"
  using opened_bandwidth_value [of "sample_state\<lparr>rate := 30, min_rate := 29\<rparr>" sample_gb_rates
      "hd sample_gb_rates"]
  by (simp add: sample_market_defs)

text \<open>a metadata update changes the image only. When the handler of \<open>JobMetadataUpdated\<close> returns 0
  the state is the old one with a new and different image URL, marked for update, and with a launch
  scheduled after the launch delay; every other outcome of a decoded update schedules a termination
  and returns -2.\<close>

lemma metadata_updates_image_only:
  assumes "decode_string lib (log_data l) \<noteq> None"
  shows "(\<exists>url. url \<noteq> eif_url st \<and> process_metadata_updated lib now l st =
       (0, schedule_launch now (launch_delay st) (st\<lparr>eif_url := url, eif_update := True\<rparr>)))
    \<or> process_metadata_updated lib now l st = (-2, schedule_termination now 0 st)"
  using assms
  by (auto simp: process_metadata_updated_def split: option.splits dest: updated_url_Some)

lemma metadata_updates_image_only_witness:
  "eif_url (snd (process_metadata_updated sample_lib 9 (sample_log 9 1) sample_state)) = ''u2''"
  using metadata_updates_image_only [of sample_lib "sample_log 9 1" sample_state 9]
  by (auto simp: sample_eval i64_to_i32_def)

text \<open>a pending termination survives. Once a job is due for termination, no sequence of
  settlements, deposits, withdrawals, rate revisions and closings takes the termination back.\<close>

lemma termination_survives:
  assumes "termination_pending st"
    and "\<forall>e \<in> set es. topic0 (snd e) \<notin> {Some (keccak256 lib sig_opened), Some (keccak256 lib sig_metadata)}"
    and "run_steps (market_step lib rates gbs wl bl) st es = Some st'"
  shows "termination_pending st'"
  using assms
proof (induction es arbitrary: st)
  case Nil
  then show ?case by simp
next
  case (Cons e es)
  then show ?case
    by (cases e) (auto split: option.splits dest: market_step_pending)
qed

lemma termination_survives_witness:
  "termination_pending (the (run_steps (market_step sample_lib [] [] [] [])
     (schedule_termination 0 0 sample_state) [(1, sample_log 4 100), (2, sample_log 6 60), (3, sample_log 7 1)]))"
proof -
  let ?es = "[(1, sample_log 4 100), (2, sample_log 6 60), (3, sample_log 7 1)] :: (instant \<times> log) list"
  obtain t where run: "run_steps (market_step sample_lib [] [] [] [])
      (schedule_termination 0 0 sample_state) ?es = Some t"
    by (simp add: sample_eval)
  then show ?thesis
    using termination_survives [OF _ _ run] by (simp add: sample_eval termination_pending_def)
qed

text \<open>an event that kills a job does not kill it for good. A metadata update that passes its
  checks schedules a launch whatever happened before, so a job that was closed, whose rate was
  revised below the minimum or whose owner was refused with the code -3 is launched again.\<close>

lemma metadata_update_revives:
  assumes "no_collisions lib" and "topic0 l = Some (keccak256 lib sig_metadata)"
    and "decode_string lib (log_data l) = Some m" and "parse_json lib m = Some v"
    and "updated_url v st = Some url" and "termination_pending st"
  shows "\<exists>st'. market_step lib rates gbs wl bl st (now, l) = Some st'
    \<and> infra_change_scheduled st' \<and> infra_state st' \<and> \<not> termination_pending st'"
proof -
  have "process_metadata_updated lib now l st =
      (0, schedule_launch now (launch_delay st) (st\<lparr>eif_url := url, eif_update := True\<rparr>))"
    using assms(3-5) by (simp add: process_metadata_updated_def)
  then show ?thesis
    by (simp add: process_log_metadata [OF assms(1,2)] market_step_def schedule_defs termination_pending_def)
qed

lemma metadata_update_revives_witness:
  "\<exists>st1 st'. process_opened sample_lib 1 sample_rates sample_gb_rates [] [''0x4d''] (sample_log 1 30)
       sample_state = Some (-3, st1) \<and> termination_pending st1
     \<and> market_step sample_lib sample_rates sample_gb_rates [] [''0x4d''] st1 (2, sample_log 9 1) = Some st'
     \<and> infra_state st'"
proof -
  obtain st1 where st1: "process_opened sample_lib 1 sample_rates sample_gb_rates [] [''0x4d'']
      (sample_log 1 30) sample_state = Some (-3, st1)" and pend: "termination_pending st1"
      and url: "updated_url (sample_json ''u2'') st1 = Some ''u2''"
    by (simp add: sample_eval termination_pending_def i64_to_i32_def)
  show ?thesis
    using metadata_update_revives [OF sample_no_collisions, of "sample_log 9 1" "''m2''"
        "sample_json ''u2''" st1 "''u2''" sample_rates sample_gb_rates "[]" "[''0x4d'']" 2] st1 pend url
    by (auto simp: topic0_def vindex_def sample_log_def)
qed

text \<open>\<open>process_log\<close> does not panic on a log of the market contract (three topics, every bandwidth
  price positive) and returns one of the four codes its comment lists.\<close>

lemma process_log_total:
  assumes "\<And>l. ol = Some l \<Longrightarrow> 3 \<le> length (log_topics l)" and "\<forall>e \<in> set gbs. gb_rate e \<noteq> 0"
  shows "\<exists>c st'. process_log lib now rates gbs wl bl ol st = Some (c, st') \<and> c \<in> {0, -1, -2, -3}"
proof -
  have "process_log lib now rates gbs wl bl ol st \<noteq> None"
  proof (cases ol)
    case None
    then show ?thesis by (simp add: process_log_def)
  next
    case (Some l)
    with assms(1) have len: "3 \<le> length (log_topics l)" by simp
    then obtain t where "vindex (log_topics l) 0 = Some t" by (cases "vindex (log_topics l) 0") auto
    with Some process_opened_total [OF len assms(2), of lib now rates wl bl st] show ?thesis
      by (simp add: process_log_def)
  qed
  then show ?thesis using process_log_codes by fastforce
qed

lemma process_log_total_witness:
  "\<exists>c st'. process_log sample_lib 9 sample_rates sample_gb_rates [] [] (Some (sample_log 1 30)) sample_state
     = Some (c, st') \<and> c \<in> {0, -1, -2, -3}"
  by (rule process_log_total) (auto simp: sample_market_defs)

text \<open>the owner check. With the owner's topic present, a job is allowed exactly when the whitelist
  is empty or holds the owner's address and the blacklist does not hold it.\<close>

lemma whitelist_blacklist_spec:
  assumes "vindex (log_topics l) 2 = Some owner"
  shows "whitelist_blacklist_check lib l wl bl =
    Some ((wl = [] \<or> encode_hex lib owner \<in> set wl) \<and> encode_hex lib owner \<notin> set bl)"
  using assms by (auto simp: whitelist_blacklist_check_def list_ex_iff Let_def)

lemma whitelist_blacklist_spec_witness:
  "whitelist_blacklist_check sample_lib (sample_log 1 1) [''0x4d''] [''0x11''] = Some True"
  using whitelist_blacklist_spec [of "sample_log 1 1" 77 sample_lib "[''0x4d'']" "[''0x11'']"]
  by (simp add: sample_log_def vindex_def)

text \<open>a rate revision. Cancelling an initiated revision restores the rate; finalizing it with the
  rate that was initiated makes it the original rate; finalizing it with another one is an error
  that leaves the state alone. In each case a revision below the minimum rate has scheduled a
  termination, which the cancellation does not take back.\<close>

lemma revision_outcomes:
  assumes "decode_u256 lib (log_data l) = Some r" and "process_revise_initiated lib now l st = (c, st1)"
  shows "c = 0 \<and> rate st1 = r \<and> (r < min_rate st \<longrightarrow> termination_pending st1)
    \<and> (\<exists>st2. process_revise_cancelled st1 = (0, st2) \<and> rate st2 = rate st
          \<and> termination_pending st2 = termination_pending st1)
    \<and> (\<forall>l2 r2. decode_u256 lib (log_data l2) = Some r2 \<longrightarrow>
          process_revise_finalized lib l2 st1 =
            (if r2 = r then (0, st1\<lparr>original_rate := r\<rparr>) else (-2, st1)))"
  using assms
  by (auto simp: process_revise_initiated_def process_revise_cancelled_def
      process_revise_finalized_def schedule_defs termination_pending_def Let_def split: if_splits)

lemma revision_outcomes_witness:
  "termination_pending (snd (process_revise_initiated sample_lib 9 (sample_log 6 7) (sample_state\<lparr>min_rate := 8\<rparr>)))"
  using revision_outcomes [of sample_lib "sample_log 6 7" 7 9 "sample_state\<lparr>min_rate := 8\<rparr>"]
  by (simp add: sample_eval termination_pending_def)

end
