(* ===== verification/CP_Manager.thy ===== *)
theory CP_Manager
  imports CP_Market
begin

text \<open>
  The manager of a job (\<open>operator/control-plane/src/market.rs\<close>): the interface \<open>InfraProvider\<close>, the
  infrastructure changes and the heartbeat of \<open>JobState\<close>, the event loop \<open>job_manager_once\<close>, the
  connection loops \<open>job_manager\<close> and \<open>run\<close>, and the log streams \<open>new_jobs\<close> and \<open>job_logs\<close>.

  An infrastructure provider is a record of functions over a world \<open>'w\<close>; its contract is the locale
  \<open>infra_service\<close>. The loop is run over a list of inputs, one for each time its \<open>select!\<close> is polled;
  an input carries the readings of the clocks and what the log stream yields.
\<close>

section \<open>The interface of an infrastructure provider\<close>

record 'w infra_provider =
  spin_up :: "job_id \<Rightarrow> string \<Rightarrow> string \<Rightarrow> string \<Rightarrow> i64 \<Rightarrow> i32 \<Rightarrow> u64 \<Rightarrow> 'w \<Rightarrow> string rust_result \<times> 'w"
  spin_down :: "string \<Rightarrow> job_id \<Rightarrow> string \<Rightarrow> 'w \<Rightarrow> unit rust_result \<times> 'w"
  get_job_instance :: "job_id \<Rightarrow> string \<Rightarrow> 'w \<Rightarrow> (bool \<times> string \<times> string) rust_result \<times> 'w"
  get_job_ip :: "job_id \<Rightarrow> string \<Rightarrow> 'w \<Rightarrow> string rust_result \<times> 'w"
  check_instance_running :: "string \<Rightarrow> string \<Rightarrow> 'w \<Rightarrow> bool rust_result \<times> 'w"
  check_enclave_running :: "string \<Rightarrow> string \<Rightarrow> 'w \<Rightarrow> bool rust_result \<times> 'w"
  run_enclave :: "job_id \<Rightarrow> string \<Rightarrow> string \<Rightarrow> string \<Rightarrow> string \<Rightarrow> i32 \<Rightarrow> i64 \<Rightarrow> u64 \<Rightarrow> bool \<Rightarrow> 'w
    \<Rightarrow> unit rust_result \<times> 'w"
  update_enclave_image :: "string \<Rightarrow> string \<Rightarrow> string \<Rightarrow> i32 \<Rightarrow> i64 \<Rightarrow> 'w \<Rightarrow> unit rust_result \<times> 'w"

section \<open>Infrastructure changes\<close>

text \<open>The calls that launch a new instance and try to run the enclave; the error of the enclave is left
  to the heartbeat.\<close>

definition launch_new :: "'w infra_provider \<Rightarrow> job_state \<Rightarrow> 'w \<Rightarrow> bool \<times> job_state \<times> 'w" where
  "launch_new infra st w =
     (case spin_up infra (job_id st) (instance_type st) (family st) (region st) (req_mem st)
             (req_vcpus st) (bandwidth st) w of
        (Inl _, w1) \<Rightarrow> (False, st, w1)
      | (Inr inst, w1) \<Rightarrow>
          let st1 = st\<lparr>instance_id := inst\<rparr> in
          (case run_enclave infra (job_id st1) (instance_id st1) (family st1) (region st1) (eif_url st1)
                  (req_vcpus st1) (req_mem st1) (bandwidth st1) (debug st1) w1 of
             (_, w2) \<Rightarrow> (True, st1, w2)))"

text \<open>The instance of the job is healthy: note its id and update the image if asked to.\<close>

definition adopt_instance ::
    "'w infra_provider \<Rightarrow> string \<Rightarrow> job_state \<Rightarrow> 'w \<Rightarrow> bool \<times> job_state \<times> 'w" where
  "adopt_instance infra inst st w =
     (let st1 = st\<lparr>instance_id := inst\<rparr> in
      if eif_update st1
      then (case update_enclave_image infra (instance_id st1) (region st1) (eif_url st1)
                   (req_vcpus st1) (req_mem st1) w of
              (Inl _, w1) \<Rightarrow> (False, st1, w1)
            | (Inr _, w1) \<Rightarrow> (True, st1\<lparr>eif_update := False\<rparr>, w1))
      else (True, st1, w))"

definition change_infra_impl :: "'w infra_provider \<Rightarrow> job_state \<Rightarrow> 'w \<Rightarrow> bool \<times> job_state \<times> 'w" where
  "change_infra_impl infra st w =
     (case get_job_instance infra (job_id st) (region st) w of
        (Inl _, w1) \<Rightarrow> (False, st, w1)
      | (Inr (exist, inst, state), w1) \<Rightarrow>
          if infra_state st then
            (if exist \<and> state \<in> {''pending'', ''running''} then adopt_instance infra inst st w1
             else if exist \<and> state \<in> {''stopping'', ''stopped''}
             then (case spin_down infra inst (job_id st) (region st) w1 of
                     (Inl _, w2) \<Rightarrow> (False, st, w2)
                   | (Inr _, w2) \<Rightarrow> launch_new infra st w2)
             else launch_new infra st w1)
          else if \<not> exist \<or> state = ''shutting-down'' \<or> state = ''terminated'' then (True, st, w1)
          else (case spin_down infra inst (job_id st) (region st) w1 of
                  (Inl _, w2) \<Rightarrow> (False, st, w2)
                | (Inr _, w2) \<Rightarrow> (True, st, w2)))"

text \<open>\<open>now\<close> is the clock after the calls; a failed change is tried again two seconds later.\<close>

definition change_infra ::
    "'w infra_provider \<Rightarrow> instant \<Rightarrow> job_state \<Rightarrow> 'w \<Rightarrow> bool \<times> job_state \<times> 'w" where
  "change_infra infra now st w =
     (case change_infra_impl infra st w of (res, st1, w1) \<Rightarrow>
        if res then (res, st1\<lparr>infra_change_scheduled := False\<rparr>, w1)
        else (res, st1\<lparr>infra_change_time := now + duration_from_secs 2\<rparr>, w1))"

definition heartbeat_check ::
    "'w infra_provider \<Rightarrow> instant \<Rightarrow> job_state \<Rightarrow> 'w \<Rightarrow> job_state \<times> 'w" where
  "heartbeat_check infra now st w =
     (case check_instance_running infra (instance_id st) (region st) w of
        (Inl _, w1) \<Rightarrow> (st, w1)
      | (Inr is_running, w1) \<Rightarrow>
          if is_running then
            (case check_enclave_running infra (instance_id st) (region st) w1 of
               (Inl _, w2) \<Rightarrow> (st, w2)
             | (Inr enclave_running, w2) \<Rightarrow>
                 if \<not> enclave_running then
                   (case run_enclave infra (job_id st) (instance_id st) (family st) (region st)
                           (eif_url st) (req_vcpus st) (req_mem st) (bandwidth st) (debug st) w2 of
                      (_, w3) \<Rightarrow> (st, w3))
                 else (st, w2))
          else if min_rate st \<le> rate st then (schedule_launch now 0 st, w1)
          else (st, w1))"

section \<open>The event loop\<close>

text \<open>An input of the loop: the wall clock and the monotonic clock at the head of the iteration, the
  monotonic clock when the branches are polled, what the log stream yields then (\<open>None\<close>: nothing yet,
  \<open>Some None\<close>: it ended), and the clock while the handler runs.\<close>

record loop_input =
  li_ts :: duration
  li_start :: instant
  li_poll :: instant
  li_log :: "log option option"
  li_now :: instant

datatype branch = LogReady "log option" | Heartbeat | Insolvency | InfraChange

text \<open>The \<open>select!\<close> is biased: the first branch that is enabled and ready is taken.\<close>

definition select_branch :: "job_state \<Rightarrow> loop_input \<Rightarrow> branch option" where
  "select_branch st i =
     (let insolvency = insolvency_duration (li_ts i) st;
          aws_delay_timeout = infra_change_time st - li_start i
      in case li_log i of
           Some log \<Rightarrow> Some (LogReady log)
         | None \<Rightarrow>
             if instance_id st \<noteq> [] \<and> li_start i + duration_from_secs 5 \<le> li_poll i then Some Heartbeat
             else if (\<not> infra_change_scheduled st \<or> infra_state st) \<and> li_start i + insolvency \<le> li_poll i
             then Some Insolvency
             else if infra_change_scheduled st \<and> li_start i + aws_delay_timeout \<le> li_poll i
             then Some InfraChange
             else None)"

record market_config =
  mc_lib :: chain_lib
  mc_regions :: "string list"
  mc_delay :: u64
  mc_rates :: "regional_rates list"
  mc_gb_rates :: "gb_rate_card list"
  mc_whitelist :: "string list"
  mc_blacklist :: "string list"

datatype 'w loop_result = Continue job_state 'w | Break int job_state 'w

text \<open>One iteration; an input at which no branch is ready leaves the loop waiting, and a panic is
  \<open>None\<close>.\<close>

definition manager_step ::
    "market_config \<Rightarrow> 'w infra_provider \<Rightarrow> job_state \<Rightarrow> 'w \<Rightarrow> loop_input \<Rightarrow> 'w loop_result option" where
  "manager_step cfg infra st w i =
     (case select_branch st i of
        None \<Rightarrow> Some (Continue st w)
      | Some (LogReady log) \<Rightarrow>
          (case process_log (mc_lib cfg) (li_now i) (mc_rates cfg) (mc_gb_rates cfg) (mc_whitelist cfg)
                  (mc_blacklist cfg) log st of
             None \<Rightarrow> None
           | Some (res, st1) \<Rightarrow>
               if res = -2 \<or> res = -1 then Some (Break res st1 w) else Some (Continue st1 w))
      | Some Heartbeat \<Rightarrow>
          (case heartbeat_check infra (li_now i) st w of (st1, w1) \<Rightarrow> Some (Continue st1 w1))
      | Some Insolvency \<Rightarrow> Some (Continue (handle_insolvency (li_now i) st) w)
      | Some InfraChange \<Rightarrow>
          (case change_infra infra (li_now i) st w of (res, st1, w1) \<Rightarrow>
             if res \<and> \<not> infra_state st1 then Some (Break 0 st1 w1) else Some (Continue st1 w1)))"

fun manager_run ::
    "market_config \<Rightarrow> 'w infra_provider \<Rightarrow> job_state \<Rightarrow> 'w \<Rightarrow> loop_input list \<Rightarrow> 'w loop_result option" where
  "manager_run cfg infra st w [] = Some (Continue st w)"
| "manager_run cfg infra st w (i # is) =
     (case manager_step cfg infra st w i of
        None \<Rightarrow> None
      | Some (Continue st1 w1) \<Rightarrow> manager_run cfg infra st1 w1 is
      | Some (Break res st1 w1) \<Rightarrow> Some (Break res st1 w1))"

definition job_manager_once ::
    "market_config \<Rightarrow> 'w infra_provider \<Rightarrow> job_id \<Rightarrow> duration \<Rightarrow> instant \<Rightarrow> 'w \<Rightarrow> loop_input list
     \<Rightarrow> 'w loop_result option" where
  "job_manager_once cfg infra job now_ts now w is =
     manager_run cfg infra (job_state_new now_ts now job (mc_delay cfg) (mc_regions cfg)) w is"

text \<open>The connection loop of a job. A session comes with what its loop is given; the result is the list
  of sleeps in seconds, the world and whether the manager has exited for good. A session that is still
  running ends the run.\<close>

datatype attempt = ConnectError | SubscribeError | Session duration instant "loop_input list"

definition next_backoff :: "u64 \<Rightarrow> u64" where
  "next_backoff b = (let b2 = b * 2 in if 128 < b2 then 128 else b2)"

fun job_manager ::
    "market_config \<Rightarrow> 'w infra_provider \<Rightarrow> job_id \<Rightarrow> u64 \<Rightarrow> 'w \<Rightarrow> attempt list
     \<Rightarrow> (u64 list \<times> 'w \<times> bool) option" where
  "job_manager cfg infra job backoff w [] = Some ([], w, False)"
| "job_manager cfg infra job backoff w (ConnectError # as) =
     map_option (\<lambda>(sleeps, r). (backoff # sleeps, r)) (job_manager cfg infra job (next_backoff backoff) w as)"
| "job_manager cfg infra job backoff w (SubscribeError # as) =
     map_option (\<lambda>(sleeps, r). (1 # sleeps, r)) (job_manager cfg infra job 1 w as)"
| "job_manager cfg infra job backoff w (Session now_ts now is # as) =
     (case job_manager_once cfg infra job now_ts now w is of
        None \<Rightarrow> None
      | Some (Continue st w1) \<Rightarrow> Some ([], w1, False)
      | Some (Break res st w1) \<Rightarrow>
          if res = -2 \<or> res = 0 then Some ([], w1, True) else job_manager cfg infra job 1 w1 as)"

section \<open>The job streams\<close>

record event_filter =
  ef_address :: b256
  ef_signatures :: "b256 list"
  ef_topic1 :: "b256 option"
  ef_topic3 :: "b256 option"

text \<open>The calls of the RPC client the streams use: a subscription (all the logs it will deliver), the
  block number, and a query of a range of blocks.\<close>

record rpc_client =
  subscribe_logs :: "event_filter \<Rightarrow> log list option"
  get_block_number :: "u64 option"
  get_logs :: "event_filter \<Rightarrow> u64 \<Rightarrow> u64 \<Rightarrow> log list option"

text \<open>The part of a subscription beyond the cutoff block; \<open>None\<close> is the panic of the \<open>unwrap\<close>.\<close>

fun beyond_cutoff :: "u64 \<Rightarrow> log list \<Rightarrow> log list option" where
  "beyond_cutoff cutoff [] = Some []"
| "beyond_cutoff cutoff (l # ls) =
     (case log_block l of None \<Rightarrow> None
      | Some n \<Rightarrow> if cutoff < n then map_option ((#) l) (beyond_cutoff cutoff ls) else beyond_cutoff cutoff ls)"

text \<open>The subscription is made first, then the cutoff is read, then the old logs are queried; \<open>Inl\<close>
  names the call that failed.\<close>

definition log_stream :: "rpc_client \<Rightarrow> event_filter \<Rightarrow> string \<Rightarrow> log list rust_result option" where
  "log_stream client flt subscribe_error =
     (case subscribe_logs client flt of None \<Rightarrow> Some (Inl subscribe_error)
      | Some sub \<Rightarrow>
      case get_block_number client of None \<Rightarrow> Some (Inl ''failed to get cutoff block'')
      | Some cutoff \<Rightarrow>
      case get_logs client flt 0 cutoff of None \<Rightarrow> Some (Inl ''failed to query old logs'')
      | Some old \<Rightarrow> map_option (\<lambda>new. Inr (old @ new)) (beyond_cutoff cutoff sub))"

definition job_logs :: "chain_lib \<Rightarrow> rpc_client \<Rightarrow> b256 \<Rightarrow> b256 \<Rightarrow> log list rust_result option" where
  "job_logs lib client contract job =
     log_stream client
       \<lparr>ef_address = contract, ef_signatures = map (keccak256 lib) job_signatures,
        ef_topic1 = Some job, ef_topic3 = None\<rparr>
       ''failed to subscribe to job logs''"

fun job_items :: "log list \<Rightarrow> (b256 \<times> bool) list option" where
  "job_items [] = Some []"
| "job_items (l # ls) =
     (case vindex (log_topics l) 1 of None \<Rightarrow> None
      | Some job \<Rightarrow> map_option ((#) (job, log_removed l)) (job_items ls))"

definition new_jobs ::
    "chain_lib \<Rightarrow> rpc_client \<Rightarrow> b256 \<Rightarrow> b256 \<Rightarrow> (b256 \<times> bool) list rust_result option" where
  "new_jobs lib client address provider =
     (case log_stream client
             \<lparr>ef_address = address, ef_signatures = [keccak256 lib sig_opened],
              ef_topic1 = None, ef_topic3 = Some provider\<rparr>
             ''failed to subscribe to new jobs'' of
        None \<Rightarrow> None
      | Some (Inl e) \<Rightarrow> Some (Inl e)
      | Some (Inr ls) \<Rightarrow> map_option Inr (job_items ls))"

text \<open>\<open>run_once\<close> spawns a manager for every item of the stream and returns how many; \<open>run\<close> skips as
  many items of the next stream. The result of \<open>run\<close> is the list of the sleeps and the list of the
  jobs whose managers it has spawned.\<close>

definition run_once :: "chain_lib \<Rightarrow> job_id \<Rightarrow> (b256 \<times> bool) list \<Rightarrow> job_id list \<times> nat" where
  "run_once lib job stream =
     (map (\<lambda>(j, removed). job\<lparr>jid_id := encode_hex lib j\<rparr>) stream, length stream)"

datatype run_attempt = RunConnectError | RunSubscribeError | RunSession "(b256 \<times> bool) list"

fun run_jobs :: "chain_lib \<Rightarrow> job_id \<Rightarrow> u64 \<Rightarrow> nat \<Rightarrow> run_attempt list \<Rightarrow> u64 list \<times> job_id list" where
  "run_jobs lib job backoff job_count [] = ([], [])"
| "run_jobs lib job backoff job_count (RunConnectError # as) =
     (case run_jobs lib job (next_backoff backoff) job_count as of (sleeps, js) \<Rightarrow> (backoff # sleeps, js))"
| "run_jobs lib job backoff job_count (RunSubscribeError # as) =
     (case run_jobs lib job 1 job_count as of (sleeps, js) \<Rightarrow> (1 # sleeps, js))"
| "run_jobs lib job backoff job_count (RunSession stream # as) =
     (case run_once lib job (drop job_count stream) of (spawned, n) \<Rightarrow>
        case run_jobs lib job 1 (job_count + n) as of (sleeps, js) \<Rightarrow> (sleeps, spawned @ js))"

section \<open>The contract of a provider\<close>

text \<open>
  \<open>alive w job rg\<close> stands for something of a job in a region that only launches bring to life and only
  terminations end (that it has a live instance, or that a given instance of it is live); \<open>ok\<close> is what the
  provider keeps of its world, and \<open>key\<close> is what tells jobs apart. The laws: queries, checks and runs of the
  enclave change nothing of this; a termination, also one that fails, brings nothing to life, and when it is
  of the instance that was reported for a job it touches no other job; a launch, also one that fails, touches no
  other job. Nothing is said of how instances are listed, nor that a call which failed had no effect.
\<close>

definition dead_states :: "string set" where
  "dead_states = {''shutting-down'', ''terminated''}"

lemma process_log_frame:
  "process_log lib now rates gbs wl bl ol st = Some (c, st') \<Longrightarrow>
     job_id st' = job_id st \<and> c \<in> {0, -1, -2, -3}"
  using process_log_codes [of lib now rates gbs wl bl ol st c st'] process_log_job by blast

locale infra_service =
  fixes infra :: "'w infra_provider"
    and ok :: "'w \<Rightarrow> bool"
    and alive :: "'w \<Rightarrow> job_id \<Rightarrow> string \<Rightarrow> bool"
    and key :: "job_id \<Rightarrow> 'k"
  assumes query_frame: "get_job_instance infra j rg w = (q, w') \<Longrightarrow> ok w \<Longrightarrow> ok w' \<and> alive w' = alive w"
    and down_frame: "spin_down infra i j rg w = (r, w') \<Longrightarrow> ok w \<Longrightarrow>
      ok w' \<and> (alive w' j' rg' \<longrightarrow> alive w j' rg')"
    and down_others: "get_job_instance infra j rg w = (Inr (e, i, s), w1) \<Longrightarrow> ok w \<Longrightarrow> e \<Longrightarrow>
      spin_down infra i j rg w1 = (r, w2) \<Longrightarrow> key j' \<noteq> key j \<Longrightarrow> alive w2 j' rg' = alive w j' rg'"
    and up_frame: "spin_up infra j ty fam rg mem cpu bw w = (u, w') \<Longrightarrow> ok w \<Longrightarrow>
      ok w' \<and> (key j' \<noteq> key j \<longrightarrow> alive w' j' rg' = alive w j' rg')"
    and running_frame: "check_instance_running infra i rg w = (b, w') \<Longrightarrow> ok w \<Longrightarrow> ok w' \<and> alive w' = alive w"
    and enclave_frame: "check_enclave_running infra i rg w = (b, w') \<Longrightarrow> ok w \<Longrightarrow> ok w' \<and> alive w' = alive w"
    and run_frame: "run_enclave infra j i fam rg url cpu mem bw dbg w = (r, w') \<Longrightarrow> ok w \<Longrightarrow>
      ok w' \<and> alive w' = alive w"
    and update_frame: "update_enclave_image infra i rg url cpu mem w = (r, w') \<Longrightarrow> ok w \<Longrightarrow>
      ok w' \<and> alive w' = alive w"
begin

lemma set_both:
  "\<exists>j u. st = st\<lparr>instance_id := j, eif_update := u\<rparr>"
  "\<exists>j u. st\<lparr>instance_id := i\<rparr> = st\<lparr>instance_id := j, eif_update := u\<rparr>"
  by (rule exI [of _ "instance_id st"], rule exI [of _ "eif_update st"], simp)
    (rule exI [of _ i], rule exI [of _ "eif_update st"], simp)

lemma launch_new_spec:
  assumes "launch_new infra st w = (res, st', w')" and "ok w"
  shows "ok w' \<and> (key j' \<noteq> key (job_id st) \<longrightarrow> alive w' j' rg' = alive w j' rg')
    \<and> (\<exists>i u. st' = st\<lparr>instance_id := i, eif_update := u\<rparr>)"
proof -
  obtain r w1 where up: "spin_up infra (job_id st) (instance_type st) (family st) (region st) (req_mem st)
      (req_vcpus st) (bandwidth st) w = (r, w1)" by fastforce
  note fr = up_frame [OF up assms(2)]
  show ?thesis
  proof (cases r)
    case (Inl e)
    with assms(1) up have "w' = w1" "st' = st" by (simp_all add: launch_new_def)
    then show ?thesis using fr set_both(1) [of st] by simp
  next
    case (Inr i)
    obtain r2 where "run_enclave infra (job_id st) i (family st) (region st) (eif_url st)
        (req_vcpus st) (req_mem st) (bandwidth st) (debug st) w1 = (r2, w')"
      using assms(1) up Inr by (auto simp: launch_new_def Let_def split: prod.splits)
    from run_frame [OF this] fr have "ok w'" "alive w' = alive w1" by blast+
    moreover have "st' = st\<lparr>instance_id := i\<rparr>"
      using assms(1) up Inr by (auto simp: launch_new_def Let_def split: prod.splits)
    ultimately show ?thesis using fr set_both(2) [where st = st and i = i] by simp
  qed
qed

lemma adopt_spec:
  assumes "adopt_instance infra i st w = (res, st', w')" and "ok w"
  shows "ok w' \<and> alive w' = alive w
    \<and> (\<exists>u. st' = st\<lparr>instance_id := i, eif_update := u\<rparr> \<and> (res \<longrightarrow> \<not> u))"
  using assms
  by (auto simp: adopt_instance_def Let_def split: if_splits prod.splits sum.splits dest!: update_frame
      intro: exI [of _ "eif_update st"])

text \<open>The operations change only three fields of the state beside the schedule.\<close>

lemma change_infra_impl_spec:
  assumes "change_infra_impl infra st w = (res, st', w')" and "ok w"
  shows "ok w' \<and> (\<not> infra_state st \<longrightarrow> alive w' j rg \<longrightarrow> alive w j rg)
    \<and> (key j' \<noteq> key (job_id st) \<longrightarrow> alive w' j' rg' = alive w j' rg')
    \<and> (\<exists>i u. st' = st\<lparr>instance_id := i, eif_update := u\<rparr>)"
proof -
  obtain q w1 where q: "get_job_instance infra (job_id st) (region st) w = (q, w1)" by fastforce
  note frame = query_frame [OF q assms(2)]
  note same = set_both(1) [of st]
  show ?thesis
  proof (cases q)
    case (Inl e)
    with assms(1) q frame same show ?thesis by (simp add: change_infra_impl_def)
  next
    case (Inr t)
    obtain e i s where t: "t = (e, i, s)" by (cases t)
    note q' = q [unfolded Inr t]
    obtain d w2 where d: "spin_down infra i (job_id st) (region st) w1 = (d, w2)" by fastforce
    note dframe = down_frame [OF d conjunct1 [OF frame]]
    have oth: "e \<Longrightarrow> key j' \<noteq> key (job_id st) \<longrightarrow> alive w2 j' rg' = alive w j' rg'"
      using down_others [OF q' assms(2) _ d] by simp
    have mono: "alive w2 j rg \<longrightarrow> alive w j rg" using dframe frame by simp
    consider (adopt) "infra_state st" "adopt_instance infra i st w1 = (res, st', w')"
      | (replace) "infra_state st" "e" "launch_new infra st w2 = (res, st', w')"
      | (launch) "infra_state st" "launch_new infra st w1 = (res, st', w')"
      | (gone) "st' = st" "w' = w1"
      | (kill) "e" "st' = st" "w' = w2"
      using assms(1) q' d unfolding change_infra_impl_def by (auto split: if_splits sum.splits)
    then show ?thesis
    proof cases
      case adopt
      from adopt_spec [OF adopt(2) conjunct1 [OF frame]] frame adopt(1) show ?thesis by auto
    next
      case replace
      from launch_new_spec [OF replace(3) conjunct1 [OF dframe], of j' rg'] oth [OF replace(2)] replace(1)
      show ?thesis by simp
    next
      case launch
      from launch_new_spec [OF launch(2) conjunct1 [OF frame], of j' rg'] frame launch(1) show ?thesis by simp
    next
      case gone
      with frame same show ?thesis by simp
    next
      case kill
      with dframe oth mono same show ?thesis by simp
    qed
  qed
qed

lemma change_infra_spec:
  assumes "change_infra infra now st w = (res, st', w')" and "ok w"
  shows "ok w' \<and> (\<not> infra_state st \<longrightarrow> alive w' j rg \<longrightarrow> alive w j rg)
    \<and> (key j' \<noteq> key (job_id st) \<longrightarrow> alive w' j' rg' = alive w j' rg')
    \<and> infra_state st' = infra_state st \<and> job_id st' = job_id st \<and> region st' = region st"
proof -
  obtain st1 where st1: "change_infra_impl infra st w = (res, st1, w')"
    using assms(1) by (auto simp: change_infra_def split: prod.splits if_splits)
  have "infra_state st' = infra_state st1 \<and> job_id st' = job_id st1 \<and> region st' = region st1"
    using assms(1) st1 by (cases res) (auto simp: change_infra_def)
  moreover obtain i u where "st1 = st\<lparr>instance_id := i, eif_update := u\<rparr>"
    using change_infra_impl_spec [OF st1 assms(2)] by blast
  ultimately show ?thesis
    using change_infra_impl_spec [OF st1 assms(2), of j rg j' rg'] by simp
qed

lemma heartbeat_spec:
  assumes "heartbeat_check infra now st w = (st', w')" and "ok w"
  shows "ok w' \<and> alive w' = alive w \<and> (st' = st \<or> st' = schedule_launch now 0 st)"
proof -
  obtain r w1 where r: "check_instance_running infra (instance_id st) (region st) w = (r, w1)" by fastforce
  note f1 = running_frame [OF r assms(2)]
  obtain e w2 where e: "check_enclave_running infra (instance_id st) (region st) w1 = (e, w2)" by fastforce
  note f2 = enclave_frame [OF e conjunct1 [OF f1]]
  obtain x w3 where x: "run_enclave infra (job_id st) (instance_id st) (family st) (region st)
      (eif_url st) (req_vcpus st) (req_mem st) (bandwidth st) (debug st) w2 = (x, w3)" by fastforce
  note f3 = run_frame [OF x conjunct1 [OF f2]]
  show ?thesis
    using assms(1) r e x f1 f2 f3
    by (auto simp: heartbeat_check_def split: sum.splits if_splits)
qed

lemma manager_step_continue:
  assumes "manager_step cfg infra st w i = Some (Continue st' w')" and "ok w"
  shows "ok w' \<and> job_id st' = job_id st
    \<and> (key j' \<noteq> key (job_id st) \<longrightarrow> alive w' j' rg' = alive w j' rg')
    \<and> (alive w' j rg \<longrightarrow> alive w j rg \<or> select_branch st i = Some InfraChange \<and> infra_state st)"
proof (cases "select_branch st i")
  case None
  with assms show ?thesis by (simp add: manager_step_def)
next
  case (Some b)
  show ?thesis
  proof (cases b)
    case (LogReady log)
    with assms Some show ?thesis
      by (auto simp: manager_step_def dest!: process_log_frame split: option.splits if_splits)
  next
    case Heartbeat
    obtain st1 w1 where h: "heartbeat_check infra (li_now i) st w = (st1, w1)" by fastforce
    with heartbeat_spec [OF h assms(2)] assms(1) Some Heartbeat show ?thesis
      by (auto simp: manager_step_def schedule_defs)
  next
    case Insolvency
    with assms Some show ?thesis by (auto simp: manager_step_def schedule_defs)
  next
    case InfraChange
    obtain res st1 w1 where c: "change_infra infra (li_now i) st w = (res, st1, w1)"
      by (metis prod_cases3)
    with change_infra_spec [OF c assms(2), of j rg j' rg'] assms(1) Some InfraChange show ?thesis
      by (auto simp: manager_step_def split: if_splits)
  qed
qed

lemma manager_step_break:
  assumes "manager_step cfg infra st w i = Some (Break res st' w')" and "ok w"
  shows "ok w' \<and> job_id st' = job_id st
    \<and> (key j' \<noteq> key (job_id st) \<longrightarrow> alive w' j' rg' = alive w j' rg') \<and> (res \<noteq> 0 \<longrightarrow> w' = w)"
proof (cases "select_branch st i")
  case None
  with assms show ?thesis by (simp add: manager_step_def)
next
  case (Some b)
  show ?thesis
  proof (cases b)
    case (LogReady log)
    with assms Some show ?thesis
      by (auto simp: manager_step_def dest!: process_log_frame split: option.splits if_splits)
  next
    case Heartbeat
    with assms Some show ?thesis by (auto simp: manager_step_def split: prod.splits)
  next
    case Insolvency
    with assms Some show ?thesis by (auto simp: manager_step_def schedule_defs)
  next
    case InfraChange
    obtain res1 st1 w1 where c: "change_infra infra (li_now i) st w = (res1, st1, w1)"
      by (metis prod_cases3)
    with change_infra_spec [OF c assms(2), of j' rg' j' rg'] assms(1) Some InfraChange show ?thesis
      by (auto simp: manager_step_def split: if_splits)
  qed
qed

lemma manager_run_continue:
  assumes "manager_run cfg infra st w is = Some (Continue st' w')" and "ok w"
  shows "ok w' \<and> job_id st' = job_id st
    \<and> (key j' \<noteq> key (job_id st) \<longrightarrow> alive w' j' rg' = alive w j' rg')"
  using assms
proof (induction "is" arbitrary: st w)
  case (Cons i "is")
  from Cons.prems(1) obtain st1 w1 where s: "manager_step cfg infra st w i = Some (Continue st1 w1)"
      and r: "manager_run cfg infra st1 w1 is = Some (Continue st' w')"
    by (auto split: option.splits loop_result.splits)
  note m = manager_step_continue [OF s Cons.prems(2), where j' = j' and rg' = rg']
  from Cons.IH [OF r conjunct1 [OF m]] m show ?case by simp
qed simp

lemma manager_run_break:
  assumes "manager_run cfg infra st w is = Some (Break res st' w')" and "ok w"
  shows "ok w' \<and> job_id st' = job_id st
    \<and> (key j' \<noteq> key (job_id st) \<longrightarrow> alive w' j' rg' = alive w j' rg')"
  using assms
proof (induction "is" arbitrary: st w)
  case (Cons i "is")
  show ?case
  proof (cases "manager_step cfg infra st w i")
    case None
    with Cons.prems show ?thesis by simp
  next
    case (Some x)
    show ?thesis
    proof (cases x)
      case (Continue st1 w1)
      note m = manager_step_continue [OF Some [unfolded Continue] Cons.prems(2), where j' = j' and rg' = rg']
      have "manager_run cfg infra st1 w1 is = Some (Break res st' w')"
        using Cons.prems(1) Some Continue by simp
      from Cons.IH [OF this conjunct1 [OF m]] m show ?thesis by auto
    next
      case (Break r st1 w1)
      with Cons.prems(1) Some have "manager_step cfg infra st w i = Some (Break res st' w')" by simp
      from manager_step_break [OF this Cons.prems(2)] show ?thesis by blast
    qed
  qed
qed simp

lemma job_manager_others:
  assumes "job_manager cfg infra job b w as = Some (sleeps, w', done)" and "ok w"
  shows "ok w' \<and> (key j' \<noteq> key job \<longrightarrow> alive w' j' rg' = alive w j' rg')"
  using assms
proof (induction as arbitrary: b w sleeps)
  case (Cons a as)
  show ?case
  proof (cases a)
    case (Session ts now "is")
    show ?thesis
    proof (cases "job_manager_once cfg infra job ts now w is")
      case None
      with Cons.prems Session show ?thesis by simp
    next
      case (Some x)
      show ?thesis
      proof (cases x)
        case (Continue st1 w1)
        with Cons.prems(1) Session Some have "w' = w1" by simp
        with manager_run_continue [OF Some [unfolded Continue job_manager_once_def] Cons.prems(2)]
        show ?thesis by (simp add: job_state_new_def)
      next
        case (Break res st1 w1)
        note m = manager_run_break [OF Some [unfolded Break job_manager_once_def] Cons.prems(2)]
        show ?thesis
        proof (cases "res = -2 \<or> res = 0")
          case True
          with Cons.prems(1) Session Some Break have "w' = w1" by auto
          with m show ?thesis by (simp add: job_state_new_def)
        next
          case False
          with Cons.prems(1) Session Some Break have
            "job_manager cfg infra job 1 w1 as = Some (sleeps, w', done)" by auto
          from Cons.IH [OF this] m show ?thesis by (simp add: job_state_new_def)
        qed
      qed
    qed
  next
    case ConnectError
    with Cons show ?thesis by auto
  next
    case SubscribeError
    with Cons show ?thesis by auto
  qed
qed simp

end

end
