(* ===== verification/CP_Test_Aws.thy ===== *)
theory CP_Test_Aws
  imports CP_Manager
begin

text \<open>
  The in-memory infrastructure provider of the control plane (\<open>operator/control-plane/src/test.rs\<close>), its
  operations and the interpretation of the contract \<open>infra_service\<close> on them. Instances are kept by the id
  of the job. The names of the instances come from the hasher of the standard library and are arguments;
  the clock the outcomes are stamped with is a field of the state.
\<close>

datatype test_aws_outcome =
    SpinUp instant string string string string i64 i32 u64 string string string
  | SpinDown instant string string string
  | RunEnclave instant string string string string string i64 i32 u64 bool
  | UpdateEnclaveImage instant string string string i64 i32

record instance_metadata =
  im_instance_id :: string
  im_ip_address :: string

record test_aws =
  ta_now :: instant
  ta_outcomes :: "test_aws_outcome list"
  ta_instances :: "string \<Rightarrow> instance_metadata option"
  ta_counter :: u64

record id_hasher =
  compute_instance_id :: "u64 \<Rightarrow> string"
  compute_instance_ip :: "u64 \<Rightarrow> string"

definition ta_push :: "test_aws_outcome \<Rightarrow> test_aws \<Rightarrow> test_aws" where
  "ta_push out w = w\<lparr>ta_outcomes := ta_outcomes w @ [out]\<rparr>"

definition ta_spin_up ::
    "id_hasher \<Rightarrow> job_id \<Rightarrow> string \<Rightarrow> string \<Rightarrow> string \<Rightarrow> i64 \<Rightarrow> i32 \<Rightarrow> u64 \<Rightarrow> test_aws
     \<Rightarrow> string rust_result \<times> test_aws" where
  "ta_spin_up hs job ty fam rg mem cpu bw w =
     (case ta_instances w (jid_id job) of
        Some x \<Rightarrow>
          (Inr (im_instance_id x),
           ta_push (SpinUp (ta_now w) (jid_id job) ty fam rg mem cpu bw (jid_contract job) (jid_chain job)
                      (im_instance_id x)) w)
      | None \<Rightarrow>
          let x = \<lparr>im_instance_id = compute_instance_id hs (ta_counter w),
                   im_ip_address = compute_instance_ip hs (ta_counter w)\<rparr>;
              w1 = w\<lparr>ta_counter := ta_counter w + 1,
                     ta_instances := (ta_instances w)(jid_id job \<mapsto> x)\<rparr>
          in (Inr (im_instance_id x),
              ta_push (SpinUp (ta_now w) (jid_id job) ty fam rg mem cpu bw (jid_contract job) (jid_chain job)
                         (im_instance_id x)) w1))"

definition ta_spin_down :: "string \<Rightarrow> job_id \<Rightarrow> string \<Rightarrow> test_aws \<Rightarrow> unit rust_result \<times> test_aws" where
  "ta_spin_down inst job rg w =
     (Inr (), (ta_push (SpinDown (ta_now w) (jid_id job) inst rg) w)
        \<lparr>ta_instances := (ta_instances w)(jid_id job := None)\<rparr>)"

definition ta_get_job_instance ::
    "job_id \<Rightarrow> string \<Rightarrow> test_aws \<Rightarrow> (bool \<times> string \<times> string) rust_result \<times> test_aws" where
  "ta_get_job_instance job rg w =
     (case ta_instances w (jid_id job) of
        Some x \<Rightarrow> (Inr (True, im_instance_id x, ''running''), w)
      | None \<Rightarrow> (Inr (False, [], []), w))"

definition ta_get_job_ip :: "job_id \<Rightarrow> string \<Rightarrow> test_aws \<Rightarrow> string rust_result \<times> test_aws" where
  "ta_get_job_ip job rg w =
     (case ta_instances w (jid_id job) of
        Some x \<Rightarrow> (Inr (im_ip_address x), w)
      | None \<Rightarrow> (Inl (''Instance not found for job - '' @ jid_id job), w))"

definition ta_run_enclave ::
    "job_id \<Rightarrow> string \<Rightarrow> string \<Rightarrow> string \<Rightarrow> string \<Rightarrow> i32 \<Rightarrow> i64 \<Rightarrow> u64 \<Rightarrow> bool \<Rightarrow> test_aws
     \<Rightarrow> unit rust_result \<times> test_aws" where
  "ta_run_enclave job inst fam rg url cpu mem bw dbg w =
     (Inr (), ta_push (RunEnclave (ta_now w) (jid_id job) inst fam rg url mem cpu bw dbg) w)"

definition ta_update_enclave_image ::
    "string \<Rightarrow> string \<Rightarrow> string \<Rightarrow> i32 \<Rightarrow> i64 \<Rightarrow> test_aws \<Rightarrow> unit rust_result \<times> test_aws" where
  "ta_update_enclave_image inst rg url cpu mem w =
     (Inr (), ta_push (UpdateEnclaveImage (ta_now w) inst rg url mem cpu) w)"

definition test_aws_provider :: "id_hasher \<Rightarrow> test_aws infra_provider" where
  "test_aws_provider hs = \<lparr>
     spin_up = ta_spin_up hs, spin_down = ta_spin_down, get_job_instance = ta_get_job_instance,
     get_job_ip = ta_get_job_ip,
     check_instance_running = (\<lambda>_ _ w. (Inr True, w)), check_enclave_running = (\<lambda>_ _ w. (Inr True, w)),
     run_enclave = ta_run_enclave, update_enclave_image = ta_update_enclave_image \<rparr>"

definition ta_alive :: "test_aws \<Rightarrow> job_id \<Rightarrow> string \<Rightarrow> bool" where
  "ta_alive w job rg \<longleftrightarrow> ta_instances w (jid_id job) \<noteq> None"

lemmas ta_defs = ta_push_def ta_spin_up_def ta_spin_down_def ta_get_job_instance_def ta_get_job_ip_def
  ta_run_enclave_def ta_update_enclave_image_def test_aws_provider_def Let_def

lemma ta_alive_push [simp]: "ta_alive (ta_push out w) = ta_alive w"
  by (simp add: fun_eq_iff ta_alive_def ta_push_def)

interpretation ta: infra_service "test_aws_provider hs" "\<lambda>_. True" ta_alive jid_id
  by unfold_locales (auto simp: ta_defs ta_alive_def fun_eq_iff split: option.splits)

lemma ta_answers:
  "\<exists>v w'. get_job_instance (test_aws_provider hs) j rg w = (Inr v, w')"
  "\<exists>w'. spin_down (test_aws_provider hs) i j rg w = (Inr (), w')"
  by (auto simp: ta_defs split: option.split)

definition test_aws_new :: test_aws where
  "test_aws_new = \<lparr>ta_now = 0, ta_outcomes = [], ta_instances = (\<lambda>_. None), ta_counter = 0\<rparr>"

definition sample_hasher :: id_hasher where
  "sample_hasher = \<lparr>compute_instance_id = (\<lambda>n. ''i''), compute_instance_ip = (\<lambda>n. ''1.2.3.4'')\<rparr>"

text \<open>A launch keeps an instance the job already has, and its ip is the one \<open>get_job_ip\<close> gives.\<close>

lemma ta_spin_up_lookup:
  assumes "ta_spin_up hs job ty fam rg mem cpu bw w = (Inr i, w')"
  shows "fst (ta_get_job_instance job rg' w') = Inr (True, i, ''running'')"
    and "\<exists>x. fst (ta_get_job_ip job rg' w') = Inr x"
  using assms by (auto simp: ta_defs split: option.splits)

end
