(* ===== verification/CP_Lifecycle.thy ===== *)
theory CP_Lifecycle
  imports CP_Test_Aws
begin

text \<open>
  Properties of the manager of a job: what it has seen and done when it exits, when an instance comes to life,
  that an insolvent job is terminated however many attempts fail, that other jobs are not touched, and that the
  streams and the connection loops miss and repeat nothing. The provider is any at all, or, where lives of
  instances are spoken of, any that meets the contract \<open>infra_service\<close>; the witnesses use the in-memory provider
  of the repository.
\<close>

section \<open>Lemmas\<close>

definition sample_config :: market_config where
  "sample_config = \<lparr>mc_lib = sample_lib, mc_regions = [''ap-south-1''], mc_delay = 3,
     mc_rates = sample_rates, mc_gb_rates = sample_gb_rates, mc_whitelist = [], mc_blacklist = []\<rparr>"

definition sample_input :: "nat \<Rightarrow> log option option \<Rightarrow> loop_input" where
  "sample_input t l = \<lparr>li_ts = t * 1000000000, li_start = t * 1000000000, li_poll = t * 1000000000,
     li_log = l, li_now = t * 1000000000\<rparr>"

lemmas manager_eval = sample_eval manager_step_def select_branch_def sample_config_def sample_input_def
  insolvency_duration_def solvent_secs_def change_infra_def change_infra_impl_def launch_new_def
  adopt_instance_def heartbeat_check_def ta_defs job_manager_once_def sample_hasher_def test_aws_new_def
  duration_from_secs_def width_simps

lemma select_infra_change:
  "select_branch st i = Some InfraChange \<longleftrightarrow> li_log i = None
     \<and> \<not> (instance_id st \<noteq> [] \<and> li_start i + duration_from_secs 5 \<le> li_poll i)
     \<and> \<not> ((\<not> infra_change_scheduled st \<or> infra_state st) \<and>
            li_start i + insolvency_duration (li_ts i) st \<le> li_poll i)
     \<and> infra_change_scheduled st \<and> li_start i + (infra_change_time st - li_start i) \<le> li_poll i"
  by (auto simp: select_branch_def Let_def split: option.splits)

lemma manager_run_append:
  "manager_run cfg infra st w is = Some (Continue st1 w1) \<Longrightarrow>
   manager_run cfg infra st w (is @ js) = manager_run cfg infra st1 w1 js"
  by (induction "is" arbitrary: st w) (auto split: option.splits loop_result.splits)

lemma backoff_value:
  "next_backoff (if n < 7 then 2 ^ n else 128) = (if Suc n < 7 then 2 ^ Suc n else 128)"
proof -
  consider "n = 0" | "n = 1" | "n = 2" | "n = 3" | "n = 4" | "n = 5" | "n = 6" | "7 \<le> n" by linarith
  then show ?thesis by cases (simp_all add: next_backoff_def)
qed

text \<open>The length of the longest session.\<close>

fun longest_session :: "nat \<Rightarrow> run_attempt list \<Rightarrow> nat" where
  "longest_session n [] = n"
| "longest_session n (RunSession s # as) = longest_session (max n (length s)) as"
| "longest_session n (_ # as) = longest_session n as"

lemma longest_session_ge: "n \<le> longest_session n as"
  by (induction n as rule: longest_session.induct) auto

lemma run_jobs_spawned:
  assumes "\<forall>s. RunSession s \<in> set as \<longrightarrow> prefix s jobs"
  shows "snd (run_jobs lib job b n as) =
    map (\<lambda>(j, removed). job\<lparr>jid_id := encode_hex lib j\<rparr>) (drop n (take (longest_session n as) jobs))"
  using assms
proof (induction as arbitrary: b n)
  case (Cons a as)
  then have IH: "\<And>b n. snd (run_jobs lib job b n as) =
    map (\<lambda>(j, removed). job\<lparr>jid_id := encode_hex lib j\<rparr>) (drop n (take (longest_session n as) jobs))"
    by simp
  show ?case
  proof (cases a)
    case (RunSession s)
    with Cons.prems obtain t where t: "jobs = s @ t" by (auto simp: prefix_def)
    let ?m = "max n (length s)"
    have "drop n s @ drop ?m (take (longest_session ?m as) jobs) = drop n (take (longest_session ?m as) jobs)"
      unfolding t using longest_session_ge [of ?m as]
      by (cases "n \<le> length s") (simp_all add: max_def)
    moreover have "n + (length s - n) = ?m" by simp
    ultimately show ?thesis
      using IH [of 1 ?m] RunSession
      by (simp add: run_once_def split_beta flip: map_append)
  qed (simp_all add: IH split_beta)
qed simp

lemma beyond_cutoff_filter:
  "(\<forall>l \<in> set ls. log_block l \<noteq> None) \<Longrightarrow>
   beyond_cutoff c ls = Some (filter (\<lambda>l. c < the (log_block l)) ls)"
  by (induction ls) auto

lemma filter_cutoff:
  fixes c :: u64
  assumes "sorted (map (\<lambda>l. unat (the (log_block l))) ls)"
  shows "filter (\<lambda>l. P l \<and> the (log_block l) \<le> c) ls @ filter (\<lambda>l. P l \<and> c < the (log_block l)) ls = filter P ls"
  using assms
proof (induction ls)
  case (Cons l ls)
  show ?case
  proof (cases "the (log_block l) \<le> c")
    case True
    with Cons show ?thesis by (auto simp: not_less dest: leD)
  next
    case False
    then have "\<forall>k \<in> set ls. c < the (log_block k)"
      using Cons.prems by (auto simp: word_le_nat_alt word_less_nat_alt)
    with False show ?thesis by (auto simp: not_le filter_empty_conv intro!: filter_cong)
  qed
qed simp

section \<open>Solvency\<close>

text \<open>The seconds a poll is after the last settlement: those at the start of the iteration, by the system's clock,
  and those waited since, by the monotonic clock. What the balance holds is scaled to the unit of the rate.\<close>

definition unsettled_secs :: "job_state \<Rightarrow> loop_input \<Rightarrow> nat" where
  "unsettled_secs st i = (li_ts i - last_settled st + (li_poll i - li_start i)) div 1000000000"

definition scaled_balance :: "job_state \<Rightarrow> nat" where
  "scaled_balance st = unat (balance st) * 10 ^ 12 mod 2 ^ 256"

lemma solvent_secs_passed:
  assumes "rate st \<noteq> 0"
  shows "unat (solvent_secs st) \<le> k \<longleftrightarrow>
    scaled_balance st < unat (rate st) * (k + 301) \<or> 2 ^ 64 \<le> k + 301"
proof -
  let ?q = "scaled_balance st div unat (rate st)"
  have r: "0 < unat (rate st)" using assms by (simp add: unat_gt_0)
  have "unat (balance st * 10 ^ 12) = scaled_balance st"
    by (simp add: scaled_balance_def unat_word_ariths)
  then have "unat (solvent_secs st) = min ?q (2 ^ 64 - 1) - 300"
    by (simp add: solvent_secs_def width_simps unat_div)
  moreover have "?q < k + 301 \<longleftrightarrow> scaled_balance st < unat (rate st) * (k + 301)"
    using div_less_iff_less_mult [OF r, of "scaled_balance st" "k + 301"] by (simp add: mult.commute)
  ultimately show ?thesis by (auto simp: min_def)
qed

lemma insolvency_duration_passed:
  "insolvency_duration (li_ts i) st \<le> li_poll i - li_start i \<longleftrightarrow>
    rate st = 0 \<or> scaled_balance st < unat (rate st) * (unsettled_secs st i + 301) \<or> 2 ^ 64 \<le> unsettled_secs st i + 301"
proof (cases "rate st = 0")
  case False
  have "insolvency_duration (li_ts i) st \<le> li_poll i - li_start i \<longleftrightarrow>
      unat (solvent_secs st) * 1000000000 \<le> li_ts i - last_settled st + (li_poll i - li_start i)"
    using False by (auto simp: insolvency_duration_def duration_from_secs_def)
  also have "\<dots> \<longleftrightarrow> unat (solvent_secs st) \<le> unsettled_secs st i"
    by (simp add: unsettled_secs_def less_eq_div_iff_mult_less_eq)
  finally show ?thesis using solvent_secs_passed [OF False] False by simp
qed (simp add: insolvency_duration_def duration_from_secs_def)

section \<open>Terminations\<close>

text \<open>An attempt to terminate the instance of a job, as it should be: ask for it, and unless there is none or it is
  going already, stop the very instance that was reported. The flag says whether that was done.\<close>

definition stop_attempt :: "'w infra_provider \<Rightarrow> job_id \<Rightarrow> string \<Rightarrow> 'w \<Rightarrow> bool \<times> 'w" where
  "stop_attempt infra job rg w =
     (case get_job_instance infra job rg w of
        (Inl _, w1) \<Rightarrow> (False, w1)
      | (Inr (exist, i, s), w1) \<Rightarrow>
          if \<not> exist \<or> s \<in> dead_states then (True, w1)
          else (case spin_down infra i job rg w1 of (Inl _, w2) \<Rightarrow> (False, w2) | (Inr _, w2) \<Rightarrow> (True, w2)))"

text \<open>Attempts one after the other up to the first that succeeds, at most so many.\<close>

fun stop_until :: "'w infra_provider \<Rightarrow> job_id \<Rightarrow> string \<Rightarrow> nat \<Rightarrow> 'w \<Rightarrow> bool \<times> 'w" where
  "stop_until infra job rg 0 w = (False, w)"
| "stop_until infra job rg (Suc n) w =
     (case stop_attempt infra job rg w of
        (True, w1) \<Rightarrow> (True, w1) | (False, w1) \<Rightarrow> stop_until infra job rg n w1)"

lemma change_infra_stop:
  assumes "\<not> infra_state st" and "stop_attempt infra (job_id st) (region st) w = (res, w')"
  shows "change_infra infra now st w =
    (res, if res then st\<lparr>infra_change_scheduled := False\<rparr>
          else st\<lparr>infra_change_time := now + duration_from_secs 2\<rparr>, w')"
  using assms
  by (auto simp: stop_attempt_def change_infra_def change_infra_impl_def dead_states_def
      split: prod.splits sum.splits if_splits)

lemma manager_step_exit:
  assumes "manager_step cfg infra st w i = Some (Break 0 st' w')"
  shows "select_branch st i = Some InfraChange \<and> \<not> infra_state st'
    \<and> change_infra infra (li_now i) st w = (True, st', w')"
  using assms by (auto simp: manager_step_def split: option.splits branch.splits prod.splits if_splits)

definition same_job :: "job_state \<Rightarrow> job_state \<Rightarrow> bool" where
  "same_job st st' \<longleftrightarrow> infra_state st' = infra_state st \<and> job_id st' = job_id st \<and> region st' = region st"

lemma launch_new_job: "same_job st (fst (snd (launch_new infra st w)))"
  by (simp add: launch_new_def same_job_def Let_def split: sum.split prod.split)

lemma adopt_instance_job: "same_job st (fst (snd (adopt_instance infra inst st w)))"
  by (simp add: adopt_instance_def same_job_def Let_def split: sum.split prod.split)

lemma change_infra_impl_job: "same_job st (fst (snd (change_infra_impl infra st w)))"
proof -
  have "same_job st st" by (simp add: same_job_def)
  then show ?thesis
    unfolding change_infra_impl_def
    by (simp add: launch_new_job adopt_instance_job split: sum.split prod.split)
qed

lemma change_infra_job: "change_infra infra now st w = (res, st', w') \<Longrightarrow> same_job st st'"
  using change_infra_impl_job [of st infra w]
  by (auto simp: change_infra_def same_job_def split: prod.splits if_splits)

lemma manager_run_exit:
  "manager_run cfg infra st w is = Some (Break 0 st' w') \<Longrightarrow>
    \<exists>pre i post st1 w1. is = pre @ i # post \<and> manager_run cfg infra st w pre = Some (Continue st1 w1)
      \<and> manager_step cfg infra st1 w1 i = Some (Break 0 st' w')"
proof (induction "is" arbitrary: st w)
  case (Cons i rest)
  show ?case
  proof (cases "manager_step cfg infra st w i")
    case (Some x)
    show ?thesis
    proof (cases x)
      case (Continue st1 w1)
      with Cons.prems Some have "manager_run cfg infra st1 w1 rest = Some (Break 0 st' w')" by simp
      from Cons.IH [OF this] obtain pre j post st2 w2 where "rest = pre @ j # post"
          "manager_run cfg infra st1 w1 pre = Some (Continue st2 w2)"
          "manager_step cfg infra st2 w2 j = Some (Break 0 st' w')" by blast
      then show ?thesis using Some Continue by (intro exI [of _ "i # pre"]) auto
    next
      case (Break r st1 w1)
      with Cons.prems Some show ?thesis by (intro exI [of _ "[]"]) auto
    qed
  qed (use Cons.prems in simp)
qed simp

lemma heartbeat_job: "heartbeat_check infra now st w = (st', w') \<Longrightarrow> job_id st' = job_id st"
  by (auto simp: heartbeat_check_def schedule_defs split: prod.splits sum.splits if_splits)

lemma manager_step_job:
  assumes "manager_step cfg infra st w i = Some (Continue st' w')"
  shows "job_id st' = job_id st"
proof (cases "select_branch st i")
  case (Some b)
  show ?thesis
  proof (cases b)
    case (LogReady ol)
    with assms Some show ?thesis
      by (auto simp: manager_step_def dest!: process_log_frame split: option.splits if_splits)
  next
    case Heartbeat
    with assms Some show ?thesis by (auto simp: manager_step_def dest: heartbeat_job split: prod.splits)
  next
    case Insolvency
    with assms Some show ?thesis by (auto simp: manager_step_def handle_insolvency_def schedule_defs)
  next
    case InfraChange
    with assms Some show ?thesis
      by (auto simp: manager_step_def same_job_def dest!: change_infra_job split: prod.splits if_splits)
  qed
qed (use assms in \<open>auto simp: manager_step_def\<close>)

lemma manager_run_job:
  "manager_run cfg infra st w is = Some (Continue st1 w1) \<Longrightarrow> job_id st1 = job_id st"
proof (induction "is" arbitrary: st w)
  case (Cons i rest)
  from Cons.prems obtain st2 w2 where s: "manager_step cfg infra st w i = Some (Continue st2 w2)"
      and r: "manager_run cfg infra st2 w2 rest = Some (Continue st1 w1)"
    by (auto split: option.splits loop_result.splits)
  with Cons.IH [OF r] manager_step_job [OF s] show ?case by simp
qed simp

section \<open>Properties\<close>

text \<open>C21: The event loop of a job ends with the code 0, on which the manager gives the job up, only at the end of a
  termination. With any provider, in whatever world the connection starts and whatever events and failures came
  before: the iteration that ends the loop is one in which a scheduled
  termination is due, and in it the provider was asked for the instance of this job in its region and either
  answered that there is none, or one that is shutting down or terminated, or reported another instance and then
  stopped that very instance without an error. Nothing else is called after that.\<close>

theorem exit_after_termination:
  assumes "job_manager_once cfg infra job now_ts now w is = Some (Break 0 st w')"
  shows "\<exists>pre i post st1 w1. is = pre @ i # post
    \<and> job_manager_once cfg infra job now_ts now w pre = Some (Continue st1 w1)
    \<and> infra_change_scheduled st1 \<and> \<not> infra_state st1 \<and> infra_change_time st1 \<le> li_poll i
    \<and> (\<exists>exist inst state w2. get_job_instance infra job (region st1) w1 = (Inr (exist, inst, state), w2)
        \<and> (if \<not> exist \<or> state = ''shutting-down'' \<or> state = ''terminated'' then w' = w2
           else spin_down infra inst job (region st1) w2 = (Inr (), w')))"
proof -
  from manager_run_exit [OF assms [unfolded job_manager_once_def]] obtain pre i post st1 w1 where
    split: "is = pre @ i # post" "job_manager_once cfg infra job now_ts now w pre = Some (Continue st1 w1)"
    and last: "manager_step cfg infra st1 w1 i = Some (Break 0 st w')"
    unfolding job_manager_once_def by blast
  note e = manager_step_exit [OF last]
  have job: "job_id st1 = job"
    using manager_run_job [OF split(2) [unfolded job_manager_once_def]] by (simp add: job_state_new_def)
  have off: "\<not> infra_state st1" using e change_infra_job [of infra "li_now i" st1 w1] by (auto simp: same_job_def)
  have sel: "infra_change_scheduled st1" "infra_change_time st1 \<le> li_poll i"
    using e by (auto simp: select_infra_change)
  have "\<exists>exist inst state w2. get_job_instance infra job (region st1) w1 = (Inr (exist, inst, state), w2)
      \<and> (if \<not> exist \<or> state = ''shutting-down'' \<or> state = ''terminated'' then w' = w2
         else spin_down infra inst job (region st1) w2 = (Inr (), w'))"
    using e off job
    by (auto simp: change_infra_def change_infra_impl_def split: prod.splits sum.splits if_splits)
  with split off sel show ?thesis by blast
qed

theorem exit_after_termination_witness:
  "\<exists>st w pre i post. job_manager_once sample_config (test_aws_provider sample_hasher) sample_job 0 0 test_aws_new
       [sample_input 1 (Some (Some (sample_log 1 30))), sample_input 4 None,
        sample_input 5 (Some (Some (sample_log 3 0))), sample_input 6 None] = Some (Break 0 st w)
     \<and> pre @ i # post = [sample_input 1 (Some (Some (sample_log 1 30))), sample_input 4 None,
        sample_input 5 (Some (Some (sample_log 3 0))), sample_input 6 None]
     \<and> (\<exists>st1 w1 inst. job_manager_once sample_config (test_aws_provider sample_hasher) sample_job 0 0 test_aws_new pre
          = Some (Continue st1 w1)
        \<and> (ta_instances w1 (jid_id sample_job) = None \<or> spin_down (test_aws_provider sample_hasher) inst sample_job
             (region st1) w1 = (Inr (), w)))"
proof -
  let ?is = "[sample_input 1 (Some (Some (sample_log 1 30))), sample_input 4 None,
        sample_input 5 (Some (Some (sample_log 3 0))), sample_input 6 None]"
  obtain st w where run: "job_manager_once sample_config (test_aws_provider sample_hasher) sample_job 0 0
      test_aws_new ?is = Some (Break 0 st w)"
    by (simp add: manager_eval)
  from exit_after_termination [OF this] obtain pre i post st1 w1 exist inst state w2 where
    e: "?is = pre @ i # post" "job_manager_once sample_config (test_aws_provider sample_hasher) sample_job 0 0
      test_aws_new pre = Some (Continue st1 w1)"
    "get_job_instance (test_aws_provider sample_hasher) sample_job (region st1) w1 = (Inr (exist, inst, state), w2)"
    "if \<not> exist \<or> state = ''shutting-down'' \<or> state = ''terminated'' then w = w2
      else spin_down (test_aws_provider sample_hasher) inst sample_job (region st1) w2 = (Inr (), w)" by blast
  then have "w2 = w1" "exist = (ta_instances w1 (jid_id sample_job) \<noteq> None)" "exist \<Longrightarrow> state = ''running''"
    by (auto simp: ta_defs split: option.splits)
  with e(4) have "ta_instances w1 (jid_id sample_job) = None \<or>
      spin_down (test_aws_provider sample_hasher) inst sample_job (region st1) w1 = (Inr (), w)"
    by (auto split: if_splits)
  with run e(1,2) show ?thesis by metis
qed

text \<open>C9: what it takes to launch. An instance of any job comes to life in an iteration only if the timer
  of a scheduled launch is the branch that fired: the job is the manager's own, the launch is due, and the
  solvency of the job has not run out at the poll.\<close>

theorem launch_only_when_due_and_solvent:
  assumes "infra_service infra ok alive key" and "ok w"
    and "manager_step cfg infra st w i = Some (Continue st' w')"
    and "\<not> alive w j rg" and "alive w' j rg"
  shows "key j = key (job_id st) \<and> infra_change_scheduled st \<and> infra_state st
    \<and> infra_change_time st \<le> li_poll i
    \<and> li_poll i < li_start i + insolvency_duration (li_ts i) st"
proof -
  note m = infra_service.manager_step_continue [OF assms(1,3,2)]
  from m [of j rg j rg] assms(4,5) have "key j = key (job_id st)"
    and s: "select_branch st i = Some InfraChange" and l: "infra_state st" by blast+
  moreover have "infra_change_time st \<le> li_start i + (infra_change_time st - li_start i)" by simp
  ultimately show ?thesis using l s by (auto simp: select_infra_change simp del: le_add_diff_inverse)
qed

theorem launch_only_when_due_and_solvent_witness:
  "\<exists>st st' w'. manager_step sample_config (test_aws_provider sample_hasher) st test_aws_new
       (sample_input 4 None) = Some (Continue st' w') \<and> ta_alive w' sample_job ''ap-south-1''
     \<and> 4000000000 < 4000000000 + insolvency_duration 4000000000 st"
proof -
  let ?st = "sample_state\<lparr>infra_change_scheduled := True, infra_state := True, balance := 1000, rate := 30\<rparr>"
  obtain st' w' where s: "manager_step sample_config (test_aws_provider sample_hasher) ?st test_aws_new
      (sample_input 4 None) = Some (Continue st' w')" and a: "ta_alive w' sample_job ''ap-south-1''"
    by (simp add: manager_eval ta_alive_def)
  with launch_only_when_due_and_solvent [OF ta.infra_service_axioms, OF _ s _ a]
  have "4000000000 < 4000000000 + insolvency_duration 4000000000 ?st"
    by (simp add: ta_alive_def test_aws_new_def sample_input_def)
  with s a show ?thesis by blast
qed

text \<open>C17: A job is given up for insolvency exactly when its balance has run out but for a margin. Let no log be
  ready, no heartbeat be due and no termination be pending. Then the branch that schedules the termination is
  taken at a poll if and only if the rate is 0, or the balance as last settled does not pay, at the rate of the
  job, for 301 seconds more than the whole seconds that have passed since the last settlement, by the clock (or
  those seconds leave 64 bits); the balance is scaled by 10 to the 12 modulo 2 to the 256, and a settlement
  in the future counts as one of now.\<close>

theorem insolvency_deadline:
  assumes "li_log i = None" and "instance_id st = [] \<or> li_poll i < li_start i + duration_from_secs 5"
    and "\<not> infra_change_scheduled st \<or> infra_state st" and "li_start i \<le> li_poll i"
  shows "select_branch st i = Some Insolvency \<longleftrightarrow>
    rate st = 0 \<or> unat (balance st) * 10 ^ 12 mod 2 ^ 256 <
      unat (rate st) * ((li_ts i - last_settled st + (li_poll i - li_start i)) div 1000000000 + 301)
    \<or> 2 ^ 64 \<le> (li_ts i - last_settled st + (li_poll i - li_start i)) div 1000000000 + 301"
proof -
  have "select_branch st i = Some Insolvency \<longleftrightarrow> insolvency_duration (li_ts i) st \<le> li_poll i - li_start i"
    using assms by (auto simp: select_branch_def Let_def)
  then show ?thesis
    by (simp only: insolvency_duration_passed [unfolded unsettled_secs_def scaled_balance_def])
qed

theorem insolvency_deadline_witness:
  "select_branch (sample_state\<lparr>rate := 10 ^ 12, balance := 400, instance_id := []\<rparr>)
      (sample_input 99 None) \<noteq> Some Insolvency
   \<and> select_branch (sample_state\<lparr>rate := 10 ^ 12, balance := 400, instance_id := []\<rparr>)
      (sample_input 100 None) = Some Insolvency"
  using insolvency_deadline [of "sample_input 99 None" "sample_state\<lparr>rate := 10 ^ 12, balance := 400, instance_id := []\<rparr>"]
    insolvency_deadline [of "sample_input 100 None" "sample_state\<lparr>rate := 10 ^ 12, balance := 400, instance_id := []\<rparr>"]
  by (simp add: sample_input_def sample_market_defs)

text \<open>Polls at which neither a log nor a heartbeat is due, each after a time that the one before has set: two seconds
  after the clock of its handler.\<close>

fun retry_polls :: "instant \<Rightarrow> loop_input list \<Rightarrow> bool" where
  "retry_polls due [] = True"
| "retry_polls due (i # is) \<longleftrightarrow> li_log i = None \<and> li_start i \<le> li_poll i \<and> li_poll i < li_start i + duration_from_secs 5
     \<and> due \<le> li_poll i \<and> retry_polls (li_now i + duration_from_secs 2) is"

lemma termination_retried:
  assumes "infra_change_scheduled st" and "\<not> infra_state st" and "retry_polls (infra_change_time st) is"
  shows "\<exists>st'. manager_run cfg infra st w is =
    (case stop_until infra (job_id st) (region st) (length is) w of
       (True, w') \<Rightarrow> Some (Break 0 st' w')
     | (False, w') \<Rightarrow> Some (Continue st' w')) \<and> \<not> infra_state st'
      \<and> infra_change_scheduled st' = (\<not> fst (stop_until infra (job_id st) (region st) (length is) w))"
  using assms
proof (induction "is" arbitrary: st w)
  case Nil
  then show ?case by auto
next
  case (Cons i rest)
  from Cons.prems have sel: "select_branch st i = Some InfraChange" by (auto simp: select_infra_change)
  obtain res w1 where a: "stop_attempt infra (job_id st) (region st) w = (res, w1)" by fastforce
  note c = change_infra_stop [OF Cons.prems(2) a, of "li_now i"]
  show ?case
  proof (cases res)
    case True
    then show ?thesis
      using sel c a Cons.prems(2) by (auto simp: manager_step_def intro!: exI [of _ "st\<lparr>infra_change_scheduled := False\<rparr>"])
  next
    case False
    let ?st = "st\<lparr>infra_change_time := li_now i + duration_from_secs 2\<rparr>"
    have "manager_step cfg infra st w i = Some (Continue ?st w1)"
      using sel c False by (simp add: manager_step_def)
    moreover have "infra_change_scheduled ?st" "\<not> infra_state ?st" "retry_polls (infra_change_time ?st) rest"
      using Cons.prems by simp_all
    note Cons.IH [OF this, of w1]
    ultimately show ?thesis using a False by simp
  qed
qed

text \<open>C22: An insolvent job is terminated, however often the provider fails. Let the branch for insolvency be taken
  at a poll (no log, no heartbeat due, no termination pending, solvency run out), and let at every later poll no
  log be there, no heartbeat be due and the time set for the next try be reached (at once for the first, two
  seconds after a failure). Then, with any provider, each of these polls is an attempt to terminate the job's
  instance, as specified by \<open>stop_attempt\<close>; the first that succeeds ends the loop with the code 0, and as long
  as all fail the loop goes on with the termination still scheduled. In particular the manager exits at the first
  poll if the instance is reported and can be stopped.\<close>

theorem insolvent_job_exits:
  assumes "select_branch st i = Some Insolvency" and "retry_polls (li_now i) is"
  shows "\<exists>st'. manager_run cfg infra st w (i # is) =
    (case stop_until infra (job_id st) (region st) (length is) w of
       (True, w') \<Rightarrow> Some (Break 0 st' w')
     | (False, w') \<Rightarrow> Some (Continue st' w')) \<and> \<not> infra_state st'
      \<and> infra_change_scheduled st' = (\<not> fst (stop_until infra (job_id st) (region st) (length is) w))"
proof -
  let ?st = "handle_insolvency (li_now i) st"
  have "manager_run cfg infra st w (i # is) = manager_run cfg infra ?st w is"
    using assms(1) by (simp add: manager_step_def)
  moreover have "infra_change_scheduled ?st" "\<not> infra_state ?st" "retry_polls (infra_change_time ?st) is"
      "job_id ?st = job_id st" "region ?st = region st"
    using assms(2) by (simp_all add: handle_insolvency_def schedule_defs)
  moreover note termination_retried [OF this(1-3), of cfg infra w]
  ultimately show ?thesis by simp
qed

theorem insolvent_job_exits_witness:
  "\<exists>st' w'. manager_run sample_config (test_aws_provider sample_hasher) (sample_state\<lparr>rate := 0\<rparr>)
      (snd (ta_spin_up sample_hasher sample_job [] [] [] 0 0 0 test_aws_new))
      [sample_input 1 None, sample_input 2 None] = Some (Break 0 st' w')
    \<and> \<not> ta_alive w' sample_job ''ap-south-1''"
proof -
  let ?st = "sample_state\<lparr>rate := 0\<rparr>"
  let ?w = "snd (ta_spin_up sample_hasher sample_job [] [] [] 0 0 0 test_aws_new)"
  have sel: "select_branch ?st (sample_input 1 None) = Some Insolvency"
    by (simp add: manager_eval)
  have polls: "retry_polls (li_now (sample_input 1 None)) [sample_input 2 None]"
    by (simp add: sample_input_def duration_from_secs_def)
  obtain w' where "stop_until (test_aws_provider sample_hasher) (job_id ?st) (region ?st) 1 ?w = (True, w')"
      and "\<not> ta_alive w' sample_job ''ap-south-1''"
    by (simp add: manager_eval stop_attempt_def dead_states_def ta_alive_def)
  with insolvent_job_exits [OF sel polls, of sample_config "test_aws_provider sample_hasher" ?w] show ?thesis by auto
qed

text \<open>The metadata of an update that keeps everything of the job but the address of the image, which is a new one.
  A number of virtual cpus beyond 32 bits counts as 2, a missing debug flag as off, and a family may be missing.\<close>

definition image_update :: "chain_lib \<Rightarrow> bytes \<Rightarrow> job_state \<Rightarrow> string \<Rightarrow> bool" where
  "image_update lib data st url \<longleftrightarrow> (\<exists>m v mem cpu. decode_string lib data = Some m \<and> parse_json lib m = Some v
     \<and> as_str (json_get v ''instance'') = Some (instance_type st) \<and> as_str (json_get v ''region'') = Some (region st)
     \<and> as_i64 (json_get v ''memory'') = Some mem \<and> mem = req_mem st
     \<and> as_i64 (json_get v ''vcpu'') = Some cpu \<and> req_vcpus st = (case i64_to_i32 cpu of Some n \<Rightarrow> n | None \<Rightarrow> 2)
     \<and> as_str (json_get v ''family'') \<in> {None, Some (family st)}
     \<and> (as_bool (json_get v ''debug'') = Some True \<longleftrightarrow> debug st)
     \<and> as_str (json_get v ''url'') = Some url \<and> url \<noteq> eif_url st)"

lemma updated_url_iff:
  assumes "decode_string lib data = Some m" and "parse_json lib m = Some v"
  shows "updated_url v st = Some url \<longleftrightarrow> image_update lib data st url"
  using assms by (auto simp: updated_url_def image_update_def split: option.splits if_splits)

lemma process_metadata_updated_cases:
  "(\<exists>url. image_update lib (log_data l) st url
      \<and> process_metadata_updated lib now l st =
          (0, schedule_launch now (launch_delay st) (st\<lparr>eif_url := url, eif_update := True\<rparr>)))
   \<or> (\<forall>url. \<not> image_update lib (log_data l) st url) \<and> fst (process_metadata_updated lib now l st) = -2"
proof (cases "decode_string lib (log_data l)")
  case (Some m)
  show ?thesis
  proof (cases "parse_json lib m")
    case (Some v)
    show ?thesis
      using updated_url_iff [OF \<open>decode_string lib (log_data l) = Some m\<close> Some, of st] \<open>decode_string lib (log_data l) = Some m\<close> Some
      by (cases "updated_url v st") (auto simp: process_metadata_updated_def)
  qed (use Some in \<open>simp add: process_metadata_updated_def image_update_def\<close>)
qed (simp add: process_metadata_updated_def image_update_def)

text \<open>C33: A metadata update is taken only when it changes the image and nothing else; any other abandons the
  instance. Let the manager, with any provider, have come to a state and a world, and let the next log be an
  update. If the metadata can be read and have the job's instance type, region, memory, cpus, family (if given)
  and debug flag, and another image, then the loop goes on with that image, to be put on the instance after the
  launch delay. In every other case, undecodable data and an unchanged image included, both loops are left at
  once: the manager of the job is gone for good, no connection is made again, and the world, with a running
  instance in it, is left as it was.\<close>

theorem refused_update_abandons_instance:
  assumes "no_collisions (mc_lib cfg)"
    and "manager_run cfg infra (job_state_new now_ts now job (mc_delay cfg) (mc_regions cfg)) w is =
      Some (Continue st w1)"
    and "li_log i = Some (Some l)" and "topic0 l = Some (keccak256 (mc_lib cfg) sig_metadata)"
  shows "(\<forall>url. image_update (mc_lib cfg) (log_data l) st url \<longrightarrow>
      manager_step cfg infra st w1 i = Some (Continue (st\<lparr>eif_url := url, eif_update := True,
        infra_change_scheduled := True, infra_change_time := li_now i + duration_from_secs (launch_delay st),
        infra_state := True\<rparr>) w1))
    \<and> ((\<forall>url. \<not> image_update (mc_lib cfg) (log_data l) st url) \<longrightarrow>
      job_manager cfg infra job b w (Session now_ts now (is @ i # rest) # as) = Some ([], w1, True))"
proof -
  have log: "manager_step cfg infra st w1 i = (case process_metadata_updated (mc_lib cfg) (li_now i) l st of
      (c, st1) \<Rightarrow> if c = -2 \<or> c = -1 then Some (Break c st1 w1) else Some (Continue st1 w1))"
    using assms(3) process_log_metadata [OF assms(1,4)] by (simp add: manager_step_def select_branch_def split: prod.split)
  have unique: "url = url'" if "image_update (mc_lib cfg) (log_data l) st url" "image_update (mc_lib cfg) (log_data l) st url'"
    for url url' using that by (auto simp: image_update_def)
  from process_metadata_updated_cases [of "mc_lib cfg" l st "li_now i"] show ?thesis
  proof (elim disjE exE conjE)
    fix url
    assume "image_update (mc_lib cfg) (log_data l) st url"
      "process_metadata_updated (mc_lib cfg) (li_now i) l st =
          (0, schedule_launch (li_now i) (launch_delay st) (st\<lparr>eif_url := url, eif_update := True\<rparr>))"
    with log unique show ?thesis by (auto simp: schedule_launch_def)
  next
    assume no: "\<forall>url. \<not> image_update (mc_lib cfg) (log_data l) st url"
      and "fst (process_metadata_updated (mc_lib cfg) (li_now i) l st) = -2"
    with log obtain st2 where "manager_step cfg infra st w1 i = Some (Break (-2) st2 w1)"
      by (auto split: prod.splits)
    then have "job_manager_once cfg infra job now_ts now w (is @ i # rest) = Some (Break (-2) st2 w1)"
      using manager_run_append [OF assms(2)] by (simp add: job_manager_once_def)
    with no show ?thesis by simp
  qed
qed

theorem refused_update_abandons_instance_witness:
  "\<exists>w1. job_manager sample_config (test_aws_provider sample_hasher) sample_job 1 test_aws_new
       [Session 0 0 ([sample_input 1 (Some (Some (sample_log 1 30))), sample_input 4 None,
          sample_input 5 (Some (Some (sample_log 9 1))), sample_input 8 None]
          @ [sample_input 9 (Some (Some (sample_log 9 1)))])] = Some ([], w1, True)
     \<and> ta_alive w1 sample_job ''ap-south-1''"
proof -
  let ?is = "[sample_input 1 (Some (Some (sample_log 1 30))), sample_input 4 None,
     sample_input 5 (Some (Some (sample_log 9 1))), sample_input 8 None]"
  obtain st w1 where r: "manager_run sample_config (test_aws_provider sample_hasher)
      (job_state_new 0 0 sample_job (mc_delay sample_config) (mc_regions sample_config)) test_aws_new ?is =
        Some (Continue st w1)"
    and a: "ta_alive w1 sample_job ''ap-south-1''" and u: "updated_url (sample_json ''u2'') st = None"
    by (simp add: manager_eval ta_alive_def i64_to_i32_def)
  have data: "decode_string (mc_lib sample_config) (log_data (sample_log 9 1)) = Some ''m2''"
      "parse_json (mc_lib sample_config) ''m2'' = Some (sample_json ''u2'')"
    by (simp_all add: sample_config_def sample_log_def)
  then have "\<forall>url. \<not> image_update (mc_lib sample_config) (log_data (sample_log 9 1)) st url"
    using updated_url_iff [OF data, of st] u by simp
  with refused_update_abandons_instance [OF _ r, of "sample_input 9 (Some (Some (sample_log 9 1)))"
        "sample_log 9 1" 1 "[]" "[]"] a sample_no_collisions
  show ?thesis
    by (simp add: sample_config_def sample_input_def topic0_def vindex_def sample_log_def)
qed

text \<open>the managers of different jobs do not interfere. Whatever a manager does over all its
  connections, the instances of the other jobs are alive after it exactly if they were before.\<close>

lemma other_jobs_untouched:
  assumes "infra_service infra ok alive key" and "ok w"
    and "job_manager cfg infra job b w as = Some (sleeps, w', exited)" and "key j' \<noteq> key job"
  shows "ok w' \<and> alive w' j' rg' = alive w j' rg'"
  using infra_service.job_manager_others [OF assms(1,3,2)] assms(4) by blast

lemma other_jobs_untouched_witness:
  "\<exists>w'. job_manager sample_config (test_aws_provider sample_hasher) sample_job 1 test_aws_new
       [ConnectError, Session 0 0 [sample_input 1 (Some (Some (sample_log 1 30))), sample_input 4 None]]
       = Some ([1], w', False)
     \<and> ta_alive w' sample_job [] \<and> \<not> ta_alive w' (sample_job\<lparr>jid_id := ''0x06''\<rparr>) []"
proof -
  obtain w' where m: "job_manager sample_config (test_aws_provider sample_hasher) sample_job 1 test_aws_new
       [ConnectError, Session 0 0 [sample_input 1 (Some (Some (sample_log 1 30))), sample_input 4 None]]
       = Some ([1], w', False)" and a: "ta_alive w' sample_job []"
    by (simp add: manager_eval ta_alive_def)
  have "ta_alive w' (sample_job\<lparr>jid_id := ''0x06''\<rparr>) [] = ta_alive test_aws_new (sample_job\<lparr>jid_id := ''0x06''\<rparr>) []"
    using other_jobs_untouched [OF ta.infra_service_axioms, OF _ m] by (simp add: sample_job_def)
  with m a show ?thesis by (auto simp: ta_alive_def test_aws_new_def)
qed

text \<open>the backoff. The sleeps between failed connections double from one second and stay at 128
  seconds, however many fail, and start again at one second once a connection is made.\<close>

lemma connection_backoff:
  "job_manager cfg infra job 1 w (replicate n ConnectError @ as) =
     map_option (\<lambda>(sleeps, r). (map (\<lambda>k. if k < 7 then 2 ^ k else 128) [0..<n] @ sleeps, r))
       (job_manager cfg infra job (if n < 7 then 2 ^ n else 128) w as)"
proof (induction n arbitrary: as)
  case 0
  then show ?case by (simp add: split_beta option.map_ident)
next
  case (Suc n)
  from Suc.IH [of "ConnectError # as"] show ?case
    by (simp add: replicate_app_Cons_same option.map_comp comp_def split_beta backoff_value
        del: power_Suc upt_Suc) (simp add: split_beta)
qed

text \<open>every job gets one manager. If the sessions of the connection loop deliver prefixes of one list
  of jobs, in whatever number and interleaved with failures, the managers spawned are one for each of the
  jobs of the longest session, in order.\<close>

lemma jobs_spawned_once:
  assumes "\<forall>s. RunSession s \<in> set as \<longrightarrow> prefix s jobs"
  shows "snd (run_jobs lib job b 0 as) =
    map (\<lambda>(j, removed). job\<lparr>jid_id := encode_hex lib j\<rparr>) (take (longest_session 0 as) jobs)"
  using run_jobs_spawned [where n = 0 and jobs = jobs] assms by simp

lemma jobs_spawned_once_witness:
  "snd (run_jobs sample_lib sample_job 1 0
      [RunSession [(1, False), (77, False)], RunConnectError, RunSession [(1, False)],
       RunSession [(1, False), (77, False), (3, False)]]) =
    [sample_job\<lparr>jid_id := ''0x00''\<rparr>, sample_job\<lparr>jid_id := ''0x4d''\<rparr>, sample_job\<lparr>jid_id := ''0x00''\<rparr>]"
  using jobs_spawned_once [where jobs = "[(1, False), (77, False), (3, False)]" and lib = sample_lib
      and job = sample_job and b = 1 and as = "[RunSession [(1, False), (77, False)], RunConnectError,
        RunSession [(1, False)], RunSession [(1, False), (77, False), (3, False)]]"]
  by (simp add: sample_lib_def)

text \<open>the stream of a job is its whole history. If the query returns the matching logs up to the cutoff
  and the subscription those from a block not beyond the one after the cutoff, the stream is every matching
  log of the chain, each once and in order, wherever the cutoff falls.\<close>

lemma job_logs_complete:
  assumes "get_block_number client = Some cutoff" and "unat from_block \<le> Suc (unat cutoff)"
    and "\<forall>l \<in> set chain. log_block l \<noteq> None" and "sorted (map (\<lambda>l. unat (the (log_block l))) chain)"
    and "\<forall>f. subscribe_logs client f = Some (filter (\<lambda>l. matches f l \<and> from_block \<le> the (log_block l)) chain)"
    and "\<forall>f. get_logs client f 0 cutoff = Some (filter (\<lambda>l. matches f l \<and> the (log_block l) \<le> cutoff) chain)"
  shows "job_logs lib client contract job = Some (Inr (filter (matches
      \<lparr>ef_address = contract, ef_signatures = map (keccak256 lib) job_signatures,
       ef_topic1 = Some job, ef_topic3 = None\<rparr>) chain))"
proof -
  let ?m = "matches \<lparr>ef_address = contract, ef_signatures = map (keccak256 lib) job_signatures,
       ef_topic1 = Some job, ef_topic3 = None\<rparr>"
  have "beyond_cutoff cutoff (filter (\<lambda>l. ?m l \<and> from_block \<le> the (log_block l)) chain) =
      Some (filter (\<lambda>l. cutoff < the (log_block l)) (filter (\<lambda>l. ?m l \<and> from_block \<le> the (log_block l)) chain))"
    using assms(3) by (intro beyond_cutoff_filter) auto
  moreover have "filter (\<lambda>l. cutoff < the (log_block l)) (filter (\<lambda>l. ?m l \<and> from_block \<le> the (log_block l)) chain) =
      filter (\<lambda>l. ?m l \<and> cutoff < the (log_block l)) chain"
    using assms(2) by (auto simp: word_less_nat_alt word_le_nat_alt intro!: filter_cong)
  moreover have "filter (\<lambda>l. ?m l \<and> the (log_block l) \<le> cutoff) chain @
      filter (\<lambda>l. ?m l \<and> cutoff < the (log_block l)) chain = filter ?m chain"
    using assms(4) by (rule filter_cutoff)
  ultimately show ?thesis
    using assms(1,5,6) by (simp add: job_logs_def log_stream_def)
qed

lemma job_logs_complete_witness:
  "\<exists>client. job_logs sample_lib client 5 7 =
     Some (Inr [(sample_log 1 1)\<lparr>log_block := Some 3\<rparr>, (sample_log 2 1)\<lparr>log_block := Some 4\<rparr>])"
proof -
  let ?chain = "[(sample_log 1 1)\<lparr>log_block := Some 3\<rparr>, (sample_log 2 1)\<lparr>log_block := Some 4\<rparr>]"
  let ?client = "\<lparr>subscribe_logs = (\<lambda>f. Some (filter (\<lambda>l. 2 \<le> the (log_block l)) ?chain)),
    get_block_number = Some 3, get_logs = (\<lambda>f a c. Some (filter (\<lambda>l. the (log_block l) \<le> c) ?chain))\<rparr>"
  show ?thesis
    using job_logs_complete [where client = ?client and cutoff = 3 and from_block = 2 and chain = ?chain
        and matches = "\<lambda>_ _. True" and lib = sample_lib and contract = 5 and job = 7]
    by (intro exI [of _ ?client]) simp
qed

end
