(* ===== verification/Oyster_IO.thy ===== *)
theory Oyster_IO
  imports Oyster_Prelude
begin

text \<open>
  Fallible operations on a world, and the string functions of the Rust standard library the sources use.

  An operation takes a world to a result and a world. \<open>io_bind\<close> is the \<open>?\<close> operator: an error is
  returned at once with the world as it is then. The displayed text of an error is its outermost context.
  Strings are lists of bytes; the white space is the one of ASCII.
\<close>

section \<open>Operations\<close>

type_synonym ('w, 'a) io = "'w \<Rightarrow> 'a rust_result \<times> 'w"

definition io_ok :: "'a \<Rightarrow> ('w, 'a) io" where
  "io_ok x w = (Inr x, w)"

definition io_err :: "string \<Rightarrow> ('w, 'a) io" where
  "io_err e w = (Inl e, w)"

definition io_bind :: "('w, 'a) io \<Rightarrow> ('a \<Rightarrow> ('w, 'b) io) \<Rightarrow> ('w, 'b) io" where
  "io_bind m f w = (case m w of (Inl e, w1) \<Rightarrow> (Inl e, w1) | (Inr x, w1) \<Rightarrow> f x w1)"

definition io_then :: "('w, 'a) io \<Rightarrow> ('w, 'b) io \<Rightarrow> ('w, 'b) io" where
  "io_then m n = io_bind m (\<lambda>_. n)"

definition io_context :: "string \<Rightarrow> ('w, 'a) io \<Rightarrow> ('w, 'a) io" where
  "io_context msg m w = (case m w of (Inl e, w1) \<Rightarrow> (Inl msg, w1) | (Inr x, w1) \<Rightarrow> (Inr x, w1))"

definition io_ok_or :: "string \<Rightarrow> 'a option \<Rightarrow> ('w, 'a) io" where
  "io_ok_or msg x = (case x of None \<Rightarrow> io_err msg | Some y \<Rightarrow> io_ok y)"

definition io_ensure :: "bool \<Rightarrow> string \<Rightarrow> ('w, unit) io" where
  "io_ensure b msg = (if b then io_ok () else io_err msg)"

definition io_when :: "bool \<Rightarrow> ('w, unit) io \<Rightarrow> ('w, unit) io" where
  "io_when b m = (if b then m else io_ok ())"

text \<open>\<open>io_keeps R m\<close>: whatever the result, the world after the operation is related to the one before.\<close>

definition io_keeps :: "('w \<Rightarrow> 'w \<Rightarrow> bool) \<Rightarrow> ('w, 'a) io \<Rightarrow> bool" where
  "io_keeps R m \<longleftrightarrow> (\<forall>w. R w (snd (m w)))"

lemma io_keepsD: "io_keeps R m \<Longrightarrow> m w = (r, w') \<Longrightarrow> R w w'"
  by (auto simp: io_keeps_def dest: spec [of _ w])

text \<open>A relation that is reflexive and transitive is kept by an operation built from operations that
  keep it.\<close>

locale io_relation =
  fixes R :: "'w \<Rightarrow> 'w \<Rightarrow> bool"
  assumes refl: "R w w"
    and trans: "R u v \<Longrightarrow> R v w \<Longrightarrow> R u w"
begin

lemma keeps_pure: "io_keeps R (io_ok x)" "io_keeps R (io_err e)" "io_keeps R (io_ok_or e y)"
    "io_keeps R (io_ensure b e)"
  by (auto simp: io_keeps_def io_ok_def io_err_def io_ok_or_def io_ensure_def refl split: option.split)

lemma keeps_bind:
  assumes "io_keeps R m" and "\<And>x. io_keeps R (f x)"
  shows "io_keeps R (io_bind m f)"
proof -
  have "R w (snd (io_bind m f w))" for w
  proof -
    obtain r w1 where m: "m w = (r, w1)" by fastforce
    with assms(1) have "R w w1" by (rule io_keepsD)
    moreover have "R w1 (snd (f x w1))" for x using assms(2) by (simp add: io_keeps_def)
    ultimately show ?thesis using m by (auto simp: io_bind_def split: sum.split intro: trans)
  qed
  then show ?thesis by (simp add: io_keeps_def)
qed

lemma keeps_then: "io_keeps R m \<Longrightarrow> io_keeps R n \<Longrightarrow> io_keeps R (io_then m n)"
  unfolding io_then_def by (rule keeps_bind)

lemma keeps_context: "io_keeps R m \<Longrightarrow> io_keeps R (io_context msg m)"
  unfolding io_keeps_def io_context_def by (auto split: prod.split sum.split) (metis snd_conv)+

lemma keeps_when: "io_keeps R m \<Longrightarrow> io_keeps R (io_when b m)"
  by (simp add: io_when_def keeps_pure)

lemma keeps_if: "io_keeps R m \<Longrightarrow> io_keeps R n \<Longrightarrow> io_keeps R (if b then m else n)"
  by simp

lemma keeps_pair: "(\<And>a b. io_keeps R (f a b)) \<Longrightarrow> io_keeps R (case_prod f x)"
  by (simp add: split_beta)

lemma keeps_option: "io_keeps R m \<Longrightarrow> (\<And>y. io_keeps R (f y)) \<Longrightarrow> io_keeps R (case_option m f x)"
  by (simp split: option.split)

lemma keeps_list: "io_keeps R m \<Longrightarrow> (\<And>y ys. io_keeps R (f y ys)) \<Longrightarrow> io_keeps R (case_list m f x)"
  by (simp split: list.split)

lemmas keeps = keeps_pure keeps_bind keeps_then keeps_context keeps_when keeps_if keeps_pair
  keeps_option keeps_list

end

text \<open>\<open>io_effect g Q m\<close>: the part \<open>g\<close> of the world before, the result and the part after are related by
  \<open>Q\<close>. If \<open>Q\<close> allows an error to leave the part as it was and does not look at the text of an error, it is
  enough to look at the operations that change the part.\<close>

definition io_effect :: "('w \<Rightarrow> 's) \<Rightarrow> ('s \<Rightarrow> 'a rust_result \<Rightarrow> 's \<Rightarrow> bool) \<Rightarrow> ('w, 'a) io \<Rightarrow> bool" where
  "io_effect g Q m \<longleftrightarrow> (\<forall>w r w'. m w = (r, w') \<longrightarrow> Q (g w) r (g w'))"

definition error_blind :: "('s \<Rightarrow> 'a rust_result \<Rightarrow> 's \<Rightarrow> bool) \<Rightarrow> bool" where
  "error_blind Q \<longleftrightarrow> (\<forall>s e. Q s (Inl e) s) \<and> (\<forall>s s' e e'. Q s (Inl e) s' \<longrightarrow> Q s (Inl e') s')"

lemma io_effectD: "io_effect g Q m \<Longrightarrow> m w = (r, w') \<Longrightarrow> Q (g w) r (g w')"
  by (simp add: io_effect_def)

lemma io_effect_bind:
  assumes "error_blind Q" and "io_keeps (\<lambda>w w'. g w' = g w) m" and "\<And>x. io_effect g Q (f x)"
  shows "io_effect g Q (io_bind m f)"
  unfolding io_effect_def
proof (intro allI impI)
  fix w r w'
  assume run: "io_bind m f w = (r, w')"
  obtain x w1 where m: "m w = (x, w1)" by fastforce
  have same: "g w1 = g w" using io_keepsD [OF assms(2) m] .
  show "Q (g w) r (g w')"
  proof (cases x)
    case (Inl e)
    with run m same assms(1) show ?thesis by (auto simp: io_bind_def error_blind_def)
  next
    case (Inr y)
    with run m have "f y w1 = (r, w')" by (simp add: io_bind_def)
    from io_effectD [OF assms(3) this] same show ?thesis by simp
  qed
qed

lemma io_effect_then:
  "error_blind Q \<Longrightarrow> io_keeps (\<lambda>w w'. g w' = g w) m \<Longrightarrow> io_effect g Q n \<Longrightarrow> io_effect g Q (io_then m n)"
  unfolding io_then_def by (rule io_effect_bind)

lemma io_effect_context: "error_blind Q \<Longrightarrow> io_effect g Q m \<Longrightarrow> io_effect g Q (io_context msg m)"
  unfolding io_effect_def io_context_def error_blind_def by (fastforce split: prod.splits sum.splits)

lemma io_effect_error: "error_blind Q \<Longrightarrow> io_effect g Q (io_err e)"
  by (simp add: io_effect_def io_err_def error_blind_def)

lemma io_effect_if: "io_effect g Q m \<Longrightarrow> io_effect g Q n \<Longrightarrow> io_effect g Q (if b then m else n)"
  by simp

lemma io_effect_pair: "(\<And>a b. io_effect g Q (f a b)) \<Longrightarrow> io_effect g Q (case_prod f x)"
  by (simp add: split_beta)

lemmas io_effect_intros = io_effect_bind io_effect_then io_effect_context io_effect_pair io_effect_error
  io_effect_if

lemma io_bind_Inr:
  "io_bind m f w = (Inr y, w') \<longleftrightarrow> (\<exists>x w1. m w = (Inr x, w1) \<and> f x w1 = (Inr y, w'))"
  by (auto simp: io_bind_def split: prod.splits sum.splits)

lemma io_context_Inr [simp]: "io_context msg m w = (Inr y, w') \<longleftrightarrow> m w = (Inr y, w')"
  by (auto simp: io_context_def split: prod.splits sum.splits)

lemma io_ok_Inr [simp]: "io_ok x w = (Inr y, w') \<longleftrightarrow> x = y \<and> w = w'"
  and io_err_Inr [simp]: "io_err e w \<noteq> (Inr y, w')"
  by (auto simp: io_ok_def io_err_def)

section \<open>Strings\<close>

definition is_space :: "char \<Rightarrow> bool" where
  "is_space c \<longleftrightarrow> c = CHR '' '' \<or> (9 \<le> (of_char c :: nat) \<and> (of_char c :: nat) \<le> 13)"

text \<open>\<open>str::split\<close> on a character, \<open>str::split_whitespace\<close> and \<open>str::trim\<close>.\<close>

fun split_on :: "char \<Rightarrow> string \<Rightarrow> string list" where
  "split_on d [] = [[]]"
| "split_on d (c # cs) =
     (if c = d then [] # split_on d cs
      else (case split_on d cs of [] \<Rightarrow> [[c]] | p # ps \<Rightarrow> (c # p) # ps))"

fun split_words :: "string \<Rightarrow> string \<Rightarrow> string list" where
  "split_words acc [] = (if acc = [] then [] else [rev acc])"
| "split_words acc (c # cs) =
     (if is_space c then (if acc = [] then split_words [] cs else rev acc # split_words [] cs)
      else split_words (c # acc) cs)"

definition split_whitespace :: "string \<Rightarrow> string list" where
  "split_whitespace s = split_words [] s"

definition trim :: "string \<Rightarrow> string" where
  "trim s = rev (dropWhile is_space (rev (dropWhile is_space s)))"

definition ascii_lower :: "char \<Rightarrow> char" where
  "ascii_lower c = (if 65 \<le> (of_char c :: nat) \<and> (of_char c :: nat) \<le> 90 then char_of (of_char c + 32 :: nat) else c)"

text \<open>Decimal numerals.\<close>

fun dec_of_nat :: "nat \<Rightarrow> string" where
  "dec_of_nat n = (if n < 10 then [char_of (48 + n)] else dec_of_nat (n div 10) @ [char_of (48 + n mod 10)])"

declare dec_of_nat.simps [simp del]

definition dec_of_int :: "int \<Rightarrow> string" where
  "dec_of_int i = (if i < 0 then CHR ''-'' # dec_of_nat (nat (- i)) else dec_of_nat (nat i))"

text \<open>\<open>str::parse\<close> for unsigned integers: an optional plus sign and at least one digit.\<close>

definition digit_value :: "char \<Rightarrow> nat option" where
  "digit_value c = (let n = (of_char c :: nat) in if 48 \<le> n \<and> n \<le> 57 then Some (n - 48) else None)"

fun parse_digits :: "nat \<Rightarrow> string \<Rightarrow> nat option" where
  "parse_digits acc [] = Some acc"
| "parse_digits acc (c # cs) =
     (case digit_value c of None \<Rightarrow> None | Some d \<Rightarrow> parse_digits (acc * 10 + d) cs)"

definition parse_nat :: "string \<Rightarrow> nat option" where
  "parse_nat s =
     (let digits = (case s of c # cs \<Rightarrow> if c = CHR ''+'' then cs else s | [] \<Rightarrow> [])
      in if digits = [] then None else parse_digits 0 digits)"

definition parse_u32 :: "string \<Rightarrow> u32 option" where
  "parse_u32 s = (case parse_nat s of None \<Rightarrow> None | Some n \<Rightarrow> if n < 2 ^ 32 then Some (of_nat n) else None)"

text \<open>\<open>str::split_once\<close> on a character.\<close>

fun split_once :: "char \<Rightarrow> string \<Rightarrow> (string \<times> string) option" where
  "split_once d [] = None"
| "split_once d (c # cs) =
     (if c = d then Some ([], cs)
      else (case split_once d cs of None \<Rightarrow> None | Some (a, b) \<Rightarrow> Some (c # a, b)))"

lemma split_once_eq: "split_once d s = Some (a, b) \<longleftrightarrow> s = a @ d # b \<and> d \<notin> set a"
proof (induction s arbitrary: a)
  case Nil
  show ?case by simp
next
  case (Cons c cs)
  show ?case
  proof (cases a)
    case Nil
    then show ?thesis by (auto split: option.split)
  next
    case (Cons x xs)
    then show ?thesis using Cons.IH [of xs] by (cases "split_once d cs") auto
  qed
qed

lemma split_on_not_Nil [simp]: "split_on d s \<noteq> []"
  by (induction s) (auto split: list.split)

lemma dec_of_nat_digits: "c \<in> set (dec_of_nat n) \<Longrightarrow> 48 \<le> (of_char c :: nat) \<and> (of_char c :: nat) \<le> 57"
  by (induction n rule: dec_of_nat.induct) (subst (asm) dec_of_nat.simps, auto split: if_splits)

lemma split_whitespace_first: 
  assumes "split_whitespace s = w # ws"
  shows "w \<noteq> [] \<and> list_all (\<lambda>c. \<not> is_space c) w"
proof -
  have "list_all (\<lambda>c. \<not> is_space c) acc \<Longrightarrow> split_words acc s = w # ws \<Longrightarrow>
      w \<noteq> [] \<and> list_all (\<lambda>c. \<not> is_space c) w" for acc
    by (induction acc s rule: split_words.induct) (auto split: if_splits)
  from this [of "[]"] assms show ?thesis by (simp add: split_whitespace_def)
qed

lemma digit_value_dec: "d < 10 \<Longrightarrow> digit_value (char_of (48 + d)) = Some d"
  by (simp add: digit_value_def Let_def)

lemma parse_dec: "parse_digits acc (dec_of_nat n @ s) = parse_digits (acc * 10 ^ length (dec_of_nat n) + n) s"
proof (induction n arbitrary: acc s rule: dec_of_nat.induct)
  case (1 n)
  show ?case
  proof (cases "n < 10")
    case True
    then show ?thesis
      by (subst (1 2) dec_of_nat.simps) (simp add: digit_value_dec)
  next
    case False
    have d: "dec_of_nat n = dec_of_nat (n div 10) @ [char_of (48 + n mod 10)]"
      using False by (subst dec_of_nat.simps) simp
    have "parse_digits acc (dec_of_nat n @ s) =
        parse_digits (acc * 10 ^ length (dec_of_nat (n div 10)) + n div 10) (char_of (48 + n mod 10) # s)"
      using "1.IH" [OF False] by (simp add: d)
    also have "\<dots> = parse_digits ((acc * 10 ^ length (dec_of_nat (n div 10)) + n div 10) * 10 + n mod 10) s"
      by (simp add: digit_value_dec)
    also have "(acc * 10 ^ length (dec_of_nat (n div 10)) + n div 10) * 10 + n mod 10 =
        acc * 10 ^ length (dec_of_nat n) + n"
      by (simp add: d algebra_simps)
    finally show ?thesis .
  qed
qed

lemma dec_of_nat_not_Nil: "dec_of_nat n \<noteq> []"
  by (subst dec_of_nat.simps) simp

lemma parse_nat_dec: "parse_nat (dec_of_nat n) = Some n"
proof -
  obtain c cs where c: "dec_of_nat n = c # cs" using dec_of_nat_not_Nil [of n] by (cases "dec_of_nat n") auto
  then have "48 \<le> (of_char c :: nat)" using dec_of_nat_digits [of c n] by simp
  then have "c \<noteq> CHR ''+''" by auto
  with c parse_dec [of 0 n "[]"] show ?thesis by (simp add: parse_nat_def)
qed

lemma dec_of_nat_inj: "dec_of_nat m = dec_of_nat n \<longleftrightarrow> m = n"
  using parse_nat_dec by (metis option.inject)

end
