(* ===== verification/CP_Ec2.thy ===== *)
theory CP_Ec2
  imports Oyster_IO CP_Market "HOL-Library.Char_ord" "HOL-Library.List_Lexorder" "HOL-Library.Option_ord"
begin

text \<open>
  The EC2 operations of the control plane (\<open>operator/control-plane/src/aws.rs\<close>): finding the instance and
  the elastic address of a job by its tags, launching and terminating an instance, and the order in which
  addresses are allocated, associated, disassociated and released.

  The calls of the AWS client and of the SSH session are the fields of \<open>aws_api\<close>, a parameter. A region
  stands for the client of that region; the panic for a region without one is in CP_Regions. The wait of 100
  seconds after a launch is left out.
\<close>

section \<open>The AWS client\<close>

record ec2_instance =
  in_id :: "string option"
  in_state :: "string option option"
  in_ip :: "string option"

record ec2_address =
  ad_alloc :: "string option"
  ad_ip :: "string option"
  ad_assoc :: "string option"

record ec2_type =
  ty_architectures :: "string list option"
  ty_vcpus :: "i32 option option"
  ty_memory :: "i64 option option"

record ec2_image =
  img_name :: "string option"
  img_id :: "string option"

type_synonym tags = "(string \<times> string) list"

record run_request =
  rq_image :: string
  rq_type :: string
  rq_key :: string
  rq_volume :: nat
  rq_enclave :: bool
  rq_tags :: tags
  rq_group :: string
  rq_subnet :: string

record 'w aws_api =
  parse_instance_type :: "string \<Rightarrow> string option"
  describe_instances :: "string \<Rightarrow> tags \<Rightarrow> ('w, ec2_instance list list) io"
  describe_addresses :: "string \<Rightarrow> tags \<Rightarrow> ('w, ec2_address list) io"
  describe_instance_types :: "string \<Rightarrow> string \<Rightarrow> ('w, ec2_type list) io"
  describe_images :: "string \<Rightarrow> string \<Rightarrow> tags \<Rightarrow> ('w, ec2_image list) io"
  describe_security_groups :: "string \<Rightarrow> tags \<Rightarrow> ('w, string option list) io"
  describe_subnets :: "string \<Rightarrow> tags \<Rightarrow> ('w, string option list) io"
  run_instances :: "string \<Rightarrow> run_request \<Rightarrow> ('w, ec2_instance list) io"
  terminate_instances :: "string \<Rightarrow> string \<Rightarrow> ('w, unit) io"
  aws_allocate_address :: "string \<Rightarrow> tags \<Rightarrow> ('w, ec2_address) io"
  aws_associate_address :: "string \<Rightarrow> string \<Rightarrow> string \<Rightarrow> ('w, unit) io"
  aws_disassociate_address :: "string \<Rightarrow> string \<Rightarrow> ('w, unit) io"
  aws_release_address :: "string \<Rightarrow> string \<Rightarrow> ('w, unit) io"
  ssh_connect :: "string \<Rightarrow> ('w, string) io"
  ssh_exec :: "string \<Rightarrow> string \<Rightarrow> ('w, string \<times> string) io"
  parse_enclaves :: "string \<Rightarrow> (string \<times> json) list list option"

record aws_config =
  key_name :: string
  eif_whitelist :: "string list option"
  eif_blacklist :: "string list option"

definition first :: "'a list \<Rightarrow> 'a option" where
  "first xs = (case xs of [] \<Rightarrow> None | x # _ \<Rightarrow> Some x)"

definition job_filters :: "job_id \<Rightarrow> tags" where
  "job_filters job = [(''tag:jobId'', jid_id job), (''tag:operator'', jid_operator job),
     (''tag:contractAddress'', jid_contract job), (''tag:chainID'', jid_chain job)]"

section \<open>Queries\<close>

text \<open>The first instance of the first reservation with the given instance id.\<close>

definition find_instance :: "'w aws_api \<Rightarrow> string \<Rightarrow> string \<Rightarrow> ('w, ec2_instance) io" where
  "find_instance api inst_id rg =
     io_bind (io_context ''could not describe instances''
         (describe_instances api rg [(''instance-id'', inst_id)])) (\<lambda>reservations.
     io_bind (io_ok_or ''no reservation found'' (first reservations)) (\<lambda>instances.
     io_ok_or ''no instances with the given id'' (first instances)))"

definition get_instance_ip :: "'w aws_api \<Rightarrow> string \<Rightarrow> string \<Rightarrow> ('w, string) io" where
  "get_instance_ip api inst_id rg =
     io_bind (find_instance api inst_id rg) (\<lambda>inst.
     io_ok_or ''could not parse ip address'' (in_ip inst))"

definition get_instance_state :: "'w aws_api \<Rightarrow> string \<Rightarrow> string \<Rightarrow> ('w, string) io" where
  "get_instance_state api inst_id rg =
     io_bind (find_instance api inst_id rg) (\<lambda>inst.
     io_bind (io_ok_or ''could not parse instance state'' (in_state inst)) (\<lambda>state.
     io_ok_or ''could not parse instance state name'' state))"

definition get_job_instance_id ::
    "'w aws_api \<Rightarrow> job_id \<Rightarrow> string \<Rightarrow> ('w, bool \<times> string \<times> string) io" where
  "get_job_instance_id api job rg =
     io_bind (io_context ''could not describe instances''
         (describe_instances api rg (job_filters job))) (\<lambda>reservations.
     case reservations of
       [] \<Rightarrow> io_ok (False, [], [])
     | instances # _ \<Rightarrow>
         io_bind (io_ok_or ''instance not found'' (first instances)) (\<lambda>inst.
         io_bind (io_ok_or ''could not parse ip address'' (in_id inst)) (\<lambda>i.
         io_bind (io_ok_or ''could not parse instance state'' (in_state inst)) (\<lambda>state.
         io_bind (io_ok_or ''could not parse instance state name'' state) (\<lambda>name.
         io_ok (True, i, name))))))"

text \<open>\<open>Iterator::max_by_key\<close>: the last of the images with the greatest name.\<close>

definition max_image :: "ec2_image list \<Rightarrow> ec2_image option" where
  "max_image imgs =
     foldl (\<lambda>best x. case best of None \<Rightarrow> Some x
              | Some b \<Rightarrow> if img_name x < img_name b then Some b else Some x) None imgs"

definition ami_name :: "string \<Rightarrow> string \<Rightarrow> string" where
  "ami_name fam arch = ''marlin/oyster/worker-'' @ fam @ ''-'' @ arch @ ''-????????''"

definition get_community_amis :: "'w aws_api \<Rightarrow> string \<Rightarrow> string \<Rightarrow> string \<Rightarrow> ('w, string) io" where
  "get_community_amis api rg fam arch =
     io_bind (io_context ''could not describe images''
         (describe_images api rg ''753722448458'' [(''name'', ami_name fam arch)])) (\<lambda>images.
     io_bind (io_ok_or ''no images found'' (max_image images)) (\<lambda>img.
     io_ok_or ''could not parse image id'' (img_id img)))"

definition get_amis :: "'w aws_api \<Rightarrow> string \<Rightarrow> string \<Rightarrow> string \<Rightarrow> ('w, string) io" where
  "get_amis api rg fam arch =
     io_bind (io_context ''could not describe images''
         (describe_images api rg ''self'' [(''tag:project'', ''oyster''), (''name'', ami_name fam arch)]))
       (\<lambda>images.
     case max_image images of
       Some img \<Rightarrow> io_ok_or ''could not parse image id'' (img_id img)
     | None \<Rightarrow> io_context ''could not get community ami'' (get_community_amis api rg fam arch))"

definition get_security_group :: "'w aws_api \<Rightarrow> string \<Rightarrow> ('w, string) io" where
  "get_security_group api rg =
     io_bind (io_context ''could not describe security groups''
         (describe_security_groups api rg [(''tag:project'', ''oyster'')])) (\<lambda>groups.
     io_bind (io_ok_or ''no security group found'' (first groups)) (\<lambda>g.
     io_ok_or ''could not parse group id'' g))"

definition get_subnet :: "'w aws_api \<Rightarrow> string \<Rightarrow> ('w, string) io" where
  "get_subnet api rg =
     io_bind (io_context ''could not describe subnets''
         (describe_subnets api rg [(''tag:project'', ''oyster'')])) (\<lambda>subnets.
     io_bind (io_ok_or ''no subnet found'' (first subnets)) (\<lambda>s.
     io_ok_or ''Could not parse subnet id'' s))"

section \<open>Launching and terminating\<close>

definition job_tags :: "job_id \<Rightarrow> tags" where
  "job_tags job = [(''managedBy'', ''marlin''), (''project'', ''oyster''), (''jobId'', jid_id job),
     (''operator'', jid_operator job), (''contractAddress'', jid_contract job), (''chainID'', jid_chain job)]"

definition launch_instance ::
    "'w aws_api \<Rightarrow> aws_config \<Rightarrow> job_id \<Rightarrow> string \<Rightarrow> string \<Rightarrow> string \<Rightarrow> string \<Rightarrow> ('w, string) io" where
  "launch_instance api cfg job ty fam arch rg =
     io_bind (io_context ''could not get amis'' (get_amis api rg fam arch)) (\<lambda>ami.
     io_bind (io_context ''could not get subnet'' (get_subnet api rg)) (\<lambda>subnet.
     io_bind (io_context ''could not get subnet'' (get_security_group api rg)) (\<lambda>sec_group.
     io_bind (io_context ''could not run instance''
         (run_instances api rg
            \<lparr>rq_image = ami, rq_type = ty, rq_key = key_name cfg, rq_volume = 12, rq_enclave = True,
             rq_tags = (''Name'', ''JobRunner'') # job_tags job,
             rq_group = sec_group, rq_subnet = subnet\<rparr>)) (\<lambda>instances.
     io_bind (io_ok_or ''no instance found'' (first instances)) (\<lambda>inst.
     io_ok_or ''could not parse group id'' (in_id inst))))))"

definition terminate_instance :: "'w aws_api \<Rightarrow> string \<Rightarrow> string \<Rightarrow> ('w, unit) io" where
  "terminate_instance api inst_id rg =
     io_context ''could not terminate instance'' (terminate_instances api rg inst_id)"

definition get_job_elastic_ip ::
    "'w aws_api \<Rightarrow> job_id \<Rightarrow> string \<Rightarrow> ('w, bool \<times> string \<times> string) io" where
  "get_job_elastic_ip api job rg =
     io_bind (io_context ''could not describe elastic ips''
         (describe_addresses api rg (job_filters job))) (\<lambda>addrs.
     case first addrs of
       None \<Rightarrow> io_ok (False, [], [])
     | Some a \<Rightarrow>
         io_bind (io_ok_or ''could not parse allocation id'' (ad_alloc a)) (\<lambda>alloc.
         io_bind (io_ok_or ''could not parse public ip'' (ad_ip a)) (\<lambda>ip.
         io_ok (True, alloc, ip))))"

definition get_instance_elastic_ip ::
    "'w aws_api \<Rightarrow> string \<Rightarrow> string \<Rightarrow> ('w, bool \<times> string \<times> string) io" where
  "get_instance_elastic_ip api inst rg =
     io_bind (io_context ''could not describe elastic ips''
         (describe_addresses api rg [(''instance-id'', inst)])) (\<lambda>addrs.
     case first addrs of
       None \<Rightarrow> io_ok (False, [], [])
     | Some a \<Rightarrow>
         io_bind (io_ok_or ''could not parse allocation id'' (ad_alloc a)) (\<lambda>alloc.
         io_bind (io_ok_or ''could not parse public ip'' (ad_assoc a)) (\<lambda>assoc.
         io_ok (True, alloc, assoc))))"

definition allocate_ip_addr :: "'w aws_api \<Rightarrow> job_id \<Rightarrow> string \<Rightarrow> ('w, string \<times> string) io" where
  "allocate_ip_addr api job rg =
     io_bind (io_context ''could not get elastic ip for job'' (get_job_elastic_ip api job rg))
       (\<lambda>(exist, alloc_id, public_ip).
     if exist then io_ok (alloc_id, public_ip)
     else
       io_bind (io_context ''could not allocate elastic ip''
           (aws_allocate_address api rg (job_tags job))) (\<lambda>resp.
       io_bind (io_ok_or ''could not parse allocation id'' (ad_alloc resp)) (\<lambda>alloc.
       io_bind (io_ok_or ''could not parse public ip'' (ad_ip resp)) (\<lambda>ip.
       io_ok (alloc, ip)))))"

definition associate_address :: "'w aws_api \<Rightarrow> string \<Rightarrow> string \<Rightarrow> string \<Rightarrow> ('w, unit) io" where
  "associate_address api inst_id alloc_id rg =
     io_context ''could not associate elastic ip'' (aws_associate_address api rg alloc_id inst_id)"

definition disassociate_address :: "'w aws_api \<Rightarrow> string \<Rightarrow> string \<Rightarrow> ('w, unit) io" where
  "disassociate_address api association_id rg =
     io_context ''could not disassociate elastic ip'' (aws_disassociate_address api rg association_id)"

definition release_address :: "'w aws_api \<Rightarrow> string \<Rightarrow> string \<Rightarrow> ('w, unit) io" where
  "release_address api alloc_id rg =
     io_context ''could not release elastic ip'' (aws_release_address api rg alloc_id)"

definition post_spin_up :: "'w aws_api \<Rightarrow> job_id \<Rightarrow> string \<Rightarrow> string \<Rightarrow> ('w, unit) io" where
  "post_spin_up api job inst rg =
     io_bind (io_context ''error allocating ip address'' (allocate_ip_addr api job rg)) (\<lambda>(alloc_id, ip).
     io_context ''could not associate ip address'' (associate_address api inst alloc_id rg))"

definition spin_down_instance :: "'w aws_api \<Rightarrow> string \<Rightarrow> job_id \<Rightarrow> string \<Rightarrow> ('w, unit) io" where
  "spin_down_instance api inst_id job rg =
     io_bind (io_context ''could not get elastic ip of instance'' (get_instance_elastic_ip api inst_id rg))
       (\<lambda>(exist, _, association_id).
     io_then (io_when exist
         (io_context ''could not disassociate address'' (disassociate_address api association_id rg)))
     (io_bind (io_context ''could not get elastic ip of job'' (get_job_elastic_ip api job rg))
       (\<lambda>(exist, alloc_id, _).
     io_then (io_when exist
         (io_context ''could not release address'' (release_address api alloc_id rg)))
     (io_context ''could not terminate instance'' (terminate_instance api inst_id rg)))))"

text \<open>The architecture, the virtual cpus and the memory of the last type of the reply, from the defaults
  of the source.\<close>

fun type_specs :: "ec2_type list \<Rightarrow> string \<times> i32 \<times> i64 \<Rightarrow> ('w, string \<times> i32 \<times> i64) io" where
  "type_specs [] specs = io_ok specs"
| "type_specs (t # ts) (arch, v_cpus, mem) =
     io_bind (io_ok_or ''error fetching instance processor info'' (ty_architectures t)) (\<lambda>archs.
     let arch1 = (case archs of [] \<Rightarrow> arch
                    | a # _ \<Rightarrow> if a = ''x86_64'' then ''amd64'' else ''arm64'') in
     io_bind (io_ok_or ''error fetching instance v_cpu info'' (ty_vcpus t)) (\<lambda>vi.
     io_bind (io_ok_or ''error fetching instance v_cpu info'' vi) (\<lambda>v_cpus1.
     io_bind (io_ok_or ''error fetching instance memory info'' (ty_memory t)) (\<lambda>mi.
     io_bind (io_ok_or ''error fetching instance v_cpu info'' mi) (\<lambda>mem1.
     type_specs ts (arch1, v_cpus1, mem1))))))"

definition spin_up_instance ::
    "'w aws_api \<Rightarrow> aws_config \<Rightarrow> job_id \<Rightarrow> string \<Rightarrow> string \<Rightarrow> string \<Rightarrow> i64 \<Rightarrow> i32 \<Rightarrow> ('w, string) io" where
  "spin_up_instance api cfg job ity fam rg rmem rcpu =
     io_bind (io_ok_or ''cannot parse instance type'' (parse_instance_type api ity)) (\<lambda>ty.
     io_bind (io_context ''could not describe instance types'' (describe_instance_types api rg ty))
       (\<lambda>types.
     io_bind (type_specs types (''amd64'', 4, 8192)) (\<lambda>(arch, v_cpus, mem).
     if sint mem < sint rmem \<or> sint v_cpus < sint rcpu
     then io_err ''Required memory or vcpus are more than available''
     else
       io_bind (io_context ''could not launch instance'' (launch_instance api cfg job ty fam arch rg))
         (\<lambda>inst w.
       case post_spin_up api job inst rg w of
         (Inr _, w1) \<Rightarrow> (Inr inst, w1)
       | (Inl _, w1) \<Rightarrow>
           (case spin_down_instance api inst job rg w1 of
              (Inl _, w2) \<Rightarrow> (Inl ''could not spin down instance after error during post spin up'', w2)
            | (Inr _, w2) \<Rightarrow> (Inl ''error during post spin up'', w2))))))"

definition aws_get_job_ip :: "'w aws_api \<Rightarrow> job_id \<Rightarrow> string \<Rightarrow> ('w, string) io" where
  "aws_get_job_ip api job rg =
     io_bind (io_context ''could not get instance id for job instance ip''
         (io_context ''could not get instance id for job'' (get_job_instance_id api job rg)))
       (\<lambda>(exist, inst, state).
     if \<not> exist then io_err (''Instance not found for job - '' @ jid_id job)
     else
       io_bind (io_context ''could not get instance ip'' (get_instance_ip api inst rg)) (\<lambda>instance_ip.
       io_bind (io_context ''could not get job elastic ip'' (get_job_elastic_ip api job rg))
         (\<lambda>(found, _, elastic_ip).
       if found \<and> instance_ip = elastic_ip then io_ok instance_ip
       else io_err ''Instance is still initializing'')))"

end
