(* ===== verification/CP_Ssh.thy ===== *)
theory CP_Ssh
  imports CP_Ec2
begin

text \<open>
  The remote set-up of an enclave (\<open>operator/control-plane/src/aws.rs\<close>): the commands \<open>run_enclave_salmon\<close>,
  \<open>run_enclave_tuna\<close> and \<open>update_enclave_image_impl\<close> run over SSH on the instance of a job, with the checks
  between them. A command and its output are strings; the session is the address it is connected to.
\<close>

section \<open>Commands\<close>

abbreviation nl :: char where "nl \<equiv> CHR 0x0A"
abbreviation dq :: char where "dq \<equiv> CHR 0x22"
abbreviation sq :: char where "sq \<equiv> CHR 0x27"
abbreviation backslash :: char where "backslash \<equiv> CHR 0x5C"

definition show_i64 :: "i64 \<Rightarrow> string" where "show_i64 x = dec_of_int (sint x)"
definition show_i32 :: "i32 \<Rightarrow> string" where "show_i32 x = dec_of_int (sint x)"
definition show_u64 :: "u64 \<Rightarrow> string" where "show_u64 x = dec_of_nat (unat x)"

definition allocator_cmd :: "i64 \<Rightarrow> i32 \<Rightarrow> string" where
  "allocator_cmd rmem rcpu =
     ''echo -e '' @ [sq] @ ''---'' @ [backslash] @ ''nmemory_mib: '' @ show_i64 rmem @
     [backslash] @ ''ncpu_count: '' @ show_i32 rcpu @ [sq] @ '' | sudo tee /etc/nitro_enclaves/allocator.yaml''"

definition restart_allocator_cmd :: string where
  "restart_allocator_cmd = ''sudo systemctl restart nitro-enclaves-allocator.service''"

definition download_cmd :: "string \<Rightarrow> string" where
  "download_cmd url = ''curl -sL -o enclave.eif --max-filesize 4000000000 --max-time 120 '' @ url"

definition hash_cmd :: string where
  "hash_cmd = ''sha256sum /home/ubuntu/enclave.eif''"

definition store_url_cmd :: "string \<Rightarrow> string" where
  "store_url_cmd url = ''echo '' @ [dq] @ url @ [dq] @ '' > image_url.txt''"

definition run_cmd :: "i64 \<Rightarrow> i32 \<Rightarrow> bool \<Rightarrow> string" where
  "run_cmd rmem rcpu dbg =
     ''nitro-cli run-enclave --cpu-count '' @ show_i32 rcpu @ '' --memory '' @ show_i64 rmem @
     '' --eif-path enclave.eif --enclave-cid 88'' @ (if dbg then '' --debug-mode'' else [])"

section \<open>Running commands\<close>

text \<open>A command whose output on the error stream is an error; and one that must also print something.\<close>

definition no_stderr :: "string \<Rightarrow> ('w, string \<times> string) io \<Rightarrow> ('w, string) io" where
  "no_stderr msg m = io_bind m (\<lambda>(out, err). if err \<noteq> [] then io_err (msg @ err) else io_ok out)"

definition some_stdout :: "string \<Rightarrow> ('w, string \<times> string) io \<Rightarrow> ('w, string) io" where
  "some_stdout msg m =
     io_bind m (\<lambda>(out, err). if err \<noteq> [] \<or> out = [] then io_err (msg @ err) else io_ok out)"

definition ssh_session :: "'w aws_api \<Rightarrow> string \<Rightarrow> string \<Rightarrow> ('w, string) io" where
  "ssh_session api inst_id rg =
     io_bind (io_context ''could not fetch instance ip'' (get_instance_ip api inst_id rg)) (\<lambda>ip.
     io_context ''error establishing ssh connection'' (ssh_connect api (ip @ '':22'')))"

text \<open>The lists of allowed and refused images hold an entry that contains the hash of the image.\<close>

definition hash_allowed :: "aws_config \<Rightarrow> string \<Rightarrow> bool" where
  "hash_allowed cfg line \<longleftrightarrow>
     (case eif_whitelist cfg of Some l \<Rightarrow> list_ex (\<lambda>entry. str_contains entry line) l | None \<Rightarrow> True)
   \<and> (case eif_blacklist cfg of Some l \<Rightarrow> \<not> list_ex (\<lambda>entry. str_contains entry line) l | None \<Rightarrow> True)"

definition check_eif_blacklist_whitelist :: "'w aws_api \<Rightarrow> aws_config \<Rightarrow> string \<Rightarrow> ('w, bool) io" where
  "check_eif_blacklist_whitelist api cfg sess =
     (if eif_whitelist cfg \<noteq> None \<or> eif_blacklist cfg \<noteq> None then
        io_bind (no_stderr ''Error calculating hash of enclave image: ''
            (io_context ''Failed to calculate image hash'' (ssh_exec api sess hash_cmd))) (\<lambda>out.
        io_bind (io_ok_or (''Failed to retrieve image hash: '' @ out) (first (split_whitespace out))) (\<lambda>line.
        io_ok (hash_allowed cfg line)))
      else io_ok True)"

text \<open>The steps both families share, up to the network: the allocator, the image and its check.\<close>

definition set_allocator :: "'w aws_api \<Rightarrow> string \<Rightarrow> i64 \<Rightarrow> i32 \<Rightarrow> ('w, string) io" where
  "set_allocator api sess rmem rcpu =
     io_then (io_context ''Failed to set allocator file'' (ssh_exec api sess (allocator_cmd rmem rcpu)))
     (no_stderr ''Error restarting nitro-enclaves-allocator service: ''
        (io_context ''Failed to restart allocator service'' (ssh_exec api sess restart_allocator_cmd)))"

definition fetch_image :: "'w aws_api \<Rightarrow> aws_config \<Rightarrow> string \<Rightarrow> string \<Rightarrow> ('w, unit) io" where
  "fetch_image api cfg sess url =
     io_then (io_context ''Failed to download enclave image'' (ssh_exec api sess (download_cmd url)))
     (io_bind (io_context ''Failed to retrieve image hash'' (check_eif_blacklist_whitelist api cfg sess))
       (\<lambda>allowed.
      io_then (io_ensure allowed ''EIF NOT ALLOWED'')
      (io_then (io_context ''Failed to write EIF URL to txt file.'' (ssh_exec api sess (store_url_cmd url)))
      (io_ok ()))))"

definition find_interface :: "string \<Rightarrow> string" where
  "find_interface out =
     (case find (\<lambda>line. 1 < length (split_whitespace line) \<and> split_whitespace line ! 1 = ''ethernet'')
             (split_on nl out) of
        None \<Rightarrow> []
      | Some line \<Rightarrow> hd (split_whitespace line))"

definition any_rule_set :: "string \<Rightarrow> bool" where
  "any_rule_set out =
     (let entries = split_on nl (trim out)
      in \<not> (str_contains (map ascii_lower (hd entries)) ''qdisc mq 0: root'' \<and> length entries = 1))"

definition limit_bandwidth :: "'w aws_api \<Rightarrow> string \<Rightarrow> u64 \<Rightarrow> ('w, unit) io" where
  "limit_bandwidth api sess bw =
     io_bind (some_stdout ''Error fetching network interface name: ''
         (io_context ''Failed to get nmcli status'' (ssh_exec api sess ''nmcli device status''))) (\<lambda>out.
     let interface = find_interface out in
     if interface = [] then io_err ''Error fetching network interface name''
     else
       io_bind (some_stdout ''Error fetching network interface qdisc configuration: ''
           (io_context ''Failed to fetch tc config''
              (ssh_exec api sess (''sudo tc qdisc show dev '' @ interface @ '' root'')))) (\<lambda>tc.
       io_then (io_when (any_rule_set tc)
           (io_then (no_stderr ''Error removing network interface qdisc configuration: ''
              (ssh_exec api sess (''sudo tc qdisc del dev '' @ interface @ '' root''))) (io_ok ())))
       (io_then (no_stderr ''Error setting up bandwidth limit: ''
          (ssh_exec api sess (''sudo tc qdisc add dev '' @ interface @ '' root tbf rate '' @ show_u64 bw @
             ''kbit burst 4000Mb latency 100ms''))) (io_ok ()))))"

text \<open>A firewall rule is added unless the listing has it. The first line of the listing must be the
  policy of the chain.\<close>

definition add_rule :: "'w aws_api \<Rightarrow> string \<Rightarrow> string list \<Rightarrow> string \<times> string \<Rightarrow> ('w, unit) io" where
  "add_rule api sess present rule =
     io_when (fst rule \<notin> set present)
       (io_then (no_stderr ''Failed to set iptables rule: ''
          (io_context ''Failed to set iptables rule'' (ssh_exec api sess (snd rule)))) (io_ok ()))"

fun add_rules :: "'w aws_api \<Rightarrow> string \<Rightarrow> string list \<Rightarrow> (string \<times> string) list \<Rightarrow> ('w, unit) io" where
  "add_rules api sess present [] = io_ok ()"
| "add_rules api sess present (r # rs) = io_then (add_rule api sess present r) (add_rules api sess present rs)"

definition setup_iptables ::
    "'w aws_api \<Rightarrow> string \<Rightarrow> string \<Rightarrow> string \<Rightarrow> (string \<times> string) list \<Rightarrow> ('w, unit) io" where
  "setup_iptables api sess query policy rules =
     io_bind (some_stdout ''Failed to get iptables rules: ''
         (io_context ''Failed to query iptables'' (ssh_exec api sess query))) (\<lambda>out.
     let present = map trim (split_on nl (trim out)) in
     io_then (io_ensure (hd present = policy) ''Failed to get PREROUTING ACCEPT rules'')
     (add_rules api sess present rules))"

definition salmon_rules :: "(string \<times> string) list" where
  "salmon_rules =
     [(''-A PREROUTING -i ens5 -p tcp -m tcp --dport 80 -j REDIRECT --to-ports 1200'',
       ''sudo iptables -A PREROUTING -t nat -p tcp --dport 80 -i ens5 -j REDIRECT --to-port 1200''),
      (''-A PREROUTING -i ens5 -p tcp -m tcp --dport 443 -j REDIRECT --to-ports 1200'',
       ''sudo iptables -A PREROUTING -t nat -p tcp --dport 443 -i ens5 -j REDIRECT --to-port 1200''),
      (''-A PREROUTING -i ens5 -p tcp -m tcp --dport 1025:65535 -j REDIRECT --to-ports 1200'',
       ''sudo iptables -A PREROUTING -t nat -p tcp --dport 1025:65535 -i ens5 -j REDIRECT --to-port 1200'')]"

definition tuna_rules :: "(string \<times> string) list" where
  "tuna_rules =
     [(''-A INPUT -i ens5 -p tcp -m tcp --dport 80 -j NFQUEUE --queue-num 0'',
       ''sudo iptables -A INPUT -p tcp -i ens5 --dport 80 -j NFQUEUE --queue-num 0''),
      (''-A INPUT -i ens5 -p tcp -m tcp --dport 443 -j NFQUEUE --queue-num 0'',
       ''sudo iptables -A INPUT -p tcp -i ens5 --dport 443 -j NFQUEUE --queue-num 0''),
      (''-A INPUT -i ens5 -p tcp -m tcp --dport 1024:61439 -j NFQUEUE --queue-num 0'',
       ''sudo iptables -A INPUT -p tcp -i ens5 --dport 1024:61439 -j NFQUEUE --queue-num 0'')]"

definition logger_download_cmd :: string where
  "logger_download_cmd =
     ''curl -fsS https://artifacts.marlin.org/oyster/binaries/nitro-logger_v1.0.0_linux_`uname -m | sed '' @
     [sq] @ ''s/x86_64/amd64/g; s/aarch64/arm64/g'' @ [sq] @
     ''` -o nitro-logger && chmod +x nitro-logger''"

definition logger_conf_cmd :: string where
  "logger_conf_cmd =
     ''<<EOF cat | sudo tee /etc/supervisor/conf.d/logger.conf'' @ [nl] @ ''[program:logger]'' @ [nl] @
     ''command=/home/ubuntu/nitro-logger --enclave-log-file-path /home/ubuntu/enclave.log '' @
     ''--script-log-file-path /home/ubuntu/logger.log'' @ [nl] @ ''autostart=true'' @ [nl] @
     ''autorestart=true'' @ [nl] @ ''EOF'' @ [nl] @ ''                ''"

definition setup_logger :: "'w aws_api \<Rightarrow> string \<Rightarrow> ('w, unit) io" where
  "setup_logger api sess =
     io_then (no_stderr ''Failed to download logger: ''
        (io_context ''Failed to download logger'' (ssh_exec api sess logger_download_cmd)))
     (io_then (no_stderr ''Failed to setup supervisor conf: ''
        (io_context ''Failed to setup supervisor conf'' (ssh_exec api sess logger_conf_cmd)))
     (io_then (no_stderr ''Failed to start logger: ''
        (io_context ''Failed to start logger''
           (ssh_exec api sess ''sudo supervisorctl reread && sudo supervisorctl update logger'')))
     (io_ok ())))"

text \<open>The command line tool prints its progress on the error stream, so a start is recognised there.\<close>

definition start_enclave :: "'w aws_api \<Rightarrow> string \<Rightarrow> i64 \<Rightarrow> i32 \<Rightarrow> bool \<Rightarrow> ('w, unit) io" where
  "start_enclave api sess rmem rcpu dbg =
     io_bind (ssh_exec api sess (run_cmd rmem rcpu dbg)) (\<lambda>(out, err).
     if err \<noteq> [] \<and> \<not> str_contains err ''Started enclave with enclave-cid''
     then io_err (''Error running enclave image: '' @ err)
     else io_ok ())"

section \<open>Running and updating an enclave\<close>

definition run_enclave_salmon ::
    "'w aws_api \<Rightarrow> aws_config \<Rightarrow> string \<Rightarrow> string \<Rightarrow> string \<Rightarrow> i32 \<Rightarrow> i64 \<Rightarrow> u64 \<Rightarrow> bool \<Rightarrow> ('w, unit) io" where
  "run_enclave_salmon api cfg inst_id rg url rcpu rmem bw dbg =
     io_bind (ssh_session api inst_id rg) (\<lambda>sess.
     io_then (set_allocator api sess rmem rcpu)
     (io_then (fetch_image api cfg sess url)
     (io_then (limit_bandwidth api sess bw)
     (io_then (setup_iptables api sess ''sudo iptables -t nat -S PREROUTING'' ''-P PREROUTING ACCEPT''
        salmon_rules)
     (io_then (io_when dbg (setup_logger api sess))
     (start_enclave api sess rmem rcpu dbg))))))"

definition set_ports_cmd :: string where
  "set_ports_cmd = ''sudo sysctl -w net.ipv4.ip_local_port_range='' @ [dq] @ ''61440 65535'' @ [dq]"

definition set_job_cmd :: "string \<Rightarrow> string" where
  "set_job_cmd job =
     ''sudo sed -i -e '' @ [sq] @ ''s/placeholder_job_id/'' @ job @ ''/g'' @ [sq] @
     '' /etc/supervisor/conf.d/oyster-init-server.conf''"

definition setup_init_server :: "'w aws_api \<Rightarrow> string \<Rightarrow> string \<Rightarrow> ('w, unit) io" where
  "setup_init_server api sess job =
     io_then (no_stderr ''Failed to set job id for init server: ''
        (io_context ''Failed to set job id for init server'' (ssh_exec api sess (set_job_cmd job))))
     (io_then (no_stderr ''Failed to update init server: ''
        (io_context ''Failed to update init server'' (ssh_exec api sess ''sudo supervisorctl update'')))
     (io_ok ()))"

definition run_enclave_tuna ::
    "'w aws_api \<Rightarrow> aws_config \<Rightarrow> string \<Rightarrow> string \<Rightarrow> string \<Rightarrow> string \<Rightarrow> i32 \<Rightarrow> i64 \<Rightarrow> u64 \<Rightarrow> bool
     \<Rightarrow> ('w, unit) io" where
  "run_enclave_tuna api cfg job inst_id rg url rcpu rmem bw dbg =
     io_bind (ssh_session api inst_id rg) (\<lambda>sess.
     io_then (no_stderr ''Failed to set ephemeral ports: ''
        (io_context ''Failed to set ephemeral ports'' (ssh_exec api sess set_ports_cmd)))
     (io_then (set_allocator api sess rmem rcpu)
     (io_then (fetch_image api cfg sess url)
     (io_then (limit_bandwidth api sess bw)
     (io_then (setup_iptables api sess ''sudo iptables -S INPUT'' ''-P INPUT ACCEPT'' tuna_rules)
     (io_then (setup_init_server api sess job)
     (io_then (io_when dbg (setup_logger api sess))
     (start_enclave api sess rmem rcpu dbg))))))))"

definition run_enclave_impl ::
    "'w aws_api \<Rightarrow> aws_config \<Rightarrow> string \<Rightarrow> string \<Rightarrow> string \<Rightarrow> string \<Rightarrow> string \<Rightarrow> i32 \<Rightarrow> i64 \<Rightarrow> u64 \<Rightarrow> bool
     \<Rightarrow> ('w, unit) io" where
  "run_enclave_impl api cfg job fam inst_id rg url rcpu rmem bw dbg =
     (if fam = ''salmon'' then run_enclave_salmon api cfg inst_id rg url rcpu rmem bw dbg
      else if fam = ''tuna'' then run_enclave_tuna api cfg job inst_id rg url rcpu rmem bw dbg
      else io_err ''unsupported image family'')"

definition update_enclave_image_impl ::
    "'w aws_api \<Rightarrow> aws_config \<Rightarrow> string \<Rightarrow> string \<Rightarrow> string \<Rightarrow> i32 \<Rightarrow> i64 \<Rightarrow> ('w, unit) io" where
  "update_enclave_image_impl api cfg inst_id rg url rcpu rmem =
     io_bind (ssh_session api inst_id rg) (\<lambda>sess.
     io_bind (io_context ''Failed to read image_url.txt'' (ssh_exec api sess ''cat image_url.txt''))
       (\<lambda>(out, err).
     if err = [] \<and> out = url then io_ok ()
     else
       io_then (fetch_image api cfg sess url)
       (io_then (no_stderr ''Error terminating enclave: ''
          (ssh_exec api sess ''nitro-cli terminate-enclave --all''))
       (start_enclave api sess rmem rcpu False))))"

definition get_enclave_state :: "'w aws_api \<Rightarrow> string \<Rightarrow> string \<Rightarrow> ('w, string) io" where
  "get_enclave_state api inst_id rg =
     io_bind (ssh_session api inst_id rg) (\<lambda>sess.
     io_bind (no_stderr ''Error describing enclaves: ''
         (io_context ''could not describe enclaves'' (ssh_exec api sess ''nitro-cli describe-enclaves'')))
       (\<lambda>out.
     io_bind (io_ok_or ''could not parse enclave description'' (parse_enclaves api out)) (\<lambda>enclaves.
     io_ok (case first enclaves of
         None \<Rightarrow> ''No state found''
       | Some data \<Rightarrow>
           (case Option.bind (map_of data ''State'') as_str of None \<Rightarrow> ''No state found'' | Some s \<Rightarrow> s)))))"

end
