(* ===== verification/CP_Aws.thy ===== *)
theory CP_Aws
  imports CP_Lifecycle CP_Ssh
begin

text \<open>
  The AWS provider of the control plane: the methods of \<open>InfraProvider\<close> on \<open>Aws\<close>
  (\<open>operator/control-plane/src/aws.rs\<close>). The documented behaviour of EC2 is the locale \<open>ec2_service\<close>; under
  it the provider meets the contract \<open>infra_service\<close> of the manager, for every single instance, so what is
  proved of the manager holds with AWS. Nothing is assumed of the order in which EC2 lists the instances of a
  job, nor of what a call that failed has done to the instances of that job.
\<close>

section \<open>The provider\<close>

definition aws_check_instance_running :: "'w aws_api \<Rightarrow> string \<Rightarrow> string \<Rightarrow> ('w, bool) io" where
  "aws_check_instance_running api i rg =
     io_bind (io_context ''could not get current instance state'' (get_instance_state api i rg)) (\<lambda>res.
     io_ok (res = ''running'' \<or> res = ''pending''))"

definition aws_check_enclave_running :: "'w aws_api \<Rightarrow> string \<Rightarrow> string \<Rightarrow> ('w, bool) io" where
  "aws_check_enclave_running api i rg =
     io_bind (io_context ''could not get current enclace state'' (get_enclave_state api i rg)) (\<lambda>res.
     io_ok (res = ''RUNNING''))"

definition aws_provider :: "'w aws_api \<Rightarrow> aws_config \<Rightarrow> 'w infra_provider" where
  "aws_provider api cfg = \<lparr>
     spin_up = (\<lambda>job ity fam rg rmem rcpu bw.
       io_context ''could not spin up instance'' (spin_up_instance api cfg job ity fam rg rmem rcpu)),
     spin_down = (\<lambda>i job rg.
       io_context ''could not spin down instance'' (spin_down_instance api i job rg)),
     get_job_instance = (\<lambda>job rg.
       io_context ''could not get instance id for job'' (get_job_instance_id api job rg)),
     get_job_ip = aws_get_job_ip api,
     check_instance_running = aws_check_instance_running api,
     check_enclave_running = aws_check_enclave_running api,
     run_enclave = (\<lambda>job i fam rg url rcpu rmem bw dbg.
       io_context ''could not run enclave''
         (run_enclave_impl api cfg (jid_id job) fam i rg url rcpu rmem bw dbg)),
     update_enclave_image = (\<lambda>i rg url rcpu rmem.
       io_context ''could not update enclave image'' (update_enclave_image_impl api cfg i rg url rcpu rmem)) \<rparr>"

section \<open>The behaviour of EC2\<close>

text \<open>
  \<open>insts w rg\<close> gives for an instance of a region the job of its tags and whether it is live. The four job
  filters select instances of that job only, in any order, live or not. A launch, whether it reports success or
  not, adds instances of the job of its tags, and those it reports are among them; a termination, whether it
  reports success or not, touches the one instance it names, which is not live after a success; and every other
  call changes none of this.
\<close>

type_synonym instances = "string \<Rightarrow> string \<Rightarrow> (job_id \<times> bool) option"

definition owned :: "job_id \<Rightarrow> (job_id \<times> bool) option \<Rightarrow> bool" where
  "owned job e \<longleftrightarrow> (case e of None \<Rightarrow> False | Some (j, live) \<Rightarrow> j = job)"

definition dead :: "(job_id \<times> bool) option \<Rightarrow> (job_id \<times> bool) option" where
  "dead = map_option (\<lambda>(j, live). (j, False))"

definition launched :: "job_id \<Rightarrow> instances \<Rightarrow> instances \<Rightarrow> bool" where
  "launched job f f' \<longleftrightarrow> (\<forall>rg i. f' rg i = f rg i \<or> f rg i = None \<and> owned job (f' rg i))"

definition stopped :: "string \<Rightarrow> string \<Rightarrow> instances \<Rightarrow> instances \<Rightarrow> bool" where
  "stopped i rg f f' \<longleftrightarrow> (\<forall>rg' i'. f' rg' i' = f rg' i' \<or> rg' = rg \<and> i' = i \<and> f' rg i = dead (f rg i))"

text \<open>What a launch that may be taken back does: the instances that change are new, and of the job.\<close>

definition tried :: "job_id \<Rightarrow> instances \<Rightarrow> string rust_result \<Rightarrow> instances \<Rightarrow> bool" where
  "tried job f r f' \<longleftrightarrow> launched job f f'"

definition added :: "job_id \<Rightarrow> string \<Rightarrow> instances \<Rightarrow> string rust_result \<Rightarrow> instances \<Rightarrow> bool" where
  "added job rg f r f' \<longleftrightarrow> launched job f f' \<and> (\<forall>i. r = Inr i \<longrightarrow> f rg i = None \<and> owned job (f' rg i))"

definition killed :: "string \<Rightarrow> string \<Rightarrow> instances \<Rightarrow> 'a rust_result \<Rightarrow> instances \<Rightarrow> bool" where
  "killed i rg f r f' \<longleftrightarrow> stopped i rg f f'"

lemma launched_refl: "launched job f f"
  by (simp add: launched_def)

lemma stopped_refl: "stopped i rg f f"
  by (simp add: stopped_def)

lemma blind: "error_blind (killed i rg)" "error_blind (added job rg)" "error_blind (tried job)"
  by (auto simp: error_blind_def killed_def added_def tried_def launched_refl stopped_refl)

lemma owned_dead [simp]: "owned job (dead e) = owned job e"
  by (auto simp: owned_def dead_def split: option.split)

lemma launched_stopped:
  assumes "launched job f g" and "f rg i = None" and "owned job (g rg i)" and "stopped i rg g h"
  shows "launched job f h"
  unfolding launched_def
proof (intro allI)
  fix rg' i'
  show "h rg' i' = f rg' i' \<or> f rg' i' = None \<and> owned job (h rg' i')"
  proof (cases "rg' = rg \<and> i' = i")
    case True
    moreover have "h rg i = g rg i \<or> h rg i = dead (g rg i)" using assms(4) by (auto simp: stopped_def)
    ultimately show ?thesis using assms(2,3) by auto
  next
    case False
    then have "h rg' i' = g rg' i'" using assms(4) by (auto simp: stopped_def)
    then show ?thesis using assms(1) by (auto simp: launched_def)
  qed
qed

text \<open>Whether a given instance is live and of a job.\<close>

definition live_in :: "string \<Rightarrow> instances \<Rightarrow> job_id \<Rightarrow> string \<Rightarrow> bool" where
  "live_in i f job rg \<longleftrightarrow> f rg i = Some (job, True)"

lemma live_in_stopped:
  assumes "stopped i rg f f'"
  shows "live_in k f' j rg' \<Longrightarrow> live_in k f j rg'"
    and "owned job (f rg i) \<Longrightarrow> j \<noteq> job \<Longrightarrow> live_in k f' j rg' = live_in k f j rg'"
proof -
  have "f' rg' k = f rg' k \<or> rg' = rg \<and> k = i \<and> f' rg i = dead (f rg i)" using assms by (auto simp: stopped_def)
  then show "live_in k f' j rg' \<Longrightarrow> live_in k f j rg'"
    and "owned job (f rg i) \<Longrightarrow> j \<noteq> job \<Longrightarrow> live_in k f' j rg' = live_in k f j rg'"
    by (auto simp: live_in_def dead_def owned_def split: option.splits)
qed

lemma live_in_launched: "launched job f f' \<Longrightarrow> j \<noteq> job \<Longrightarrow> live_in k f' j rg = live_in k f j rg"
  unfolding launched_def live_in_def owned_def by (metis (mono_tags, lifting) case_prod_conv option.simps(4,5))

locale ec2_service =
  fixes api :: "'w aws_api" and insts :: "'w \<Rightarrow> instances"
  assumes describe_jobs: "describe_instances api rg (job_filters job) w = (Inr rs, w') \<Longrightarrow>
      x \<in> set (concat rs) \<Longrightarrow> in_id x = Some i \<Longrightarrow> owned job (insts w rg i)"
    and run_any: "run_instances api rg rq w = (r, w') \<Longrightarrow> rq_tags rq = (''Name'', ''JobRunner'') # job_tags job \<Longrightarrow>
      launched job (insts w) (insts w')"
    and run_ok: "run_instances api rg rq w = (Inr xs, w') \<Longrightarrow> rq_tags rq = (''Name'', ''JobRunner'') # job_tags job \<Longrightarrow>
      x \<in> set xs \<Longrightarrow> in_id x = Some i \<Longrightarrow> insts w rg i = None \<and> owned job (insts w' rg i)"
    and terminate_any: "terminate_instances api rg i w = (t, w') \<Longrightarrow> stopped i rg (insts w) (insts w')"
    and terminate_ok: "terminate_instances api rg i w = (Inr (), w') \<Longrightarrow> insts w' rg i = dead (insts w rg i)"
    and describe_quiet: "io_keeps (\<lambda>w w'. insts w' = insts w) (describe_instances api rg f)"
    and addresses_quiet: "io_keeps (\<lambda>w w'. insts w' = insts w) (describe_addresses api rg f)"
    and types_quiet: "io_keeps (\<lambda>w w'. insts w' = insts w) (describe_instance_types api rg ty)"
    and images_quiet: "io_keeps (\<lambda>w w'. insts w' = insts w) (describe_images api rg ow f)"
    and groups_quiet: "io_keeps (\<lambda>w w'. insts w' = insts w) (describe_security_groups api rg f)"
    and subnets_quiet: "io_keeps (\<lambda>w w'. insts w' = insts w) (describe_subnets api rg f)"
    and allocate_quiet: "io_keeps (\<lambda>w w'. insts w' = insts w) (aws_allocate_address api rg ts)"
    and associate_quiet: "io_keeps (\<lambda>w w'. insts w' = insts w) (aws_associate_address api rg al i)"
    and disassociate_quiet: "io_keeps (\<lambda>w w'. insts w' = insts w) (aws_disassociate_address api rg al)"
    and release_quiet: "io_keeps (\<lambda>w w'. insts w' = insts w) (aws_release_address api rg al)"
    and connect_quiet: "io_keeps (\<lambda>w w'. insts w' = insts w) (ssh_connect api a)"
    and exec_quiet: "io_keeps (\<lambda>w w'. insts w' = insts w) (ssh_exec api s c)"

sublocale ec2_service \<subseteq> same: io_relation "\<lambda>w w'. insts w' = insts w"
  by unfold_locales auto

context ec2_service
begin

lemmas calls_quiet = describe_quiet addresses_quiet types_quiet images_quiet groups_quiet subnets_quiet
  allocate_quiet associate_quiet disassociate_quiet release_quiet connect_quiet exec_quiet

lemmas quiet_intros = same.keeps calls_quiet

lemma quiet_find: "io_keeps (\<lambda>w w'. insts w' = insts w) (find_instance api i rg)"
  unfolding find_instance_def by (intro quiet_intros)

lemma quiet_queries:
  "io_keeps (\<lambda>w w'. insts w' = insts w) (get_instance_ip api i rg)"
  "io_keeps (\<lambda>w w'. insts w' = insts w) (get_instance_state api i rg)"
  "io_keeps (\<lambda>w w'. insts w' = insts w) (get_job_instance_id api job rg)"
  "io_keeps (\<lambda>w w'. insts w' = insts w) (get_amis api rg fam arch)"
  "io_keeps (\<lambda>w w'. insts w' = insts w) (get_security_group api rg)"
  "io_keeps (\<lambda>w w'. insts w' = insts w) (get_subnet api rg)"
  "io_keeps (\<lambda>w w'. insts w' = insts w) (get_job_elastic_ip api job rg)"
  "io_keeps (\<lambda>w w'. insts w' = insts w) (get_instance_elastic_ip api i rg)"
  "io_keeps (\<lambda>w w'. insts w' = insts w) (post_spin_up api job i rg)"
  "io_keeps (\<lambda>w w'. insts w' = insts w) (ssh_session api i rg)"
  unfolding get_instance_ip_def get_instance_state_def get_job_instance_id_def get_amis_def
    get_community_amis_def get_security_group_def get_subnet_def get_job_elastic_ip_def
    get_instance_elastic_ip_def post_spin_up_def allocate_ip_addr_def associate_address_def ssh_session_def
  by (intro quiet_intros quiet_find)+

lemma quiet_outputs:
  "io_keeps (\<lambda>w w'. insts w' = insts w) m \<Longrightarrow> io_keeps (\<lambda>w w'. insts w' = insts w) (no_stderr msg m)"
  "io_keeps (\<lambda>w w'. insts w' = insts w) m \<Longrightarrow> io_keeps (\<lambda>w w'. insts w' = insts w) (some_stdout msg m)"
  unfolding no_stderr_def some_stdout_def by (intro quiet_intros; assumption)+

lemma quiet_rules: "io_keeps (\<lambda>w w'. insts w' = insts w) (add_rules api sess present rules)"
  by (induction rules) (auto simp: add_rule_def intro!: quiet_intros quiet_outputs)

lemma quiet_specs: "io_keeps (\<lambda>w w'. insts w' = insts w) (type_specs ts specs)"
  by (induction ts specs rule: type_specs.induct)
    (auto simp: Let_def intro!: quiet_intros)

lemma quiet_enclave:
  "io_keeps (\<lambda>w w'. insts w' = insts w) (run_enclave_impl api cfg job fam i rg url rcpu rmem bw dbg)"
  "io_keeps (\<lambda>w w'. insts w' = insts w) (update_enclave_image_impl api cfg i rg url rcpu rmem)"
  "io_keeps (\<lambda>w w'. insts w' = insts w) (get_enclave_state api i rg)"
  unfolding run_enclave_impl_def run_enclave_salmon_def run_enclave_tuna_def update_enclave_image_impl_def
    get_enclave_state_def set_allocator_def fetch_image_def check_eif_blacklist_whitelist_def
    limit_bandwidth_def setup_iptables_def setup_logger_def setup_init_server_def start_enclave_def Let_def
  by (intro quiet_intros quiet_outputs quiet_queries quiet_rules)+

text \<open>The three effects on the instances: a termination, a launch, and a launch that may be taken back.\<close>

lemma terminate_effect:
  "io_effect insts (killed i rg) (terminate_instance api i rg)"
  unfolding terminate_instance_def io_effect_def io_context_def killed_def
  by (auto split: prod.splits sum.splits dest: terminate_any)

lemma spin_down_effect: "io_effect insts (killed i rg) (spin_down_instance api i job rg)"
  unfolding spin_down_instance_def disassociate_address_def release_address_def
  by (intro io_effect_intros terminate_effect quiet_intros quiet_queries blind)

lemma run_effect:
  "io_effect insts (added job rg)
     (io_bind (io_context msg (run_instances api rg
        \<lparr>rq_image = ami, rq_type = ity, rq_key = k, rq_volume = v, rq_enclave = en,
         rq_tags = (''Name'', ''JobRunner'') # job_tags job, rq_group = grp, rq_subnet = subnet\<rparr>))
      (\<lambda>instances. io_bind (io_ok_or e1 (first instances)) (\<lambda>inst. io_ok_or e2 (in_id inst))))"
  unfolding io_effect_def
proof (intro allI impI, goal_cases)
  case (1 w r w')
  let ?rq = "\<lparr>rq_image = ami, rq_type = ity, rq_key = k, rq_volume = v, rq_enclave = en,
         rq_tags = (''Name'', ''JobRunner'') # job_tags job, rq_group = grp, rq_subnet = subnet\<rparr>"
  obtain y w1 where y: "run_instances api rg ?rq w = (y, w1)" by fastforce
  have l: "launched job (insts w) (insts w1)" by (rule run_any [OF y]) simp
  show ?case
  proof (cases y)
    case (Inl e)
    with 1 y l show ?thesis by (auto simp: io_bind_def io_context_def added_def)
  next
    case (Inr xs)
    have "insts w rg i = None \<and> owned job (insts w1 rg i)" if "first xs = Some x" "in_id x = Some i" for x i
      by (rule run_ok [where job = job, OF y [unfolded Inr]])
        (use that in \<open>auto simp: first_def split: list.splits if_splits\<close>)
    with 1 y Inr l show ?thesis
      by (auto simp: io_bind_def io_context_def io_ok_or_def io_ok_def io_err_def added_def split: option.splits)
  qed
qed

lemma launch_effect: "io_effect insts (added job rg) (launch_instance api cfg job ity fam arch rg)"
  unfolding launch_instance_def
  by (intro io_effect_bind run_effect same.keeps_context quiet_queries blind)

lemma try_effect:
  "io_effect insts (tried job)
     (io_bind (io_context msg (launch_instance api cfg job ty fam arch rg)) (\<lambda>inst w.
       case post_spin_up api job inst rg w of
         (Inr _, w1) \<Rightarrow> (Inr inst, w1)
       | (Inl _, w1) \<Rightarrow>
           (case spin_down_instance api inst job rg w1 of
              (Inl _, w2) \<Rightarrow> (Inl e1, w2)
            | (Inr _, w2) \<Rightarrow> (Inl e2, w2))))"
  unfolding io_effect_def
proof (intro allI impI, goal_cases)
  case (1 w r w')
  obtain x w1 where x: "launch_instance api cfg job ty fam arch rg w = (x, w1)" by fastforce
  note l = io_effectD [OF launch_effect x]
  show ?case
  proof (cases x)
    case (Inl e)
    with 1 x l show ?thesis by (auto simp: io_bind_def io_context_def added_def tried_def)
  next
    case (Inr i)
    obtain y w2 where y: "post_spin_up api job i rg w1 = (y, w2)" by fastforce
    obtain z w3 where z: "spin_down_instance api i job rg w2 = (z, w3)" by fastforce
    show ?thesis
      using 1 x y z l Inr io_keepsD [OF quiet_queries(9) y] io_effectD [OF spin_down_effect z] launched_stopped
      by (auto simp: io_bind_def io_context_def added_def tried_def killed_def split: sum.splits)
  qed
qed

lemma spin_up_effect: "io_effect insts (tried job) (spin_up_instance api cfg job ity fam rg rmem rcpu)"
  unfolding spin_up_instance_def
  by (rule io_effect_bind [OF blind(3) same.keeps_pure(3)],
      rule io_effect_bind [OF blind(3) same.keeps_context [OF types_quiet]],
      rule io_effect_bind [OF blind(3) quiet_specs], rule io_effect_pair, rule io_effect_pair,
      rule io_effect_if, rule io_effect_error [OF blind(3)], rule try_effect)

lemma quiet_provider:
  "io_keeps (\<lambda>w w'. insts w' = insts w) (check_instance_running (aws_provider api cfg) i rg)"
  "io_keeps (\<lambda>w w'. insts w' = insts w) (check_enclave_running (aws_provider api cfg) i rg)"
  "io_keeps (\<lambda>w w'. insts w' = insts w)
     (run_enclave (aws_provider api cfg) job i fam rg url rcpu rmem bw dbg)"
  "io_keeps (\<lambda>w w'. insts w' = insts w)
     (update_enclave_image (aws_provider api cfg) i rg url rcpu rmem)"
  unfolding aws_provider_def infra_provider.select_convs aws_check_instance_running_def
    aws_check_enclave_running_def
  by (intro quiet_intros quiet_queries quiet_enclave)+

text \<open>What the query reports is an instance of the job, whichever it is.\<close>

lemma query_owned:
  assumes "get_job_instance_id api job rg w = (Inr (e, i, s), w')" and e
  shows "owned job (insts w rg i)"
proof -
  obtain rs w1 where d: "describe_instances api rg (job_filters job) w = (Inr rs, w1)"
    using assms by (auto simp: get_job_instance_id_def io_bind_Inr)
  with assms obtain xs rest x where "rs = xs # rest" "first xs = Some x" "in_id x = Some i"
    by (auto simp: get_job_instance_id_def io_bind_Inr io_ok_or_def split: list.splits option.splits)
  then show ?thesis by (intro describe_jobs [OF d]) (auto simp: first_def split: list.splits if_splits)
qed

end

text \<open>Under the behaviour of EC2 the provider meets the contract of the manager.\<close>

lemma aws_infra_service:
  assumes "ec2_service api insts"
  shows "infra_service (aws_provider api cfg) (\<lambda>_. True) (\<lambda>w. live_in k (insts w)) id"
proof -
  note E = assms
  have q: "insts w' = insts w" if "get_job_instance (aws_provider api cfg) j rg w = (r, w')" for j rg w r w'
    using that io_keepsD [OF ec2_service.quiet_queries(3) [OF E]]
    by (auto simp: aws_provider_def io_context_def split: prod.splits sum.splits)
  have qi: "owned j (insts w1 rg i)"
    if "get_job_instance (aws_provider api cfg) j rg w = (Inr (e, i, s), w1)" "e" for j rg w e i s w1
    using that q [OF that(1)] ec2_service.query_owned [OF E, of j rg w e i s w1]
    by (simp add: aws_provider_def)
  have d: "stopped i rg (insts w) (insts w')"
    if "spin_down (aws_provider api cfg) i j rg w = (r, w')" for i j rg w r w'
    using io_effectD [OF io_effect_context [OF blind(1) ec2_service.spin_down_effect [OF E]]] that
    by (simp add: aws_provider_def killed_def)
  have u: "launched j (insts w) (insts w')"
    if "spin_up (aws_provider api cfg) j ty fam rg mem cpu bw w = (r, w')" for j ty fam rg mem cpu bw w r w'
    using io_effectD [OF io_effect_context [OF blind(3) ec2_service.spin_up_effect [OF E]]] that
    by (simp add: aws_provider_def tried_def)
  show ?thesis
  proof (unfold_locales, goal_cases)
    case 1
    then show ?case using q by simp
  next
    case 2
    from d [OF 2(1)] show ?case using live_in_stopped(1) by blast
  next
    case (3 j rg w e i s w1 r w2 j' rg')
    from live_in_stopped(2) [OF d [OF 3(4)] qi [OF 3(1,3)], of j' k rg'] q [OF 3(1)] 3(5) show ?case by simp
  next
    case 4
    from live_in_launched [OF u [OF 4(1)]] show ?case by simp
  next
    case 5
    from io_keepsD [OF ec2_service.quiet_provider(1) [OF E] 5(1)] show ?case by simp
  next
    case 6
    from io_keepsD [OF ec2_service.quiet_provider(2) [OF E] 6(1)] show ?case by simp
  next
    case 7
    from io_keepsD [OF ec2_service.quiet_provider(3) [OF E] 7(1)] show ?case by simp
  next
    case 8
    from io_keepsD [OF ec2_service.quiet_provider(4) [OF E] 8(1)] show ?case by simp
  qed
qed

sublocale ec2_service \<subseteq> aws: infra_service "aws_provider api cfg" "\<lambda>_. True" "\<lambda>w. live_in k (insts w)" id for cfg k
  by (rule aws_infra_service) unfold_locales

section \<open>A small EC2\<close>

text \<open>An EC2 whose state is the list of the instances: every call is answered, a new id is longer than
  those in use. It shows that the documented behaviour can hold, and serves the witnesses.\<close>

type_synonym small_state = "string \<Rightarrow> (string \<times> job_id \<times> bool) list"

definition small_insts :: "small_state \<Rightarrow> instances" where
  "small_insts w rg = map_of (w rg)"

definition small_kill :: "string \<Rightarrow> string \<Rightarrow> small_state \<Rightarrow> small_state" where
  "small_kill i rg w = w(rg := map (\<lambda>(i', j, live). (i', j, live \<and> i' \<noteq> i)) (w rg))"

definition fresh_id :: "(string \<times> job_id \<times> bool) list \<Rightarrow> string" where
  "fresh_id xs = CHR ''i'' # concat (map fst xs)"

definition small_instance :: "string \<times> job_id \<times> bool \<Rightarrow> ec2_instance" where
  "small_instance e = \<lparr>in_id = Some (fst e),
     in_state = Some (Some (if snd (snd e) then ''running'' else ''terminated'')), in_ip = Some ''1.2.3.4''\<rparr>"

definition job_of_tags :: "tags \<Rightarrow> job_id" where
  "job_of_tags ts = \<lparr>jid_id = the (map_of ts ''jobId''), jid_operator = the (map_of ts ''operator''),
     jid_contract = the (map_of ts ''contractAddress''), jid_chain = the (map_of ts ''chainID'')\<rparr>"

definition small_ec2 :: "small_state aws_api" where
  "small_ec2 = \<lparr>
     parse_instance_type = Some,
     describe_instances = (\<lambda>rg f w. (Inr (map (\<lambda>e. [small_instance e])
       (filter (\<lambda>(i, j, live). map_of (w rg) i = Some (j, live) \<and>
          (f = job_filters j \<or> f = [(''instance-id'', i)])) (w rg))), w)),
     describe_addresses = (\<lambda>_ _. io_ok []),
     describe_instance_types = (\<lambda>_ _. io_ok []),
     describe_images = (\<lambda>_ _ _. io_ok [\<lparr>img_name = Some ''n'', img_id = Some ''ami''\<rparr>]),
     describe_security_groups = (\<lambda>_ _. io_ok [Some ''sg'']),
     describe_subnets = (\<lambda>_ _. io_ok [Some ''sn'']),
     run_instances = (\<lambda>rg rq w.
       let e = (fresh_id (w rg), job_of_tags (rq_tags rq), True) in (Inr [small_instance e], w(rg := e # w rg))),
     terminate_instances = (\<lambda>rg i w. (Inr (), small_kill i rg w)),
     aws_allocate_address = (\<lambda>_ _. io_ok \<lparr>ad_alloc = Some ''al'', ad_ip = Some ''1.2.3.4'', ad_assoc = None\<rparr>),
     aws_associate_address = (\<lambda>_ _ _. io_ok ()),
     aws_disassociate_address = (\<lambda>_ _. io_ok ()),
     aws_release_address = (\<lambda>_ _. io_ok ()),
     ssh_connect = io_ok,
     ssh_exec = (\<lambda>_ _. io_err ''no answer''),
     parse_enclaves = (\<lambda>_. None) \<rparr>"

definition sample_acfg :: aws_config where
  "sample_acfg = \<lparr>key_name = ''k'', eif_whitelist = None, eif_blacklist = None\<rparr>"

lemmas aws_eval = aws_provider_def small_ec2_def small_instance_def sample_acfg_def spin_up_instance_def
  launch_instance_def get_amis_def max_image_def get_security_group_def get_subnet_def post_spin_up_def
  allocate_ip_addr_def get_job_elastic_ip_def associate_address_def get_job_instance_id_def
  run_enclave_impl_def run_enclave_salmon_def ssh_session_def get_instance_ip_def find_instance_def
  set_allocator_def io_then_def io_bind_def io_context_def io_ok_def io_err_def io_ok_or_def first_def
  fresh_id_def i64_to_i32_def

lemma job_of_job_tags [simp]: "job_of_tags (x # job_tags job) = job" if "x = (''Name'', ''JobRunner'')" for x
  using that by (simp add: job_of_tags_def job_tags_def)

lemma job_filters_inject [simp]: "job_filters j = job_filters k \<longleftrightarrow> j = k"
  by (auto simp: job_filters_def)

lemma fresh_id_new: "fresh_id xs \<notin> fst ` set xs"
proof
  assume "fresh_id xs \<in> fst ` set xs"
  then have "length (fresh_id xs) \<le> sum_list (map (length \<circ> fst) xs)"
    by (force intro: member_le_sum_list simp: image_iff)
  moreover have "length (fresh_id xs) = Suc (sum_list (map (length \<circ> fst) xs))"
    by (simp add: fresh_id_def length_concat comp_def)
  ultimately show False by simp
qed

lemma small_kill_insts: "small_insts (small_kill i rg w) rg' i' =
    (if rg' = rg \<and> i' = i then dead (small_insts w rg i) else small_insts w rg' i')"
proof -
  have kill: "map_of (map (\<lambda>(i', j, live). (i', j, live \<and> i' \<noteq> i)) xs) k =
      (if k = i then dead (map_of xs i) else map_of xs k)" for xs :: "(string \<times> job_id \<times> bool) list" and k
    by (induction xs) (auto simp: dead_def split: prod.split)
  show ?thesis using kill [where k = i] kill [where k = i'] by (simp add: small_insts_def small_kill_def)
qed

lemma small_launched [simp]: "map_of xs (fresh_id xs) = None"
  using fresh_id_new [of xs] by (simp add: map_of_eq_None_iff)

interpretation small: ec2_service small_ec2 small_insts
proof (unfold_locales, goal_cases)
  case (1 rg job w rs w' x i)
  then obtain j live where e: "map_of (w rg) i = Some (j, live)"
      "job_filters job = job_filters j \<or> job_filters job = [(''instance-id'', i)]"
    by (auto simp: small_ec2_def small_instance_def)
  moreover have "job_filters job \<noteq> [(''instance-id'', i)]" by (simp add: job_filters_def)
  ultimately show ?case by (simp add: small_insts_def owned_def)
next
  case (2 rg rq w r w' job)
  then show ?case
    by (auto simp: small_ec2_def Let_def launched_def owned_def small_insts_def split: if_splits)
next
  case (3 rg rq w xs w' job x i)
  then show ?case
    by (auto simp: small_ec2_def Let_def small_instance_def owned_def small_insts_def)
next
  case (4 rg i w r w')
  then show ?case by (auto simp: small_ec2_def stopped_def small_kill_insts split: if_splits)
next
  case (5 rg i w w')
  then show ?case by (auto simp: small_ec2_def small_kill_insts)
qed (auto simp: small_ec2_def io_ok_def io_err_def io_keeps_def Let_def)

section \<open>Properties\<close>

text \<open>C20: The managers of different jobs do not touch each other's instances on AWS. Whatever a manager does over
  all its connections, with any failures of the calls, and whatever a failed launch or termination did to the
  instances of its own job: every instance of another job that was live before is live after, and none has come
  to life. Of EC2 it is assumed that the filters of a job select instances with the tags of that job, in any order,
  that a launch adds only instances with the tags it was given, and that a termination touches only the instance
  it names.\<close>

theorem aws_jobs_isolated:
  assumes "ec2_service api insts"
    and "job_manager cfg (aws_provider api acfg) job b w as = Some (sleeps, w', exited)" and "j \<noteq> job"
  shows "insts w' rg i = Some (j, True) \<longleftrightarrow> insts w rg i = Some (j, True)"
  using infra_service.job_manager_others [OF aws_infra_service [OF assms(1), where k = i] assms(2), of j rg] assms(3)
  by (simp add: live_in_def)

theorem aws_jobs_isolated_witness:
  "\<exists>w'. job_manager sample_config (aws_provider small_ec2 sample_acfg) sample_job 1
      (\<lambda>_. [(''i'', sample_job\<lparr>jid_id := ''0x06''\<rparr>, True)])
      [Session 0 0 [sample_input 1 (Some (Some (sample_log 1 30))), sample_input 4 None]] = Some ([], w', False)
    \<and> (\<exists>i. (i, sample_job, True) \<in> set (w' ''ap-south-1''))
    \<and> map_of (w' ''ap-south-1'') ''i'' = Some (sample_job\<lparr>jid_id := ''0x06''\<rparr>, True)"
proof -
  let ?j = "sample_job\<lparr>jid_id := ''0x06''\<rparr>"
  obtain w' where m: "job_manager sample_config (aws_provider small_ec2 sample_acfg) sample_job 1 (\<lambda>_. [(''i'', ?j, True)])
      [Session 0 0 [sample_input 1 (Some (Some (sample_log 1 30))), sample_input 4 None]] = Some ([], w', False)"
    and e: "\<exists>i. (i, sample_job, True) \<in> set (w' ''ap-south-1'')"
    by (simp add: manager_eval aws_eval job_filters_def)
  have "?j \<noteq> sample_job" by (simp add: sample_job_def)
  from aws_jobs_isolated [OF small.ec2_service_axioms m this, of "''ap-south-1''" "''i''"] m e show ?thesis
    by (auto simp: small_insts_def)
qed

text \<open>only the first reservation counts. When EC2 lists a terminated instance of the job first, a
  termination that is due is taken as done without any further call, whatever the later reservations
  hold: an instance of the job that runs is left running and the manager exits.\<close>

lemma later_reservations_ignored:
  assumes "describe_instances api (region st) (job_filters (job_id st)) w = (Inr ((x # xs) # rest), w1)"
    and "in_id x = Some i" and "in_state x = Some (Some ''terminated'')"
    and "\<not> infra_state st" and "select_branch st inp = Some InfraChange"
  shows "manager_step cfg (aws_provider api acfg) st w inp =
    Some (Break 0 (st\<lparr>infra_change_scheduled := False\<rparr>) w1)"
proof -
  have "get_job_instance (aws_provider api acfg) (job_id st) (region st) w =
      (Inr (True, i, ''terminated''), w1)"
    using assms(1-3)
    by (simp add: aws_provider_def get_job_instance_id_def io_bind_def io_context_def io_ok_or_def
        io_ok_def first_def)
  then show ?thesis
    using assms(4,5) by (simp add: manager_step_def change_infra_def change_infra_impl_def)
qed

lemma later_reservations_ignored_witness:
  "\<exists>w st w1. w ''ap-south-1'' = [(''old'', sample_job, False), (''new'', sample_job, True)]
     \<and> manager_step sample_config (aws_provider small_ec2 sample_acfg) (schedule_termination 0 0 sample_state)
         w (sample_input 1 None) = Some (Break 0 st w1)
     \<and> (''new'', sample_job, True) \<in> set (w1 ''ap-south-1'')"
proof -
  let ?w = "(\<lambda>_. [])(''ap-south-1'' := [(''old'', sample_job, False), (''new'', sample_job, True)])"
  let ?st = "schedule_termination 0 0 sample_state"
  have "describe_instances small_ec2 (region ?st) (job_filters (job_id ?st)) ?w =
      (Inr ([small_instance (''old'', sample_job, False)] # [[small_instance (''new'', sample_job, True)]]), ?w)"
    by (simp add: small_ec2_def schedule_defs sample_state_def job_state_new_def)
  from later_reservations_ignored [OF this, of "''old''" "sample_input 1 None" sample_config sample_acfg]
  have "manager_step sample_config (aws_provider small_ec2 sample_acfg) ?st ?w (sample_input 1 None) =
      Some (Break 0 (?st\<lparr>infra_change_scheduled := False\<rparr>) ?w)"
    by (simp add: small_instance_def manager_eval)
  moreover have "?w ''ap-south-1'' = [(''old'', sample_job, False), (''new'', sample_job, True)]" by simp
  ultimately show ?thesis by (intro exI [of _ ?w]) auto
qed

text \<open>the address that is shown is the job's own. \<open>get_job_ip\<close> only returns an address that is both the
  public address of the job's instance and the elastic address allocated to the job.\<close>

lemma job_ip_is_elastic:
  assumes "aws_get_job_ip api job rg w = (Inr ip, w')"
  shows "\<exists>i s w1 w2 al. get_job_instance_id api job rg w = (Inr (True, i, s), w1)
    \<and> get_instance_ip api i rg w1 = (Inr ip, w2)
    \<and> get_job_elastic_ip api job rg w2 = (Inr (True, al, ip), w')"
  using assms
  by (auto simp: aws_get_job_ip_def io_bind_Inr split: if_splits)

lemma job_ip_is_elastic_witness:
  "\<exists>i w1. get_job_instance_id (small_ec2\<lparr>describe_addresses := (\<lambda>_ _. io_ok
      [\<lparr>ad_alloc = Some ''al'', ad_ip = Some ''1.2.3.4'', ad_assoc = None\<rparr>])\<rparr>) sample_job ''r''
      (\<lambda>_. [(''x'', sample_job, True)]) = (Inr (True, i, ''running''), w1)"
proof -
  let ?api = "small_ec2\<lparr>describe_addresses := (\<lambda>_ _. io_ok
      [\<lparr>ad_alloc = Some ''al'', ad_ip = Some ''1.2.3.4'', ad_assoc = None\<rparr>])\<rparr>"
  obtain w' where "aws_get_job_ip ?api sample_job ''r'' (\<lambda>_. [(''x'', sample_job, True)]) =
      (Inr ''1.2.3.4'', w')"
    by (simp add: aws_get_job_ip_def aws_eval job_filters_def)
  from job_ip_is_elastic [OF this] show ?thesis
    by (auto simp: aws_eval)
qed

end
