(* ===== verification/CP_Shell.thy ===== *)
theory CP_Shell
  imports CP_Ssh
begin

text \<open>
  How the shell of an instance reads the commands that \<open>operator/control-plane/src/aws.rs\<close> sends over SSH. The
  address of the image, the identifier of the job and the name of the network interface are put into the text
  of a command as they are, so which programs run depends on them. The reader splits a text into words and
  operators, with both kinds of quotes; a text put in is read as a part of one word when it is plain.
\<close>

section \<open>Words and operators\<close>

datatype shell_token = Word string | Op char

datatype shell_mode = Bare | Single | Double

definition word_of :: "string option \<Rightarrow> shell_token list" where
  "word_of cur = (case cur of None \<Rightarrow> [] | Some w \<Rightarrow> [Word w])"

definition text_of :: "string option \<Rightarrow> string" where
  "text_of cur = (case cur of None \<Rightarrow> [] | Some w \<Rightarrow> w)"

definition blank :: "char \<Rightarrow> bool" where
  "blank c \<longleftrightarrow> c = CHR '' '' \<or> c = CHR 0x09"

text \<open>What ends a word and is not blank; and what a shell expands between double quotes.\<close>

definition operator :: "char \<Rightarrow> bool" where
  "operator c \<longleftrightarrow> c \<in> {CHR ''|'', CHR ''&'', CHR '';'', CHR ''<'', CHR ''>'', CHR ''('', CHR '')'', CHR ''$'', CHR 0x60, backslash, nl}"

definition expands :: "char \<Rightarrow> bool" where
  "expands c \<longleftrightarrow> c \<in> {CHR ''$'', CHR 0x60, backslash}"

fun shell_lex :: "shell_mode \<Rightarrow> string option \<Rightarrow> string \<Rightarrow> shell_token list" where
  "shell_lex md cur [] = word_of cur"
| "shell_lex Bare cur (c # cs) =
     (if blank c then word_of cur @ shell_lex Bare None cs
      else if operator c then word_of cur @ Op c # shell_lex Bare None cs
      else if c = sq then shell_lex Single (Some (text_of cur)) cs
      else if c = dq then shell_lex Double (Some (text_of cur)) cs
      else shell_lex Bare (Some (text_of cur @ [c])) cs)"
| "shell_lex Single cur (c # cs) =
     (if c = sq then shell_lex Bare cur cs else shell_lex Single (Some (text_of cur @ [c])) cs)"
| "shell_lex Double cur (c # cs) =
     (if c = dq then shell_lex Bare cur cs
      else if expands c then Op c # shell_lex Double cur cs
      else shell_lex Double (Some (text_of cur @ [c])) cs)"

fun words_in :: "shell_token list \<Rightarrow> string list" where
  "words_in [] = []"
| "words_in (Word w # ts) = w # words_in ts"
| "words_in (Op c # ts) = words_in ts"

definition shell_words :: "string \<Rightarrow> string list" where
  "shell_words c = words_in (shell_lex Bare None c)"

section \<open>Plain text\<close>

text \<open>Letters, digits and signs without a meaning for the shell.\<close>

definition plain_char :: "char \<Rightarrow> bool" where
  "plain_char c \<longleftrightarrow> (let n = of_char c :: nat in 48 \<le> n \<and> n \<le> 58 \<or> 65 \<le> n \<and> n \<le> 90 \<or> 97 \<le> n \<and> n \<le> 122)
     \<or> c \<in> {CHR ''-'', CHR ''.'', CHR ''_'', CHR ''/'', CHR ''%'', CHR ''+'', CHR '','', CHR ''@'', CHR ''=''}"

definition plain :: "string \<Rightarrow> bool" where
  "plain s \<longleftrightarrow> s \<noteq> [] \<and> list_all plain_char s"

lemma plain_char_read: "plain_char c \<Longrightarrow> \<not> blank c \<and> \<not> operator c \<and> c \<noteq> sq \<and> c \<noteq> dq \<and> \<not> expands c"
  by (auto simp: plain_char_def blank_def operator_def expands_def Let_def)

lemma lex_plain_word:
  "list_all plain_char s \<Longrightarrow> shell_lex Bare (Some w) (s @ r) = shell_lex Bare (Some (w @ s)) r"
proof (induction s arbitrary: w)
  case (Cons c s)
  then show ?case using plain_char_read [of c] by (simp add: text_of_def)
qed simp

lemma lex_plain_start: "plain s \<Longrightarrow> shell_lex Bare None (s @ r) = shell_lex Bare (Some s) r"
  using lex_plain_word [of "tl s" "[hd s]" r] plain_char_read [of "hd s"]
  by (cases s) (auto simp: plain_def text_of_def)

lemma lex_plain_quoted:
  "list_all plain_char s \<Longrightarrow> shell_lex Single (Some w) (s @ r) = shell_lex Single (Some (w @ s)) r"
  "list_all plain_char s \<Longrightarrow> shell_lex Double (Some w) (s @ r) = shell_lex Double (Some (w @ s)) r"
proof -
  show "list_all plain_char s \<Longrightarrow> shell_lex Single (Some w) (s @ r) = shell_lex Single (Some (w @ s)) r"
  proof (induction s arbitrary: w)
    case (Cons c s)
    then show ?case using plain_char_read [of c] by (simp add: text_of_def)
  qed simp
  show "list_all plain_char s \<Longrightarrow> shell_lex Double (Some w) (s @ r) = shell_lex Double (Some (w @ s)) r"
  proof (induction s arbitrary: w)
    case (Cons c s)
    then show ?case using plain_char_read [of c] by (simp add: text_of_def)
  qed simp
qed

lemma lex_plain_end: "plain s \<Longrightarrow> shell_lex Bare None s = [Word s]"
  using lex_plain_start [of s "[]"] by (simp add: word_of_def)

lemma plain_digits: "plain (dec_of_nat n)"
  using dec_of_nat_digits [of _ n] dec_of_nat_not_Nil [of n]
  by (fastforce simp: plain_def plain_char_def list_all_iff Let_def)

lemma plain_numbers: "plain (show_i64 a)" "plain (show_i32 b)" "plain (show_u64 c)"
  using plain_digits
  by (auto simp: show_i64_def show_i32_def show_u64_def dec_of_int_def plain_def)
    (auto simp: plain_char_def)

lemma plain_list: "plain s \<Longrightarrow> list_all plain_char s"
  by (simp add: plain_def)

lemmas lex_simps = shell_words_def word_of_def text_of_def blank_def operator_def expands_def

section \<open>What the commands do\<close>

text \<open>A command may start an enclave when one of its words asks \<open>nitro-cli\<close> for it, in whatever position; it
  may download when a word names \<open>curl\<close>; it touches the image when a word is its path, absolute or in the home
  directory that a session starts in.\<close>

definition starts_enclave :: "string \<Rightarrow> bool" where
  "starts_enclave c \<longleftrightarrow> ''run-enclave'' \<in> set (shell_words c)"

definition downloads :: "string \<Rightarrow> bool" where
  "downloads c \<longleftrightarrow> ''curl'' \<in> set (shell_words c)"

definition names_image :: "string \<Rightarrow> bool" where
  "names_image c \<longleftrightarrow> ''enclave.eif'' \<in> set (shell_words c) \<or> ''/home/ubuntu/enclave.eif'' \<in> set (shell_words c)"

text \<open>Set-up: it starts no enclave, looks at the image at most to compute its hash, and downloads nothing but,
  in debug mode, the operator's logger, which it also starts.\<close>

definition neutral :: "bool \<Rightarrow> string \<Rightarrow> bool" where
  "neutral dbg c \<longleftrightarrow> \<not> starts_enclave c \<and> (names_image c \<longrightarrow> c = hash_cmd)
     \<and> (downloads c \<longrightarrow> dbg \<and> c = logger_download_cmd)"

text \<open>An address, a job or a device that is plain and is none of the words looked for.\<close>

definition plain_url :: "string \<Rightarrow> bool" where
  "plain_url url \<longleftrightarrow> plain url \<and> prefix ''http'' url"

definition plain_device :: "string \<Rightarrow> bool" where
  "plain_device d \<longleftrightarrow> plain d \<and> d \<notin> {''run-enclave'', ''curl'', ''enclave.eif'', ''/home/ubuntu/enclave.eif''}"

lemmas neutral_simps = neutral_def starts_enclave_def downloads_def names_image_def lex_simps

lemma run_starts: "starts_enclave (run_cmd m c d)"
  by (simp add: run_cmd_def starts_enclave_def lex_simps lex_plain_start [OF plain_numbers(1)]
      lex_plain_start [OF plain_numbers(2)])

lemma download_reads:
  assumes "plain_url url"
  shows "shell_lex Bare None (download_cmd url) = map Word [''curl'', ''-sL'', ''-o'', ''enclave.eif'',
    ''--max-filesize'', ''4000000000'', ''--max-time'', ''120'', url]"
  using assms by (simp add: download_cmd_def lex_simps lex_plain_end plain_url_def)

lemma download_silent: "plain_url url \<Longrightarrow> \<not> starts_enclave (download_cmd url)"
  by (auto simp: starts_enclave_def shell_words_def download_reads) (simp add: plain_url_def)

lemma neutral_cmds:
  "neutral d restart_allocator_cmd" "neutral d hash_cmd" "neutral d set_ports_cmd" "neutral d ''nmcli device status''"
  "neutral d ''sudo supervisorctl update''" "neutral d ''cat image_url.txt''"
  "neutral d ''nitro-cli terminate-enclave --all''"
  "neutral d ''sudo supervisorctl reread && sudo supervisorctl update logger''"
  "neutral d ''sudo iptables -t nat -S PREROUTING''" "neutral d ''sudo iptables -S INPUT''"
  by (simp_all add: neutral_simps restart_allocator_cmd_def hash_cmd_def set_ports_cmd_def)

lemma neutral_allocator: "neutral d (allocator_cmd m c)"
  by (simp add: neutral_simps allocator_cmd_def lex_plain_quoted plain_list [OF plain_numbers(1)]
      plain_list [OF plain_numbers(2)])

lemma neutral_store_url: "plain_url url \<Longrightarrow> neutral d (store_url_cmd url)"
  by (auto simp: neutral_simps store_url_cmd_def lex_plain_quoted plain_list plain_url_def)

lemma neutral_set_job: "plain job \<Longrightarrow> neutral d (set_job_cmd job)"
  by (simp add: neutral_simps set_job_cmd_def lex_plain_quoted plain_list)

lemma neutral_logger: "neutral True logger_download_cmd" "neutral d logger_conf_cmd"
  by (simp_all add: neutral_simps logger_download_cmd_def logger_conf_cmd_def)

lemma kbit_word: "last w \<noteq> CHR ''t'' \<Longrightarrow> w \<noteq> show_u64 b @ ''kbit''"
  by auto

lemma neutral_tc:
  assumes "plain_device dev"
  shows "neutral d (''sudo tc qdisc show dev '' @ dev @ '' root'')" "neutral d (''sudo tc qdisc del dev '' @ dev @ '' root'')"
    "neutral d (''sudo tc qdisc add dev '' @ dev @ '' root tbf rate '' @ show_u64 bw @
             ''kbit burst 4000Mb latency 100ms'')"
proof -
  have p: "plain dev" "''run-enclave'' \<noteq> dev \<and> ''curl'' \<noteq> dev \<and> ''enclave.eif'' \<noteq> dev
      \<and> ''/home/ubuntu/enclave.eif'' \<noteq> dev"
    using assms by (auto simp: plain_device_def)
  note l = lex_plain_start [OF p(1)] lex_plain_start [OF plain_numbers(3)]
  show "neutral d (''sudo tc qdisc show dev '' @ dev @ '' root'')" "neutral d (''sudo tc qdisc del dev '' @ dev @ '' root'')"
    using p(2) by (simp_all add: neutral_simps l)
  show "neutral d (''sudo tc qdisc add dev '' @ dev @ '' root tbf rate '' @ show_u64 bw @
             ''kbit burst 4000Mb latency 100ms'')"
    using p(2) kbit_word [of "''run-enclave''"] kbit_word [of "''curl''"] kbit_word [of "''enclave.eif''"]
      kbit_word [of "''/home/ubuntu/enclave.eif''"]
    by (simp add: neutral_simps l)
qed

lemma neutral_rules:
  "\<forall>rule \<in> set salmon_rules. neutral d (snd rule)" "\<forall>rule \<in> set tuna_rules. neutral d (snd rule)"
  by (simp_all add: salmon_rules_def tuna_rules_def neutral_simps)

text \<open>The address is not quoted: one with a semicolon in it makes the download start an enclave by itself.\<close>

lemma url_injects: "starts_enclave (download_cmd ''u; nitro-cli run-enclave --eif-path other.eif'')"
  by (simp add: download_cmd_def starts_enclave_def lex_simps)

end
