(* ===== verification/CP_Vetting.thy ===== *)
theory CP_Vetting
  imports CP_Shell
begin

text \<open>
  No image runs unchecked. The world is the list of the commands sent so far, and the other side answers
  every command by an arbitrary function of what was sent before: that covers every behaviour of the
  instances, the enclave tools and the network, but for the names of the network interfaces, which are plain.
  What a command may do is what the shell reads in it (CP_Shell). The relation \<open>extends P\<close> says that an operation only sends
  commands that satisfy \<open>P\<close>.
\<close>

type_synonym history = "(string \<times> string) list"
type_synonym responder = "history \<Rightarrow> string \<Rightarrow> string \<Rightarrow> (string \<times> string) rust_result"

definition recording :: "history aws_api \<Rightarrow> responder \<Rightarrow> bool" where
  "recording api answer \<longleftrightarrow> (\<forall>s c h. ssh_exec api s c h = (answer h s c, h @ [(s, c)]))
     \<and> (\<forall>rg f h. snd (describe_instances api rg f h) = h) \<and> (\<forall>a h. snd (ssh_connect api a h) = h)"

definition extends :: "(string \<Rightarrow> bool) \<Rightarrow> history \<Rightarrow> history \<Rightarrow> bool" where
  "extends P h h' \<longleftrightarrow> (\<exists>t. h' = h @ t \<and> (\<forall>(s, c) \<in> set t. P c))"

definition plain_devices :: "responder \<Rightarrow> bool" where
  "plain_devices answer \<longleftrightarrow> (\<forall>h s out err. answer h s ''nmcli device status'' = Inr (out, err) \<longrightarrow>
     find_interface out = [] \<or> plain_device (find_interface out))"

text \<open>The commands \<open>t\<close> sent after \<open>h\<close> download the image, get its hash, find it allowed, and then start
  the enclave, with no other start and no other download in between or after.\<close>

definition vetted_run :: "responder \<Rightarrow> aws_config \<Rightarrow> string \<Rightarrow> bool \<Rightarrow> string \<Rightarrow> history \<Rightarrow> history \<Rightarrow> bool" where
  "vetted_run answer cfg url dbg c h t \<longleftrightarrow> (\<exists>sess a b out line.
      t = a @ [(sess, download_cmd url), (sess, hash_cmd)] @ b @ [(sess, c)]
    \<and> (\<forall>(s, c) \<in> set (a @ b). neutral dbg c) \<and> starts_enclave c
    \<and> answer (h @ a @ [(sess, download_cmd url)]) sess hash_cmd = Inr (out, [])
    \<and> first (split_whitespace out) = Some line \<and> hash_allowed cfg line)"

section \<open>Commands that are neutral\<close>

interpretation ext: io_relation "extends P"
proof
  show "extends P h h" for h by (simp add: extends_def)
  show "extends P u w" if uv: "extends P u v" and vw: "extends P v w" for u v w
  proof -
    obtain s where "v = u @ s" "\<forall>(a, c) \<in> set s. P c" using uv unfolding extends_def by blast
    moreover obtain t where "w = v @ t" "\<forall>(a, c) \<in> set t. P c" using vw unfolding extends_def by blast
    ultimately have "w = u @ (s @ t)" "\<forall>(a, c) \<in> set (s @ t). P c" by auto
    then show ?thesis unfolding extends_def by blast
  qed
qed

lemma keeps_exec: "recording api answer \<Longrightarrow> P c \<Longrightarrow> io_keeps (extends P) (ssh_exec api s c)"
  by (auto simp: recording_def io_keeps_def extends_def)

lemma keeps_no_stderr: "io_keeps (extends P) m \<Longrightarrow> io_keeps (extends P) (no_stderr msg m)"
  unfolding no_stderr_def by (intro ext.keeps)

lemma keeps_some_stdout: "io_keeps (extends P) m \<Longrightarrow> io_keeps (extends P) (some_stdout msg m)"
  unfolding some_stdout_def by (intro ext.keeps)

lemma keeps_query:
  assumes "recording api answer"
  shows "io_keeps (extends P) (describe_instances api rg f)" "io_keeps (extends P) (ssh_connect api a)"
  using assms ext.refl by (simp_all add: recording_def io_keeps_def)

lemmas keeps_intros = ext.keeps keeps_no_stderr keeps_some_stdout

lemma keeps_session: "recording api answer \<Longrightarrow> io_keeps (extends P) (ssh_session api i rg)"
  unfolding ssh_session_def get_instance_ip_def find_instance_def by (intro keeps_intros keeps_query)

lemma keeps_allocator: "recording api answer \<Longrightarrow> io_keeps (extends (neutral d)) (set_allocator api sess m c)"
  unfolding set_allocator_def by (intro keeps_intros keeps_exec neutral_cmds neutral_allocator)

lemma keeps_logger: "recording api answer \<Longrightarrow> io_keeps (extends (neutral True)) (setup_logger api sess)"
  unfolding setup_logger_def by (intro keeps_intros keeps_exec neutral_cmds neutral_logger)

lemma keeps_debug_logger:
  "recording api answer \<Longrightarrow> io_keeps (extends (neutral d)) (io_when d (setup_logger api sess))"
  using keeps_logger by (cases d) (auto simp: io_when_def intro: ext.keeps_pure)

lemma keeps_init_server:
  "recording api answer \<Longrightarrow> plain j \<Longrightarrow> io_keeps (extends (neutral d)) (setup_init_server api sess j)"
  unfolding setup_init_server_def by (intro keeps_intros keeps_exec neutral_cmds neutral_set_job)

text \<open>What follows a command may depend on its answer.\<close>

lemma keeps_answer:
  assumes r: "recording api answer" and "P c"
    and f: "\<And>h out err. answer h sess c = Inr (out, err) \<Longrightarrow> io_keeps (extends P) (f out)"
  shows "io_keeps (extends P) (io_bind (some_stdout msg (io_context msg' (ssh_exec api sess c))) f)"
  unfolding io_keeps_def
proof
  fix h
  let ?m = "some_stdout msg (io_context msg' (ssh_exec api sess c))"
  obtain x h1 where m: "?m h = (x, h1)" by fastforce
  have "io_keeps (extends P) ?m" by (intro keeps_intros keeps_exec [OF r] assms(2))
  from io_keepsD [OF this m] have e: "extends P h h1" .
  show "extends P h (snd (io_bind ?m f h))"
  proof (cases x)
    case (Inl y)
    with m e show ?thesis by (simp add: io_bind_def)
  next
    case (Inr out)
    with m r obtain err where "answer h sess c = Inr (out, err)"
      by (auto simp: some_stdout_def io_bind_Inr recording_def split: if_splits)
    from f [OF this] have "extends P h1 (snd (f out h1))" by (simp add: io_keeps_def)
    with e m Inr ext.trans [of P] show ?thesis by (simp add: io_bind_def)
  qed
qed

lemma keeps_bandwidth:
  assumes r: "recording api answer" and "plain_devices answer"
  shows "io_keeps (extends (neutral d)) (limit_bandwidth api sess bw)"
  unfolding limit_bandwidth_def Let_def
proof (rule keeps_answer [OF r, where P = "neutral d", OF neutral_cmds(4)])
  fix h out err
  assume "answer h sess ''nmcli device status'' = Inr (out, err)"
  with assms(2) have dev: "find_interface out = [] \<or> plain_device (find_interface out)"
    by (auto simp: plain_devices_def)
  show "io_keeps (extends (neutral d)) (if find_interface out = [] then io_err ''Error fetching network interface name''
     else
       io_bind (some_stdout ''Error fetching network interface qdisc configuration: ''
           (io_context ''Failed to fetch tc config''
              (ssh_exec api sess (''sudo tc qdisc show dev '' @ find_interface out @ '' root'')))) (\<lambda>tc.
       io_then (io_when (any_rule_set tc)
           (io_then (no_stderr ''Error removing network interface qdisc configuration: ''
              (ssh_exec api sess (''sudo tc qdisc del dev '' @ find_interface out @ '' root''))) (io_ok ())))
       (io_then (no_stderr ''Error setting up bandwidth limit: ''
          (ssh_exec api sess (''sudo tc qdisc add dev '' @ find_interface out @ '' root tbf rate '' @ show_u64 bw @
             ''kbit burst 4000Mb latency 100ms''))) (io_ok ()))))"
    (is "io_keeps _ (if ?none then _ else ?set)")
  proof (cases ?none)
    case True
    then show ?thesis by (simp add: ext.keeps_pure)
  next
    case False
    with dev have d: "plain_device (find_interface out)" by simp
    have "io_keeps (extends (neutral d)) ?set"
      by (intro keeps_intros keeps_exec [OF r] neutral_tc [OF d])
    with False show ?thesis by simp
  qed
qed

lemma keeps_iptables:
  assumes r: "recording api answer" and q: "neutral d query" and "\<forall>rule \<in> set rules. neutral d (snd rule)"
  shows "io_keeps (extends (neutral d)) (setup_iptables api sess query policy rules)"
proof -
  have "io_keeps (extends (neutral d)) (add_rules api sess present rules)" for present
    using assms(3)
    by (induction rules) (auto simp: add_rule_def intro!: keeps_intros keeps_exec [OF r, where P = "neutral d"])
  then show ?thesis
    unfolding setup_iptables_def Let_def
    by (intro keeps_intros keeps_exec [OF r] q)
qed

section \<open>From the download to the start\<close>

definition silent :: "string \<Rightarrow> bool" where
  "silent c \<longleftrightarrow> \<not> starts_enclave c"

lemma silent_neutral: "neutral d c \<Longrightarrow> silent c"
  by (simp add: silent_def neutral_def)

lemma silent_cmds:
  "plain_url u \<Longrightarrow> silent (download_cmd u)" "silent hash_cmd" "plain_url u \<Longrightarrow> silent (store_url_cmd u)"
  using neutral_cmds(2) neutral_store_url [of u] by (simp_all add: silent_neutral) (simp add: silent_def download_silent)

lemma fetch_silent:
  "recording api answer \<Longrightarrow> plain_url url \<Longrightarrow> io_keeps (extends silent) (fetch_image api cfg sess url)"
  unfolding fetch_image_def check_eif_blacklist_whitelist_def
  by (intro keeps_intros keeps_exec silent_cmds)

lemma fetch_success:
  assumes "recording api answer" and "eif_whitelist cfg \<noteq> None \<or> eif_blacklist cfg \<noteq> None"
    and "fetch_image api cfg sess url h = (Inr x, h')"
  shows "h' = h @ [(sess, download_cmd url), (sess, hash_cmd), (sess, store_url_cmd url)]
    \<and> (\<exists>out line. answer (h @ [(sess, download_cmd url)]) sess hash_cmd = Inr (out, [])
          \<and> first (split_whitespace out) = Some line \<and> hash_allowed cfg line)"
  using assms
  by (auto simp: fetch_image_def io_then_def io_bind_Inr check_eif_blacklist_whitelist_def no_stderr_def
      recording_def io_ensure_def io_ok_or_def split: if_splits option.splits)

lemma start_exact:
  assumes "recording api answer"
  shows "snd (start_enclave api sess rmem rcpu dbg h) = h @ [(sess, run_cmd rmem rcpu dbg)]"
  using assms
  by (auto simp: start_enclave_def io_bind_def recording_def io_err_def io_ok_def
      split: sum.split prod.split)

lemma vetted_runI:
  assumes "\<forall>(s, c) \<in> set a. neutral dbg c" and "\<forall>(s, c) \<in> set b. neutral dbg c" and "starts_enclave c"
    and "answer (h @ a @ [(sess, download_cmd url)]) sess hash_cmd = Inr (out, [])"
    and "first (split_whitespace out) = Some line" and "hash_allowed cfg line"
  shows "vetted_run answer cfg url dbg c h (a @ [(sess, download_cmd url), (sess, hash_cmd)] @ b @ [(sess, c)])"
  unfolding vetted_run_def using assms by fastforce

text \<open>What happens between the download and the start decides for the whole sequence.\<close>

lemma vetted_sequence:
  assumes r: "recording api answer" and set: "eif_whitelist cfg \<noteq> None \<or> eif_blacklist cfg \<noteq> None"
    and url: "plain_url url" and a: "io_keeps (extends (neutral dbg)) A" and b: "io_keeps (extends (neutral dbg)) B"
    and run: "io_then A (io_then (fetch_image api cfg sess url)
      (io_then B (start_enclave api sess rmem rcpu dbg))) h = (res, h')"
  shows "\<exists>t. h' = h @ t \<and> (vetted_run answer cfg url dbg (run_cmd rmem rcpu dbg) h t \<or> (\<forall>(s, c) \<in> set t. silent c) \<and> res \<noteq> Inr ())"
proof -
  obtain ra h1 where ha: "A h = (ra, h1)" by fastforce
  from io_keepsD [OF a ha] obtain t1 where t1: "h1 = h @ t1" "\<forall>(s, c) \<in> set t1. neutral dbg c"
    unfolding extends_def by blast
  obtain rf h2 where hf: "fetch_image api cfg sess url h1 = (rf, h2)" by fastforce
  from io_keepsD [OF fetch_silent [OF r url] hf] obtain t2 where t2: "h2 = h1 @ t2" "\<forall>(s, c) \<in> set t2. silent c"
    unfolding extends_def by blast
  obtain rb h3 where hb: "B h2 = (rb, h3)" by fastforce
  from io_keepsD [OF b hb] obtain t3 where t3: "h3 = h2 @ t3" "\<forall>(s, c) \<in> set t3. neutral dbg c"
    unfolding extends_def by blast
  have s13: "\<forall>(s, c) \<in> set t1. silent c" "\<forall>(s, c) \<in> set t3. silent c"
    using t1(2) t3(2) silent_neutral by fastforce+
  show ?thesis
  proof (cases ra)
    case (Inl e)
    with run ha have "h' = h1" "res = Inl e" by (simp_all add: io_then_def io_bind_def)
    with t1 s13 show ?thesis by auto
  next
    case (Inr x)
    show ?thesis
    proof (cases rf)
      case (Inl e)
      with run ha hf Inr have "h' = h2" "res = Inl e" by (simp_all add: io_then_def io_bind_def)
      with t1 t2 s13 show ?thesis by (intro exI [of _ "t1 @ t2"]) auto
    next
      case (Inr y)
      note f = fetch_success [OF r set hf [unfolded Inr]]
      show ?thesis
      proof (cases rb)
        case (Inl e)
        with run ha hf hb Inr \<open>ra = Inr x\<close> have "h' = h3" "res = Inl e"
          by (simp_all add: io_then_def io_bind_def)
        with t1 t2 t3 s13 show ?thesis by (intro exI [of _ "t1 @ t2 @ t3"]) auto
      next
        case (Inr z)
        with run ha hf hb \<open>ra = Inr x\<close> \<open>rf = Inr y\<close>
        have "h' = snd (start_enclave api sess rmem rcpu dbg h3)" by (simp add: io_then_def io_bind_def)
        then have "h' = h @ (t1 @ [(sess, download_cmd url), (sess, hash_cmd)] @
            ((sess, store_url_cmd url) # t3) @ [(sess, run_cmd rmem rcpu dbg)])"
          using start_exact [OF r] f t1 t2 t3 by simp
        moreover have "vetted_run answer cfg url dbg (run_cmd rmem rcpu dbg) h (t1 @ [(sess, download_cmd url), (sess, hash_cmd)] @
            ((sess, store_url_cmd url) # t3) @ [(sess, run_cmd rmem rcpu dbg)])"
          using f t1 t3 neutral_store_url [OF url]
          by (elim exE conjE) (rule vetted_runI, auto simp: run_starts)
        ultimately show ?thesis by blast
      qed
    qed
  qed
qed

lemma io_then_assoc: "io_then (io_then m n) k = io_then m (io_then n k)"
  by (rule ext) (auto simp: io_then_def io_bind_def split: prod.split sum.split)

lemma vetted_run_append:
  "vetted_run answer cfg url dbg c (h @ t1) t \<Longrightarrow> \<forall>(s, c) \<in> set t1. neutral dbg c \<Longrightarrow>
   vetted_run answer cfg url dbg c h (t1 @ t)"
  (is "?v \<Longrightarrow> ?n \<Longrightarrow> ?goal")
proof -
  assume ?v and n: ?n
  then obtain sess a b out line where t: "t = a @ [(sess, download_cmd url), (sess, hash_cmd)] @ b @ [(sess, c)]"
    and "\<forall>(s, c) \<in> set (a @ b). neutral dbg c" "starts_enclave c"
      "answer ((h @ t1) @ a @ [(sess, download_cmd url)]) sess hash_cmd = Inr (out, [])"
      "first (split_whitespace out) = Some line" "hash_allowed cfg line"
    unfolding vetted_run_def by blast
  with n vetted_runI [of "t1 @ a" dbg b c answer h sess url out line cfg] show ?goal by auto
qed

text \<open>A prefix that opens the session does not matter.\<close>

lemma vetted_after:
  assumes r: "recording api answer" and m: "io_keeps (extends (neutral dbg)) m"
    and f: "\<And>x h1 r h'. f x h1 = (r, h') \<Longrightarrow>
      \<exists>t. h' = h1 @ t \<and> (vetted_run answer cfg url dbg c0 h1 t \<or> (\<forall>(s, c) \<in> set t. silent c) \<and> Q r)"
    and q: "\<And>e. Q (Inl e)"
    and run: "io_bind m f h = (res, h')"
  shows "\<exists>t. h' = h @ t \<and> (vetted_run answer cfg url dbg c0 h t \<or> (\<forall>(s, c) \<in> set t. silent c) \<and> Q res)"
proof -
  obtain x h1 where h1: "m h = (x, h1)" by fastforce
  from io_keepsD [OF m h1] obtain t1 where t1: "h1 = h @ t1" "\<forall>(s, c) \<in> set t1. neutral dbg c"
    unfolding extends_def by blast
  have s1: "\<forall>(s, c) \<in> set t1. silent c" using t1(2) silent_neutral by fastforce
  show ?thesis
  proof (cases x)
    case (Inl e)
    with run h1 t1 s1 q show ?thesis by (auto simp: io_bind_def)
  next
    case (Inr y)
    with run h1 have "f y h1 = (res, h')" by (simp add: io_bind_def)
    from f [OF this] obtain t where t: "h' = h1 @ t"
      "vetted_run answer cfg url dbg c0 h1 t \<or> (\<forall>(s, c) \<in> set t. silent c) \<and> Q res" by blast
    from t(2) show ?thesis
    proof
      assume "vetted_run answer cfg url dbg c0 h1 t"
      then have "vetted_run answer cfg url dbg c0 h (t1 @ t)" using vetted_run_append t1 by blast
      with t(1) t1(1) show ?thesis by auto
    next
      assume "(\<forall>(s, c) \<in> set t. silent c) \<and> Q res"
      with t(1) t1(1) s1 show ?thesis by (intro exI [of _ "t1 @ t"]) auto
    qed
  qed
qed

lemma vetted_salmon:
  assumes "recording api answer" and "eif_whitelist cfg \<noteq> None \<or> eif_blacklist cfg \<noteq> None"
    and "plain_url url" and "plain_devices answer"
    and "run_enclave_salmon api cfg i rg url rcpu rmem bw dbg h = (res, h')"
  shows "\<exists>t. h' = h @ t \<and> (vetted_run answer cfg url dbg (run_cmd rmem rcpu dbg) h t \<or> (\<forall>(s, c) \<in> set t. silent c) \<and> res \<noteq> Inr ())"
proof (rule vetted_after [OF assms(1) keeps_session [OF assms(1)]
      _ _ assms(5) [unfolded run_enclave_salmon_def]])
  fix sess h1 r h''
  assume "io_then (set_allocator api sess rmem rcpu)
     (io_then (fetch_image api cfg sess url)
     (io_then (limit_bandwidth api sess bw)
     (io_then (setup_iptables api sess ''sudo iptables -t nat -S PREROUTING'' ''-P PREROUTING ACCEPT''
        salmon_rules)
     (io_then (io_when dbg (setup_logger api sess))
     (start_enclave api sess rmem rcpu dbg))))) h1 = (r, h'')"
  then have "io_then (set_allocator api sess rmem rcpu)
     (io_then (fetch_image api cfg sess url)
     (io_then (io_then (limit_bandwidth api sess bw)
       (io_then (setup_iptables api sess ''sudo iptables -t nat -S PREROUTING'' ''-P PREROUTING ACCEPT''
          salmon_rules)
       (io_when dbg (setup_logger api sess))))
     (start_enclave api sess rmem rcpu dbg))) h1 = (r, h'')"
    by (simp only: io_then_assoc)
  moreover have "io_keeps (extends (neutral dbg)) (io_then (limit_bandwidth api sess bw)
       (io_then (setup_iptables api sess ''sudo iptables -t nat -S PREROUTING'' ''-P PREROUTING ACCEPT''
          salmon_rules)
       (io_when dbg (setup_logger api sess))))"
    by (intro ext.keeps keeps_bandwidth [OF assms(1,4)] keeps_debug_logger [OF assms(1)]
        keeps_iptables [OF assms(1) neutral_cmds(9) neutral_rules(1)])
  ultimately
  show "\<exists>t. h'' = h1 @ t \<and> (vetted_run answer cfg url dbg (run_cmd rmem rcpu dbg) h1 t \<or> (\<forall>(s, c) \<in> set t. silent c) \<and> r \<noteq> Inr ())"
    by (intro vetted_sequence [OF assms(1-3) keeps_allocator [OF assms(1)]])
qed simp

lemma vetted_tuna:
  assumes "recording api answer" and "eif_whitelist cfg \<noteq> None \<or> eif_blacklist cfg \<noteq> None"
    and "plain_url url" and "plain_devices answer" and "plain job"
    and "run_enclave_tuna api cfg job i rg url rcpu rmem bw dbg h = (res, h')"
  shows "\<exists>t. h' = h @ t \<and> (vetted_run answer cfg url dbg (run_cmd rmem rcpu dbg) h t \<or> (\<forall>(s, c) \<in> set t. silent c) \<and> res \<noteq> Inr ())"
proof (rule vetted_after [OF assms(1) keeps_session [OF assms(1)]
      _ _ assms(6) [unfolded run_enclave_tuna_def]])
  fix sess h1 r h''
  let ?ports = "no_stderr ''Failed to set ephemeral ports: ''
        (io_context ''Failed to set ephemeral ports'' (ssh_exec api sess set_ports_cmd))"
  assume "io_then ?ports
     (io_then (set_allocator api sess rmem rcpu)
     (io_then (fetch_image api cfg sess url)
     (io_then (limit_bandwidth api sess bw)
     (io_then (setup_iptables api sess ''sudo iptables -S INPUT'' ''-P INPUT ACCEPT'' tuna_rules)
     (io_then (setup_init_server api sess job)
     (io_then (io_when dbg (setup_logger api sess))
     (start_enclave api sess rmem rcpu dbg))))))) h1 = (r, h'')"
  then have "io_then (io_then ?ports (set_allocator api sess rmem rcpu))
     (io_then (fetch_image api cfg sess url)
     (io_then (io_then (limit_bandwidth api sess bw)
       (io_then (setup_iptables api sess ''sudo iptables -S INPUT'' ''-P INPUT ACCEPT'' tuna_rules)
       (io_then (setup_init_server api sess job)
       (io_when dbg (setup_logger api sess)))))
     (start_enclave api sess rmem rcpu dbg))) h1 = (r, h'')"
    by (simp only: io_then_assoc)
  moreover have "io_keeps (extends (neutral dbg)) (io_then ?ports (set_allocator api sess rmem rcpu))"
    by (intro ext.keeps keeps_no_stderr keeps_exec [OF assms(1)] neutral_cmds keeps_allocator [OF assms(1)])
  moreover have "io_keeps (extends (neutral dbg)) (io_then (limit_bandwidth api sess bw)
       (io_then (setup_iptables api sess ''sudo iptables -S INPUT'' ''-P INPUT ACCEPT'' tuna_rules)
       (io_then (setup_init_server api sess job)
       (io_when dbg (setup_logger api sess)))))"
    by (intro ext.keeps keeps_bandwidth [OF assms(1,4)] keeps_debug_logger [OF assms(1)]
        keeps_init_server [OF assms(1,5)] keeps_iptables [OF assms(1) neutral_cmds(10) neutral_rules(2)])
  ultimately
  show "\<exists>t. h'' = h1 @ t \<and> (vetted_run answer cfg url dbg (run_cmd rmem rcpu dbg) h1 t \<or> (\<forall>(s, c) \<in> set t. silent c) \<and> r \<noteq> Inr ())"
    by (intro vetted_sequence [OF assms(1-3)])
qed simp

lemma vetted_update:
  assumes r: "recording api answer" and set: "eif_whitelist cfg \<noteq> None \<or> eif_blacklist cfg \<noteq> None"
    and url: "plain_url url" and "update_enclave_image_impl api cfg i rg url rcpu rmem h = (res, h')"
  shows "\<exists>t. h' = h @ t \<and> (vetted_run answer cfg url False (run_cmd rmem rcpu False) h t
    \<or> (\<forall>(s, c) \<in> set t. silent c) \<and> True)"
proof (rule vetted_after [OF r keeps_session [OF r] _ _ assms(4) [unfolded update_enclave_image_impl_def]])
  fix sess h1 r1 h''
  assume run: "io_bind (io_context ''Failed to read image_url.txt'' (ssh_exec api sess ''cat image_url.txt''))
       (\<lambda>(out, err).
     if err = [] \<and> out = url then io_ok ()
     else
       io_then (fetch_image api cfg sess url)
       (io_then (no_stderr ''Error terminating enclave: ''
          (ssh_exec api sess ''nitro-cli terminate-enclave --all''))
       (start_enclave api sess rmem rcpu False))) h1 = (r1, h'')"
  show "\<exists>t. h'' = h1 @ t \<and> (vetted_run answer cfg url False (run_cmd rmem rcpu False) h1 t
    \<or> (\<forall>(s, c) \<in> set t. silent c) \<and> True)"
  proof (rule vetted_after [OF r _ _ _ run])
    show "io_keeps (extends (neutral False))
        (io_context ''Failed to read image_url.txt'' (ssh_exec api sess ''cat image_url.txt''))"
      by (intro ext.keeps keeps_exec [OF r] neutral_cmds)
  next
    fix x h2 r2 h3
    assume x: "(case x of (out, err) \<Rightarrow> if err = [] \<and> out = url then io_ok ()
     else io_then (fetch_image api cfg sess url)
       (io_then (no_stderr ''Error terminating enclave: ''
          (ssh_exec api sess ''nitro-cli terminate-enclave --all''))
       (start_enclave api sess rmem rcpu False))) h2 = (r2, h3)"
    have k: "io_keeps (extends (neutral False)) (io_ok ())" "io_keeps (extends (neutral False))
        (no_stderr ''Error terminating enclave: '' (ssh_exec api sess ''nitro-cli terminate-enclave --all''))"
      by (intro ext.keeps keeps_no_stderr keeps_exec [OF r] neutral_cmds)+
    obtain out err where xp: "x = (out, err)" by (cases x)
    show "\<exists>t. h3 = h2 @ t \<and> (vetted_run answer cfg url False (run_cmd rmem rcpu False) h2 t
      \<or> (\<forall>(s, c) \<in> set t. silent c) \<and> True)"
    proof (cases "err = [] \<and> out = url")
      case True
      with x xp have "h3 = h2" by (simp add: io_ok_def)
      then show ?thesis by simp
    next
      case False
      with x xp have "io_then (io_ok ()) (io_then (fetch_image api cfg sess url)
         (io_then (no_stderr ''Error terminating enclave: ''
            (ssh_exec api sess ''nitro-cli terminate-enclave --all''))
         (start_enclave api sess rmem rcpu False))) h2 = (r2, h3)"
        by (simp add: io_then_def io_bind_def io_ok_def)
      from vetted_sequence [OF r set url k this] show ?thesis by blast
    qed
  qed simp
qed simp

section \<open>Properties\<close>

text \<open>C2: No image runs unchecked. With a list of allowed or refused images configured, a plain address of the
  image, a plain job and plain names of network interfaces, starting an enclave either fails with no command of
  which a word is \<open>run-enclave\<close>, or sends exactly: set-up; the download, in which the shell reads one \<open>curl\<close> with the
  address as its last word; the hash of the image, which the lists allow; further set-up; and at the end one
  start. Set-up has no start in it, names the image only to hash it, and downloads nothing but, in debug mode,
  the operator's logger, which it then starts. (The address is spliced in unquoted, so without plainness the
  claim fails: lemma \<open>url_injects\<close>.)\<close>

theorem image_vetted_before_start:
  assumes "recording api answer" and "eif_whitelist cfg \<noteq> None \<or> eif_blacklist cfg \<noteq> None"
    and "plain_url url" and "plain_devices answer" and "plain job"
    and "run_enclave_impl api cfg job fam i rg url rcpu rmem bw dbg h = (res, h')"
  shows "shell_lex Bare None (download_cmd url) = map Word [''curl'', ''-sL'', ''-o'', ''enclave.eif'',
      ''--max-filesize'', ''4000000000'', ''--max-time'', ''120'', url] \<and>
    (\<exists>t. h' = h @ t \<and> (vetted_run answer cfg url dbg (run_cmd rmem rcpu dbg) h t
      \<or> (\<forall>(s, c) \<in> set t. \<not> starts_enclave c) \<and> res \<noteq> Inr ()))"
proof -
  have "\<exists>t. h' = h @ t \<and> (vetted_run answer cfg url dbg (run_cmd rmem rcpu dbg) h t \<or> (\<forall>(s, c) \<in> set t. silent c) \<and> res \<noteq> Inr ())"
    using assms(6) vetted_salmon [OF assms(1-4)] vetted_tuna [OF assms(1-5)]
    by (auto simp: run_enclave_impl_def io_err_def split: if_splits)
  then show ?thesis by (simp add: silent_def download_reads [OF assms(3)])
qed

text \<open>A host that answers every command the way a fresh instance does; the hash of its image is \<open>ab\<close>.\<close>

definition sample_answer :: responder where
  "sample_answer h s c =
     (if c = hash_cmd then Inr (''ab  enclave.eif'', [])
      else if c = ''nmcli device status'' then Inr (''e ethernet'', [])
      else if prefix ''sudo tc qdisc show'' c then Inr (''qdisc mq 0: root'', [])
      else if c = ''sudo iptables -t nat -S PREROUTING'' then Inr (''-P PREROUTING ACCEPT'', [])
      else Inr ([], []))"

definition sample_aws :: "responder \<Rightarrow> history aws_api" where
  "sample_aws answer = \<lparr>
     parse_instance_type = Some,
     describe_instances = (\<lambda>_ _. io_ok [[\<lparr>in_id = Some ''i'', in_state = Some (Some ''running''), in_ip = Some ''1''\<rparr>]]),
     describe_addresses = (\<lambda>_ _. io_ok []),
     describe_instance_types = (\<lambda>_ _. io_ok []),
     describe_images = (\<lambda>_ _ _. io_ok []),
     describe_security_groups = (\<lambda>_ _. io_ok []),
     describe_subnets = (\<lambda>_ _. io_ok []),
     run_instances = (\<lambda>_ _. io_ok []),
     terminate_instances = (\<lambda>_ _. io_ok ()),
     aws_allocate_address = (\<lambda>_ _. io_err ''no address''),
     aws_associate_address = (\<lambda>_ _ _. io_ok ()),
     aws_disassociate_address = (\<lambda>_ _. io_ok ()),
     aws_release_address = (\<lambda>_ _. io_ok ()),
     ssh_connect = io_ok,
     ssh_exec = (\<lambda>s c h. (answer h s c, h @ [(s, c)])),
     parse_enclaves = (\<lambda>_. None) \<rparr>"

lemma sample_recording: "recording (sample_aws answer) answer"
  by (simp add: recording_def sample_aws_def io_ok_def)

lemma sample_devices: "plain_devices sample_answer"
proof -
  have "find_interface ''e ethernet'' = ''e''" by code_simp
  moreover have "plain_device ''e''" by (simp add: plain_device_def plain_def plain_char_def)
  ultimately show ?thesis by (auto simp: plain_devices_def sample_answer_def hash_cmd_def)
qed

lemma sample_url: "plain_url ''http://u''"
  by (simp add: plain_url_def plain_def plain_char_def)

definition sample_aws_config :: aws_config where
  "sample_aws_config = \<lparr>key_name = ''k'', eif_whitelist = Some [''ab''], eif_blacklist = None\<rparr>"

theorem image_vetted_before_start_witness:
  "\<exists>t. vetted_run sample_answer sample_aws_config ''http://u'' False (run_cmd 4 2 False) [] t"
proof -
  have "fst (run_enclave_impl (sample_aws sample_answer) sample_aws_config ''j'' ''salmon'' ''i'' ''r'' ''http://u''
      2 4 8 False []) = Inr ()"
    by code_simp
  then obtain h' where run: "run_enclave_impl (sample_aws sample_answer) sample_aws_config ''j'' ''salmon'' ''i'' ''r''
      ''http://u'' 2 4 8 False [] = (Inr (), h')"
    by (metis prod.collapse)
  have job: "plain ''j''" by (simp add: plain_def plain_char_def)
  have "eif_whitelist sample_aws_config \<noteq> None \<or> eif_blacklist sample_aws_config \<noteq> None"
    by (simp add: sample_aws_config_def)
  from image_vetted_before_start [OF sample_recording this sample_url sample_devices job run] show ?thesis by blast
qed

text \<open>an update is vetted like a start. An update of the image either leaves the enclave alone, because
  the address stored on the instance is already the new one, or because it fails before any start, or it
  sends the vetted sequence, whose start is never in debug mode.\<close>

lemma update_vetted_before_start:
  assumes "recording api answer" and "eif_whitelist cfg \<noteq> None \<or> eif_blacklist cfg \<noteq> None"
    and "plain_url url" and "update_enclave_image_impl api cfg i rg url rcpu rmem h = (res, h')"
  shows "\<exists>t. h' = h @ t \<and> (vetted_run answer cfg url False (run_cmd rmem rcpu False) h t
    \<or> (\<forall>(s, c) \<in> set t. \<not> starts_enclave c))"
  using vetted_update [OF assms] by (simp add: silent_def)

lemma update_vetted_before_start_witness:
  "\<exists>t. vetted_run sample_answer sample_aws_config ''http://u'' False (run_cmd 4 2 False) [] t"
proof -
  let ?u = "update_enclave_image_impl (sample_aws sample_answer) sample_aws_config ''i'' ''r'' ''http://u'' 2 4 []"
  have started: "list_ex (\<lambda>(s, c). starts_enclave c) (snd ?u)" by code_simp
  obtain res h' where u: "?u = (res, h')" by (rule prod.exhaust)
  have ex: "\<exists>(s, c) \<in> set h'. starts_enclave c" using started unfolding u list_ex_iff snd_conv .
  have "eif_whitelist sample_aws_config \<noteq> None \<or> eif_blacklist sample_aws_config \<noteq> None"
    by (simp add: sample_aws_config_def)
  from update_vetted_before_start [OF sample_recording this sample_url u] ex show ?thesis by fastforce
qed

end
