(* ===== verification/Indexer.thy ===== *)
theory Indexer
  imports Oyster_Prelude
begin

text \<open>
  The market indexer (\<open>contracts/indexer/src\<close>): the tables of the database with their keys and foreign
  keys, the handler of each event of the market contract, \<open>handle_log\<close>, and the event loop that applies
  ranges of blocks in transactions.

  The ABI decoders, the printers of words and addresses and \<open>keccak256\<close> are the record \<open>ix_lib\<close>, a
  parameter. \<open>NUMERIC\<close> columns are integers. A handler takes the database to a result and a database with the
  writes made so far; a panic is \<open>None\<close>. Time stamps beyond the range of the database's own type are not
  modelled, and the text of a decoding error is just \<open>decode\<close>.
\<close>

section \<open>Tables\<close>

record provider_row =
  pv_cp :: string
  pv_is_active :: bool

record job_row =
  jr_metadata :: string
  jr_owner :: string
  jr_provider :: string
  jr_rate :: int
  jr_balance :: int
  jr_last_settled :: u64
  jr_created :: u64
  jr_is_closed :: bool

record request_row =
  rr_value :: int
  rr_updates_at :: u64

record transaction_row =
  tx_hash :: string
  tx_job :: string
  tx_amount :: int
  tx_is_deposit :: bool

text \<open>The tables the handlers work on; and all of them with the table \<open>sync\<close>, which has one row unless the
  database is corrupted.\<close>

record db =
  db_jobs :: "string \<Rightarrow> job_row option"
  db_providers :: "string \<Rightarrow> provider_row option"
  db_requests :: "string \<Rightarrow> request_row option"
  db_transactions :: "i64 \<times> i64 \<Rightarrow> transaction_row option"

record database =
  tables :: db
  sync :: "i64 option"

text \<open>The database after the migrations.\<close>

definition initial_db :: db where
  "initial_db = \<lparr>db_jobs = Map.empty, db_providers = Map.empty, db_requests = Map.empty,
     db_transactions = Map.empty\<rparr>"

definition initial_database :: database where
  "initial_database = \<lparr>tables = initial_db, sync = Some (- 1)\<rparr>"

record ix_log =
  ix_topics :: "b256 list"
  ix_data :: bytes
  ix_block :: "u64 option"
  ix_index :: "u64 option"
  ix_tx_hash :: "b256 option"

record ix_lib =
  ix_keccak256 :: "string \<Rightarrow> b256"
  ix_hex :: "b256 \<Rightarrow> string"
  ix_address :: "b256 \<Rightarrow> string"
  ix_string :: "bytes \<Rightarrow> string option"
  ix_u256 :: "bytes \<Rightarrow> u256 option"
  ix_u256_pair :: "bytes \<Rightarrow> (u256 \<times> u256) option"
  ix_opened :: "bytes \<Rightarrow> (string \<times> u256 \<times> u256 \<times> u256) option"

type_synonym handler = "db \<Rightarrow> (unit rust_result \<times> db) option"

definition fails :: "string \<Rightarrow> handler" where
  "fails e d = Some (Inl e, d)"

definition succeeds :: handler where
  "succeeds d = Some (Inr (), d)"

text \<open>\<open>UNIX_EPOCH + Duration::from_secs(t.into_limbs()[0])\<close>: the low limb, and a panic beyond the range
  of \<open>SystemTime\<close>.\<close>

definition unix_time :: "u256 \<Rightarrow> u64 option" where
  "unix_time t = (let secs = ucast t :: u64 in if unat secs < 2 ^ 63 then Some secs else None)"

section \<open>Statements\<close>

text \<open>An update of the open job with an id; it counts the rows.\<close>

definition update_open_job :: "string \<Rightarrow> (job_row \<Rightarrow> job_row) \<Rightarrow> db \<Rightarrow> nat \<times> db" where
  "update_open_job i f d =
     (case db_jobs d i of
        Some r \<Rightarrow> if jr_is_closed r then (0, d) else (1, d\<lparr>db_jobs := (db_jobs d)(i \<mapsto> f r)\<rparr>)
      | None \<Rightarrow> (0, d))"

definition update_active_provider :: "string \<Rightarrow> (provider_row \<Rightarrow> provider_row) \<Rightarrow> db \<Rightarrow> nat \<times> db" where
  "update_active_provider i f d =
     (case db_providers d i of
        Some r \<Rightarrow> if pv_is_active r then (1, d\<lparr>db_providers := (db_providers d)(i \<mapsto> f r)\<rparr>) else (0, d)
      | None \<Rightarrow> (0, d))"

text \<open>An insertion fails when the key is taken or the job it refers to does not exist.\<close>

definition insert_transaction :: "u64 \<Rightarrow> u64 \<Rightarrow> transaction_row \<Rightarrow> string \<Rightarrow> handler" where
  "insert_transaction block idx row msg d =
     (if db_transactions d (block, idx) = None \<and> db_jobs d (tx_job row) \<noteq> None
      then Some (Inr (), d\<lparr>db_transactions := (db_transactions d)((block, idx) \<mapsto> row)\<rparr>)
      else Some (Inl msg, d))"

definition one_row :: "string \<Rightarrow> nat \<times> db \<Rightarrow> (unit rust_result \<times> db) option" where
  "one_row msg r = (if fst r \<noteq> 1 then Some (Inl msg, snd r) else Some (Inr (), snd r))"

section \<open>Handlers\<close>

definition handle_provider_added :: "ix_lib \<Rightarrow> ix_log \<Rightarrow> handler" where
  "handle_provider_added lib l d =
     (case vindex (ix_topics l) 1 of None \<Rightarrow> None
      | Some t \<Rightarrow>
      let provider = ix_address lib t in
      case ix_string lib (ix_data l) of None \<Rightarrow> fails ''decode'' d
      | Some cp \<Rightarrow>
      one_row ''did not expect to find existing provider''
        (case db_providers d provider of
           Some r \<Rightarrow> if pv_is_active r then (0, d)
                     else (1, d\<lparr>db_providers := (db_providers d)(provider \<mapsto>
                               r\<lparr>pv_is_active := True, pv_cp := cp\<rparr>)\<rparr>)
         | None \<Rightarrow> (1, d\<lparr>db_providers := (db_providers d)(provider \<mapsto>
                               \<lparr>pv_cp = cp, pv_is_active = True\<rparr>)\<rparr>)))"

definition handle_provider_removed :: "ix_lib \<Rightarrow> ix_log \<Rightarrow> handler" where
  "handle_provider_removed lib l d =
     (case vindex (ix_topics l) 1 of None \<Rightarrow> None
      | Some t \<Rightarrow>
          one_row ''count 0 should have been 1''
            (update_active_provider (ix_address lib t) (\<lambda>r. r\<lparr>pv_is_active := False\<rparr>) d))"

definition handle_provider_updated_with_cp :: "ix_lib \<Rightarrow> ix_log \<Rightarrow> handler" where
  "handle_provider_updated_with_cp lib l d =
     (case vindex (ix_topics l) 1 of None \<Rightarrow> None
      | Some t \<Rightarrow>
      case ix_string lib (ix_data l) of None \<Rightarrow> fails ''decode'' d
      | Some cp \<Rightarrow>
          one_row ''count 0 should have been 1''
            (update_active_provider (ix_address lib t) (\<lambda>r. r\<lparr>pv_cp := cp\<rparr>) d))"

definition handle_job_opened :: "ix_lib \<Rightarrow> ix_log \<Rightarrow> handler" where
  "handle_job_opened lib l d =
     (case vindex (ix_topics l) 1 of None \<Rightarrow> None | Some t1 \<Rightarrow>
      case vindex (ix_topics l) 2 of None \<Rightarrow> None | Some t2 \<Rightarrow>
      case vindex (ix_topics l) 3 of None \<Rightarrow> None | Some t3 \<Rightarrow>
      let i = ix_hex lib t1 in
      case ix_opened lib (ix_data l) of None \<Rightarrow> fails ''decode'' d
      | Some (metadata, rate, balance, timestamp) \<Rightarrow>
      case unix_time timestamp of None \<Rightarrow> None | Some ts \<Rightarrow>
      case ix_block l of None \<Rightarrow> fails ''did not get block from log'' d | Some block \<Rightarrow>
      case ix_index l of None \<Rightarrow> fails ''did not get index from log'' d | Some idx \<Rightarrow>
      case ix_tx_hash l of None \<Rightarrow> fails ''did not get tx hash from log'' d | Some hash \<Rightarrow>
      if db_jobs d i \<noteq> None then fails ''failed to create job'' d
      else
        let d1 = d\<lparr>db_jobs := (db_jobs d)(i \<mapsto>
              \<lparr>jr_metadata = metadata, jr_owner = ix_address lib t2, jr_provider = ix_address lib t3,
               jr_rate = uint rate, jr_balance = uint balance, jr_last_settled = ts, jr_created = ts,
               jr_is_closed = False\<rparr>)\<rparr>
        in insert_transaction block idx
             \<lparr>tx_hash = ix_hex lib hash, tx_job = i, tx_amount = uint balance, tx_is_deposit = True\<rparr>
             ''failed to create deposit'' d1)"

definition handle_job_settled :: "ix_lib \<Rightarrow> ix_log \<Rightarrow> handler" where
  "handle_job_settled lib l d =
     (case vindex (ix_topics l) 1 of None \<Rightarrow> None
      | Some t \<Rightarrow>
      case ix_u256_pair lib (ix_data l) of None \<Rightarrow> fails ''decode'' d
      | Some (amount, timestamp) \<Rightarrow>
      case unix_time timestamp of None \<Rightarrow> None
      | Some ts \<Rightarrow>
          one_row ''could not find job''
            (update_open_job (ix_hex lib t)
               (\<lambda>r. r\<lparr>jr_balance := jr_balance r - uint amount, jr_last_settled := ts\<rparr>) d))"

definition handle_job_closed :: "ix_lib \<Rightarrow> ix_log \<Rightarrow> handler" where
  "handle_job_closed lib l d =
     (case vindex (ix_topics l) 1 of None \<Rightarrow> None
      | Some t \<Rightarrow>
          one_row ''could not find job'' (update_open_job (ix_hex lib t) (\<lambda>r. r\<lparr>jr_is_closed := True\<rparr>) d))"

text \<open>A deposit and a withdrawal update the balance and then record the transaction.\<close>

definition handle_job_deposited :: "ix_lib \<Rightarrow> ix_log \<Rightarrow> handler" where
  "handle_job_deposited lib l d =
     (case vindex (ix_topics l) 1 of None \<Rightarrow> None
      | Some t \<Rightarrow>
      let i = ix_hex lib t in
      case ix_u256 lib (ix_data l) of None \<Rightarrow> fails ''decode'' d
      | Some amount \<Rightarrow>
      case ix_block l of None \<Rightarrow> fails ''did not get block from log'' d | Some block \<Rightarrow>
      case ix_index l of None \<Rightarrow> fails ''did not get index from log'' d | Some idx \<Rightarrow>
      case ix_tx_hash l of None \<Rightarrow> fails ''did not get tx hash from log'' d | Some hash \<Rightarrow>
      case update_open_job i (\<lambda>r. r\<lparr>jr_balance := jr_balance r + uint amount\<rparr>) d of
        (n, d1) \<Rightarrow>
          if n \<noteq> 1 then fails ''could not find job'' d1
          else insert_transaction block idx
                 \<lparr>tx_hash = ix_hex lib hash, tx_job = i, tx_amount = uint amount, tx_is_deposit = True\<rparr>
                 ''failed to create deposit'' d1)"

definition handle_job_withdrew :: "ix_lib \<Rightarrow> ix_log \<Rightarrow> handler" where
  "handle_job_withdrew lib l d =
     (case vindex (ix_topics l) 1 of None \<Rightarrow> None
      | Some t \<Rightarrow>
      let i = ix_hex lib t in
      case ix_u256 lib (ix_data l) of None \<Rightarrow> fails ''decode'' d
      | Some amount \<Rightarrow>
      case ix_block l of None \<Rightarrow> fails ''did not get block from log'' d | Some block \<Rightarrow>
      case ix_index l of None \<Rightarrow> fails ''did not get index from log'' d | Some idx \<Rightarrow>
      case ix_tx_hash l of None \<Rightarrow> fails ''did not get tx hash from log'' d | Some hash \<Rightarrow>
      case update_open_job i (\<lambda>r. r\<lparr>jr_balance := jr_balance r - uint amount\<rparr>) d of
        (n, d1) \<Rightarrow>
          if n \<noteq> 1 then fails ''could not find job'' d1
          else insert_transaction block idx
                 \<lparr>tx_hash = ix_hex lib hash, tx_job = i, tx_amount = uint amount, tx_is_deposit = False\<rparr>
                 ''failed to create withdraw'' d1)"

definition handle_job_metadata_updated :: "ix_lib \<Rightarrow> ix_log \<Rightarrow> handler" where
  "handle_job_metadata_updated lib l d =
     (case vindex (ix_topics l) 1 of None \<Rightarrow> None
      | Some t \<Rightarrow>
      case ix_string lib (ix_data l) of None \<Rightarrow> fails ''decode'' d
      | Some metadata \<Rightarrow>
          one_row ''could not find job''
            (update_open_job (ix_hex lib t) (\<lambda>r. r\<lparr>jr_metadata := metadata\<rparr>) d))"

definition handle_job_revise_rate_finalized :: "ix_lib \<Rightarrow> ix_log \<Rightarrow> handler" where
  "handle_job_revise_rate_finalized lib l d =
     (case vindex (ix_topics l) 1 of None \<Rightarrow> None
      | Some t \<Rightarrow>
      case ix_u256 lib (ix_data l) of None \<Rightarrow> fails ''decode'' d
      | Some rate \<Rightarrow>
          one_row ''could not find job''
            (update_open_job (ix_hex lib t) (\<lambda>r. r\<lparr>jr_rate := uint rate\<rparr>) d))"

text \<open>The first two events of a rate revision are left to the events of the lock.\<close>

definition handle_job_revise_rate_initiated :: "ix_lib \<Rightarrow> ix_log \<Rightarrow> handler" where
  "handle_job_revise_rate_initiated lib l d = succeeds d"

definition handle_job_revise_rate_cancelled :: "ix_lib \<Rightarrow> ix_log \<Rightarrow> handler" where
  "handle_job_revise_rate_cancelled lib l d = succeeds d"

text \<open>The row is inserted by a \<open>SELECT\<close> over the open job; a second request for a job violates the key.\<close>

definition handle_lock_created :: "ix_lib \<Rightarrow> ix_log \<Rightarrow> handler" where
  "handle_lock_created lib l d =
     (case vindex (ix_topics l) 1 of None \<Rightarrow> None
      | Some selector \<Rightarrow>
      if selector \<noteq> ix_keccak256 lib ''RATE_LOCK'' then succeeds d
      else
      case vindex (ix_topics l) 2 of None \<Rightarrow> None
      | Some t \<Rightarrow>
      let i = ix_hex lib t in
      case ix_u256_pair lib (ix_data l) of None \<Rightarrow> fails ''decode'' d
      | Some (v, timestamp) \<Rightarrow>
      case unix_time timestamp of None \<Rightarrow> None
      | Some ts \<Rightarrow>
      case db_jobs d i of
        None \<Rightarrow> fails ''did not expect to find a non existent request or closed job'' d
      | Some r \<Rightarrow>
          if jr_is_closed r then fails ''did not expect to find a non existent request or closed job'' d
          else if db_requests d i \<noteq> None then fails ''failed to create revise rate request'' d
          else succeeds (d\<lparr>db_requests := (db_requests d)(i \<mapsto> \<lparr>rr_value = uint v, rr_updates_at = ts\<rparr>)\<rparr>))"

definition handle_lock_deleted :: "ix_lib \<Rightarrow> ix_log \<Rightarrow> handler" where
  "handle_lock_deleted lib l d =
     (case vindex (ix_topics l) 1 of None \<Rightarrow> None
      | Some selector \<Rightarrow>
      if selector \<noteq> ix_keccak256 lib ''RATE_LOCK'' then succeeds d
      else
      case vindex (ix_topics l) 2 of None \<Rightarrow> None
      | Some t \<Rightarrow> succeeds (d\<lparr>db_requests := (db_requests d)(ix_hex lib t := None)\<rparr>))"

section \<open>Dispatch\<close>

definition ev_provider_added :: string where
  "ev_provider_added = ''ProviderAdded(address,string)''"
definition ev_provider_removed :: string where
  "ev_provider_removed = ''ProviderRemoved(address)''"
definition ev_provider_updated :: string where
  "ev_provider_updated = ''ProviderUpdatedWithCp(address,string)''"
definition ev_job_opened :: string where
  "ev_job_opened = ''JobOpened(bytes32,string,address,address,uint256,uint256,uint256)''"
definition ev_job_settled :: string where
  "ev_job_settled = ''JobSettled(bytes32,uint256,uint256)''"
definition ev_job_closed :: string where
  "ev_job_closed = ''JobClosed(bytes32)''"
definition ev_job_deposited :: string where
  "ev_job_deposited = ''JobDeposited(bytes32,address,uint256)''"
definition ev_job_withdrew :: string where
  "ev_job_withdrew = ''JobWithdrew(bytes32,address,uint256)''"
definition ev_revise_initiated :: string where
  "ev_revise_initiated = ''JobReviseRateInitiated(bytes32,uint256)''"
definition ev_revise_cancelled :: string where
  "ev_revise_cancelled = ''JobReviseRateCancelled(bytes32)''"
definition ev_revise_finalized :: string where
  "ev_revise_finalized = ''JobReviseRateFinalized(bytes32,uint256)''"
definition ev_metadata_updated :: string where
  "ev_metadata_updated = ''JobMetadataUpdated(bytes32,string)''"
definition ev_lock_created :: string where
  "ev_lock_created = ''LockCreated(bytes32,bytes32,uint256,uint256)''"
definition ev_lock_deleted :: string where
  "ev_lock_deleted = ''LockDeleted(bytes32,bytes32,uint256)''"

text \<open>The first handler whose event the topic is; a topic that is ignored and one that is not known both
  do nothing.\<close>

definition handle_log :: "ix_lib \<Rightarrow> ix_log \<Rightarrow> handler" where
  "handle_log lib l d =
     (case ix_topics l of [] \<Rightarrow> fails ''log does not have topic0, should never happen'' d
      | topic # _ \<Rightarrow>
      if topic = ix_keccak256 lib ev_provider_added then handle_provider_added lib l d
      else if topic = ix_keccak256 lib ev_provider_removed then handle_provider_removed lib l d
      else if topic = ix_keccak256 lib ev_provider_updated then handle_provider_updated_with_cp lib l d
      else if topic = ix_keccak256 lib ev_job_opened then handle_job_opened lib l d
      else if topic = ix_keccak256 lib ev_job_settled then handle_job_settled lib l d
      else if topic = ix_keccak256 lib ev_job_closed then handle_job_closed lib l d
      else if topic = ix_keccak256 lib ev_job_deposited then handle_job_deposited lib l d
      else if topic = ix_keccak256 lib ev_job_withdrew then handle_job_withdrew lib l d
      else if topic = ix_keccak256 lib ev_revise_initiated then handle_job_revise_rate_initiated lib l d
      else if topic = ix_keccak256 lib ev_revise_cancelled then handle_job_revise_rate_cancelled lib l d
      else if topic = ix_keccak256 lib ev_revise_finalized then handle_job_revise_rate_finalized lib l d
      else if topic = ix_keccak256 lib ev_metadata_updated then handle_job_metadata_updated lib l d
      else if topic = ix_keccak256 lib ev_lock_created then handle_lock_created lib l d
      else if topic = ix_keccak256 lib ev_lock_deleted then handle_lock_deleted lib l d
      else succeeds d)"

section \<open>The event loop\<close>

text \<open>The body of the transaction: the logs in order, then the last block.\<close>

fun handle_logs :: "ix_lib \<Rightarrow> ix_log list \<Rightarrow> handler" where
  "handle_logs lib [] d = succeeds d"
| "handle_logs lib (l # ls) d =
     (case handle_log lib l d of
        None \<Rightarrow> None
      | Some (Inl e, d1) \<Rightarrow> Some (Inl ''failed to handle log'', d1)
      | Some (Inr _, d1) \<Rightarrow> handle_logs lib ls d1)"

text \<open>\<open>conn.transaction\<close>: an error, like a panic, leaves the database as it was.\<close>

definition transaction ::
    "(database \<Rightarrow> (unit rust_result \<times> database) option) \<Rightarrow> database \<Rightarrow> unit rust_result option \<times> database" where
  "transaction body d =
     (case body d of
        None \<Rightarrow> (None, d)
      | Some (Inl e, _) \<Rightarrow> (Some (Inl e), d)
      | Some (Inr _, d1) \<Rightarrow> (Some (Inr ()), d1))"

definition apply_range :: "ix_lib \<Rightarrow> ix_log list \<Rightarrow> u64 \<Rightarrow> database \<Rightarrow> unit rust_result option \<times> database" where
  "apply_range lib logs end_block =
     transaction (\<lambda>d. case handle_logs lib logs (tables d) of
        None \<Rightarrow> None
      | Some (Inl e, t) \<Rightarrow> Some (Inl e, d\<lparr>tables := t\<rparr>)
      | Some (Inr _, t) \<Rightarrow> Some (Inr (), \<lparr>tables = t, sync = map_option (\<lambda>_. end_block) (sync d)\<rparr>))"

type_synonym logs_provider = "u64 \<Rightarrow> u64 \<Rightarrow> ix_log list rust_result"

text \<open>How a run of the loop ends: it still runs with \<open>last_updated\<close>, it returned an error, or it panicked.\<close>

datatype loop_end = Running u64 | Returned string | Panicked

text \<open>One turn, given what \<open>latest_block\<close> answers. The block arithmetic is that of \<open>u64\<close>.\<close>

definition index_turn ::
    "ix_lib \<Rightarrow> logs_provider \<Rightarrow> u64 \<Rightarrow> u64 rust_result \<Rightarrow> u64 \<Rightarrow> database \<Rightarrow> loop_end \<times> database" where
  "index_turn lib prov range_size latest last_updated d =
     (case latest of Inl e \<Rightarrow> (Returned e, d)
      | Inr latest_block \<Rightarrow>
      if latest_block < last_updated
      then (Returned ''rpc is behind the db, should never happen unless the rpc was rolled back'', d)
      else if latest_block = last_updated then (Running last_updated, d)
      else
        let start_block = last_updated + 1;
            end_block = min (start_block + range_size - 1) latest_block
        in case prov start_block end_block of
             Inl e \<Rightarrow> (Returned e, d)
           | Inr logs \<Rightarrow>
               (case apply_range lib logs end_block d of
                  (None, d1) \<Rightarrow> (Panicked, d1)
                | (Some (Inl e), d1) \<Rightarrow> (Returned e, d1)
                | (Some (Inr _), d1) \<Rightarrow> (Running end_block, d1)))"

fun index_turns ::
    "ix_lib \<Rightarrow> logs_provider \<Rightarrow> u64 \<Rightarrow> u64 rust_result list \<Rightarrow> u64 \<Rightarrow> database \<Rightarrow> loop_end \<times> database" where
  "index_turns lib prov range_size [] b d = (Running b, d)"
| "index_turns lib prov range_size (latest # ls) b d =
     (case index_turn lib prov range_size latest b d of
        (Running b1, d1) \<Rightarrow> index_turns lib prov range_size ls b1 d1
      | r \<Rightarrow> r)"

definition event_loop ::
    "ix_lib \<Rightarrow> logs_provider \<Rightarrow> u64 \<Rightarrow> u64 rust_result list \<Rightarrow> database \<Rightarrow> loop_end \<times> database" where
  "event_loop lib prov range_size latests d =
     (case sync d of
        None \<Rightarrow> (Returned ''no last updated block found, should never happen unless the database is corrupted'', d)
      | Some b \<Rightarrow> index_turns lib prov range_size latests b d)"

text \<open>\<open>start_from\<close> compares and subtracts as \<open>i64\<close>.\<close>

definition start_from :: "u64 \<Rightarrow> database \<Rightarrow> bool \<times> database" where
  "start_from start d =
     (case sync d of
        Some b \<Rightarrow> if sint b < sint (start - 1) then (True, d\<lparr>sync := Some (start - 1)\<rparr>) else (False, d)
      | None \<Rightarrow> (False, d))"

section \<open>Specification\<close>

text \<open>Referential integrity: every transaction and every request belongs to a job.\<close>

definition integrity :: "db \<Rightarrow> bool" where
  "integrity d \<longleftrightarrow> (\<forall>k row. db_transactions d k = Some row \<longrightarrow> db_jobs d (tx_job row) \<noteq> None)
     \<and> (\<forall>i. db_requests d i \<noteq> None \<longrightarrow> db_jobs d i \<noteq> None)"

text \<open>A handled log as a step.\<close>

definition index_step :: "ix_lib \<Rightarrow> db \<Rightarrow> ix_log \<Rightarrow> db option" where
  "index_step lib d l = (case handle_log lib l d of Some (Inr _, d1) \<Rightarrow> Some d1 | _ \<Rightarrow> None)"

section \<open>Lemmas\<close>

lemmas handler_defs = handle_provider_added_def handle_provider_removed_def
  handle_provider_updated_with_cp_def handle_job_opened_def handle_job_settled_def handle_job_closed_def
  handle_job_deposited_def handle_job_withdrew_def handle_job_metadata_updated_def
  handle_job_revise_rate_finalized_def handle_job_revise_rate_initiated_def
  handle_job_revise_rate_cancelled_def handle_lock_created_def handle_lock_deleted_def

lemmas statement_defs = update_open_job_def update_active_provider_def insert_transaction_def one_row_def
  fails_def succeeds_def Let_def

lemma handle_logs_steps:
  "(\<exists>d1. handle_logs lib ls d = Some (Inr (), d1) \<and> d1 = d') \<longleftrightarrow> run_steps (index_step lib) d ls = Some d'"
  by (induction ls arbitrary: d)
    (auto simp: index_step_def succeeds_def split: option.splits sum.splits prod.splits)

text \<open>What the handlers of one log can do to the database: nothing, a change of the providers, a new job
  with its first deposit, an update of an open job that takes a settled amount \<open>a\<close> from its balance, a
  payment with its transaction, and the insertion or deletion of a request.\<close>

inductive db_change :: "string \<Rightarrow> int \<Rightarrow> db \<Rightarrow> db \<Rightarrow> bool" where
  idle: "db_change i 0 d d"
| providers: "db_change i 0 d (d\<lparr>db_providers := p\<rparr>)"
| opened: "db_jobs d i = None \<Longrightarrow> db_transactions d k = None \<Longrightarrow> \<not> jr_is_closed row \<Longrightarrow> tx_job t = i \<Longrightarrow>
    tx_is_deposit t \<Longrightarrow> tx_amount t = jr_balance row \<Longrightarrow>
    db_change i 0 d (d\<lparr>db_jobs := (db_jobs d)(i \<mapsto> row), db_transactions := (db_transactions d)(k \<mapsto> t)\<rparr>)"
| updated: "db_jobs d i = Some row \<Longrightarrow> \<not> jr_is_closed row \<Longrightarrow> jr_balance row' = jr_balance row - a \<Longrightarrow>
    db_change i a d (d\<lparr>db_jobs := (db_jobs d)(i \<mapsto> row')\<rparr>)"
| paid: "db_jobs d i = Some row \<Longrightarrow> \<not> jr_is_closed row \<Longrightarrow> db_transactions d k = None \<Longrightarrow> tx_job t = i \<Longrightarrow>
    jr_balance row' = jr_balance row + (if tx_is_deposit t then tx_amount t else - tx_amount t) \<Longrightarrow>
    db_change i 0 d (d\<lparr>db_jobs := (db_jobs d)(i \<mapsto> row'), db_transactions := (db_transactions d)(k \<mapsto> t)\<rparr>)"
| requested: "db_jobs d i \<noteq> None \<Longrightarrow> db_change i 0 d (d\<lparr>db_requests := (db_requests d)(i \<mapsto> q)\<rparr>)"
| request_gone: "db_change i 0 d (d\<lparr>db_requests := (db_requests d)(i := None)\<rparr>)"

lemma change_provider:
  "handle_provider_added lib l d = Some (Inr (), d') \<Longrightarrow> \<exists>i. db_change i 0 d d'"
  "handle_provider_removed lib l d = Some (Inr (), d') \<Longrightarrow> \<exists>i. db_change i 0 d d'"
  "handle_provider_updated_with_cp lib l d = Some (Inr (), d') \<Longrightarrow> \<exists>i. db_change i 0 d d'"
  by (auto simp: handle_provider_added_def handle_provider_removed_def handle_provider_updated_with_cp_def
      statement_defs intro!: exI db_change.providers split: option.splits if_splits prod.splits)

lemma change_opened:
  "handle_job_opened lib l d = Some (Inr (), d') \<Longrightarrow> \<exists>i. db_change i 0 d d'"
  by (auto simp: handle_job_opened_def statement_defs intro!: exI db_change.opened
      split: option.splits if_splits prod.splits)

lemma change_paid:
  "handle_job_deposited lib l d = Some (Inr (), d') \<Longrightarrow> \<exists>i. db_change i 0 d d'"
  "handle_job_withdrew lib l d = Some (Inr (), d') \<Longrightarrow> \<exists>i. db_change i 0 d d'"
  by (auto simp: handle_job_deposited_def handle_job_withdrew_def statement_defs intro!: exI db_change.paid
      split: option.splits if_splits prod.splits)

text \<open>The other updates of a job leave its balance.\<close>

lemma change_updated:
  "handle_job_closed lib l d = Some (Inr (), d') \<Longrightarrow> \<exists>i. db_change i 0 d d'"
  "handle_job_metadata_updated lib l d = Some (Inr (), d') \<Longrightarrow> \<exists>i. db_change i 0 d d'"
  "handle_job_revise_rate_finalized lib l d = Some (Inr (), d') \<Longrightarrow> \<exists>i. db_change i 0 d d'"
  by (auto simp: handle_job_closed_def handle_job_metadata_updated_def handle_job_revise_rate_finalized_def
      statement_defs intro!: exI db_change.updated split: option.splits if_splits prod.splits)

text \<open>The amount a settlement takes, by the id of its job.\<close>

definition settled_by :: "ix_lib \<Rightarrow> ix_log \<Rightarrow> string \<Rightarrow> int" where
  "settled_by lib l i =
     (if vindex (ix_topics l) 0 = Some (ix_keccak256 lib ev_job_settled)
         \<and> map_option (ix_hex lib) (vindex (ix_topics l) 1) = Some i
      then (case ix_u256_pair lib (ix_data l) of Some (amount, _) \<Rightarrow> uint amount | None \<Rightarrow> 0)
      else 0)"

lemma change_settled:
  assumes "handle_job_settled lib l d = Some (Inr (), d')"
    and "vindex (ix_topics l) 0 = Some (ix_keccak256 lib ev_job_settled)"
  shows "\<exists>i. db_change i (settled_by lib l i) d d' \<and> (\<forall>j. j \<noteq> i \<longrightarrow> settled_by lib l j = 0)"
proof -
  obtain t where t: "vindex (ix_topics l) 1 = Some t"
    using assms(1) by (cases "vindex (ix_topics l) 1") (simp_all add: handle_job_settled_def del: vindex_None_iff)
  obtain amount timestamp where a: "ix_u256_pair lib (ix_data l) = Some (amount, timestamp)"
    using assms(1) t
    by (cases "ix_u256_pair lib (ix_data l)") (auto simp: handle_job_settled_def fails_def)
  obtain ts where ts: "unix_time timestamp = Some ts"
    using assms(1) t a by (cases "unix_time timestamp") (simp_all add: handle_job_settled_def)
  let ?i = "ix_hex lib t"
  have u: "one_row ''could not find job'' (update_open_job ?i
      (\<lambda>r. r\<lparr>jr_balance := jr_balance r - uint amount, jr_last_settled := ts\<rparr>) d) = Some (Inr (), d')"
    using assms(1) t a ts by (simp add: handle_job_settled_def)
  have "db_change ?i (uint amount) d d'"
    using u by (auto simp: one_row_def update_open_job_def intro!: db_change.updated
        split: option.splits if_splits)
  moreover have "settled_by lib l ?i = uint amount" "\<forall>j. j \<noteq> ?i \<longrightarrow> settled_by lib l j = 0"
    using assms(2) t a by (auto simp: settled_by_def)
  ultimately show ?thesis by metis
qed

lemma change_request:
  "handle_lock_created lib l d = Some (Inr (), d') \<Longrightarrow> \<exists>i. db_change i 0 d d'"
  "handle_lock_deleted lib l d = Some (Inr (), d') \<Longrightarrow> \<exists>i. db_change i 0 d d'"
  by (auto simp: handle_lock_created_def handle_lock_deleted_def statement_defs
      intro: db_change.idle intro!: exI db_change.requested db_change.request_gone
      split: option.splits if_splits prod.splits)

definition ix_signatures :: "string list" where
  "ix_signatures = [ev_provider_added, ev_provider_removed, ev_provider_updated, ev_job_opened, ev_job_settled,
     ev_job_closed, ev_job_deposited, ev_job_withdrew, ev_revise_initiated, ev_revise_cancelled,
     ev_revise_finalized, ev_metadata_updated, ev_lock_created, ev_lock_deleted]"

definition ix_no_collisions :: "ix_lib \<Rightarrow> bool" where
  "ix_no_collisions lib = distinct (map (ix_keccak256 lib) ix_signatures)"

lemma if_chain:
  assumes "(if b then x else y) = z"
  obtains "b" "x = z" | "\<not> b" "y = z"
  using assms by (auto split: if_splits)

lemma index_step_handled: "index_step lib d l = Some d' \<longleftrightarrow> handle_log lib l d = Some (Inr (), d')"
  by (auto simp: index_step_def split: option.splits sum.splits prod.splits)

lemma handled_topic:
  assumes "handle_log lib l d = Some (Inr (), d')"
  obtains topic ts where "ix_topics l = topic # ts"
  using assms by (cases "ix_topics l") (simp_all add: handle_log_def fails_def)

lemma succeeds_change:
  "succeeds d = Some (Inr (), d') \<Longrightarrow> \<exists>i. db_change i 0 d d'"
  "handle_job_revise_rate_initiated lib l d = Some (Inr (), d') \<Longrightarrow> \<exists>i. db_change i 0 d d'"
  "handle_job_revise_rate_cancelled lib l d = Some (Inr (), d') \<Longrightarrow> \<exists>i. db_change i 0 d d'"
  by (auto simp: succeeds_def handle_job_revise_rate_initiated_def handle_job_revise_rate_cancelled_def
      intro: db_change.idle)

lemmas handler_change = change_provider change_opened change_paid change_updated change_request
  succeeds_change

text \<open>A step is one change; with distinct event hashes the settled amount is the one of the log.\<close>

lemma step_change_settled:
  assumes "index_step lib d l = Some d'" and "ix_no_collisions lib"
    and "vindex (ix_topics l) 0 = Some (ix_keccak256 lib ev_job_settled)"
  shows "\<exists>i. db_change i (settled_by lib l i) d d' \<and> (\<forall>j. j \<noteq> i \<longrightarrow> settled_by lib l j = 0)"
proof -
  have "list_all (\<lambda>e. ix_keccak256 lib ev_job_settled \<noteq> ix_keccak256 lib e)
      [ev_provider_added, ev_provider_removed, ev_provider_updated, ev_job_opened]"
    using assms(2) by (auto simp: ix_no_collisions_def ix_signatures_def)
  moreover obtain ts where "ix_topics l = ix_keccak256 lib ev_job_settled # ts"
    using assms(3) by (cases "ix_topics l") (auto simp: vindex_def)
  ultimately have "handle_job_settled lib l d = Some (Inr (), d')"
    using assms(1) by (simp add: index_step_handled handle_log_def)
  then show ?thesis using assms(3) by (rule change_settled)
qed

lemma step_change_other:
  assumes "index_step lib d l = Some d'"
    and "vindex (ix_topics l) 0 \<noteq> Some (ix_keccak256 lib ev_job_settled)"
  shows "\<exists>i. db_change i 0 d d'"
proof -
  have h: "handle_log lib l d = Some (Inr (), d')" using assms(1) by (simp add: index_step_handled)
  then obtain topic ts where t: "ix_topics l = topic # ts" by (rule handled_topic)
  with assms(2) have "topic \<noteq> ix_keccak256 lib ev_job_settled" by (simp add: vindex_def)
  with h show ?thesis
    unfolding handle_log_def t list.case
    by (elim if_chain) (blast dest: handler_change)+
qed

lemma step_change:
  assumes "index_step lib d l = Some d'" and "ix_no_collisions lib"
  shows "\<exists>i. db_change i (settled_by lib l i) d d' \<and> (\<forall>j. j \<noteq> i \<longrightarrow> settled_by lib l j = 0)"
proof (cases "vindex (ix_topics l) 0 = Some (ix_keccak256 lib ev_job_settled)")
  case True
  with assms show ?thesis by (rule step_change_settled)
next
  case False
  then have "settled_by lib l j = 0" for j by (simp add: settled_by_def)
  with step_change_other [OF assms(1) False] show ?thesis by auto
qed

lemma step_some_change:
  assumes "index_step lib d l = Some d'"
  shows "\<exists>i a. db_change i a d d'"
proof -
  have h: "handle_log lib l d = Some (Inr (), d')" using assms by (simp add: index_step_handled)
  then obtain topic ts where t: "ix_topics l = topic # ts" by (rule handled_topic)
  show ?thesis
  proof (cases "vindex (ix_topics l) 0 = Some (ix_keccak256 lib ev_job_settled)")
    case False
    with step_change_other [OF assms] show ?thesis by blast
  next
    case True
    from h show ?thesis
      unfolding handle_log_def t list.case
      by (elim if_chain) (blast dest: handler_change change_settled [OF _ True])+
  qed
qed

text \<open>Every change keeps the referential integrity, leaves closed jobs alone and keeps the transactions.\<close>

lemma change_integrity: "db_change i a d d' \<Longrightarrow> integrity d \<Longrightarrow> integrity d'"
  by (cases rule: db_change.cases) (auto simp: integrity_def split: if_splits)

lemma change_closed:
  "db_change i a d d' \<Longrightarrow> db_jobs d j = Some row \<and> jr_is_closed row \<longrightarrow> db_jobs d' j = Some row"
  by (cases rule: db_change.cases) auto

lemma change_transactions:
  "db_change i a d d' \<Longrightarrow> db_transactions d k = Some row \<longrightarrow> db_transactions d' k = Some row"
  by (cases rule: db_change.cases) auto

interpretation ix: invariant_system "index_step lib" integrity
  by unfold_locales (blast dest: step_some_change intro: change_integrity)

section \<open>The ledger\<close>

definition signed_amount :: "transaction_row \<Rightarrow> int" where
  "signed_amount t = (if tx_is_deposit t then tx_amount t else - tx_amount t)"

text \<open>The sum of the transactions of a job, and its balance.\<close>

definition tx_total :: "db \<Rightarrow> string \<Rightarrow> int" where
  "tx_total d i = (\<Sum>k \<in> dom (db_transactions d).
     case db_transactions d k of Some t \<Rightarrow> if tx_job t = i then signed_amount t else 0 | None \<Rightarrow> 0)"

definition balance_of :: "db \<Rightarrow> string \<Rightarrow> int" where
  "balance_of d i = (case db_jobs d i of Some r \<Rightarrow> jr_balance r | None \<Rightarrow> 0)"

lemma tx_total_cong: "db_transactions d' = db_transactions d \<Longrightarrow> tx_total d' i = tx_total d i"
  by (simp add: tx_total_def)

lemma tx_total_insert:
  assumes "finite (dom (db_transactions d))" and "db_transactions d k = None"
    and "db_transactions d' = (db_transactions d)(k \<mapsto> t)"
  shows "tx_total d' i = tx_total d i + (if tx_job t = i then signed_amount t else 0)"
proof -
  have "k \<notin> dom (db_transactions d)" using assms(2) by auto
  moreover have "(\<Sum>j \<in> dom (db_transactions d). case ((db_transactions d)(k \<mapsto> t)) j of
        Some t \<Rightarrow> if tx_job t = i then signed_amount t else 0 | None \<Rightarrow> 0) = tx_total d i"
    unfolding tx_total_def using calculation by (intro sum.cong) auto
  ultimately show ?thesis
    using assms(1) by (simp add: tx_total_def [of d'] assms(3))
qed

lemma change_ledger:
  assumes "db_change i a d d'" and "finite (dom (db_transactions d))"
  shows "finite (dom (db_transactions d')) \<and>
    balance_of d' j - balance_of d j = tx_total d' j - tx_total d j - (if j = i then a else 0)"
  using assms
proof cases
  case (opened k row t)
  then show ?thesis
    using assms(2) tx_total_insert [OF assms(2), of k d' t j]
    by (auto simp: balance_of_def signed_amount_def)
next
  case (paid row k t row')
  then show ?thesis
    using assms(2) tx_total_insert [OF assms(2), of k d' t j]
    by (auto simp: balance_of_def signed_amount_def)
next
  case (updated row row')
  then have "tx_total d' j = tx_total d j" by (intro tx_total_cong) simp
  with updated assms(2) show ?thesis by (auto simp: balance_of_def)
qed (simp_all add: balance_of_def tx_total_def)

lemma run_ledger:
  assumes "ix_no_collisions lib" and "finite (dom (db_transactions d))"
    and "run_steps (index_step lib) d ls = Some d'"
  shows "balance_of d' j - balance_of d j =
    tx_total d' j - tx_total d j - sum_list (map (\<lambda>l. settled_by lib l j) ls)"
  using assms(2,3)
proof (induction ls arbitrary: d)
  case (Cons l ls)
  from Cons.prems(2) obtain d1 where s: "index_step lib d l = Some d1"
      and r: "run_steps (index_step lib) d1 ls = Some d'"
    by (auto split: option.splits)
  from step_change [OF s assms(1)] obtain i where
    c: "db_change i (settled_by lib l i) d d1" and z: "\<forall>j. j \<noteq> i \<longrightarrow> settled_by lib l j = 0" by blast
  have "(if j = i then settled_by lib l i else 0) = settled_by lib l j" using z by simp
  with change_ledger [OF c Cons.prems(1), of j] Cons.IH [OF _ r] show ?case by simp
qed simp

section \<open>Ranges of blocks\<close>

text \<open>A provider that serves a chain: \<open>chain n\<close> are the logs of the block \<open>n\<close>.\<close>

definition block_logs :: "(nat \<Rightarrow> ix_log list) \<Rightarrow> nat \<Rightarrow> nat \<Rightarrow> ix_log list" where
  "block_logs chain a b = concat (map chain [a..<b])"

definition serves :: "logs_provider \<Rightarrow> (nat \<Rightarrow> ix_log list) \<Rightarrow> bool" where
  "serves prov chain \<longleftrightarrow> (\<forall>a b logs. prov a b = Inr logs \<longrightarrow> logs = block_logs chain (unat a) (Suc (unat b)))"

lemma block_logs_append: "a \<le> b \<Longrightarrow> b \<le> c \<Longrightarrow> block_logs chain a b @ block_logs chain b c = block_logs chain a c"
  unfolding block_logs_def by (metis concat_append le_Suc_ex map_append upt_add_eq_append)

lemma apply_range_cases:
  assumes "apply_range lib logs e d = (r, d')"
  obtains (applied) t where "r = Some (Inr ())" "run_steps (index_step lib) (tables d) logs = Some t"
      "d' = \<lparr>tables = t, sync = map_option (\<lambda>_. e) (sync d)\<rparr>"
    | (failed) "r \<noteq> Some (Inr ())" "d' = d"
proof (cases "handle_logs lib logs (tables d)")
  case None
  with assms show thesis by (intro failed) (auto simp: apply_range_def transaction_def)
next
  case (Some p)
  obtain q t where p: "p = (q, t)" by (cases p)
  show thesis
  proof (cases q)
    case (Inl x)
    with assms Some p show thesis by (intro failed) (auto simp: apply_range_def transaction_def)
  next
    case (Inr x)
    then have "run_steps (index_step lib) (tables d) logs = Some t"
      using Some p handle_logs_steps [of lib logs "tables d" t] by simp
    with assms Some p Inr show thesis by (intro applied) (auto simp: apply_range_def transaction_def)
  qed
qed

lemma end_block_bounds:
  fixes b latest range_size :: u64
  assumes "b < latest" and "range_size \<noteq> 0" and "unat latest + unat range_size < 2 ^ 64"
  shows "b < min (b + 1 + range_size - 1) latest"
    and "unat (b + 1) = Suc (unat b)"
proof -
  have lt: "unat b < unat latest" using assms(1) by (simp add: word_less_nat_alt)
  then show "unat (b + 1) = Suc (unat b)" using assms(3) by (simp add: unat_word_ariths)
  have "unat (b + range_size) = unat b + unat range_size"
    using lt assms(3) by (simp add: unat_word_ariths)
  moreover have "0 < unat range_size" using assms(2) by (simp add: unat_gt_0)
  ultimately have "b < b + range_size" by (simp add: word_less_nat_alt)
  then show "b < min (b + 1 + range_size - 1) latest" using assms(1) by simp
qed

lemma index_turn_exact:
  assumes "serves prov chain" and "range_size \<noteq> 0"
    and "\<forall>n. latest = Inr n \<longrightarrow> unat n + unat range_size < 2 ^ 64"
    and "sync d = Some b" and "index_turn lib prov range_size latest b d = (r, d')"
  shows "\<exists>b'. sync d' = Some b' \<and> b \<le> b' \<and> (\<forall>x. r = Running x \<longrightarrow> x = b') \<and>
    run_steps (index_step lib) (tables d) (block_logs chain (Suc (unat b)) (Suc (unat b'))) = Some (tables d')"
proof -
  have stay: "?thesis" if "d' = d" "\<forall>x. r = Running x \<longrightarrow> x = b"
    using that assms(4) by (simp add: block_logs_def)
  show ?thesis
  proof (cases latest)
    case (Inl e)
    with assms(5) have "r = Returned e" "d' = d" by (simp_all add: index_turn_def)
    with stay show ?thesis by simp
  next
    case (Inr n)
    show ?thesis
    proof (cases "b < n")
      case False
      with assms(5) Inr stay show ?thesis by (auto simp: index_turn_def split: if_splits)
    next
      case True
      let ?e = "min (b + 1 + range_size - 1) n"
      note eb = end_block_bounds [OF True assms(2)]
      have bounds: "b < ?e" "unat (b + 1) = Suc (unat b)" using eb assms(3) Inr by blast+
      have turn: "index_turn lib prov range_size (Inr n) b d =
          (case prov (b + 1) ?e of
             Inl e \<Rightarrow> (Returned e, d)
           | Inr logs \<Rightarrow>
               (case apply_range lib logs ?e d of
                  (None, d1) \<Rightarrow> (Panicked, d1)
                | (Some (Inl e), d1) \<Rightarrow> (Returned e, d1)
                | (Some (Inr _), d1) \<Rightarrow> (Running ?e, d1)))"
        using True order.asym [OF True] by (simp only: index_turn_def Let_def sum.case if_False less_imp_neq
            [THEN not_sym] if_False split: if_split) auto
      note out = assms(5) [unfolded \<open>latest = Inr n\<close> turn]
      show ?thesis
      proof (cases "prov (b + 1) ?e")
        case (Inl e)
        with out have "r = Returned e" "d' = d" by simp_all
        with stay show ?thesis by simp
      next
        case (Inr logs)
        then have logs: "logs = block_logs chain (Suc (unat b)) (Suc (unat ?e))"
          using assms(1) bounds(2) by (simp only: serves_def) metis
        obtain q d1 where q: "apply_range lib logs ?e d = (q, d1)" by fastforce
        from q show ?thesis
        proof (cases rule: apply_range_cases)
          case (applied t)
          with out Inr q have "r = Running ?e" "d' = d1" by simp_all
          with applied assms(4) logs less_imp_le [OF bounds(1)] show ?thesis
            by (simp only: database.simps option.simps loop_end.simps) blast
        next
          case failed
          with out Inr q have "d' = d" "\<forall>x. r \<noteq> Running x"
            by (auto split: option.splits sum.splits)
          with stay show ?thesis by simp
        qed
      qed
    qed
  qed
qed

lemma run_steps_append_some:
  "run_steps f s xs = Some t \<Longrightarrow> run_steps f t ys = Some u \<Longrightarrow> run_steps f s (xs @ ys) = Some u"
  by (simp add: run_steps_append)

text \<open>The tables hold the whole effect of the blocks after \<open>a\<close> up to \<open>sync\<close>, and nothing of a later block.\<close>

definition caught_up :: "ix_lib \<Rightarrow> (nat \<Rightarrow> ix_log list) \<Rightarrow> db \<Rightarrow> u64 \<Rightarrow> database \<Rightarrow> bool" where
  "caught_up lib chain t a d =
     (case sync d of None \<Rightarrow> False
      | Some b \<Rightarrow> a \<le> b \<and>
          run_steps (index_step lib) t (block_logs chain (Suc (unat a)) (Suc (unat b))) = Some (tables d))"

lemma caught_up_refl: "sync d = Some b \<Longrightarrow> caught_up lib chain (tables d) b d"
  by (simp add: caught_up_def block_logs_def)

lemma caught_up_trans:
  assumes "caught_up lib chain t a d" and "sync d = Some b" and "caught_up lib chain (tables d) b d'"
  shows "caught_up lib chain t a d'"
proof -
  obtain c where c: "sync d' = Some c" "b \<le> c"
      "run_steps (index_step lib) (tables d) (block_logs chain (Suc (unat b)) (Suc (unat c))) = Some (tables d')"
    using assms(3) by (auto simp: caught_up_def split: option.splits)
  have ab: "a \<le> b"
      "run_steps (index_step lib) t (block_logs chain (Suc (unat a)) (Suc (unat b))) = Some (tables d)"
    using assms(1,2) by (simp_all add: caught_up_def)
  from ab(1) c(2) have "Suc (unat a) \<le> Suc (unat b)" "Suc (unat b) \<le> Suc (unat c)"
    by (simp_all add: word_le_nat_alt)
  from block_logs_append [OF this, of chain] run_steps_append_some [OF ab(2) c(3)] c(1,2) ab(1)
  show ?thesis by (simp add: caught_up_def)
qed

lemma index_turn_caught_up:
  assumes "serves prov chain" and "range_size \<noteq> 0"
    and "\<forall>n. latest = Inr n \<longrightarrow> unat n + unat range_size < 2 ^ 64"
    and "sync d = Some b" and "index_turn lib prov range_size latest b d = (r, d')"
  shows "caught_up lib chain (tables d) b d' \<and> (\<forall>x. r = Running x \<longrightarrow> sync d' = Some x)"
  using index_turn_exact [OF assms] by (auto simp: caught_up_def)

lemma index_turns_caught_up:
  assumes "serves prov chain" and "range_size \<noteq> 0"
    and "\<forall>n. Inr n \<in> set latests \<longrightarrow> unat n + unat range_size < 2 ^ 64"
    and "sync d = Some b" and "index_turns lib prov range_size latests b d = (r, d')"
  shows "caught_up lib chain (tables d) b d' \<and> (\<forall>x. r = Running x \<longrightarrow> sync d' = Some x)"
  using assms(3-5)
proof (induction latests arbitrary: b d)
  case Nil
  then show ?case by (auto simp: caught_up_refl)
next
  case (Cons l ls)
  obtain q d1 where q: "index_turn lib prov range_size l b d = (q, d1)" by fastforce
  have bound: "\<forall>n. l = Inr n \<longrightarrow> unat n + unat range_size < 2 ^ 64" using Cons.prems(1) by simp
  note one = index_turn_caught_up [OF assms(1,2) bound Cons.prems(2) q]
  show ?case
  proof (cases q)
    case (Running x)
    with one have s: "sync d1 = Some x" and c: "caught_up lib chain (tables d) b d1" by auto
    have "index_turns lib prov range_size ls x d1 = (r, d')" using Cons.prems(3) q Running by simp
    with Cons.IH [OF _ s] Cons.prems(1) caught_up_trans [OF c s] show ?thesis by auto
  qed (use one Cons.prems(3) q in auto)
qed

text \<open>Whatever the provider answers, the tables change by whole runs of handled logs.\<close>

lemma index_turn_run:
  assumes "index_turn lib prov range_size latest b d = (r, d')"
  shows "\<exists>ls. run_steps (index_step lib) (tables d) ls = Some (tables d')"
proof (cases "d' = d")
  case True
  then show ?thesis by (intro exI [of _ "[]"]) simp
next
  case False
  with assms obtain e logs q where "apply_range lib logs e d = (q, d')"
    by (auto simp: index_turn_def Let_def split: sum.splits if_splits prod.splits option.splits)
  then show ?thesis using False by (cases rule: apply_range_cases) auto
qed

lemma index_turns_run:
  "index_turns lib prov range_size latests b d = (r, d') \<Longrightarrow>
    \<exists>ls. run_steps (index_step lib) (tables d) ls = Some (tables d')"
proof (induction latests arbitrary: b d)
  case Nil
  then show ?case by (intro exI [of _ "[]"]) simp
next
  case (Cons l ls)
  obtain q d1 where q: "index_turn lib prov range_size l b d = (q, d1)" by fastforce
  from index_turn_run [OF this] obtain xs where
    xs: "run_steps (index_step lib) (tables d) xs = Some (tables d1)" by blast
  show ?case
  proof (cases q)
    case (Running x)
    with Cons.prems q have "index_turns lib prov range_size ls x d1 = (r, d')" by simp
    from Cons.IH [OF this] obtain ys where
      "run_steps (index_step lib) (tables d1) ys = Some (tables d')" by blast
    with run_steps_append_some [OF xs] show ?thesis by blast
  qed (use Cons.prems q xs in auto)
qed

lemma event_loop_run:
  "event_loop lib prov range_size latests d = (r, d') \<Longrightarrow>
    \<exists>ls. run_steps (index_step lib) (tables d) ls = Some (tables d')"
  by (auto simp: event_loop_def intro: exI [of _ "[]"] index_turns_run split: option.splits)

text \<open>A turn that meets no error.\<close>

lemma index_turn_advances:
  assumes "b < n" and "range_size \<noteq> 0" and "unat n + unat range_size < 2 ^ 64" and "sync d = Some b"
    and "prov (b + 1) (min (b + 1 + range_size - 1) n) = Inr logs"
    and "run_steps (index_step lib) (tables d) logs = Some t"
  shows "index_turn lib prov range_size (Inr n) b d = (Running (min (b + 1 + range_size - 1) n),
    \<lparr>tables = t, sync = Some (min (b + 1 + range_size - 1) n)\<rparr>)"
proof -
  have "handle_logs lib logs (tables d) = Some (Inr (), t)"
    using assms(6) handle_logs_steps [of lib logs "tables d" t] by simp
  then have "apply_range lib logs e d = (Some (Inr ()), \<lparr>tables = t, sync = Some e\<rparr>)" for e
    using assms(4) by (simp add: apply_range_def transaction_def)
  moreover have "\<not> n < b" "n \<noteq> b" using assms(1) by auto
  ultimately show ?thesis using assms(5) by (simp add: index_turn_def Let_def)
qed

lemma run_steps_appendE:
  assumes "run_steps f s (xs @ ys) = Some u"
  obtains t where "run_steps f s xs = Some t" "run_steps f t ys = Some u"
  using assms by (cases "run_steps f s xs") (auto simp: run_steps_append)

text \<open>With enough turns the loop reaches the head of the chain: every turn advances by at least one block.\<close>

lemma index_turns_reach:
  assumes "\<forall>a e. prov a e = Inr (block_logs chain (unat a) (Suc (unat e)))" and "range_size \<noteq> 0"
    and "unat n + unat range_size < 2 ^ 64"
  shows "sync d = Some b \<Longrightarrow> b \<le> n \<Longrightarrow> unat n - unat b \<le> k \<Longrightarrow>
    run_steps (index_step lib) (tables d) (block_logs chain (Suc (unat b)) (Suc (unat n))) = Some t \<Longrightarrow>
    index_turns lib prov range_size (replicate k (Inr n)) b d = (Running n, \<lparr>tables = t, sync = Some n\<rparr>)"
proof (induction k arbitrary: b d)
  case 0
  then have "b = n" by (simp add: word_le_nat_alt word_unat_eq_iff)
  with 0 show ?case by (simp add: block_logs_def)
next
  case (Suc k)
  show ?case
  proof (cases "b = n")
    case True
    then have "index_turn lib prov range_size (Inr n) b d = (Running n, d)" by (simp add: index_turn_def)
    moreover have "tables d = t" using Suc.prems(4) True by (simp add: block_logs_def)
    ultimately show ?thesis using Suc.IH [of d n] Suc.prems(1,4) True by simp
  next
    case False
    with Suc.prems(2) have lt: "b < n" by simp
    define e where "e = min (b + 1 + range_size - 1) n"
    note eb = end_block_bounds [OF lt assms(2,3), folded e_def]
    have en: "unat b < unat e" using eb(1) by (simp add: word_less_nat_alt)
    have "e \<le> n" by (simp add: e_def)
    then have en': "unat e \<le> unat n" by (simp add: word_le_nat_alt)
    have split: "block_logs chain (Suc (unat b)) (Suc (unat n)) =
        block_logs chain (Suc (unat b)) (Suc (unat e)) @ block_logs chain (Suc (unat e)) (Suc (unat n))"
      using en en' by (intro block_logs_append [symmetric]) simp_all
    obtain u where u: "run_steps (index_step lib) (tables d) (block_logs chain (Suc (unat b)) (Suc (unat e))) = Some u"
        "run_steps (index_step lib) u (block_logs chain (Suc (unat e)) (Suc (unat n))) = Some t"
      using Suc.prems(4) unfolding split by (rule run_steps_appendE)
    have "index_turn lib prov range_size (Inr n) b d = (Running e, \<lparr>tables = u, sync = Some e\<rparr>)"
      unfolding e_def
      by (rule index_turn_advances [OF lt assms(2,3) Suc.prems(1)]) (use assms(1) eb(2) u(1) e_def in auto)
    moreover have "index_turns lib prov range_size (replicate k (Inr n)) e \<lparr>tables = u, sync = Some e\<rparr> =
        (Running n, \<lparr>tables = t, sync = Some n\<rparr>)"
      by (rule Suc.IH) (use en en' u(2) Suc.prems(3) in \<open>auto simp: word_le_nat_alt\<close>)
    ultimately show ?thesis by simp
  qed
qed

text \<open>With a range size of 0 the block before the first one asked for is the last one asked for: the answer
  is empty, and the turn stores the block that was stored.\<close>

lemma index_turn_stuck:
  assumes "\<forall>a e. prov a e = Inr (block_logs chain (unat a) (Suc (unat e)))"
    and "sync d = Some b" and "b \<le> n"
  shows "index_turn lib prov 0 (Inr n) b d = (Running b, d)"
proof (cases "b = n")
  case True
  then show ?thesis by (simp add: index_turn_def)
next
  case False
  with assms(3) have "b < n" by simp
  then have "unat b < unat n" by (simp add: word_less_nat_alt)
  then have "unat (b + 1) = Suc (unat b)"
    using unsigned_less [of n, where ?'a = nat] by (simp add: unat_word_ariths)
  then have "prov (b + 1) b = Inr []" using assms(1) by (simp add: block_logs_def)
  moreover have "apply_range lib [] b d = (Some (Inr ()), d)"
    using assms(2) by (simp add: apply_range_def transaction_def succeeds_def)
  moreover have "min b n = b" using assms(3) by simp
  ultimately show ?thesis using False \<open>b < n\<close> by (auto simp: index_turn_def Let_def)
qed

lemma index_turns_stuck:
  assumes "\<forall>a e. prov a e = Inr (block_logs chain (unat a) (Suc (unat e)))"
    and "sync d = Some b" and "b \<le> n"
  shows "index_turns lib prov 0 (replicate k (Inr n)) b d = (Running b, d)"
  by (induction k) (simp_all add: index_turn_stuck [OF assms])

section \<open>A concrete chain\<close>

text \<open>A library with an injective hash on the event signatures, and a chain of three blocks: job 1 opens with
  a balance of 100, settles 30 and receives a deposit of 50, and is closed.\<close>

definition sample_ix :: ix_lib where
  "sample_ix = \<lparr>ix_keccak256 = (\<lambda>s. of_nat (length (takeWhile (\<lambda>e. e \<noteq> s) ix_signatures))),
     ix_hex = (\<lambda>t. if t = 1 then ''0x1'' else ''0x2''),
     ix_address = (\<lambda>t. if t = 1 then ''A'' else ''B''), ix_string = (\<lambda>_. None),
     ix_u256 = (\<lambda>b. case b of [v] \<Rightarrow> Some (ucast v) | _ \<Rightarrow> None),
     ix_u256_pair = (\<lambda>b. case b of [v, w] \<Rightarrow> Some (ucast v, ucast w) | _ \<Rightarrow> None),
     ix_opened = (\<lambda>b. case b of [r, v, t] \<Rightarrow> Some (''m'', ucast r, ucast v, ucast t) | _ \<Rightarrow> None)\<rparr>"

definition sample_log :: "u64 \<Rightarrow> b256 list \<Rightarrow> bytes \<Rightarrow> ix_log" where
  "sample_log block topics data =
     \<lparr>ix_topics = topics, ix_data = data, ix_block = Some block, ix_index = Some 0, ix_tx_hash = Some 1\<rparr>"

definition sample_chain :: "nat \<Rightarrow> ix_log list" where
  "sample_chain n =
     (if n = 1 then [sample_log 1 [3, 1, 1, 2] [10, 100, 5]]
      else if n = 2 then [sample_log 2 [4, 1] [30, 6], sample_log 2 [6, 1, 1] [50]]
      else if n = 3 then [sample_log 3 [5, 1] []] else [])"

definition sample_logs :: logs_provider where
  "sample_logs a b = Inr (block_logs sample_chain (unat a) (Suc (unat b)))"

definition genesis :: database where
  "genesis = \<lparr>tables = initial_db, sync = Some 0\<rparr>"

lemma sample_serves: "serves sample_logs sample_chain"
  by (simp add: serves_def sample_logs_def)

lemma sample_hashes:
  "map (ix_keccak256 sample_ix) ix_signatures = [0, 1, 2, 3, 4, 5, 6, 7, 8, 9, 10, 11, 12, 13]"
  by code_simp

lemma ix_sample_collisions: "ix_no_collisions sample_ix"
  unfolding ix_no_collisions_def sample_hashes by simp

lemmas ix_sample_hash = sample_hashes [unfolded ix_signatures_def list.map list.inject]

lemma sample_blocks:
  "block_logs sample_chain 1 4 = [sample_log 1 [3, 1, 1, 2] [10, 100, 5], sample_log 2 [4, 1] [30, 6],
     sample_log 2 [6, 1, 1] [50], sample_log 3 [5, 1] []]"
  by (simp add: block_logs_def sample_chain_def upt_conv_Cons)

lemma sample_fields [simp]:
  "ix_hex sample_ix 1 = ''0x1''" "ix_address sample_ix 1 = ''A''" "ix_address sample_ix 2 = ''B''"
  "ix_u256 sample_ix [v] = Some (ucast v)" "ix_u256_pair sample_ix [v, w] = Some (ucast v, ucast w)"
  "ix_opened sample_ix [r, v, t] = Some (''m'', ucast r, ucast v, ucast t)"
  by (simp_all add: sample_ix_def)

lemma handle_log_at:
  assumes "ix_topics l = topic # ts" and "map (ix_keccak256 lib) ix_signatures = hs"
  shows "handle_log lib l d =
    (if topic = hs ! 0 then handle_provider_added lib l d
     else if topic = hs ! 1 then handle_provider_removed lib l d
     else if topic = hs ! 2 then handle_provider_updated_with_cp lib l d
     else if topic = hs ! 3 then handle_job_opened lib l d
     else if topic = hs ! 4 then handle_job_settled lib l d
     else if topic = hs ! 5 then handle_job_closed lib l d
     else if topic = hs ! 6 then handle_job_deposited lib l d
     else if topic = hs ! 7 then handle_job_withdrew lib l d
     else if topic = hs ! 8 then handle_job_revise_rate_initiated lib l d
     else if topic = hs ! 9 then handle_job_revise_rate_cancelled lib l d
     else if topic = hs ! 10 then handle_job_revise_rate_finalized lib l d
     else if topic = hs ! 11 then handle_job_metadata_updated lib l d
     else if topic = hs ! 12 then handle_lock_created lib l d
     else if topic = hs ! 13 then handle_lock_deleted lib l d
     else succeeds d)"
  using assms(1) unfolding assms(2) [symmetric] by (simp add: handle_log_def ix_signatures_def)

lemma sample_handle_log:
  "handle_log sample_ix (sample_log b (3 # ts) data) d = handle_job_opened sample_ix (sample_log b (3 # ts) data) d"
  "handle_log sample_ix (sample_log b (4 # ts) data) d = handle_job_settled sample_ix (sample_log b (4 # ts) data) d"
  "handle_log sample_ix (sample_log b (5 # ts) data) d = handle_job_closed sample_ix (sample_log b (5 # ts) data) d"
  "handle_log sample_ix (sample_log b (6 # ts) data) d = handle_job_deposited sample_ix (sample_log b (6 # ts) data) d"
  by (subst handle_log_at [OF _ sample_hashes], simp add: sample_log_def, simp)+

definition sample_job :: "int \<Rightarrow> u64 \<Rightarrow> bool \<Rightarrow> job_row" where
  "sample_job balance settled closed = \<lparr>jr_metadata = ''m'', jr_owner = ''A'', jr_provider = ''B'', jr_rate = 10,
     jr_balance = balance, jr_last_settled = settled, jr_created = 5, jr_is_closed = closed\<rparr>"

definition sample_end :: db where
  "sample_end = \<lparr>db_jobs = [''0x1'' \<mapsto> sample_job 120 6 True],
     db_providers = Map.empty, db_requests = Map.empty,
     db_transactions = [(1, 0) \<mapsto> \<lparr>tx_hash = ''0x1'', tx_job = ''0x1'', tx_amount = 100, tx_is_deposit = True\<rparr>,
       (2, 0) \<mapsto> \<lparr>tx_hash = ''0x1'', tx_job = ''0x1'', tx_amount = 50, tx_is_deposit = True\<rparr>]\<rparr>"

lemma sample_steps:
  "index_step sample_ix initial_db (sample_log 1 [3, 1, 1, 2] [10, 100, 5]) =
    Some \<lparr>db_jobs = [''0x1'' \<mapsto> sample_job 100 5 False], db_providers = Map.empty, db_requests = Map.empty,
      db_transactions = [(1, 0) \<mapsto>
        \<lparr>tx_hash = ''0x1'', tx_job = ''0x1'', tx_amount = 100, tx_is_deposit = True\<rparr>]\<rparr>"
  "db_jobs d ''0x1'' = Some (sample_job 100 5 False) \<Longrightarrow>
    index_step sample_ix d (sample_log 2 [4, 1] [30, 6]) =
      Some (d\<lparr>db_jobs := (db_jobs d)(''0x1'' \<mapsto> sample_job 70 6 False)\<rparr>)"
  "db_jobs d ''0x1'' = Some (sample_job 70 6 False) \<Longrightarrow> db_transactions d (2, 0) = None \<Longrightarrow>
    index_step sample_ix d (sample_log 2 [6, 1, 1] [50]) =
      Some (d\<lparr>db_jobs := (db_jobs d)(''0x1'' \<mapsto> sample_job 120 6 False),
        db_transactions := (db_transactions d)((2, 0) \<mapsto>
          \<lparr>tx_hash = ''0x1'', tx_job = ''0x1'', tx_amount = 50, tx_is_deposit = True\<rparr>)\<rparr>)"
  "db_jobs d ''0x1'' = Some (sample_job 120 6 False) \<Longrightarrow>
    index_step sample_ix d (sample_log 3 [5, 1] []) =
      Some (d\<lparr>db_jobs := (db_jobs d)(''0x1'' \<mapsto> sample_job 120 6 True)\<rparr>)"
  by (simp_all add: index_step_def sample_handle_log)
    (simp_all add: handle_job_opened_def handle_job_settled_def handle_job_closed_def handle_job_deposited_def
      sample_log_def vindex_def statement_defs unix_time_def sample_job_def initial_db_def)

lemma ix_sample_run:
  "run_steps (index_step sample_ix) initial_db (block_logs sample_chain 1 4) = Some sample_end"
  unfolding sample_blocks by (simp add: sample_steps sample_end_def)

lemma sample_answers: "\<forall>a e. sample_logs a e = Inr (block_logs sample_chain (unat a) (Suc (unat e)))"
  by (simp add: sample_logs_def)

lemma sample_loop:
  "event_loop sample_ix sample_logs 2 (replicate 3 (Inr 3)) genesis =
    (Running 3, \<lparr>tables = sample_end, sync = Some 3\<rparr>)"
  using index_turns_reach [OF sample_answers, of 2 3 genesis 0 3 sample_ix sample_end] ix_sample_run
  by (simp add: event_loop_def genesis_def)

section \<open>Properties\<close>

text \<open>C1: However the event loop ends (it still runs, a call of the provider or a handler returned an error, or
  a handler panicked), the tables hold exactly the effect of every log of the blocks after the block the
  database started from up to \<open>sync\<close>, each applied once and in order, and nothing of a later block: the range
  size only decides how the blocks are grouped. The premises: the provider serves one chain, and the heads it
  reports are far enough from the end of \<open>u64\<close>.\<close>

theorem event_loop_exact:
  assumes "serves prov chain" and "range_size \<noteq> 0"
    and "\<forall>n. Inr n \<in> set latests \<longrightarrow> unat n + unat range_size < 2 ^ 64"
    and "sync d = Some b" and "event_loop lib prov range_size latests d = (r, d')"
  shows "caught_up lib chain (tables d) b d' \<and> (\<forall>x. r = Running x \<longrightarrow> sync d' = Some x)"
  using index_turns_caught_up [OF assms(1-4)] assms(4,5) by (simp add: event_loop_def)

theorem event_loop_exact_witness:
  "caught_up sample_ix sample_chain initial_db 0 \<lparr>tables = sample_end, sync = Some 3\<rparr>"
  using event_loop_exact [OF sample_serves _ _ _ sample_loop, of 0] by (simp add: genesis_def)

text \<open>C24: The provider answers for one chain, every log up to the head \<open>n\<close> can be handled, and \<open>n\<close> plus
  the range size is below 2^64. For every range size but 0 the event loop then reaches the head: as many
  turns as there are blocks to go are enough, and the database holds the tables that handling those logs
  one by one gives. With a range size of 0, which the command line accepts, the loop never gets on: after
  any number of turns it still runs at the block it started from, with the database as it was.\<close>

theorem event_loop_reaches_head:
  assumes "\<forall>a e. prov a e = Inr (block_logs chain (unat a) (Suc (unat e)))"
    and "unat n + unat range_size < 2 ^ 64" and "sync d = Some b" and "b \<le> n"
    and "run_steps (index_step lib) (tables d) (block_logs chain (Suc (unat b)) (Suc (unat n))) = Some t"
  shows "if range_size = 0
    then event_loop lib prov range_size (replicate k (Inr n)) d = (Running b, d)
    else unat n - unat b \<le> k \<longrightarrow>
      event_loop lib prov range_size (replicate k (Inr n)) d = (Running n, \<lparr>tables = t, sync = Some n\<rparr>)"
  using index_turns_reach [OF assms(1) _ assms(2,3,4) _ assms(5)] index_turns_stuck [OF assms(1,3,4)]
    assms(3) by (simp add: event_loop_def)

theorem event_loop_reaches_head_witness:
  "event_loop sample_ix sample_logs 1 (replicate 3 (Inr 3)) genesis =
      (Running 3, \<lparr>tables = sample_end, sync = Some 3\<rparr>)
    \<and> event_loop sample_ix sample_logs 0 (replicate 9 (Inr 3)) genesis = (Running 0, genesis)"
  using event_loop_reaches_head [OF sample_answers, of 3 1 genesis 0 sample_ix sample_end 3]
    event_loop_reaches_head [OF sample_answers, of 3 0 genesis 0 sample_ix sample_end 9] ix_sample_run
  by (simp add: genesis_def)

text \<open>C23: The balance of a job in the database is the ledger of the chain: the deposits less the withdrawals
  recorded in the table of transactions, less all the amounts settled for the job in the blocks processed.
  The premise on the hash says that no two event signatures collide.\<close>

theorem index_ledger:
  assumes "ix_no_collisions lib" and "serves prov chain" and "range_size \<noteq> 0"
    and "\<forall>n. Inr n \<in> set latests \<longrightarrow> unat n + unat range_size < 2 ^ 64"
    and "tables d = initial_db" and "sync d = Some b"
    and "event_loop lib prov range_size latests d = (r, d')" and "sync d' = Some b'"
  shows "balance_of (tables d') i = tx_total (tables d') i -
    (\<Sum>l \<leftarrow> block_logs chain (Suc (unat b)) (Suc (unat b')). settled_by lib l i)"
proof -
  have "caught_up lib chain initial_db b d'"
    using index_turns_caught_up [OF assms(2-4,6)] assms(5-7) by (simp add: event_loop_def)
  then have "run_steps (index_step lib) initial_db (block_logs chain (Suc (unat b)) (Suc (unat b'))) =
      Some (tables d')"
    using assms(8) by (simp add: caught_up_def)
  from run_ledger [OF assms(1) _ this, of i] show ?thesis
    by (simp add: initial_db_def balance_of_def tx_total_def)
qed

theorem index_ledger_witness:
  "balance_of sample_end ''0x1'' = tx_total sample_end ''0x1'' -
    (\<Sum>l \<leftarrow> block_logs sample_chain 1 4. settled_by sample_ix l ''0x1'')"
  using index_ledger [OF ix_sample_collisions sample_serves _ _ _ _ sample_loop, of 0 3 "''0x1''"]
  by (simp add: genesis_def)

text \<open>C25: Whatever a provider of logs answers, and however the event loop ends, the event loop keeps the
  referential integrity of the database (every transaction and every rate request belongs to a job); it never
  changes a job that is closed and never changes or deletes a transaction.\<close>

theorem index_integrity:
  assumes "integrity (tables d)" and "event_loop lib prov range_size latests d = (r, d')"
  shows "integrity (tables d')
    \<and> (db_jobs (tables d) i = Some row \<and> jr_is_closed row \<longrightarrow> db_jobs (tables d') i = Some row)
    \<and> (db_transactions (tables d) k = Some t \<longrightarrow> db_transactions (tables d') k = Some t)"
proof -
  obtain ls where run: "run_steps (index_step lib) (tables d) ls = Some (tables d')"
    using event_loop_run [OF assms(2)] by blast
  have "db_jobs (tables d) i = Some row \<and> jr_is_closed row \<longrightarrow> db_jobs (tables d') i = Some row"
    by (rule ix.run_relation [OF _ _ _ assms(1) run]) (auto dest!: step_some_change dest: change_closed)
  moreover have "db_transactions (tables d) k = Some t \<longrightarrow> db_transactions (tables d') k = Some t"
    by (rule ix.run_relation [OF _ _ _ assms(1) run]) (auto dest!: step_some_change dest: change_transactions)
  ultimately show ?thesis using ix.run_inv [OF assms(1) run] by blast
qed

theorem index_integrity_witness:
  "integrity sample_end"
  using index_integrity [OF _ sample_loop] by (simp add: genesis_def integrity_def initial_db_def)

text \<open>C37: Indexing from the genesis block never starts: after the migrations \<open>sync\<close> is -1, \<open>start_from\<close>
  with block 0 leaves it so, and the event loop reads it as the largest \<open>u64\<close>: for every head of the chain
  below that, the first turn returns the error that the RPC is behind the database, with nothing indexed. With
  a start block from 1 to \<open>i64::MAX\<close> the same database is set to the block before it.\<close>

theorem genesis_start_fails:
  assumes "latest \<noteq> - 1" and "start \<noteq> 0" and "unat start < 2 ^ 63"
  shows "start_from 0 initial_database = (False, initial_database)
    \<and> event_loop lib prov range_size (Inr latest # latests) (snd (start_from 0 initial_database)) =
        (Returned ''rpc is behind the db, should never happen unless the rpc was rolled back'', initial_database)
    \<and> start_from start initial_database = (True, initial_database\<lparr>sync := Some (start - 1)\<rparr>)"
proof -
  have "latest < - 1" using assms(1) word_order.not_eq_extremum [of latest] by simp
  moreover have "sint (- 1 :: i64) < sint (start - 1)"
  proof -
    have "0 < unat start" using assms(2) by (simp add: unat_gt_0)
    then have "unat (start - 1) < 2 ^ 63"
      using assms(3) unat_sub [of 1 start] by (simp add: word_le_nat_alt)
    then have "int (unat (start - 1)) < int (2 ^ 63)" by (simp only: of_nat_less_iff)
    then have "uint (start - 1) < 2 ^ 63" by simp
    then have "sint (start - 1) = uint (start - 1)"
      unfolding sint_uint by (intro signed_take_bit_int_eq_self) (auto intro: order.trans [of _ 0])
    moreover have "- 1 < uint (start - 1)" using uint_nonnegative [of "start - 1"] by linarith
    ultimately show ?thesis by simp
  qed
  ultimately show ?thesis
    by (simp add: start_from_def initial_database_def event_loop_def index_turn_def)
qed

theorem genesis_start_fails_witness:
  "event_loop sample_ix sample_logs 2 [Inr 3] (snd (start_from 0 initial_database)) =
     (Returned ''rpc is behind the db, should never happen unless the rpc was rolled back'', initial_database)"
proof -
  have "(3 :: u64) \<noteq> - 1" "(1 :: u64) \<noteq> 0" "unat (1 :: u64) < 2 ^ 63" by simp_all
  from genesis_start_fails [OF this, of sample_ix sample_logs 2 "[]"] show ?thesis by blast
qed

end
