(* ===== verification/EX_Workerd.thy ===== *)
theory EX_Workerd
  imports Oyster_IO
begin

text \<open>
  The serverless executor, from \<open>serverless/executor/src\<close>: the pool of control groups (\<open>cgroups.rs\<close>) with
  the interface its clients rely on, and the work on user code (\<open>workerd.rs\<close>): fetching it from the calldata of
  a transaction, the configuration and the arguments of the runtime, the port of a control group.

  \<open>serde_json\<close>'s values and \<open>hex\<close> are the record \<open>json_lib\<close>, a parameter: \<open>json_key\<close> is the index of a value
  by a key as a place, a panic on a value that is neither an object nor null, and \<open>json_view\<close> tells null, a
  string and anything else apart. The answer of the RPC and the outcome of file operations are inputs, those
  after the retries.
\<close>

section \<open>Control groups\<close>

record cgroups =
  free :: "string list"

text \<open>The entries of the directory: the names that are text, or \<open>None\<close>.\<close>

definition get_cgroups :: "string option list rust_result \<Rightarrow> string list rust_result" where
  "get_cgroups dir =
     (case dir of Inl _ \<Rightarrow> Inl ''Failed to read the directory /sys/fs/cgroup''
      | Inr names \<Rightarrow> Inr (filter (prefix ''workerd_'') (List.map_filter id names)))"

definition cgroups_new :: "string option list rust_result \<Rightarrow> cgroups rust_result" where
  "cgroups_new dir = (case get_cgroups dir of Inl e \<Rightarrow> Inl e | Inr names \<Rightarrow> Inr \<lparr>free = names\<rparr>)"

definition reserve :: "cgroups \<Rightarrow> (string \<times> cgroups) option" where
  "reserve c = map_option (\<lambda>(g, rest). (g, c\<lparr>free := rest\<rparr>)) (swap_remove_0 (free c))"

definition release :: "string \<Rightarrow> cgroups \<Rightarrow> cgroups" where
  "release g c = c\<lparr>free := free c @ [g]\<rparr>"

definition cgexec_args :: "string \<Rightarrow> string list \<Rightarrow> string list" where
  "cgexec_args g args = [''cgexec'', ''-g'', ''memory,cpu:'' @ g] @ args"

text \<open>What a client relies on: a pool hands out each of its items at most once until it is given back.\<close>

locale resource_pool =
  fixes take_one :: "'p \<Rightarrow> ('r \<times> 'p) option"
    and give_back :: "'r \<Rightarrow> 'p \<Rightarrow> 'p"
    and items :: "'p \<Rightarrow> 'r multiset"
  assumes take_items: "take_one p = Some (r, q) \<Longrightarrow> items p = add_mset r (items q)"
    and take_None: "take_one p = None \<longleftrightarrow> items p = {#}"
    and give_items: "items (give_back r p) = add_mset r (items p)"
begin

text \<open>With what the clients hold, the pool always amounts to the same items.\<close>

lemma take_conserves:
  "take_one p = Some (r, q) \<Longrightarrow> items q + add_mset r held = items p + held"
  by (simp add: take_items)

lemma give_conserves:
  "r \<in># held \<Longrightarrow> items (give_back r p) + (held - {#r#}) = items p + held"
  by (simp add: give_items)

text \<open>So, if the items were distinct, no item is held twice, and none that is held is free.\<close>

lemma held_distinct:
  assumes "items p + mset held = mset all" and "distinct all"
  shows "distinct held \<and> set held \<inter> set_mset (items p) = {} \<and> set held \<subseteq> set all"
proof -
  have "mset held \<subseteq># mset all" by (metis assms(1) mset_subset_eq_add_right)
  moreover have count: "count (items p) x + count (mset held) x \<le> 1" for x
    using arg_cong [OF assms(1), of "\<lambda>m. count m x"] assms(2) by (simp add: distinct_count_atmost_1)
  then have "count (mset held) x \<le> 1" for x by (metis add_leD2)
  then have "distinct held" by (auto simp: distinct_count_atmost_1 le_Suc_eq)
  moreover have "x \<notin># items p" if "x \<in> set held" for x
  proof -
    have "0 < count (mset held) x" using that by simp
    with count [of x] have "count (items p) x = 0" by linarith
    then show ?thesis by (simp add: not_in_iff)
  qed
  ultimately show ?thesis by (auto dest: mset_subset_eqD)
qed

lemma capacity:
  assumes "items p + mset held = mset all"
  shows "length held \<le> length all \<and> (take_one p = None \<longleftrightarrow> length held = length all)"
proof -
  have "size (items p) + length held = length all"
    using arg_cong [OF assms, of size] by simp
  then show ?thesis by (auto simp: take_None)
qed

end

interpretation cg: resource_pool reserve release "\<lambda>c. mset (free c)"
  by unfold_locales (auto simp: reserve_def release_def dest: mset_swap_remove_0)

section \<open>Errors\<close>

datatype serverless_error =
    TxDataRetrieve | TxNotFound | InvalidTxToType | InvalidTxToValue string string
  | InvalidTxCalldataType | InvalidTxCalldataLength | InvalidTxCalldata | BadCalldata
  | CodeFileCreate | ConfigFileCreate | Execute | WorkerRequestError | CodeFileDelete | ConfigFileDelete
  | BadPort

section \<open>The code of the user\<close>

datatype json_view = JNull | JString string | JOther

record 'j json_lib =
  json_key :: "'j \<Rightarrow> string \<Rightarrow> 'j option"
  json_view :: "'j \<Rightarrow> json_view"
  hex_decode :: "string \<Rightarrow> bytes option"

text \<open>Slicing a string is a panic inside a character: a byte from 0x80 to 0xBF continues one.\<close>

definition char_boundary :: "string \<Rightarrow> nat \<Rightarrow> bool" where
  "char_boundary s i \<longleftrightarrow> i = length s \<or>
     (i < length s \<and> \<not> (128 \<le> (of_char (s ! i) :: nat) \<and> (of_char (s ! i) :: nat) < 192))"

definition str_from :: "string \<Rightarrow> nat \<Rightarrow> string option" where
  "str_from s i = (if char_boundary s i then Some (drop i s) else None)"

text \<open>The selector of the method and the offset of its only argument.\<close>

definition calldata_prefix :: string where
  "calldata_prefix = ''0xff7cdaf30000000000000000000000000000000000000000000000000000000000000020''"

fun find_index_nonzero :: "bytes \<Rightarrow> nat \<Rightarrow> nat option" where
  "find_index_nonzero [] i = None"
| "find_index_nonzero (x # xs) i = (if x \<noteq> 0 then Some i else find_index_nonzero xs (Suc i))"

definition strip_trailing_zeros :: "bytes \<Rightarrow> bytes" where
  "strip_trailing_zeros data =
     (let idx = (case find_index_nonzero (rev data) 0 of Some i \<Rightarrow> i | None \<Rightarrow> 0)
      in take (length data - idx) data)"

text \<open>\<open>create_code_file\<close>: the file is written with the value returned. \<open>answer\<close> is the answer of the RPC and
  \<open>written\<close> says whether the file could be written.\<close>

definition create_code_file ::
    "'j json_lib \<Rightarrow> (unit + 'j) \<Rightarrow> string \<Rightarrow> bool \<Rightarrow> (serverless_error + bytes) option" where
  "create_code_file lib answer contract written =
     (case answer of Inl _ \<Rightarrow> Some (Inl TxDataRetrieve)
      | Inr body \<Rightarrow>
      case json_key lib body ''result'' of None \<Rightarrow> None
      | Some tx_data \<Rightarrow>
      if json_view lib tx_data = JNull then Some (Inl TxNotFound)
      else
      case json_key lib tx_data ''to'' of None \<Rightarrow> None
      | Some to \<Rightarrow>
      case json_view lib to of JNull \<Rightarrow> Some (Inl InvalidTxToType) | JOther \<Rightarrow> Some (Inl InvalidTxToType)
      | JString contract_address \<Rightarrow>
      if contract_address \<noteq> contract then Some (Inl (InvalidTxToValue contract_address contract))
      else
      case json_key lib tx_data ''input'' of None \<Rightarrow> None
      | Some input \<Rightarrow>
      case json_view lib input of JNull \<Rightarrow> Some (Inl InvalidTxCalldataType)
        | JOther \<Rightarrow> Some (Inl InvalidTxCalldataType)
      | JString calldata \<Rightarrow>
      if length calldata < 138 then Some (Inl InvalidTxCalldataLength)
      else if \<not> prefix calldata_prefix calldata then Some (Inl InvalidTxCalldata)
      else
      case str_from calldata 138 of None \<Rightarrow> None
      | Some code_hex \<Rightarrow>
      case hex_decode lib code_hex of None \<Rightarrow> Some (Inl BadCalldata)
      | Some data \<Rightarrow>
          if written then Some (Inr (strip_trailing_zeros data)) else Some (Inl CodeFileCreate))"

section \<open>The runtime\<close>

definition code_path :: "string \<Rightarrow> string \<Rightarrow> string \<Rightarrow> string" where
  "code_path tx_hash slug workerd_runtime_path = workerd_runtime_path @ ''/'' @ tx_hash @ ''-'' @ slug @ ''.js''"

definition config_path :: "string \<Rightarrow> string \<Rightarrow> string \<Rightarrow> string" where
  "config_path tx_hash slug workerd_runtime_path =
     workerd_runtime_path @ ''/'' @ tx_hash @ ''-'' @ slug @ ''.capnp''"

definition nl :: char where
  "nl = CHR 0x0A"

definition quote :: char where
  "quote = CHR 0x22"

definition quoted :: "string \<Rightarrow> string" where
  "quoted s = quote # s @ [quote]"

text \<open>The text of the configuration file, line by line.\<close>

definition capnp_data :: "string \<Rightarrow> string \<Rightarrow> u16 \<Rightarrow> string" where
  "capnp_data tx_hash slug free_port =
     concat (map (\<lambda>line. nl # line)
       [''using Workerd = import '' @ quoted ''/workerd/workerd.capnp'' @ '';'',
        [],
        ''const oysterConfig :Workerd.Config = ('',
        ''  services = [ (name = '' @ quoted ''main'' @ '', worker = .oysterWorker) ],'',
        ''  sockets = [ ( name = '' @ quoted ''http'' @ '', address = ''
          @ quoted (''*:'' @ dec_of_nat (unat free_port)) @ '', http = (), service = '' @ quoted ''main'' @ '' ) ]'',
        '');'',
        [],
        ''const oysterWorker :Workerd.Worker = ('',
        ''  modules = ['',
        ''    (name = '' @ quoted ''main'' @ '', esModule = embed '' @ quoted (tx_hash @ ''-'' @ slug @ ''.js'') @ '')'',
        ''  ],'',
        ''  compatibilityDate = '' @ quoted ''2023-03-07'' @ '','',
        '');''])"

definition workerd_args :: "string \<Rightarrow> string \<Rightarrow> string \<Rightarrow> string list" where
  "workerd_args tx_hash slug workerd_runtime_path =
     [workerd_runtime_path @ ''/workerd'', ''serve'', config_path tx_hash slug workerd_runtime_path, ''--verbose'']"

section \<open>Ports\<close>

text \<open>\<open>u16::from_str_radix(s, 10)\<close>: an optional plus sign and at least one digit, within the range.\<close>

definition parse_u16 :: "string \<Rightarrow> u16 option" where
  "parse_u16 s = (case parse_nat s of None \<Rightarrow> None | Some n \<Rightarrow> if n < 2 ^ 16 then Some (of_nat n) else None)"

definition get_port :: "string \<Rightarrow> (serverless_error + u16) option" where
  "get_port cgroup =
     (case str_from cgroup 8 of None \<Rightarrow> None
      | Some s \<Rightarrow>
      case parse_u16 s of None \<Rightarrow> Some (Inl BadPort) | Some x \<Rightarrow> Some (Inr (x + 11000)))"

text \<open>\<open>wait_for_port\<close> tries for a second: the elapsed time before each attempt and whether it connects.\<close>

fun wait_for_port :: "(duration \<times> bool) list \<Rightarrow> bool option" where
  "wait_for_port [] = None"
| "wait_for_port ((elapsed, connected) # rest) =
     (if elapsed < duration_from_secs 1 then if connected then Some True else wait_for_port rest
      else Some False)"

section \<open>Lemmas\<close>

lemma find_index_nonzero_shift: "find_index_nonzero xs (i + k) = map_option (\<lambda>j. j + k) (find_index_nonzero xs i)"
  by (induction xs arbitrary: i) (auto simp flip: add_Suc)

lemma find_index_nonzero_None: "find_index_nonzero xs i = None \<longleftrightarrow> (\<forall>x \<in> set xs. x = 0)"
  by (induction xs arbitrary: i) auto

lemma find_index_nonzero_Some:
  "find_index_nonzero xs 0 = Some i \<Longrightarrow> \<exists>x ys. xs = replicate i 0 @ x # ys \<and> x \<noteq> 0"
proof (induction xs arbitrary: i)
  case (Cons a xs)
  show ?case
  proof (cases "a = 0")
    case True
    with Cons.prems find_index_nonzero_shift [of xs 0 1] obtain j
      where "i = Suc j" "find_index_nonzero xs 0 = Some j" by (auto dest: sym [of "Some i"])
    with Cons.IH [of j] True show ?thesis by auto
  next
    case False
    with Cons.prems show ?thesis by auto
  qed
qed simp

text \<open>The stripped data: all trailing zeros are gone, unless there is nothing else.\<close>

lemma strip_trailing_zeros_nonzero:
  assumes "\<exists>x \<in> set data. x \<noteq> 0"
  shows "\<exists>n. data = strip_trailing_zeros data @ replicate n 0 \<and> strip_trailing_zeros data \<noteq> []
    \<and> last (strip_trailing_zeros data) \<noteq> 0"
proof -
  obtain i where i: "find_index_nonzero (rev data) 0 = Some i"
    using assms find_index_nonzero_None [of "rev data" 0] by auto
  then obtain x ys where "rev data = replicate i 0 @ x # ys" and x: "x \<noteq> 0"
    using find_index_nonzero_Some by blast
  then have "data = (rev ys @ [x]) @ replicate i 0"
    by (metis append.assoc append_Cons append_Nil rev.simps(2) rev_append rev_replicate rev_rev_ident)
  moreover from this have "strip_trailing_zeros data = rev ys @ [x]"
    using i by (simp add: strip_trailing_zeros_def)
  ultimately show ?thesis using x by auto
qed

lemma strip_trailing_zeros_zero: "\<forall>x \<in> set data. x = 0 \<Longrightarrow> strip_trailing_zeros data = data"
  using find_index_nonzero_None [of "rev data" 0] by (simp add: strip_trailing_zeros_def)

lemma strip_trailing_zeros_unique:
  assumes "code \<noteq> []" and "last code \<noteq> 0"
  shows "strip_trailing_zeros (code @ replicate n 0) = code"
proof -
  let ?data = "code @ replicate n 0"
  have "\<exists>x \<in> set ?data. x \<noteq> 0" using assms last_in_set by auto
  then obtain m where m: "?data = strip_trailing_zeros ?data @ replicate m 0"
      "strip_trailing_zeros ?data \<noteq> []" "last (strip_trailing_zeros ?data) \<noteq> 0"
    using strip_trailing_zeros_nonzero by blast
  define s where "s = strip_trailing_zeros ?data"
  have *: "takeWhile (\<lambda>x. x = 0) (rev (c @ replicate k (0 :: u8))) = replicate k 0"
    if "c \<noteq> []" "last c \<noteq> 0" for c k
    using that by (cases c rule: rev_cases) (simp_all add: takeWhile_append)
  have "replicate n (0 :: u8) = replicate m 0"
    using * [OF assms, of n] * [OF m(2,3), of m] m(1) by (metis s_def)
  with m(1) show ?thesis by (metis append_same_eq length_replicate)
qed

lemma parse_u16_dec:
  assumes "n < 2 ^ 16"
  shows "parse_u16 (dec_of_nat n) = Some (of_nat n)"
  using assms by (simp add: parse_u16_def parse_nat_dec)

lemma create_code_file_stored:
  assumes "json_key lib body ''result'' = Some tx" and "json_view lib tx \<noteq> JNull"
    and "json_key lib tx ''to'' = Some to" and "json_view lib to = JString contract"
    and "json_key lib tx ''input'' = Some inp"
    and "json_view lib inp = JString (calldata_prefix @ len @ code_hex)" and "length len = 64"
    and "\<forall>c \<in> set code_hex. (of_char c :: nat) < 128"
    and "hex_decode lib code_hex = Some (code @ replicate n 0)" and "code \<noteq> []" and "last code \<noteq> 0"
  shows "create_code_file lib (Inr body) contract True = Some (Inr code)
    \<and> (other \<noteq> contract \<longrightarrow>
        create_code_file lib (Inr body) other w = Some (Inl (InvalidTxToValue contract other)))"
proof -
  let ?calldata = "calldata_prefix @ len @ code_hex"
  have plen: "length calldata_prefix = 74" by (simp add: calldata_prefix_def)
  have "drop 138 ?calldata = code_hex" using assms(7) by (simp add: plen)
  moreover have "char_boundary ?calldata 138"
    using assms(7,8) nth_mem [of 0 code_hex] by (cases code_hex) (auto simp: char_boundary_def plen nth_append)
  ultimately have "str_from ?calldata 138 = Some code_hex" by (simp add: str_from_def)
  then show ?thesis
    using assms strip_trailing_zeros_unique [OF assms(10,11), of n]
    by (simp add: create_code_file_def plen)
qed

lemma get_port_dec:
  assumes "k < 2 ^ 16"
  shows "get_port (''workerd_'' @ dec_of_nat k) = Some (Inr (of_nat k + 11000))"
proof -
  obtain c cs where c: "dec_of_nat k = c # cs" using dec_of_nat_not_Nil [of k] by (cases "dec_of_nat k") auto
  then have "(of_char c :: nat) < 128" using dec_of_nat_digits [of c k] by simp
  then have "str_from (''workerd_'' @ dec_of_nat k) 8 = Some (dec_of_nat k)"
    by (simp add: str_from_def char_boundary_def c)
  then show ?thesis using parse_u16_dec [OF assms] by (simp add: get_port_def)
qed

section \<open>Properties\<close>

definition hex_one :: "string \<Rightarrow> bytes option" where
  "hex_one s = (if s = ''6100'' then Some [97, 0] else None)"

text \<open>A library of values for the witnesses: an object is a list of fields.\<close>

datatype sample_json = S_null | S_string string | S_object "(string \<times> sample_json) list"

definition sample_lib :: "sample_json json_lib" where
  "sample_lib = \<lparr>json_key = (\<lambda>v k. case v of S_object fs \<Rightarrow> Some (case map_of fs k of Some x \<Rightarrow> x | None \<Rightarrow> S_null)
       | S_null \<Rightarrow> Some S_null | S_string _ \<Rightarrow> None),
     json_view = (\<lambda>v. case v of S_null \<Rightarrow> JNull | S_string s \<Rightarrow> JString s | S_object _ \<Rightarrow> JOther),
     hex_decode = hex_one\<rparr>"

definition sample_body :: sample_json where
  "sample_body = S_object [(''result'', S_object [(''to'', S_string ''0xc0de''),
     (''input'', S_string (calldata_prefix @ replicate 64 (CHR ''0'') @ ''6100''))])]"

lemma sample_code: "create_code_file sample_lib (Inr sample_body) ''0xc0de'' True = Some (Inr [97])"
proof -
  have "json_view sample_lib (S_string (calldata_prefix @ replicate 64 (CHR ''0'') @ ''6100'')) =
      JString (calldata_prefix @ replicate 64 (CHR ''0'') @ ''6100'')"
    by (simp add: sample_lib_def)
  from create_code_file_stored [OF _ _ _ _ _ this, of sample_body _ _ "''0xc0de''" "[97]" 1] show ?thesis
    by (simp add: sample_lib_def sample_body_def hex_one_def)
qed

lemma sample_port: "get_port ''workerd_7'' = Some (Inr 11007)"
proof -
  have "dec_of_nat 7 = ''7''" by code_simp
  with get_port_dec [of 7] show ?thesis by simp
qed

text \<open>The code an executor runs is the code that was stored: when the calldata of the transaction is the
  selector and offset, the 64 digits of the length and the code in hex, padded by zero bytes, and the
  transaction was sent to the code contract, \<open>create_code_file\<close> writes exactly the code. A transaction to
  another address is refused, whatever its calldata is.\<close>

lemma code_file_roundtrip:
  assumes "json_key lib body ''result'' = Some tx" and "json_view lib tx \<noteq> JNull"
    and "json_key lib tx ''to'' = Some to" and "json_view lib to = JString contract"
    and "json_key lib tx ''input'' = Some inp"
    and "json_view lib inp = JString (calldata_prefix @ len @ code_hex)" and "length len = 64"
    and "\<forall>c \<in> set code_hex. (of_char c :: nat) < 128"
    and "hex_decode lib code_hex = Some (code @ replicate n 0)" and "code \<noteq> []" and "last code \<noteq> 0"
  shows "create_code_file lib (Inr body) contract True = Some (Inr code)
    \<and> (other \<noteq> contract \<longrightarrow>
        create_code_file lib (Inr body) other w = Some (Inl (InvalidTxToValue contract other)))"
  by (rule create_code_file_stored [OF assms])

lemma code_file_roundtrip_witness:
  "create_code_file sample_lib (Inr sample_body) ''0xc0de'' True = Some (Inr [97])"
proof -
  have "json_view sample_lib (S_string (calldata_prefix @ replicate 64 (CHR ''0'') @ ''6100'')) =
      JString (calldata_prefix @ replicate 64 (CHR ''0'') @ ''6100'')"
    by (simp add: sample_lib_def)
  from code_file_roundtrip [OF _ _ _ _ _ this, of sample_body _ _ "''0xc0de''" "[97]" 1] show ?thesis
    by (simp add: sample_lib_def sample_body_def hex_one_def)
qed

text \<open>The control groups the set-up script makes, \<open>workerd_1\<close>, \<open>workerd_2\<close> and so on, have a port each:
  the number of the group is read back from its name, 11000 is added modulo 65536, and two groups never share
  a port.\<close>

lemma cgroup_ports:
  assumes "i < 2 ^ 16" and "j < 2 ^ 16"
  shows "get_port (''workerd_'' @ dec_of_nat i) = Some (Inr (of_nat i + 11000))
    \<and> (get_port (''workerd_'' @ dec_of_nat i) = get_port (''workerd_'' @ dec_of_nat j) \<longleftrightarrow> i = j)"
proof -
  have "(of_nat i :: u16) = of_nat j \<longleftrightarrow> i = j"
    using assms by (auto simp: word_of_nat_eq_iff take_bit_nat_eq_self)
  then show ?thesis using get_port_dec [OF assms(1)] get_port_dec [OF assms(2)] by simp
qed

lemma cgroup_ports_witness:
  "get_port ''workerd_7'' = Some (Inr 11007)"
proof -
  have "dec_of_nat 7 = ''7''" by code_simp
  with cgroup_ports [of 7 8] show ?thesis by simp
qed

end
