(* ===== verification/EX_Jobs.thy ===== *)
theory EX_Jobs
  imports EX_Workerd
begin

text \<open>
  The state of the serverless executor and what changes it, from \<open>serverless/executor/src\<close>: the tasks that
  execute jobs (\<open>job_handler.rs\<close>), the timeouts (\<open>timeout_handler.rs\<close>) and the handlers of contract events
  (\<open>handle_event_logs\<close> of \<open>event_handler.rs\<close>).

  A task is cut at its await points: a stage of \<open>execute_job\<close> holds what its guards (\<open>defer!\<close>) will give back
  when the task ends or is cancelled. Each step of a task takes what it waited for as an input, and so do the
  clocks. The ABI, the hash and the key of the enclave are the record \<open>eth_lib\<close>, a parameter. Sums of \<open>u64\<close>
  wrap around, as in a release build. The messages to the sender of transactions are a list.
\<close>

type_synonym address = "160 word"

section \<open>Signing a response\<close>

datatype token = TString string | TFixedBytes bytes | TBytes bytes | TUint u256 | TAddress address

record eth_lib =
  eth_keccak256 :: "bytes \<Rightarrow> bytes"
  eth_encode :: "token list \<Rightarrow> bytes"
  eth_encode_packed :: "token list \<Rightarrow> bytes option"
  eth_sign :: "bytes \<Rightarrow> (bytes \<times> u8) option"

definition str_bytes :: "string \<Rightarrow> bytes" where
  "str_bytes s = map of_char s"

definition keccak_str :: "eth_lib \<Rightarrow> string \<Rightarrow> bytes" where
  "keccak_str lib s = eth_keccak256 lib (str_bytes s)"

definition domain_separator :: "eth_lib \<Rightarrow> string \<Rightarrow> bytes" where
  "domain_separator lib domain = eth_keccak256 lib (eth_encode lib
     [TFixedBytes (keccak_str lib ''EIP712Domain(string name,string version)''),
      TFixedBytes (keccak_str lib domain), TFixedBytes (keccak_str lib ''1'')])"

definition packed_digest :: "bytes \<Rightarrow> bytes \<Rightarrow> token list" where
  "packed_digest separator hash_struct =
     [TString [CHR 0x19, CHR 0x01], TFixedBytes separator, TFixedBytes hash_struct]"

definition sign_digest :: "eth_lib \<Rightarrow> token list \<Rightarrow> bytes option" where
  "sign_digest lib packed =
     (case eth_encode_packed lib packed of None \<Rightarrow> None
      | Some digest \<Rightarrow>
      case eth_sign lib (eth_keccak256 lib digest) of None \<Rightarrow> None
      | Some (rs, v) \<Rightarrow> Some (rs @ [27 + v]))"

definition response_struct :: "eth_lib \<Rightarrow> u256 \<Rightarrow> bytes \<Rightarrow> u128 \<Rightarrow> u8 \<Rightarrow> u256 \<Rightarrow> bytes" where
  "response_struct lib job output total_time error_code sign_timestamp =
     eth_keccak256 lib (eth_encode lib
       [TFixedBytes (keccak_str lib
          ''SubmitOutput(uint256 jobId,bytes output,uint256 totalTime,uint8 errorCode,uint256 signTimestamp)''),
        TUint job, TFixedBytes (eth_keccak256 lib output), TUint (ucast total_time), TUint (ucast error_code),
        TUint sign_timestamp])"

definition sign_response :: "eth_lib \<Rightarrow> u256 \<Rightarrow> bytes \<Rightarrow> u128 \<Rightarrow> u8 \<Rightarrow> u256 \<Rightarrow> bytes option" where
  "sign_response lib job output total_time error_code sign_timestamp =
     sign_digest lib (packed_digest (domain_separator lib ''marlin.oyster.Jobs'')
       (response_struct lib job output total_time error_code sign_timestamp))"

section \<open>State\<close>

record job_output =
  jo_output :: bytes
  jo_error_code :: u8
  jo_total_time :: u128
  jo_sign_timestamp :: u256
  jo_signature :: bytes

definition new_output :: "bytes \<Rightarrow> u8 \<Rightarrow> u128 \<Rightarrow> job_output" where
  "new_output out code time = \<lparr>jo_output = out, jo_error_code = code, jo_total_time = time,
     jo_sign_timestamp = 0, jo_signature = []\<rparr>"

datatype txn_type = OUTPUT | TIMEOUT

record txn_metadata =
  tm_type :: txn_type
  tm_job :: u256
  tm_output :: "job_output option"
  tm_retry_deadline :: instant

text \<open>The await points of \<open>execute_job\<close>: the code is being fetched; a control group is reserved and the
  configuration is being written; the worker runs and its port is being tried; its standard error is being
  read, which blocks the thread; the request is being served. An ended task has run all of \<open>handle_job\<close>.\<close>

datatype stage = Fetching | Configuring string u16 | Waiting string u16 | Reading string u16
  | Requesting string u16 | Ended

record task =
  tk_job :: u256
  tk_deadline :: u64
  tk_stage :: stage

text \<open>The await points of \<open>handle_timeout\<close>: the task sleeps; the message, made at an instant, waits for room in
  the channel; the message is in the channel, or the channel was found closed, and the job is not unmarked yet.\<close>

datatype timer_stage = Sleeping | Sending instant | Unmarking | Timer_ended

record timer =
  ti_job :: u256
  ti_due :: instant
  ti_stage :: timer_stage

record executor =
  pool :: cgroups
  workers :: "string list"
  tasks :: "task list"
  timers :: "timer list"
  job_requests_running :: "u256 set"
  enclave_registered :: bool
  last_block_seen :: u64
  listening :: bool
  sent :: "txn_metadata list"

record 'j executor_config =
  ec_json :: "'j json_lib"
  ec_eth :: eth_lib
  ec_code_contract :: string
  ec_buffer_time :: u64
  ec_num_selected :: u8
  ec_address :: address
  ec_decode_created :: "bytes \<Rightarrow> (bytes \<times> bytes \<times> u256 \<times> address list) option"
  ec_decode_responded :: "bytes \<Rightarrow> (bytes \<times> u256 \<times> u256 \<times> u256) option"

definition duration_from_millis :: "u64 \<Rightarrow> duration" where
  "duration_from_millis ms = unat ms * 1000000"

section \<open>Executing a job\<close>

definition code_error_output :: "serverless_error \<Rightarrow> u128 \<Rightarrow> job_output option" where
  "code_error_output err elapsed =
     (case err of
        TxNotFound \<Rightarrow> Some (new_output [] 1 elapsed)
      | InvalidTxToType \<Rightarrow> Some (new_output [] 1 elapsed)
      | InvalidTxToValue _ _ \<Rightarrow> Some (new_output [] 1 elapsed)
      | InvalidTxCalldata \<Rightarrow> Some (new_output [] 2 elapsed)
      | InvalidTxCalldataType \<Rightarrow> Some (new_output [] 2 elapsed)
      | InvalidTxCalldataLength \<Rightarrow> Some (new_output [] 2 elapsed)
      | BadCalldata \<Rightarrow> Some (new_output [] 2 elapsed)
      | _ \<Rightarrow> None)"

text \<open>The lines joined by line feeds.\<close>

fun join_lines :: "string list \<Rightarrow> string" where
  "join_lines [] = []"
| "join_lines [l] = l"
| "join_lines (l # ls) = l @ nl # join_lines ls"

definition syntax_error_output :: "string list \<Rightarrow> u128 \<Rightarrow> job_output option" where
  "syntax_error_output lines elapsed =
     (let stderr_output = join_lines lines
      in if stderr_output \<noteq> [] \<and> str_contains stderr_output ''SyntaxError''
         then Some (new_output [] 3 elapsed) else None)"

text \<open>What the guards of a stage do: the worker is killed, then the control group is released.\<close>

fun drop_guards :: "stage \<Rightarrow> executor \<Rightarrow> executor" where
  "drop_guards (Configuring g _) x = x\<lparr>pool := release g (pool x)\<rparr>"
| "drop_guards (Waiting g _) x = x\<lparr>workers := remove1 g (workers x), pool := release g (pool x)\<rparr>"
| "drop_guards (Reading g _) x = x\<lparr>workers := remove1 g (workers x), pool := release g (pool x)\<rparr>"
| "drop_guards (Requesting g _) x = x\<lparr>workers := remove1 g (workers x), pool := release g (pool x)\<rparr>"
| "drop_guards _ x = x"

text \<open>What a task waited for: the answer of the RPC and whether the code file could be written; whether the
  configuration could be written and the worker spawned; the attempts to connect and whether the standard
  error of the worker was there to take; the lines of the standard error, up to its end; the response; the
  user's deadline.\<close>

datatype 'j job_input =
    Code_fetched "unit + 'j" bool
  | Config_written bool bool
  | Port_tried "(duration \<times> bool) list" bool
  | Stderr_read "string list"
  | Answered "bytes option"
  | Deadline_passed

datatype outcome = Continue stage | Finished "job_output option" | Panicked_task

fun execute_job :: "'j executor_config \<Rightarrow> u64 \<Rightarrow> stage \<Rightarrow> 'j job_input \<Rightarrow> u128 \<Rightarrow> executor \<Rightarrow> (outcome \<times> executor) option" where
  "execute_job cfg deadline Fetching (Code_fetched answer written) elapsed x =
     (case create_code_file (ec_json cfg) answer (ec_code_contract cfg) written of
        None \<Rightarrow> Some (Panicked_task, x)
      | Some (Inl err) \<Rightarrow> Some (Finished (code_error_output err elapsed), x)
      | Some (Inr _) \<Rightarrow>
      case reserve (pool x) of None \<Rightarrow> Some (Finished None, x)
      | Some (g, rest) \<Rightarrow>
      let x1 = x\<lparr>pool := rest\<rparr> in
      case get_port g of
        None \<Rightarrow> Some (Panicked_task, x1\<lparr>pool := release g (pool x1)\<rparr>)
      | Some (Inl _) \<Rightarrow> Some (Finished None, x1\<lparr>pool := release g (pool x1)\<rparr>)
      | Some (Inr port) \<Rightarrow> Some (Continue (Configuring g port), x1))"
| "execute_job cfg deadline (Configuring g port) (Config_written written spawned) elapsed x =
     (if \<not> written \<or> \<not> spawned then Some (Finished None, drop_guards (Configuring g port) x)
      else Some (Continue (Waiting g port), x\<lparr>workers := g # workers x\<rparr>))"
| "execute_job cfg deadline (Waiting g port) (Port_tried attempts has_stderr) elapsed x =
     (case wait_for_port attempts of None \<Rightarrow> None
      | Some True \<Rightarrow> Some (Continue (Requesting g port), x)
      | Some False \<Rightarrow>
          if has_stderr then Some (Continue (Reading g port), x)
          else Some (Finished None, drop_guards (Waiting g port) x))"
| "execute_job cfg deadline (Reading g port) (Stderr_read lines) elapsed x =
     Some (Finished (syntax_error_output lines elapsed), drop_guards (Reading g port) x)"
| "execute_job cfg deadline (Requesting g port) (Answered response) elapsed x =
     Some (Finished (map_option (\<lambda>out. new_output out 0 elapsed) response), drop_guards (Requesting g port) x)"
| "execute_job cfg deadline s Deadline_passed elapsed x =
     (case s of Reading _ _ \<Rightarrow> None | Ended \<Rightarrow> None
      | _ \<Rightarrow> Some (Finished (Some (new_output [] 4 (ucast deadline))), drop_guards s x))"
| "execute_job cfg deadline s inp elapsed x = None"

text \<open>The end of \<open>handle_job\<close>: the response is signed and sent. \<open>unix\<close> is the time in seconds and \<open>now\<close> the
  monotonic clock. An instant counts its seconds in an \<open>i64\<close>; a sum beyond it panics, and nothing is sent.\<close>

definition instant_add :: "instant \<Rightarrow> duration \<Rightarrow> instant option" where
  "instant_add now d = (if (now + d) div 1000000000 < 2 ^ 63 then Some (now + d) else None)"

definition handle_job_end ::
    "'j executor_config \<Rightarrow> task \<Rightarrow> job_output option \<Rightarrow> u64 \<Rightarrow> instant \<Rightarrow> txn_metadata option" where
  "handle_job_end cfg t out unix now =
     (case out of None \<Rightarrow> None
      | Some out \<Rightarrow>
      let sign_timestamp = ucast unix :: u256 in
      case sign_response (ec_eth cfg) (tk_job t) (jo_output out) (jo_total_time out) (jo_error_code out)
             sign_timestamp of
        None \<Rightarrow> None
      | Some signature \<Rightarrow>
      case instant_add now (duration_from_secs (ec_buffer_time cfg + tk_deadline t - ucast (jo_total_time out))) of
        None \<Rightarrow> None
      | Some retry_deadline \<Rightarrow>
          Some \<lparr>tm_type = OUTPUT, tm_job = tk_job t,
            tm_output = Some (out\<lparr>jo_sign_timestamp := sign_timestamp, jo_signature := signature\<rparr>),
            tm_retry_deadline = retry_deadline\<rparr>)"

record clocks =
  ck_elapsed :: u128
  ck_unix :: u64
  ck_now :: instant

definition job_step :: "'j executor_config \<Rightarrow> nat \<Rightarrow> 'j job_input \<Rightarrow> clocks \<Rightarrow> executor \<Rightarrow> executor option" where
  "job_step cfg i inp ck x =
     (if length (tasks x) \<le> i then None
      else
        let t = tasks x ! i in
        case execute_job cfg (tk_deadline t) (tk_stage t) inp (ck_elapsed ck) x of None \<Rightarrow> None
        | Some (Continue s, x1) \<Rightarrow> Some (x1\<lparr>tasks := (tasks x1)[i := t\<lparr>tk_stage := s\<rparr>]\<rparr>)
        | Some (Finished out, x1) \<Rightarrow>
            Some (x1\<lparr>tasks := (tasks x1)[i := t\<lparr>tk_stage := Ended\<rparr>],
              sent := sent x1 @ (case handle_job_end cfg t out (ck_unix ck) (ck_now ck) of
                        None \<Rightarrow> [] | Some m \<Rightarrow> [m])\<rparr>)
        | Some (Panicked_task, x1) \<Rightarrow> Some (x1\<lparr>tasks := (tasks x1)[i := t\<lparr>tk_stage := Ended\<rparr>]\<rparr>))"

section \<open>Timeouts\<close>

definition start_timer :: "'j executor_config \<Rightarrow> u256 \<Rightarrow> u64 \<Rightarrow> instant \<Rightarrow> timer" where
  "start_timer cfg job timeout now =
     \<lparr>ti_job = job, ti_due = now + duration_from_millis (timeout + ec_buffer_time cfg * 1000 + 1000),
      ti_stage = Sleeping\<rparr>"

definition timeout_message :: "u256 \<Rightarrow> instant \<Rightarrow> txn_metadata" where
  "timeout_message job now = \<lparr>tm_type = TIMEOUT, tm_job = job, tm_output = None,
     tm_retry_deadline = now + duration_from_secs 20\<rparr>"

text \<open>A timer has three steps. When it is due it looks once whether the job is marked as running, and if so the
  message is made and its sending begins. When the channel has taken the message, or is closed, the sending is
  over; only then is the mark of the job removed, whatever has happened in between.\<close>

definition set_timer :: "nat \<Rightarrow> timer_stage \<Rightarrow> executor \<Rightarrow> executor" where
  "set_timer k s x = x\<lparr>timers := (timers x)[k := (timers x ! k)\<lparr>ti_stage := s\<rparr>]\<rparr>"

definition handle_timeout :: "nat \<Rightarrow> instant \<Rightarrow> executor \<Rightarrow> executor option" where
  "handle_timeout k now x =
     (if length (timers x) \<le> k \<or> ti_stage (timers x ! k) \<noteq> Sleeping \<or> now < ti_due (timers x ! k) then None
      else if ti_job (timers x ! k) \<notin> job_requests_running x then Some (set_timer k Timer_ended x)
      else Some (set_timer k (Sending now) x))"

definition timeout_sent :: "nat \<Rightarrow> bool \<Rightarrow> executor \<Rightarrow> executor option" where
  "timeout_sent k channel_open x =
     (if length (timers x) \<le> k then None
      else case ti_stage (timers x ! k) of
        Sending now \<Rightarrow>
          Some (if channel_open
                then (set_timer k Unmarking x)\<lparr>sent := sent x @ [timeout_message (ti_job (timers x ! k)) now]\<rparr>
                else set_timer k Unmarking x)
      | _ \<Rightarrow> None)"

definition timeout_unmarks :: "nat \<Rightarrow> executor \<Rightarrow> executor option" where
  "timeout_unmarks k x =
     (if length (timers x) \<le> k \<or> ti_stage (timers x ! k) \<noteq> Unmarking then None
      else Some ((set_timer k Timer_ended x)
             \<lparr>job_requests_running := job_requests_running x - {ti_job (timers x ! k)}\<rparr>))"

section \<open>Contract events\<close>

record event_log =
  el_removed :: "bool option"
  el_block :: "u64 option"
  el_topics :: "u256 list"
  el_data :: bytes

text \<open>A log that is not removed, has a block and is not older than the last block seen moves that block.\<close>

definition observe_block :: "event_log \<Rightarrow> executor \<Rightarrow> executor option" where
  "observe_block l x =
     (if el_removed l \<noteq> Some False then None
      else case el_block l of None \<Rightarrow> None
      | Some current_block \<Rightarrow>
          if current_block < last_block_seen x then None else Some (x\<lparr>last_block_seen := current_block\<rparr>))"

definition spawn_timer :: "'j executor_config \<Rightarrow> u256 \<Rightarrow> u256 \<Rightarrow> instant \<Rightarrow> executor \<Rightarrow> executor" where
  "spawn_timer cfg job user_deadline now x =
     (if unat user_deadline < 2 ^ 64
      then x\<lparr>timers := timers x @ [start_timer cfg job (ucast user_deadline) now]\<rparr> else x)"

definition spawn_job :: "u256 \<Rightarrow> u256 \<Rightarrow> executor \<Rightarrow> executor" where
  "spawn_job job user_deadline x =
     (if unat user_deadline < 2 ^ 64
      then x\<lparr>tasks := tasks x @ [\<lparr>tk_job = job, tk_deadline = ucast user_deadline, tk_stage = Fetching\<rparr>]\<rparr> else x)"

text \<open>\<open>as_u64\<close> of a deadline beyond \<open>u64\<close> panics inside the spawned tasks. A missing topic is a panic of the
  listener, which ends.\<close>

definition handle_created :: "'j executor_config \<Rightarrow> event_log \<Rightarrow> instant \<Rightarrow> executor \<Rightarrow> executor" where
  "handle_created cfg l now x =
     (case observe_block l x of None \<Rightarrow> x
      | Some x1 \<Rightarrow>
      case vindex (el_topics l) 1 of None \<Rightarrow> x1\<lparr>listening := False\<rparr>
      | Some job \<Rightarrow>
      case vindex (el_topics l) 2 of None \<Rightarrow> x1\<lparr>listening := False\<rparr>
      | Some env \<Rightarrow>
      if env \<noteq> 1 then x1
      else
      case ec_decode_created cfg (el_data l) of None \<Rightarrow> x1
      | Some (code_hash, code_inputs, user_deadline, selected_nodes) \<Rightarrow>
          let x2 = x1\<lparr>job_requests_running := insert job (job_requests_running x1)\<rparr>;
              x3 = spawn_timer cfg job user_deadline now x2
          in if ec_address cfg \<in> set selected_nodes then spawn_job job user_deadline x3 else x3)"

definition handle_responded :: "'j executor_config \<Rightarrow> event_log \<Rightarrow> executor \<Rightarrow> executor" where
  "handle_responded cfg l x =
     (case observe_block l x of None \<Rightarrow> x
      | Some x1 \<Rightarrow>
      case vindex (el_topics l) 1 of None \<Rightarrow> x1\<lparr>listening := False\<rparr>
      | Some job \<Rightarrow>
      case ec_decode_responded cfg (el_data l) of None \<Rightarrow> x1
      | Some (_, _, _, output_count) \<Rightarrow>
          if output_count = ucast (ec_num_selected cfg)
          then x1\<lparr>job_requests_running := job_requests_running x1 - {job}\<rparr> else x1)"

definition handle_deregistered :: "event_log \<Rightarrow> executor \<Rightarrow> executor" where
  "handle_deregistered l x =
     (if el_removed l \<noteq> Some False then x else x\<lparr>enclave_registered := False, listening := False\<rparr>)"

text \<open>While the enclave is not registered, \<open>events_listener\<close> waits for the log of its registration.\<close>

definition handle_registered :: "event_log \<Rightarrow> u64 \<Rightarrow> executor \<Rightarrow> executor" where
  "handle_registered l starting_block x =
     (if el_removed l \<noteq> Some False then x
      else x\<lparr>enclave_registered := True, listening := True,
             last_block_seen := (case el_block l of Some b \<Rightarrow> b | None \<Rightarrow> starting_block)\<rparr>)"

text \<open>The executor as a whole: the registration, a new listener after one that panicked, the events of the three streams while the listener runs, in any order, and the
  steps of the tasks and timers.\<close>

datatype 'j executor_event =
    Registered event_log u64
  | Relistened
  | Created event_log instant
  | Responded event_log
  | Deregistered event_log
  | Job nat "'j job_input" clocks
  | Timer nat instant
  | Timer_sent nat bool
  | Timer_unmarks nat

fun executor_step :: "'j executor_config \<Rightarrow> executor \<Rightarrow> 'j executor_event \<Rightarrow> executor option" where
  "executor_step cfg x (Registered l starting_block) =
     (if listening x \<or> enclave_registered x then None else Some (handle_registered l starting_block x))"
| "executor_step cfg x Relistened =
     (if listening x \<or> \<not> enclave_registered x then None else Some (x\<lparr>listening := True\<rparr>))"
| "executor_step cfg x (Created l now) =
     (if listening x then Some (handle_created cfg l now x) else None)"
| "executor_step cfg x (Responded l) =
     (if listening x then Some (handle_responded cfg l x) else None)"
| "executor_step cfg x (Deregistered l) = (if listening x then Some (handle_deregistered l x) else None)"
| "executor_step cfg x (Job i inp ck) = job_step cfg i inp ck x"
| "executor_step cfg x (Timer k now) = handle_timeout k now x"
| "executor_step cfg x (Timer_sent k channel_open) = timeout_sent k channel_open x"
| "executor_step cfg x (Timer_unmarks k) = timeout_unmarks k x"

definition initial_executor :: "string list \<Rightarrow> executor" where
  "initial_executor names = \<lparr>pool = \<lparr>free = names\<rparr>, workers = [], tasks = [], timers = [],
     job_requests_running = {}, enclave_registered = False, last_block_seen = 0, listening = False, sent = []\<rparr>"

section \<open>Resources\<close>

fun held_by :: "stage \<Rightarrow> string list" where
  "held_by (Configuring g _) = [g]"
| "held_by (Waiting g _) = [g]"
| "held_by (Reading g _) = [g]"
| "held_by (Requesting g _) = [g]"
| "held_by _ = []"

fun worker_of :: "stage \<Rightarrow> string list" where
  "worker_of (Waiting g _) = [g]"
| "worker_of (Reading g _) = [g]"
| "worker_of (Requesting g _) = [g]"
| "worker_of _ = []"

fun stage_after :: "outcome \<Rightarrow> stage" where
  "stage_after (Continue s) = s"
| "stage_after _ = Ended"

text \<open>What is taken and given back over all tasks.\<close>

definition gathered :: "(stage \<Rightarrow> string list) \<Rightarrow> executor \<Rightarrow> string list" where
  "gathered f x = concat (map (\<lambda>t. f (tk_stage t)) (tasks x))"

definition resources_inv :: "string list \<Rightarrow> executor \<Rightarrow> bool" where
  "resources_inv names x \<longleftrightarrow> mset (free (pool x)) + mset (gathered held_by x) = mset names
     \<and> mset (workers x) = mset (gathered worker_of x)"

lemma gathered_update:
  assumes "i < length ts"
  shows "mset (concat (map f (ts[i := t]))) + mset (f (ts ! i)) = mset (concat (map f ts)) + mset (f t)"
  using assms
proof (induction ts arbitrary: i)
  case (Cons a ts)
  then show ?case by (cases i) (auto simp: ac_simps)
qed simp

lemma gathered_nth: "i < length ts \<Longrightarrow> mset (f (ts ! i)) \<subseteq># mset (concat (map f ts))"
proof (induction ts arbitrary: i)
  case (Cons a ts)
  then show ?case by (cases i) (auto intro: subset_mset.add_increasing)
qed simp

lemma execute_job_frame:
  assumes "execute_job cfg deadline s inp el x = Some (out, y)"
  shows "tasks y = tasks x" "timers y = timers x" "job_requests_running y = job_requests_running x"
    "sent y = sent x" "last_block_seen y = last_block_seen x" "listening y = listening x"
    "enclave_registered y = enclave_registered x"
  using assms
  by (cases "(cfg, deadline, s, inp, el, x)" rule: execute_job.cases;
      auto simp: Let_def split: option.splits sum.splits if_splits bool.splits stage.splits)+

lemma execute_job_resources:
  assumes "execute_job cfg deadline s inp el x = Some (out, y)"
  shows "mset (free (pool y)) + mset (held_by (stage_after out)) = mset (free (pool x)) + mset (held_by s)"
    and "mset (worker_of s) \<subseteq># mset (workers x) \<Longrightarrow>
      mset (workers y) + mset (worker_of s) = mset (workers x) + mset (worker_of (stage_after out))"
proof -
  have g: "mset (free (release g p)) = add_mset g (mset (free p))" for g p by (rule cg.give_items)
  have r: "mset (free p) = add_mset g (mset (free q))" if "reserve p = Some (g, q)" for g p q
    using that by (rule cg.take_items)
  show "mset (free (pool y)) + mset (held_by (stage_after out)) = mset (free (pool x)) + mset (held_by s)"
    using assms
    by (cases "(cfg, deadline, s, inp, el, x)" rule: execute_job.cases)
      (auto simp: Let_def g dest!: r split: option.splits sum.splits if_splits bool.splits stage.splits)
  show "mset (workers y) + mset (worker_of s) = mset (workers x) + mset (worker_of (stage_after out))"
    if "mset (worker_of s) \<subseteq># mset (workers x)"
    using assms that
    by (cases "(cfg, deadline, s, inp, el, x)" rule: execute_job.cases)
      (auto simp: Let_def split: option.splits sum.splits if_splits bool.splits stage.splits)
qed

definition end_messages :: "'j executor_config \<Rightarrow> task \<Rightarrow> outcome \<Rightarrow> clocks \<Rightarrow> txn_metadata list" where
  "end_messages cfg t out ck =
     (case out of Finished r \<Rightarrow> (case handle_job_end cfg t r (ck_unix ck) (ck_now ck) of None \<Rightarrow> [] | Some m \<Rightarrow> [m])
      | _ \<Rightarrow> [])"

lemma job_step_cases:
  assumes "job_step cfg i inp ck x = Some y"
  obtains out x1 where "i < length (tasks x)"
    "execute_job cfg (tk_deadline (tasks x ! i)) (tk_stage (tasks x ! i)) inp (ck_elapsed ck) x = Some (out, x1)"
    "tasks y = (tasks x)[i := (tasks x ! i)\<lparr>tk_stage := stage_after out\<rparr>]"
    "pool y = pool x1" "workers y = workers x1" "timers y = timers x"
    "job_requests_running y = job_requests_running x" "last_block_seen y = last_block_seen x"
    "listening y = listening x" "sent y = sent x @ end_messages cfg (tasks x ! i) out ck"
proof -
  from assms obtain out x1 where i: "i < length (tasks x)" and e:
      "execute_job cfg (tk_deadline (tasks x ! i)) (tk_stage (tasks x ! i)) inp (ck_elapsed ck) x = Some (out, x1)"
    by (auto simp: job_step_def Let_def split: option.splits if_splits)
  note f = execute_job_frame [OF e]
  have "tasks y = (tasks x)[i := (tasks x ! i)\<lparr>tk_stage := stage_after out\<rparr>] \<and> pool y = pool x1 \<and>
      workers y = workers x1 \<and> timers y = timers x1 \<and> job_requests_running y = job_requests_running x1 \<and>
      last_block_seen y = last_block_seen x1 \<and> listening y = listening x1 \<and>
      sent y = sent x1 @ end_messages cfg (tasks x ! i) out ck"
    using assms i by (cases out) (auto simp: job_step_def e f Let_def end_messages_def split: option.split)
  with that [OF i e] f show thesis by simp
qed

lemma multiset_exchange:
  fixes a :: "'a multiset"
  assumes "a + s1 = b + s" and "g1 + s = g + s1"
  shows "a + g1 = b + g"
proof -
  have "(a + g1) + (s + s1) = (b + g) + (s + s1)"
    using arg_cong2 [OF assms, of "(+)"] by (simp only: ac_simps)
  then show ?thesis by simp
qed

lemma job_step_resources:
  assumes "job_step cfg i inp ck x = Some y" and "resources_inv names x"
  shows "resources_inv names y"
proof -
  obtain out x1 where i: "i < length (tasks x)"
    and e: "execute_job cfg (tk_deadline (tasks x ! i)) (tk_stage (tasks x ! i)) inp (ck_elapsed ck) x = Some (out, x1)"
    and y: "tasks y = (tasks x)[i := (tasks x ! i)\<lparr>tk_stage := stage_after out\<rparr>]" "pool y = pool x1"
      "workers y = workers x1"
    using assms(1) by (rule job_step_cases)
  let ?s = "tk_stage (tasks x ! i)"
  have gather: "mset (gathered f y) + mset (f ?s) = mset (gathered f x) + mset (f (stage_after out))" for f
    using gathered_update [OF i, of "\<lambda>t. f (tk_stage t)" "(tasks x ! i)\<lparr>tk_stage := stage_after out\<rparr>"] y(1)
    by (simp add: gathered_def)
  have "mset (free (pool y)) + mset (gathered held_by y) = mset names"
    using multiset_exchange [OF execute_job_resources(1) [OF e] gather] y(2) assms(2)
    by (simp add: resources_inv_def)
  moreover have "mset (worker_of ?s) \<subseteq># mset (workers x)"
    using gathered_nth [OF i, of "\<lambda>t. worker_of (tk_stage t)"] assms(2)
    by (simp add: resources_inv_def gathered_def)
  from execute_job_resources(2) [OF e this] gather [of worker_of] assms(2) y(3)
  have "mset (workers y) + mset (worker_of ?s) = mset (gathered worker_of y) + mset (worker_of ?s)"
    by (simp add: resources_inv_def)
  ultimately show ?thesis by (simp add: resources_inv_def)
qed

text \<open>The handlers of events only add tasks that hold nothing.\<close>

definition quiet :: "executor \<Rightarrow> executor \<Rightarrow> bool" where
  "quiet x y \<longleftrightarrow> pool y = pool x \<and> workers y = workers x \<and> tasks y = tasks x \<and> timers y = timers x
     \<and> sent y = sent x"

lemma observe_block_Some:
  "observe_block l x = Some y \<Longrightarrow> quiet x y \<and> job_requests_running y = job_requests_running x"
  by (auto simp: observe_block_def quiet_def not_less split: if_splits option.splits)

lemma handle_created_cases:
  obtains (ignored) "quiet x (handle_created cfg l now x)"
      "job_requests_running (handle_created cfg l now x) = job_requests_running x"
  | (created) y job ts js where "quiet x y" "job_requests_running y = insert job (job_requests_running x)"
      "handle_created cfg l now x = y\<lparr>timers := timers x @ ts, tasks := tasks x @ js\<rparr>"
      "vindex (el_topics l) 1 = Some job" "length ts \<le> 1" "length js \<le> 1"
      "list_all (\<lambda>t. ti_job t = job \<and> ti_stage t = Sleeping) ts" "list_all (\<lambda>t. tk_job t = job \<and> tk_stage t = Fetching) js"
proof (cases "observe_block l x")
  case None
  then show thesis by (intro ignored) (simp_all add: handle_created_def quiet_def)
next
  case (Some x1)
  note q = observe_block_Some [OF Some]
  show thesis
  proof (cases "vindex (el_topics l) 1 \<noteq> None \<and> vindex (el_topics l) 2 = Some 1 \<and>
      ec_decode_created cfg (el_data l) \<noteq> None")
    case False
    then consider (no_job) "vindex (el_topics l) 1 = None"
      | (no_env) j where "vindex (el_topics l) 1 = Some j" "vindex (el_topics l) 2 = None"
      | (other_env) j e where "vindex (el_topics l) 1 = Some j" "vindex (el_topics l) 2 = Some e" "(e \<noteq> 1) = True"
      | (no_data) j where "vindex (el_topics l) 1 = Some j" "vindex (el_topics l) 2 = Some 1"
          "ec_decode_created cfg (el_data l) = None"
      by blast
    then have "handle_created cfg l now x = x1 \<or> handle_created cfg l now x = x1\<lparr>listening := False\<rparr>"
      by cases (simp_all only: handle_created_def Some option.case if_True if_False simp_thms)
    then have "quiet x (handle_created cfg l now x)
        \<and> job_requests_running (handle_created cfg l now x) = job_requests_running x"
      using q by (elim disjE) (simp_all add: quiet_def)
    then show thesis by (blast intro: ignored)
  next
    case True
    then obtain job ch ci dl sel where t: "vindex (el_topics l) 1 = Some job" "vindex (el_topics l) 2 = Some 1"
        "ec_decode_created cfg (el_data l) = Some (ch, ci, dl, sel)"
      by (auto simp del: vindex_None_iff)
    define ts where "ts = (if unat dl < 2 ^ 64 then [start_timer cfg job (ucast dl) now] else [])"
    define js where "js = (if unat dl < 2 ^ 64 \<and> ec_address cfg \<in> set sel
      then [\<lparr>tk_job = job, tk_deadline = ucast dl, tk_stage = Fetching\<rparr>] else [])"
    let ?y = "x1\<lparr>job_requests_running := insert job (job_requests_running x1)\<rparr>"
    have "handle_created cfg l now x = ?y\<lparr>timers := timers x @ ts, tasks := tasks x @ js\<rparr>"
      using Some t q by (simp add: handle_created_def spawn_timer_def spawn_job_def ts_def js_def Let_def quiet_def)
    then show thesis
      by (rule created [rotated 2]) (use q t in \<open>auto simp: ts_def js_def start_timer_def quiet_def\<close>)
  qed
qed

lemma handle_responded_quiet:
  "quiet x (handle_responded cfg l x) \<and>
    job_requests_running (handle_responded cfg l x) \<subseteq> job_requests_running x"
proof (cases "observe_block l x")
  case None
  then show ?thesis by (simp add: handle_responded_def quiet_def)
next
  case (Some x1)
  from observe_block_Some [OF this] show ?thesis
    using Some by (auto simp: handle_responded_def quiet_def split: option.splits)
qed

lemma handle_deregistered_quiet:
  "quiet x (handle_deregistered l x) \<and> job_requests_running (handle_deregistered l x) = job_requests_running x"
  by (simp add: handle_deregistered_def quiet_def)

lemma handle_registered_quiet:
  "quiet x (handle_registered l b x) \<and> job_requests_running (handle_registered l b x) = job_requests_running x"
  by (simp add: handle_registered_def quiet_def)

text \<open>What a step of a timer does: it moves its stage on; only a sending adds to what is sent, and only the last
  step takes the mark away.\<close>

definition timer_moves :: "nat \<Rightarrow> timer_stage \<Rightarrow> executor \<Rightarrow> executor \<Rightarrow> bool" where
  "timer_moves k s x y \<longleftrightarrow> k < length (timers x) \<and> timers y = (timers x)[k := (timers x ! k)\<lparr>ti_stage := s\<rparr>]
    \<and> pool y = pool x \<and> workers y = workers x \<and> tasks y = tasks x \<and> last_block_seen y = last_block_seen x
    \<and> enclave_registered y = enclave_registered x \<and> listening y = listening x"

lemma timer_moves_set_timer: "k < length (timers x) \<Longrightarrow> timer_moves k s x (set_timer k s x)"
  by (simp add: timer_moves_def set_timer_def)

lemma set_timer_simps [simp]:
  "sent (set_timer k s x) = sent x" "job_requests_running (set_timer k s x) = job_requests_running x"
  by (simp_all add: set_timer_def)

lemma handle_timeout_cases:
  assumes "handle_timeout k now x = Some y"
  obtains s where "timer_moves k s x y" "ti_stage (timers x ! k) = Sleeping" "sent y = sent x"
    "job_requests_running y = job_requests_running x"
    "s = (if ti_job (timers x ! k) \<in> job_requests_running x
          then Sending now else Timer_ended)"
  using assms by (auto simp: handle_timeout_def timer_moves_set_timer split: if_splits)

lemma timeout_sent_cases:
  assumes "timeout_sent k channel_open x = Some y"
  obtains now where "timer_moves k Unmarking x y" "ti_stage (timers x ! k) = Sending now"
    "sent y = sent x @ (if channel_open then [timeout_message (ti_job (timers x ! k)) now] else [])"
    "job_requests_running y = job_requests_running x"
  using assms by (auto simp: timeout_sent_def timer_moves_def set_timer_def split: if_splits timer_stage.splits)

lemma timeout_unmarks_cases:
  assumes "timeout_unmarks k x = Some y"
  shows "timer_moves k Timer_ended x y" and "ti_stage (timers x ! k) = Unmarking" and "sent y = sent x"
    and "job_requests_running y = job_requests_running x - {ti_job (timers x ! k)}"
  using assms by (auto simp: timeout_unmarks_def timer_moves_def set_timer_def split: if_splits)

lemma timer_step_moves:
  "handle_timeout k now x = Some y \<Longrightarrow> \<exists>s. timer_moves k s x y"
  "timeout_sent k ok x = Some y \<Longrightarrow> \<exists>s. timer_moves k s x y"
  "timeout_unmarks k x = Some y \<Longrightarrow> \<exists>s. timer_moves k s x y"
  by (erule handle_timeout_cases, blast) (erule timeout_sent_cases, blast, blast dest: timeout_unmarks_cases(1))

lemma timer_moves_resources: "timer_moves k s x y \<Longrightarrow> resources_inv names x \<Longrightarrow> resources_inv names y"
  by (simp add: resources_inv_def gathered_def timer_moves_def)

lemma quiet_resources: "quiet x y \<Longrightarrow> resources_inv names x \<Longrightarrow> resources_inv names y"
  by (simp add: quiet_def resources_inv_def gathered_def)

lemma executor_step_resources:
  assumes "executor_step cfg x ev = Some y" and inv: "resources_inv names x"
  shows "resources_inv names y"
proof (cases ev)
  case (Registered l b)
  then show ?thesis using assms handle_registered_quiet quiet_resources by (fastforce split: if_splits)
next
  case Relistened
  then show ?thesis using assms by (auto simp: resources_inv_def gathered_def split: if_splits)
next
  case (Created l now)
  have y: "y = handle_created cfg l now x" using assms(1) Created by (simp split: if_splits)
  show ?thesis
  proof (cases rule: handle_created_cases [of x cfg l now])
    case ignored
    then show ?thesis using inv y quiet_resources by blast
  next
    case (created z job ts js)
    have "gathered f y = gathered f x" if "f Fetching = []" for f
      using created(1,3,6,8) y that by (cases js) (auto simp: gathered_def)
    then show ?thesis using created(1,3) y inv by (simp add: resources_inv_def quiet_def)
  qed
next
  case (Responded l)
  then show ?thesis using assms handle_responded_quiet quiet_resources by (fastforce split: if_splits)
next
  case (Deregistered l)
  then show ?thesis using assms handle_deregistered_quiet quiet_resources by (fastforce split: if_splits)
next
  case (Job i inp ck)
  then show ?thesis using assms job_step_resources by auto
next
  case (Timer k now)
  then show ?thesis using assms timer_step_moves(1) timer_moves_resources by fastforce
next
  case (Timer_sent k b)
  then show ?thesis using assms timer_step_moves(2) timer_moves_resources by fastforce
next
  case (Timer_unmarks k)
  then show ?thesis using assms timer_step_moves(3) timer_moves_resources by fastforce
qed

interpretation executor: invariant_system "executor_step cfg" "resources_inv names"
  by unfold_locales (rule executor_step_resources)

section \<open>Messages\<close>

definition outputs :: "u256 \<Rightarrow> executor \<Rightarrow> nat" where
  "outputs j x = length (filter (\<lambda>m. tm_type m = OUTPUT \<and> tm_job m = j) (sent x))"

definition timeouts :: "u256 \<Rightarrow> executor \<Rightarrow> nat" where
  "timeouts j x = length (filter (\<lambda>m. tm_type m = TIMEOUT \<and> tm_job m = j) (sent x))"

definition ended_tasks :: "u256 \<Rightarrow> executor \<Rightarrow> nat" where
  "ended_tasks j x = length (filter (\<lambda>t. tk_job t = j \<and> tk_stage t = Ended) (tasks x))"

text \<open>The timers of a job whose sending is over or was never begun, and those whose sending is under way.\<close>

definition fired_timers :: "u256 \<Rightarrow> executor \<Rightarrow> nat" where
  "fired_timers j x = length (filter (\<lambda>t. ti_job t = j \<and> ti_stage t \<in> {Unmarking, Timer_ended}) (timers x))"

definition is_sending :: "timer_stage \<Rightarrow> bool" where
  "is_sending s = (case s of Sending _ \<Rightarrow> True | _ \<Rightarrow> False)"

definition sending_timers :: "u256 \<Rightarrow> executor \<Rightarrow> nat" where
  "sending_timers j x = length (filter (\<lambda>t. ti_job t = j \<and> is_sending (ti_stage t)) (timers x))"

definition tasks_of :: "u256 \<Rightarrow> executor \<Rightarrow> nat" where
  "tasks_of j x = length (filter (\<lambda>t. tk_job t = j) (tasks x))"

definition timers_of :: "u256 \<Rightarrow> executor \<Rightarrow> nat" where
  "timers_of j x = length (filter (\<lambda>t. ti_job t = j) (timers x))"

text \<open>An event that creates a job.\<close>

definition creates :: "u256 \<Rightarrow> 'j executor_event \<Rightarrow> bool" where
  "creates j ev = (case ev of Created l _ \<Rightarrow> vindex (el_topics l) 1 = Some j | _ \<Rightarrow> False)"

definition creations :: "u256 \<Rightarrow> 'j executor_event list \<Rightarrow> nat" where
  "creations j evs = length (filter (creates j) evs)"

lemmas count_defs = outputs_def timeouts_def ended_tasks_def fired_timers_def sending_timers_def tasks_of_def timers_of_def

lemma filter_update_length:
  assumes "i < length xs"
  shows "length (filter P (xs[i := y])) + (if P (xs ! i) then 1 else 0) = length (filter P xs) + (if P y then 1 else 0)"
  using assms
proof (induction xs arbitrary: i)
  case (Cons a xs)
  then show ?case by (cases i) (auto split: if_splits)
qed simp

lemma execute_job_not_ended: "execute_job cfg d s inp el x = Some r \<Longrightarrow> s \<noteq> Ended"
  by (cases inp) auto

lemma end_messages_once:
  "length (end_messages cfg t out ck) \<le> (if stage_after out = Ended then 1 else 0)
    \<and> (\<forall>m \<in> set (end_messages cfg t out ck). tm_type m = OUTPUT \<and> tm_job m = tk_job t)"
  by (cases out) (auto simp: end_messages_def handle_job_end_def Let_def split: option.splits)

text \<open>A step adds an output only where a task ends, and a timeout only where a timer fires for a job that
  runs; tasks and timers only come from a creation.\<close>

lemma job_step_counts:
  assumes "job_step cfg i inp ck x = Some y"
  shows "outputs j y + ended_tasks j x \<le> outputs j x + ended_tasks j y" and "timeouts j y = timeouts j x"
    and "tasks_of j y = tasks_of j x" and "timers y = timers x"
    and "job_requests_running y = job_requests_running x"
proof -
  obtain out x1 where i: "i < length (tasks x)"
    and e: "execute_job cfg (tk_deadline (tasks x ! i)) (tk_stage (tasks x ! i)) inp (ck_elapsed ck) x = Some (out, x1)"
    and y: "tasks y = (tasks x)[i := (tasks x ! i)\<lparr>tk_stage := stage_after out\<rparr>]"
      "sent y = sent x @ end_messages cfg (tasks x ! i) out ck"
    and same: "timers y = timers x" "job_requests_running y = job_requests_running x"
    using assms by (rule job_step_cases)
  note m = end_messages_once [of cfg "tasks x ! i" out ck]
  have "length (filter (\<lambda>m. tm_type m = OUTPUT \<and> tm_job m = j) (end_messages cfg (tasks x ! i) out ck)) \<le>
      (if tk_job (tasks x ! i) = j \<and> stage_after out = Ended then 1 else 0)"
    using m by (cases "end_messages cfg (tasks x ! i) out ck") (auto split: if_splits)
  moreover have "ended_tasks j y = ended_tasks j x + (if tk_job (tasks x ! i) = j \<and> stage_after out = Ended then 1 else 0)"
    using filter_update_length [OF i, of "\<lambda>t. tk_job t = j \<and> tk_stage t = Ended"
        "(tasks x ! i)\<lparr>tk_stage := stage_after out\<rparr>"] execute_job_not_ended [OF e] y(1)
    by (simp add: ended_tasks_def)
  ultimately show "outputs j y + ended_tasks j x \<le> outputs j x + ended_tasks j y"
    by (simp add: outputs_def y(2))
  have "filter (\<lambda>m. tm_type m = TIMEOUT \<and> tm_job m = j) (end_messages cfg (tasks x ! i) out ck) = []"
    using m by (auto simp: filter_empty_conv)
  then show "timeouts j y = timeouts j x" by (simp add: timeouts_def y(2))
  show "tasks_of j y = tasks_of j x"
    using filter_update_length [OF i, of "\<lambda>t. tk_job t = j" "(tasks x ! i)\<lparr>tk_stage := stage_after out\<rparr>"] y(1)
    by (simp add: tasks_of_def split: if_splits)
  show "timers y = timers x" "job_requests_running y = job_requests_running x" by (rule same)+
qed

text \<open>The messages about a job, the steps its tasks and timers have left, and whether it is marked.\<close>

definition timer_counts :: "u256 \<Rightarrow> executor \<Rightarrow> executor \<Rightarrow> bool" where
  "timer_counts j x y \<longleftrightarrow> outputs j y = outputs j x \<and> ended_tasks j y = ended_tasks j x \<and> tasks_of j y = tasks_of j x
    \<and> timers_of j y = timers_of j x
    \<and> timeouts j x \<le> timeouts j y \<and> timeouts j y + fired_timers j x \<le> timeouts j x + fired_timers j y
    \<and> (j \<notin> job_requests_running x \<longrightarrow> j \<notin> job_requests_running y
        \<and> timeouts j y + sending_timers j y \<le> timeouts j x + sending_timers j x)"

lemma timer_moves_filter:
  assumes "timer_moves k s x y"
  shows "length (filter (\<lambda>t. ti_job t = j \<and> P (ti_stage t)) (timers y))
      + (if ti_job (timers x ! k) = j \<and> P (ti_stage (timers x ! k)) then 1 else 0)
    = length (filter (\<lambda>t. ti_job t = j \<and> P (ti_stage t)) (timers x))
      + (if ti_job (timers x ! k) = j \<and> P s then 1 else 0)"
  using filter_update_length [of k "timers x" "\<lambda>t. ti_job t = j \<and> P (ti_stage t)" "(timers x ! k)\<lparr>ti_stage := s\<rparr>"]
    assms by (simp add: timer_moves_def)

lemma timer_moves_counts:
  assumes "timer_moves k s x y"
  shows "ended_tasks j y = ended_tasks j x" and "tasks_of j y = tasks_of j x" and "timers_of j y = timers_of j x"
    and "fired_timers j y + (if ti_job (timers x ! k) = j \<and> ti_stage (timers x ! k) \<in> {Unmarking, Timer_ended} then 1 else 0)
      = fired_timers j x + (if ti_job (timers x ! k) = j \<and> s \<in> {Unmarking, Timer_ended} then 1 else 0)"
    and "sending_timers j y + (if ti_job (timers x ! k) = j \<and> is_sending (ti_stage (timers x ! k)) then 1 else 0)
      = sending_timers j x + (if ti_job (timers x ! k) = j \<and> is_sending s then 1 else 0)"
proof -
  note f = timer_moves_filter [OF assms, of j]
  show "timers_of j y = timers_of j x" using f [of "\<lambda>_. True"] by (simp add: timers_of_def split: if_splits)
  show "ended_tasks j y = ended_tasks j x" "tasks_of j y = tasks_of j x"
    using assms by (simp_all add: timer_moves_def count_defs)
  show "fired_timers j y + (if ti_job (timers x ! k) = j \<and> ti_stage (timers x ! k) \<in> {Unmarking, Timer_ended} then 1 else 0)
      = fired_timers j x + (if ti_job (timers x ! k) = j \<and> s \<in> {Unmarking, Timer_ended} then 1 else 0)"
    unfolding fired_timers_def by (rule f)
  show "sending_timers j y + (if ti_job (timers x ! k) = j \<and> is_sending (ti_stage (timers x ! k)) then 1 else 0)
      = sending_timers j x + (if ti_job (timers x ! k) = j \<and> is_sending s then 1 else 0)"
    unfolding sending_timers_def by (rule f)
qed

lemma handle_timeout_counts:
  assumes "handle_timeout k now x = Some y"
  shows "timer_counts j x y"
  using assms
proof (rule handle_timeout_cases)
  fix s
  assume m: "timer_moves k s x y" and "ti_stage (timers x ! k) = Sleeping" "sent y = sent x"
    "job_requests_running y = job_requests_running x"
    "s = (if ti_job (timers x ! k) \<in> job_requests_running x then Sending now else Timer_ended)"
  then show ?thesis
    using timer_moves_counts [OF m, of j]
    by (auto simp: timer_counts_def outputs_def timeouts_def is_sending_def split: if_splits)
qed

lemma timeout_sent_counts:
  assumes "timeout_sent k ok x = Some y"
  shows "timer_counts j x y"
  using assms
proof (rule timeout_sent_cases)
  fix now
  assume m: "timer_moves k Unmarking x y" and "ti_stage (timers x ! k) = Sending now"
    "sent y = sent x @ (if ok then [timeout_message (ti_job (timers x ! k)) now] else [])"
    "job_requests_running y = job_requests_running x"
  then show ?thesis
    using timer_moves_counts [OF m, of j]
    by (auto simp: timer_counts_def outputs_def timeouts_def is_sending_def timeout_message_def split: if_splits)
qed

lemma timeout_unmarks_counts:
  assumes "timeout_unmarks k x = Some y"
  shows "timer_counts j x y"
  using timeout_unmarks_cases [OF assms] timer_moves_counts [OF timeout_unmarks_cases(1) [OF assms], of j]
  by (auto simp: timer_counts_def outputs_def timeouts_def is_sending_def split: if_splits)

lemma quiet_counts:
  "quiet x y \<Longrightarrow> outputs j y = outputs j x \<and> timeouts j y = timeouts j x \<and> ended_tasks j y = ended_tasks j x
    \<and> fired_timers j y = fired_timers j x \<and> sending_timers j y = sending_timers j x
    \<and> tasks_of j y = tasks_of j x \<and> timers_of j y = timers_of j x"
  by (simp add: count_defs quiet_def)

lemma list_all_count:
  "list_all P ts \<Longrightarrow> length ts \<le> 1 \<Longrightarrow> length (filter Q ts) \<le> 1 \<and> ((\<forall>t. P t \<longrightarrow> \<not> Q t) \<longrightarrow> filter Q ts = [])"
  by (cases ts) auto

lemma handle_created_counts:
  assumes "y = handle_created cfg l now x"
  shows "outputs j y = outputs j x \<and> timeouts j y = timeouts j x
    \<and> ended_tasks j y = ended_tasks j x \<and> fired_timers j y = fired_timers j x \<and> sending_timers j y = sending_timers j x
    \<and> tasks_of j y \<le> tasks_of j x + (if vindex (el_topics l) 1 = Some j then 1 else 0)
    \<and> timers_of j y \<le> timers_of j x + (if vindex (el_topics l) 1 = Some j then 1 else 0)
    \<and> (vindex (el_topics l) 1 \<noteq> Some j \<and> j \<notin> job_requests_running x \<longrightarrow> j \<notin> job_requests_running y)"
proof (cases rule: handle_created_cases [of x cfg l now])
  case ignored
  from quiet_counts [OF this(1), of j] ignored(2) show ?thesis by (simp add: assms)
next
  case (created z job ts js)
  note t = list_all_count [OF created(7,5)] and s = list_all_count [OF created(8,6)]
  have "filter (\<lambda>t. ti_job t = j \<and> (ti_stage t = Unmarking \<or> ti_stage t = Timer_ended)) ts = []"
      "filter (\<lambda>t. ti_job t = j \<and> is_sending (ti_stage t)) ts = []"
      "filter (\<lambda>t. tk_job t = j \<and> tk_stage t = Ended) js = []"
    using t [of "\<lambda>t. ti_job t = j \<and> (ti_stage t = Unmarking \<or> ti_stage t = Timer_ended)"]
      t [of "\<lambda>t. ti_job t = j \<and> is_sending (ti_stage t)"] s [of "\<lambda>t. tk_job t = j \<and> tk_stage t = Ended"] by (auto simp: is_sending_def)
  moreover have "length (filter (\<lambda>t. ti_job t = j) ts) \<le> (if job = j then 1 else 0)"
      "length (filter (\<lambda>t. tk_job t = j) js) \<le> (if job = j then 1 else 0)"
    using t [of "\<lambda>t. ti_job t = j"] s [of "\<lambda>t. tk_job t = j"] by auto
  ultimately show ?thesis
    using created(2,4) quiet_counts [OF created(1), of j] created(1)
    by (auto simp: assms created(3) count_defs quiet_def simp del: vindex_None_iff)
qed

end
