(* ===== verification/EX_Lifecycle.thy ===== *)
theory EX_Lifecycle
  imports EX_Jobs
begin

text \<open>
  Properties of the serverless executor over runs of \<open>executor_step\<close>: control groups and workers, how a task
  ends, what is sent for a job and how often, and what a signature binds.
\<close>

section \<open>Runs\<close>

definition executor_run :: "'j executor_config \<Rightarrow> executor \<Rightarrow> 'j executor_event list \<Rightarrow> executor option" where
  "executor_run cfg = run_steps (executor_step cfg)"

lemma executor_step_counts:
  assumes "executor_step cfg x ev = Some y"
  shows "outputs j y + ended_tasks j x \<le> outputs j x + ended_tasks j y
    \<and> timeouts j y + fired_timers j x \<le> timeouts j x + fired_timers j y
    \<and> tasks_of j y \<le> tasks_of j x + creations j [ev] \<and> timers_of j y \<le> timers_of j x + creations j [ev]
    \<and> timeouts j x \<le> timeouts j y
    \<and> (\<not> creates j ev \<and> j \<notin> job_requests_running x \<longrightarrow> j \<notin> job_requests_running y
        \<and> timeouts j y + sending_timers j y \<le> timeouts j x + sending_timers j x)"
proof (cases ev)
  case (Registered l b)
  then have "y = handle_registered l b x" using assms by (simp split: if_splits)
  with handle_registered_quiet [of x l b] quiet_counts [of x y j] show ?thesis by auto
next
  case Relistened
  then show ?thesis using assms by (auto simp: count_defs split: if_splits)
next
  case (Created l now)
  then have "y = handle_created cfg l now x" using assms by (simp split: if_splits)
  from handle_created_counts [OF this, of j] Created show ?thesis
    by (simp add: creations_def creates_def split: if_splits)
next
  case (Responded l)
  then have "y = handle_responded cfg l x" using assms by (simp split: if_splits)
  with handle_responded_quiet [of x cfg l] quiet_counts [of x y j] show ?thesis by auto
next
  case (Deregistered l)
  then have "y = handle_deregistered l x" using assms by (simp split: if_splits)
  with handle_deregistered_quiet [of x l] quiet_counts [of x y j] show ?thesis by auto
next
  case (Job i inp ck)
  then have "job_step cfg i inp ck x = Some y" using assms by simp
  from job_step_counts(1-3) [OF this, of j] job_step_counts(4,5) [OF this] show ?thesis by (simp add: count_defs)
next
  case (Timer k now)
  then have "handle_timeout k now x = Some y" using assms by simp
  from handle_timeout_counts [OF this, of j] show ?thesis by (simp add: timer_counts_def)
next
  case (Timer_sent k b)
  then have "timeout_sent k b x = Some y" using assms by simp
  from timeout_sent_counts [OF this, of j] show ?thesis by (simp add: timer_counts_def)
next
  case (Timer_unmarks k)
  then have "timeout_unmarks k x = Some y" using assms by simp
  from timeout_unmarks_counts [OF this, of j] show ?thesis by (simp add: timer_counts_def)
qed

lemma executor_run_counts:
  assumes "executor_run cfg x evs = Some y"
  shows "outputs j y + ended_tasks j x \<le> outputs j x + ended_tasks j y
    \<and> timeouts j y + fired_timers j x \<le> timeouts j x + fired_timers j y
    \<and> tasks_of j y \<le> tasks_of j x + creations j evs \<and> timers_of j y \<le> timers_of j x + creations j evs
    \<and> timeouts j x \<le> timeouts j y
    \<and> (creations j evs = 0 \<and> j \<notin> job_requests_running x \<longrightarrow> j \<notin> job_requests_running y
        \<and> timeouts j y + sending_timers j y \<le> timeouts j x + sending_timers j x)"
  using assms unfolding executor_run_def
proof (induction evs arbitrary: x)
  case Nil
  then show ?case by (simp add: creations_def)
next
  case (Cons ev evs)
  from Cons.prems obtain z where z: "executor_step cfg x ev = Some z"
      and run: "run_steps (executor_step cfg) z evs = Some y"
    by (auto split: option.splits)
  have "creations j (ev # evs) = creations j [ev] + creations j evs" "creates j ev = (creations j [ev] \<noteq> 0)"
    by (simp_all add: creations_def)
  with executor_step_counts [OF z, of j] Cons.IH [OF run] show ?case by auto
qed

lemma length_filter_conj: "length (filter (\<lambda>x. P x \<and> Q x) xs) \<le> length (filter P xs)"
  by (induction xs) auto

lemma ended_le_tasks: "ended_tasks j x \<le> tasks_of j x"
  and fired_le_timers: "fired_timers j x \<le> timers_of j x"
  by (simp_all add: count_defs length_filter_conj)

section \<open>A concrete executor\<close>

text \<open>One control group, the fields of a JSON object as in the theory of the runtime, and a toy library for the
  ABI: hashes are padded or cut to 32 bytes, numbers are in unary; the data of a creation is a byte, the user's
  deadline, and the address 1 is always selected.\<close>

fun token_bytes :: "token \<Rightarrow> bytes" where
  "token_bytes (TString s) = str_bytes s"
| "token_bytes (TFixedBytes b) = b"
| "token_bytes (TBytes b) = b"
| "token_bytes (TUint u) = replicate (unat u) 0 @ [1]"
| "token_bytes (TAddress a) = replicate (unat a) 0 @ [1]"

definition sample_eth :: eth_lib where
  "sample_eth = \<lparr>eth_keccak256 = (\<lambda>b. take 32 (b @ replicate 32 0)), eth_encode = (\<lambda>ts. concat (map token_bytes ts)),
     eth_encode_packed = (\<lambda>ts. Some (concat (map token_bytes ts))), eth_sign = (\<lambda>d. Some (d, 0))\<rparr>"

definition sample_config :: "sample_json executor_config" where
  "sample_config = \<lparr>ec_json = sample_lib, ec_eth = sample_eth, ec_code_contract = ''0xc0de'', ec_buffer_time = 2,
     ec_num_selected = 3, ec_address = 1,
     ec_decode_created = (\<lambda>b. case b of [d] \<Rightarrow> Some ([], [], ucast d, [1]) | _ \<Rightarrow> None),
     ec_decode_responded = (\<lambda>b. case b of [n] \<Rightarrow> Some ([], 0, 0, ucast n) | _ \<Rightarrow> None)\<rparr>"

definition registered_log :: event_log where
  "registered_log = \<lparr>el_removed = Some False, el_block = Some 4, el_topics = [0, 1, 2], el_data = []\<rparr>"

definition created_log :: event_log where
  "created_log = \<lparr>el_removed = Some False, el_block = Some 5, el_topics = [0, 7, 1], el_data = [100]\<rparr>"

definition responded_log :: event_log where
  "responded_log = \<lparr>el_removed = Some False, el_block = Some 5, el_topics = [0, 7], el_data = [3]\<rparr>"

definition sample_clocks :: clocks where
  "sample_clocks = \<lparr>ck_elapsed = 20, ck_unix = 1000, ck_now = 9\<rparr>"

definition sample_events :: "sample_json executor_event list" where
  "sample_events = [Registered registered_log 0, Created created_log 0, Job 0 (Code_fetched (Inr sample_body) True) sample_clocks,
     Job 0 (Config_written True True) sample_clocks, Job 0 (Port_tried [(0, True)] True) sample_clocks]"

definition sample_start :: executor where
  "sample_start = initial_executor [''workerd_7'']"

definition sample_state :: executor where
  "sample_state = \<lparr>pool = \<lparr>free = []\<rparr>, workers = [''workerd_7''],
     tasks = [\<lparr>tk_job = 7, tk_deadline = 100, tk_stage = Requesting ''workerd_7'' 11007\<rparr>],
     timers = [\<lparr>ti_job = 7, ti_due = 3100000000, ti_stage = Sleeping\<rparr>],
     job_requests_running = {7}, enclave_registered = True, last_block_seen = 5, listening = True, sent = []\<rparr>"

definition sample_listening :: executor where
  "sample_listening = sample_start\<lparr>enclave_registered := True, listening := True, last_block_seen := 4\<rparr>"

lemma sample_registered: "handle_registered registered_log 0 sample_start = sample_listening"
  by (simp add: handle_registered_def registered_log_def sample_listening_def)

lemma sample_created:
  "handle_created sample_config created_log 0 sample_listening = sample_listening\<lparr>last_block_seen := 5,
     job_requests_running := {7}, timers := [\<lparr>ti_job = 7, ti_due = 3100000000, ti_stage = Sleeping\<rparr>],
     tasks := [\<lparr>tk_job = 7, tk_deadline = 100, tk_stage = Fetching\<rparr>]\<rparr>"
  by (simp add: handle_created_def created_log_def observe_block_def sample_listening_def sample_start_def initial_executor_def
      vindex_def sample_config_def Let_def spawn_timer_def spawn_job_def start_timer_def duration_from_millis_def)

lemma sample_config_simps [simp]:
  "ec_json sample_config = sample_lib" "ec_code_contract sample_config = ''0xc0de''"
  by (simp_all add: sample_config_def)

lemma sample_run: "executor_run sample_config sample_start sample_events = Some sample_state"
proof -
  have "executor_step sample_config sample_start (Registered registered_log 0) = Some sample_listening"
    by (simp add: sample_registered) (simp add: sample_start_def initial_executor_def)
  moreover have "executor_step sample_config sample_listening (Created created_log 0) =
      Some (sample_listening\<lparr>last_block_seen := 5, job_requests_running := {7},
        timers := [\<lparr>ti_job = 7, ti_due = 3100000000, ti_stage = Sleeping\<rparr>],
        tasks := [\<lparr>tk_job = 7, tk_deadline = 100, tk_stage = Fetching\<rparr>]\<rparr>)"
    by (simp add: sample_created) (simp add: sample_listening_def)
  ultimately show ?thesis
    by (simp add: executor_run_def sample_events_def del: executor_step.simps(1-5))
      (simp add: job_step_def sample_listening_def sample_start_def
        initial_executor_def sample_state_def sample_code sample_port reserve_def Let_def duration_from_secs_def)
qed

section \<open>Properties\<close>

text \<open>C12: Control groups are neither lost nor shared. In every state the executor reaches from a start with
  distinct control groups, the free ones and the ones held by tasks are exactly those it started with; no two
  tasks hold the same, none that is held is free, and so there are never more running workers than groups; the
  workers that run are the ones of tasks past the configuration; and when all tasks have ended, whether by an
  answer, an error, a panic or the user's deadline, every group is free and no worker is left.\<close>

theorem cgroups_conserved:
  assumes "distinct names" and "executor_run cfg (initial_executor names) evs = Some x"
  shows "mset (free (pool x)) + mset (gathered held_by x) = mset names
    \<and> distinct (gathered held_by x) \<and> set (gathered held_by x) \<inter> set (free (pool x)) = {}
    \<and> length (gathered held_by x) \<le> length names \<and> mset (workers x) = mset (gathered worker_of x)
    \<and> ((\<forall>t \<in> set (tasks x). tk_stage t = Ended) \<longrightarrow> mset (free (pool x)) = mset names \<and> workers x = [])"
proof -
  have "resources_inv names (initial_executor names)"
    by (simp add: resources_inv_def initial_executor_def gathered_def)
  then have inv: "resources_inv names x"
    using executor.run_inv assms(2) by (simp add: executor_run_def)
  then have sum: "mset (free (pool x)) + mset (gathered held_by x) = mset names"
    and w: "mset (workers x) = mset (gathered worker_of x)" by (simp_all add: resources_inv_def)
  have "gathered f x = []" if "\<forall>t \<in> set (tasks x). tk_stage t = Ended" "f Ended = []" for f
    using that by (auto simp: gathered_def)
  from this [of held_by] this [of worker_of] show ?thesis
    using cg.held_distinct [OF sum assms(1)] cg.capacity [OF sum] sum w by auto
qed

theorem cgroups_conserved_witness:
  "mset (free (pool sample_state)) + mset (gathered held_by sample_state) = mset [''workerd_7'']"
  using cgroups_conserved [OF _ sample_run [unfolded sample_start_def]] by simp

section \<open>How a task ends\<close>

fun stage_rank :: "stage \<Rightarrow> nat" where
  "stage_rank Fetching = 4"
| "stage_rank (Configuring _ _) = 3"
| "stage_rank (Waiting _ _) = 2"
| "stage_rank (Reading _ _) = 1"
| "stage_rank (Requesting _ _) = 1"
| "stage_rank Ended = 0"

fun job_steps :: "nat \<Rightarrow> 'j executor_event list \<Rightarrow> nat" where
  "job_steps i [] = 0"
| "job_steps i (Job k _ _ # evs) = (if k = i then 1 else 0) + job_steps i evs"
| "job_steps i (_ # evs) = job_steps i evs"

definition stage_at :: "nat \<Rightarrow> executor \<Rightarrow> stage" where
  "stage_at i x = tk_stage (tasks x ! i)"

lemma execute_job_rank:
  "execute_job cfg d s inp el x = Some (out, y) \<Longrightarrow> stage_rank (stage_after out) < stage_rank s"
  by (cases "(cfg, d, s, inp, el, x)" rule: execute_job.cases)
    (auto simp: Let_def split: option.splits sum.splits if_splits bool.splits stage.splits)

lemma executor_step_stage:
  assumes "executor_step cfg x ev = Some y" and i: "i < length (tasks x)"
  shows "i < length (tasks y) \<and> stage_rank (stage_at i y) + job_steps i [ev] \<le> stage_rank (stage_at i x)"
proof (cases ev)
  case (Registered l b)
  then show ?thesis using assms handle_registered_quiet [of x l b]
    by (auto simp: quiet_def stage_at_def split: if_splits)
next
  case Relistened
  then show ?thesis using assms by (auto simp: stage_at_def split: if_splits)
next
  case (Created l now)
  then have y: "y = handle_created cfg l now x" using assms by (simp split: if_splits)
  show ?thesis
  proof (cases rule: handle_created_cases [of x cfg l now])
    case ignored
    then show ?thesis using Created y i by (simp add: quiet_def stage_at_def)
  next
    case (created z job ts js)
    then have "tasks y = tasks x @ js" using y by simp
    then show ?thesis using Created i by (simp add: stage_at_def nth_append)
  qed
next
  case (Responded l)
  then show ?thesis using assms handle_responded_quiet [of x cfg l]
    by (auto simp: quiet_def stage_at_def split: if_splits)
next
  case (Deregistered l)
  then show ?thesis using assms handle_deregistered_quiet [of x l]
    by (auto simp: quiet_def stage_at_def split: if_splits)
next
  case (Job k inp ck)
  then have "job_step cfg k inp ck x = Some y" using assms by simp
  then obtain out x1 where k: "k < length (tasks x)"
    and e: "execute_job cfg (tk_deadline (tasks x ! k)) (tk_stage (tasks x ! k)) inp (ck_elapsed ck) x = Some (out, x1)"
    and y: "tasks y = (tasks x)[k := (tasks x ! k)\<lparr>tk_stage := stage_after out\<rparr>]"
    by (rule job_step_cases)
  show ?thesis using execute_job_rank [OF e] i k y Job by (cases "k = i") (simp_all add: stage_at_def)
next
  case (Timer k now)
  then show ?thesis using assms timer_step_moves(1) by (fastforce simp: stage_at_def timer_moves_def)
next
  case (Timer_sent k b)
  then show ?thesis using assms timer_step_moves(2) by (fastforce simp: stage_at_def timer_moves_def)
next
  case (Timer_unmarks k)
  then show ?thesis using assms timer_step_moves(3) by (fastforce simp: stage_at_def timer_moves_def)
qed

lemma executor_run_stage:
  assumes "executor_run cfg x evs = Some y" and "i < length (tasks x)"
  shows "i < length (tasks y) \<and> stage_rank (stage_at i y) + job_steps i evs \<le> stage_rank (stage_at i x)"
  using assms unfolding executor_run_def
proof (induction evs arbitrary: x)
  case (Cons ev evs)
  from Cons.prems obtain z where z: "executor_step cfg x ev = Some z"
      and run: "run_steps (executor_step cfg) z evs = Some y"
    by (auto split: option.splits)
  have "job_steps i (ev # evs) = job_steps i [ev] + job_steps i evs" by (cases ev) simp_all
  with executor_step_stage [OF z Cons.prems(2)] Cons.IH [OF run] show ?case by auto
qed simp

text \<open>What the deadline does.\<close>

definition timed_out :: "'j executor_config \<Rightarrow> task \<Rightarrow> clocks \<Rightarrow> txn_metadata list" where
  "timed_out cfg t ck = end_messages cfg t (Finished (Some (new_output [] 4 (ucast (tk_deadline t))))) ck"

lemma deadline_step:
  assumes "i < length (tasks x)" and "stage_at i x \<noteq> Ended" and "\<forall>g p. stage_at i x \<noteq> Reading g p"
  shows "\<exists>y. job_step cfg i Deadline_passed ck x = Some y \<and> stage_at i y = Ended
    \<and> sent y = sent x @ timed_out cfg (tasks x ! i) ck"
proof -
  let ?t = "tasks x ! i"
  let ?out = "Finished (Some (new_output [] 4 (ucast (tk_deadline ?t))))"
  have "execute_job cfg (tk_deadline ?t) (tk_stage ?t) Deadline_passed (ck_elapsed ck) x =
      Some (?out, drop_guards (tk_stage ?t) x)"
    using assms(2,3) by (cases "tk_stage ?t") (auto simp: stage_at_def)
  moreover have "tasks (drop_guards s x) = tasks x" "sent (drop_guards s x) = sent x" for s
    by (cases s; simp)+
  ultimately show ?thesis
    using assms(1) by (simp add: job_step_def Let_def stage_at_def timed_out_def end_messages_def)
qed

text \<open>C27: A task ends. In any run it has at most four steps, and the user's deadline ends it in every stage but
  one, with error code 4 and the deadline as the total time. The exception is the reading of the standard error
  of a worker that did not open its port: the only step there is the end of the standard error, which is up to
  the worker; neither the deadline nor anything else can end the task or kill the worker before.\<close>

theorem job_ends:
  assumes "executor_run cfg x evs = Some y" and "i < length (tasks x)"
  shows "job_steps i evs \<le> 4
    \<and> (stage_at i y \<noteq> Ended \<and> (\<forall>g p. stage_at i y \<noteq> Reading g p) \<longrightarrow>
        (\<exists>z. executor_step cfg y (Job i Deadline_passed ck) = Some z \<and> stage_at i z = Ended
          \<and> sent z = sent y @ timed_out cfg (tasks y ! i) ck))
    \<and> (stage_at i y = Reading g p \<and> job_step cfg i inp ck y \<noteq> None \<longrightarrow> (\<exists>lines. inp = Stderr_read lines))"
proof -
  note run = executor_run_stage [OF assms]
  have "stage_rank s \<le> 4" for s by (cases s) simp_all
  then have "job_steps i evs \<le> 4" using run by (meson add_leD2 le_trans)
  moreover have "\<exists>lines. inp = Stderr_read lines" if "stage_at i y = Reading g p" "job_step cfg i inp ck y \<noteq> None"
    using that by (cases inp) (auto simp: job_step_def Let_def stage_at_def split: if_splits)
  ultimately show ?thesis using deadline_step [of i y cfg ck] run by simp
qed

theorem job_ends_witness:
  "\<exists>z. executor_step sample_config sample_state (Job 0 Deadline_passed sample_clocks) = Some z
    \<and> stage_at 0 z = Ended"
proof -
  have ran: "executor_run sample_config sample_state [] = Some sample_state" by (simp add: executor_run_def)
  have "0 < length (tasks sample_state)" "stage_at 0 sample_state \<noteq> Ended"
      "\<forall>g p. stage_at 0 sample_state \<noteq> Reading g p"
    by (simp_all add: sample_state_def stage_at_def)
  with job_ends [OF ran, of 0 sample_clocks] show ?thesis by blast
qed

text \<open>C26: For every job, whatever the interleaving of events, the executor sends at most one response and at
  most one timeout for each \<open>JobCreated\<close> log delivered to it: tasks and timers come only from such logs, and
  each sends at most once.\<close>

theorem sent_at_most_once:
  assumes "executor_run cfg (initial_executor names) evs = Some x"
  shows "outputs j x \<le> creations j evs \<and> timeouts j x \<le> creations j evs"
  using executor_run_counts [OF assms, of j] ended_le_tasks [of j x] fired_le_timers [of j x]
  by (auto simp: initial_executor_def count_defs)

theorem sent_at_most_once_witness:
  "outputs 7 sample_state \<le> 1 \<and> timeouts 7 sample_state \<le> 1"
  using sent_at_most_once [OF sample_run [unfolded sample_start_def], of 7]
  by (simp add: creations_def creates_def sample_events_def created_log_def vindex_def)

text \<open>C10: What still slashes a job that is no longer marked as running, because enough executors responded or its
  timeout was sent: exactly the timers that had already looked at the mark and were waiting to send. As long as
  no \<open>JobCreated\<close> log for it is delivered again, the mark stays away and the timeouts sent for the job are at most
  as many as sendings were under way (none if there was none), however many other timers are pending and however
  the events interleave; and each sending under way does send its timeout when the channel takes it, although
  the job is done, since the mark is not looked at again.\<close>

theorem completed_job_timeouts:
  assumes "executor_run cfg x evs = Some y" and "j \<notin> job_requests_running x" and "creations j evs = 0"
  shows "j \<notin> job_requests_running y \<and> timeouts j x \<le> timeouts j y
    \<and> timeouts j y + sending_timers j y \<le> timeouts j x + sending_timers j x
    \<and> (\<forall>k t. k < length (timers y) \<and> ti_job (timers y ! k) = j \<and> ti_stage (timers y ! k) = Sending t \<longrightarrow>
        (\<exists>z. executor_step cfg y (Timer_sent k True) = Some z \<and> timeouts j z = timeouts j y + 1))"
proof -
  have "\<exists>z. executor_step cfg y (Timer_sent k True) = Some z \<and> timeouts j z = timeouts j y + 1"
    if "k < length (timers y)" "ti_job (timers y ! k) = j" "ti_stage (timers y ! k) = Sending t" for k t
    using that by (simp add: timeout_sent_def timeouts_def timeout_message_def)
  with executor_run_counts [OF assms(1), of j] assms(2,3) show ?thesis by blast
qed

text \<open>The trace of the flaw: the timer of a running job looks at the mark, then enough executors respond and the
  job is unmarked, and then the timeout is sent.\<close>

definition overtaken :: executor where
  "overtaken = sample_state\<lparr>timers := [\<lparr>ti_job = 7, ti_due = 3100000000, ti_stage = Sending 3100000000\<rparr>],
     job_requests_running := {}\<rparr>"

lemma timeout_overtakes_response:
  "executor_run sample_config sample_state [Timer 0 3100000000, Responded responded_log] = Some overtaken"
  by (simp add: executor_run_def handle_timeout_def sample_state_def set_timer_def handle_responded_def
      observe_block_def responded_log_def vindex_def sample_config_def overtaken_def)

theorem completed_job_timeouts_witness:
  "\<exists>z. executor_run sample_config overtaken [Timer_sent 0 True] = Some z \<and> timeouts 7 z = 1 \<and> sending_timers 7 z = 0"
proof -
  have "executor_run sample_config overtaken [] = Some overtaken" by (simp add: executor_run_def)
  from completed_job_timeouts [OF this, of 7] obtain z where
    z: "executor_step sample_config overtaken (Timer_sent 0 True) = Some z" "timeouts 7 z = timeouts 7 overtaken + 1"
    by (auto simp: overtaken_def creations_def)
  then have run: "executor_run sample_config overtaken [Timer_sent 0 True] = Some z" by (simp add: executor_run_def)
  moreover have "creations 7 [Timer_sent 0 True] = 0" by (simp add: creations_def creates_def)
  ultimately have "timeouts 7 z + sending_timers 7 z \<le> timeouts 7 overtaken + sending_timers 7 overtaken"
    using completed_job_timeouts [OF run, of 7] by (simp add: overtaken_def creations_def creates_def)
  moreover have "timeouts 7 overtaken = 0" "sending_timers 7 overtaken = 1"
    by (simp_all add: timeouts_def sending_timers_def overtaken_def sample_state_def is_sending_def)
  ultimately show ?thesis using z(2) run by auto
qed

section \<open>Redelivery\<close>

text \<open>The logs are subscribed to from the last block seen, so after a reconnection the logs of that block are
  delivered again. \<open>fresh_job\<close> is a log of a job for this executor.\<close>

definition fresh_job :: "'j executor_config \<Rightarrow> event_log \<Rightarrow> u64 \<Rightarrow> u256 \<Rightarrow> u256 \<Rightarrow> bool" where
  "fresh_job cfg l b job dl \<longleftrightarrow> el_removed l = Some False \<and> el_block l = Some b
     \<and> vindex (el_topics l) 1 = Some job \<and> vindex (el_topics l) 2 = Some 1 \<and> unat dl < 2 ^ 64
     \<and> (\<exists>h inputs sel. ec_decode_created cfg (el_data l) = Some (h, inputs, dl, sel) \<and> ec_address cfg \<in> set sel)"

lemma fresh_job_created:
  assumes "fresh_job cfg l b job dl" and "last_block_seen x \<le> b"
  shows "handle_created cfg l now x = x\<lparr>last_block_seen := b,
    job_requests_running := insert job (job_requests_running x), timers := timers x @ [start_timer cfg job (ucast dl) now],
    tasks := tasks x @ [\<lparr>tk_job = job, tk_deadline = ucast dl, tk_stage = Fetching\<rparr>]\<rparr>"
  using assms
  by (auto simp: fresh_job_def handle_created_def observe_block_def spawn_timer_def spawn_job_def Let_def not_less
      simp del: vindex_None_iff)

text \<open>The executor does not recognise a \<open>JobCreated\<close> log it has already handled when it is delivered again
  from the last block seen, as after every reconnection: even after the job was executed and enough executors
  responded, the job is marked as running again, with a second timer and a second task that executes it from the
  start.\<close>

lemma redelivered_job_runs_again:
  assumes "fresh_job cfg l b job dl" and "last_block_seen x \<le> b" and "el_removed r = Some False"
    and "el_block r = Some b" and "vindex (el_topics r) 1 = Some job"
    and "ec_decode_responded cfg (el_data r) = Some (p, q, c, ucast (ec_num_selected cfg))"
    and "listening x" and "evs = [Created l t, Responded r, Created l u]"
  shows "\<exists>y. executor_run cfg x evs = Some y \<and> job \<in> job_requests_running y
    \<and> tasks y = tasks x @ replicate 2 \<lparr>tk_job = job, tk_deadline = ucast dl, tk_stage = Fetching\<rparr>
    \<and> timers_of job y = timers_of job x + 2"
proof -
  define y where "y = handle_created cfg l t x"
  define z where "z = handle_responded cfg r y"
  define w where "w = handle_created cfg l u z"
  note y = fresh_job_created [OF assms(1,2), of t, folded y_def]
  have z: "z = y\<lparr>job_requests_running := job_requests_running y - {job}\<rparr>"
    using assms(3-6) y by (simp add: z_def handle_responded_def observe_block_def del: vindex_None_iff)
  have "last_block_seen z \<le> b" using y z by simp
  note w = fresh_job_created [OF assms(1) this, of u, folded w_def]
  have "listening y" "listening z" using assms(7) y z by simp_all
  then have "executor_run cfg x evs = Some w"
    using assms(7) by (simp add: executor_run_def assms(8) flip: y_def z_def w_def)
  then show ?thesis by (simp add: w z y timers_of_def start_timer_def numeral_2_eq_2)
qed

lemma redelivered_job_runs_again_witness:
  "\<exists>y. executor_run sample_config sample_listening [Created created_log 0, Responded responded_log, Created created_log 4]
      = Some y \<and> timers_of 7 y = 2"
proof -
  have "fresh_job sample_config created_log 5 7 100"
    by (simp add: fresh_job_def created_log_def sample_config_def vindex_def)
  moreover have "ec_decode_responded sample_config (el_data responded_log) =
      Some ([], 0, 0, ucast (ec_num_selected sample_config))"
    by (simp add: sample_config_def responded_log_def)
  ultimately have "\<exists>y. executor_run sample_config sample_listening
      [Created created_log 0, Responded responded_log, Created created_log 4] = Some y \<and>
      7 \<in> job_requests_running y \<and> tasks y = tasks sample_listening @
        replicate 2 \<lparr>tk_job = 7, tk_deadline = ucast (100 :: u256), tk_stage = Fetching\<rparr> \<and>
      timers_of 7 y = timers_of 7 sample_listening + 2"
    by (intro redelivered_job_runs_again [where r = responded_log and b = 5])
      (auto simp: sample_listening_def sample_start_def initial_executor_def responded_log_def vindex_def)
  then show ?thesis by (auto simp: timers_of_def sample_listening_def sample_start_def initial_executor_def)
qed

section \<open>Signatures\<close>

text \<open>What is known of the ABI: the encoding of values of given static types determines them, and the packed
  encoding of a prefix of two characters and two hashes determines the hashes.\<close>

definition token_type :: "token \<Rightarrow> nat" where
  "token_type t = (case t of TString _ \<Rightarrow> 0 | TFixedBytes b \<Rightarrow> 5 + length b | TBytes _ \<Rightarrow> 2 | TUint _ \<Rightarrow> 3
     | TAddress _ \<Rightarrow> 4)"

definition static_token :: "token \<Rightarrow> bool" where
  "static_token t = (case t of TString _ \<Rightarrow> False | TBytes _ \<Rightarrow> False | _ \<Rightarrow> True)"

definition abi_decodable :: "eth_lib \<Rightarrow> bool" where
  "abi_decodable lib \<longleftrightarrow> (\<forall>ts us. list_all static_token ts \<and> map token_type ts = map token_type us \<and> eth_encode lib ts = eth_encode lib us \<longrightarrow> ts = us)
     \<and> (\<forall>b. length (eth_keccak256 lib b) = 32)
     \<and> (\<forall>a b c d e. length a = 32 \<and> length b = 32 \<and> length c = 32 \<and> length d = 32 \<and>
          eth_encode_packed lib (packed_digest a b) = Some e \<and> eth_encode_packed lib (packed_digest c d) = Some e \<longrightarrow>
          a = c \<and> b = d)"

definition collide :: "eth_lib \<Rightarrow> bytes \<Rightarrow> bytes \<Rightarrow> bool" where
  "collide lib x y \<longleftrightarrow> x \<noteq> y \<and> eth_keccak256 lib x = eth_keccak256 lib y"

text \<open>The digest that is hashed and signed for a response, and the encoding inside it.\<close>

definition response_tokens :: "eth_lib \<Rightarrow> u256 \<Rightarrow> bytes \<Rightarrow> u128 \<Rightarrow> u8 \<Rightarrow> u256 \<Rightarrow> token list" where
  "response_tokens lib job out time code ts = [TFixedBytes (keccak_str lib
       ''SubmitOutput(uint256 jobId,bytes output,uint256 totalTime,uint8 errorCode,uint256 signTimestamp)''),
     TUint job, TFixedBytes (eth_keccak256 lib out), TUint (ucast time), TUint (ucast code), TUint ts]"

definition response_domain :: "eth_lib \<Rightarrow> token list" where
  "response_domain lib = map (TFixedBytes \<circ> keccak_str lib)
     [''EIP712Domain(string name,string version)'', ''marlin.oyster.Jobs'', ''1'']"

definition response_digest :: "eth_lib \<Rightarrow> u256 \<Rightarrow> bytes \<Rightarrow> u128 \<Rightarrow> u8 \<Rightarrow> u256 \<Rightarrow> bytes option" where
  "response_digest lib job out time code ts = eth_encode_packed lib
     [TString [CHR 0x19, CHR 0x01], TFixedBytes (eth_keccak256 lib (eth_encode lib (response_domain lib))),
      TFixedBytes (eth_keccak256 lib (eth_encode lib (response_tokens lib job out time code ts)))]"

lemma response_digest_packed: "response_digest lib job out time code ts = eth_encode_packed lib (packed_digest
    (eth_keccak256 lib (eth_encode lib (response_domain lib)))
    (eth_keccak256 lib (eth_encode lib (response_tokens lib job out time code ts))))"
  by (simp add: response_digest_def packed_digest_def)

text \<open>What the code signs is the digest of EIP-712.\<close>

lemma sign_response_digest:
  "sign_response lib job out time code ts = Some sig \<longleftrightarrow>
    (\<exists>d rs v. response_digest lib job out time code ts = Some d
      \<and> eth_sign lib (eth_keccak256 lib d) = Some (rs, v) \<and> sig = rs @ [27 + v])"
  by (auto simp: sign_response_def sign_digest_def packed_digest_def domain_separator_def response_struct_def
      response_digest_def response_domain_def response_tokens_def split: option.splits)

lemma ucast_128_256_inj: "ucast (a :: u128) = (ucast b :: u256) \<Longrightarrow> a = b"
proof -
  have "(ucast (ucast c :: u256) :: u128) = c" for c :: u128
    by (rule bit_word_eqI) (simp add: bit_simps)
  then show "ucast a = (ucast b :: u256) \<Longrightarrow> a = b" by metis
qed

lemma ucast_8_256_inj: "ucast (a :: u8) = (ucast b :: u256) \<Longrightarrow> a = b"
proof -
  have "(ucast (ucast c :: u256) :: u8) = c" for c :: u8
    by (rule bit_word_eqI) (simp add: bit_simps)
  then show "ucast a = (ucast b :: u256) \<Longrightarrow> a = b" by metis
qed

lemma abi_decodableD:
  assumes "abi_decodable lib"
  shows "list_all static_token ts \<Longrightarrow> map token_type ts = map token_type us \<Longrightarrow>
      eth_encode lib ts = eth_encode lib us \<Longrightarrow> ts = us"
    and "length (eth_keccak256 lib b) = 32"
    and "length p = 32 \<Longrightarrow> length q = 32 \<Longrightarrow> length v = 32 \<Longrightarrow> length w = 32 \<Longrightarrow>
      eth_encode_packed lib (packed_digest p q) = Some e \<Longrightarrow>
      eth_encode_packed lib (packed_digest v w) = Some e \<Longrightarrow> q = w"
  using assms unfolding abi_decodable_def by blast+

text \<open>A signature of the enclave binds every field of the response: if the digests of two responses have the
  same hash, then the responses agree in the job, the output, the total time, the error code and the time stamp,
  or one of three explicit pairs of byte strings is a collision of the hash.\<close>

lemma signature_binds:
  assumes "abi_decodable lib" and "response_digest lib job out time code ts = Some d"
    and "response_digest lib job' out' time' code' ts' = Some d'" and "eth_keccak256 lib d = eth_keccak256 lib d'"
  shows "(job, out, time, code, ts) = (job', out', time', code', ts') \<or> collide lib d d'
    \<or> collide lib (eth_encode lib (response_tokens lib job out time code ts))
        (eth_encode lib (response_tokens lib job' out' time' code' ts'))
    \<or> collide lib out out'"
proof (cases "collide lib d d' \<or> collide lib (eth_encode lib (response_tokens lib job out time code ts))
        (eth_encode lib (response_tokens lib job' out' time' code' ts')) \<or> collide lib out out'")
  case False
  then have "d = d'" using assms(4) by (auto simp: collide_def)
  note len = abi_decodableD(2) [OF assms(1)]
  from \<open>d = d'\<close>
  have "eth_keccak256 lib (eth_encode lib (response_tokens lib job out time code ts)) =
      eth_keccak256 lib (eth_encode lib (response_tokens lib job' out' time' code' ts'))"
    using assms(2,3) unfolding response_digest_packed
    by (intro abi_decodableD(3) [OF assms(1) len len len len]) simp_all
  then have "eth_encode lib (response_tokens lib job out time code ts) =
      eth_encode lib (response_tokens lib job' out' time' code' ts')"
    using False by (auto simp: collide_def)
  moreover have "map token_type (response_tokens lib job out time code ts) =
      map token_type (response_tokens lib job' out' time' code' ts')"
    by (simp add: response_tokens_def token_type_def abi_decodableD(2) [OF assms(1)])
  moreover have "list_all static_token (response_tokens lib job out time code ts)"
    by (simp add: response_tokens_def static_token_def)
  ultimately have "response_tokens lib job out time code ts = response_tokens lib job' out' time' code' ts'"
    by (intro abi_decodableD(1) [OF assms(1)])
  then have "job = job'" "eth_keccak256 lib out = eth_keccak256 lib out'" "ts = ts'"
      "(ucast time :: u256) = ucast time'" "(ucast code :: u256) = ucast code'"
    by (simp_all add: response_tokens_def)
  with False ucast_128_256_inj ucast_8_256_inj show ?thesis by (auto simp: collide_def)
qed simp

lemma unary_prefix_free:
  "replicate m (0 :: u8) @ 1 # r = replicate n 0 @ 1 # s \<longleftrightarrow> m = n \<and> r = s"
proof (induction m arbitrary: n)
  case 0
  then show ?case by (cases n) auto
next
  case (Suc m)
  then show ?case by (cases n) auto
qed

lemma token_bytes_prefix_free:
  "static_token t \<Longrightarrow> token_type t = token_type u \<Longrightarrow> token_bytes t @ r = token_bytes u @ s \<Longrightarrow> t = u \<and> r = s"
  by (cases t; cases u) (auto simp: static_token_def token_type_def unary_prefix_free word_unat_eq_iff)

lemma sample_decodable: "abi_decodable sample_eth"
proof -
  have "ts = us" if "list_all static_token ts" "map token_type ts = map token_type us"
      "concat (map token_bytes ts) = concat (map token_bytes us)" for ts us
    using that
  proof (induction ts arbitrary: us)
    case (Cons t ts)
    then obtain u us' where "us = u # us'" by (cases us) auto
    with Cons token_bytes_prefix_free [of t u] show ?case by auto
  qed simp
  then show ?thesis by (auto simp: abi_decodable_def sample_eth_def packed_digest_def min_def)
qed

text \<open>A response is signed when its signature is that of the EIP-712 digest of its fields.\<close>

definition signed_response :: "eth_lib \<Rightarrow> txn_metadata \<Rightarrow> bool" where
  "signed_response lib m \<longleftrightarrow>
     (\<exists>out d rs v. tm_output m = Some out \<and> jo_error_code out \<le> 4
        \<and> response_digest lib (tm_job m) (jo_output out) (jo_total_time out) (jo_error_code out)
            (jo_sign_timestamp out) = Some d
        \<and> eth_sign lib (eth_keccak256 lib d) = Some (rs, v) \<and> jo_signature out = rs @ [27 + v])"

definition all_signed :: "eth_lib \<Rightarrow> executor \<Rightarrow> bool" where
  "all_signed lib x \<longleftrightarrow> (\<forall>m \<in> set (sent x). tm_type m = OUTPUT \<longrightarrow> signed_response lib m)"

lemma execute_job_code:
  "execute_job cfg d s inp el x = Some (Finished (Some out), y) \<Longrightarrow> jo_error_code out \<le> 4"
  by (cases "(cfg, d, s, inp, el, x)" rule: execute_job.cases)
    (auto simp: Let_def code_error_output_def syntax_error_output_def new_output_def
      split: option.splits sum.splits if_splits bool.splits stage.splits serverless_error.splits)

lemma executor_step_signed:
  assumes "executor_step cfg x ev = Some y" and "all_signed (ec_eth cfg) x"
  shows "all_signed (ec_eth cfg) y"
proof -
  have quiet: "all_signed (ec_eth cfg) y" if "sent y = sent x" using that assms(2) by (simp add: all_signed_def)
  show ?thesis
  proof (cases ev)
    case (Registered l b)
    then show ?thesis using assms handle_registered_quiet [of x l b] quiet by (auto simp: quiet_def split: if_splits)
  next
    case Relistened
    then show ?thesis using assms quiet by (auto split: if_splits)
  next
    case (Created l now)
    then have "y = handle_created cfg l now x" using assms by (simp split: if_splits)
    moreover have "sent (handle_created cfg l now x) = sent x"
      by (cases rule: handle_created_cases [of x cfg l now]) (simp_all add: quiet_def)
    ultimately show ?thesis using quiet by simp
  next
    case (Responded l)
    then show ?thesis using assms handle_responded_quiet [of x cfg l] quiet by (auto simp: quiet_def split: if_splits)
  next
    case (Deregistered l)
    then show ?thesis using assms handle_deregistered_quiet [of x l] quiet by (auto simp: quiet_def split: if_splits)
  next
    case (Job i inp ck)
    then have "job_step cfg i inp ck x = Some y" using assms by simp
    then obtain out x1 where
      e: "execute_job cfg (tk_deadline (tasks x ! i)) (tk_stage (tasks x ! i)) inp (ck_elapsed ck) x = Some (out, x1)"
      and y: "sent y = sent x @ end_messages cfg (tasks x ! i) out ck"
      by (rule job_step_cases)
    have "signed_response (ec_eth cfg) m" if "m \<in> set (end_messages cfg (tasks x ! i) out ck)" for m
    proof -
      from that obtain r where "out = Finished (Some r)"
        by (auto simp: end_messages_def handle_job_end_def split: outcome.splits option.splits)
      with e that execute_job_code show ?thesis
        by (auto simp: end_messages_def handle_job_end_def Let_def signed_response_def sign_response_digest
          split: option.splits)
    qed
    then show ?thesis using y assms(2) by (auto simp: all_signed_def)
  next
    case (Timer k now)
    then have "handle_timeout k now x = Some y" using assms by simp
    then show ?thesis by (rule handle_timeout_cases) (rule quiet)
  next
    case (Timer_sent k b)
    then have "timeout_sent k b x = Some y" using assms by simp
    then show ?thesis
      by (rule timeout_sent_cases) (use assms(2) in \<open>auto simp: all_signed_def timeout_message_def split: if_splits\<close>)
  next
    case (Timer_unmarks k)
    then have "timeout_unmarks k x = Some y" using assms by simp
    from timeout_unmarks_cases(3) [OF this] show ?thesis by (rule quiet)
  qed
qed

interpretation signed: invariant_system "executor_step cfg" "all_signed (ec_eth cfg)"
  by unfold_locales (rule executor_step_signed)

text \<open>C28: Every response the executor ever sends carries an error code from 0 to 4 and a signature of the enclave
  that binds all it says. What is signed is the hash of the EIP-712 digest, in the domain of the Jobs contract,
  of the job, the hash of the output, the total time, the error code and the time stamp of that very response;
  and any other five values with a digest of the same hash, which the signature would also fit, are the same
  five values, or show one of three explicit pairs of byte strings to collide under the hash. Of the ABI it is
  assumed that encodings of static types and the packed prefix with two hashes are injective and that a hash
  has 32 bytes.\<close>

theorem responses_signed:
  assumes "executor_run cfg (initial_executor names) evs = Some x" and "m \<in> set (sent x)" and "tm_type m = OUTPUT"
    and "lib = ec_eth cfg" and "abi_decodable lib"
  shows "\<exists>out d rs v. tm_output m = Some out \<and> jo_error_code out \<le> 4
    \<and> response_digest lib (tm_job m) (jo_output out) (jo_total_time out) (jo_error_code out)
        (jo_sign_timestamp out) = Some d
    \<and> eth_sign lib (eth_keccak256 lib d) = Some (rs, v) \<and> jo_signature out = rs @ [27 + v]
    \<and> (\<forall>job o' time code ts d'. response_digest lib job o' time code ts = Some d' \<and>
         eth_keccak256 lib d' = eth_keccak256 lib d \<longrightarrow>
         (job, o', time, code, ts) =
           (tm_job m, jo_output out, jo_total_time out, jo_error_code out, jo_sign_timestamp out)
         \<or> collide lib d' d \<or> collide lib o' (jo_output out)
         \<or> collide lib (eth_encode lib (response_tokens lib job o' time code ts))
             (eth_encode lib (response_tokens lib (tm_job m) (jo_output out) (jo_total_time out)
               (jo_error_code out) (jo_sign_timestamp out))))"
proof -
  have "all_signed lib (initial_executor names)" by (simp add: all_signed_def initial_executor_def)
  then have "all_signed lib x" using signed.run_inv assms(1,4) by (simp add: executor_run_def)
  then have "signed_response lib m" using assms(2,3) by (simp add: all_signed_def)
  then obtain out d rs v where out: "tm_output m = Some out" "jo_error_code out \<le> 4"
      "response_digest lib (tm_job m) (jo_output out) (jo_total_time out) (jo_error_code out) (jo_sign_timestamp out)
        = Some d" "eth_sign lib (eth_keccak256 lib d) = Some (rs, v)" "jo_signature out = rs @ [27 + v]"
    by (auto simp: signed_response_def)
  moreover note signature_binds [OF assms(5) _ out(3)]
  ultimately show ?thesis by blast
qed

lemma sample_answered:
  "\<exists>x m. executor_run sample_config sample_start (sample_events @ [Job 0 (Answered (Some [1])) sample_clocks]) = Some x
    \<and> sent x = [m] \<and> tm_type m = OUTPUT \<and> tm_job m = 7"
proof -
  have "\<exists>x m. executor_step sample_config sample_state (Job 0 (Answered (Some [1])) sample_clocks) = Some x
      \<and> sent x = [m] \<and> tm_type m = OUTPUT \<and> tm_job m = 7"
    by (simp add: sample_state_def job_step_def Let_def handle_job_end_def new_output_def sign_response_def
        sign_digest_def sample_clocks_def sample_config_def sample_eth_def duration_from_secs_def instant_add_def)
  then show ?thesis
    using sample_run by (auto simp: executor_run_def run_steps_append)
qed

theorem responses_signed_witness:
  "\<exists>x m out d. executor_run sample_config sample_start (sample_events @ [Job 0 (Answered (Some [1])) sample_clocks])
      = Some x \<and> m \<in> set (sent x) \<and> tm_output m = Some out
    \<and> response_digest sample_eth 7 (jo_output out) (jo_total_time out) (jo_error_code out) (jo_sign_timestamp out)
      = Some d \<and> jo_signature out = eth_keccak256 sample_eth d @ [27]"
proof -
  obtain x m where x: "executor_run sample_config sample_start
      (sample_events @ [Job 0 (Answered (Some [1])) sample_clocks]) = Some x" "sent x = [m]" "tm_type m = OUTPUT"
      "tm_job m = 7"
    using sample_answered by blast
  have "sample_eth = ec_eth sample_config" by (simp add: sample_config_def)
  with responses_signed [OF x(1) [unfolded sample_start_def], of m sample_eth] x sample_decodable
  obtain out d rs v where "tm_output m = Some out" "response_digest sample_eth 7 (jo_output out) (jo_total_time out)
      (jo_error_code out) (jo_sign_timestamp out) = Some d"
      "eth_sign sample_eth (eth_keccak256 sample_eth d) = Some (rs, v)" "jo_signature out = rs @ [27 + v]"
    by auto
  moreover have "eth_sign sample_eth b = Some (b, 0)" for b by (simp add: sample_eth_def)
  ultimately show ?thesis using x(1,2) by auto
qed

definition sample_digest :: "bytes \<Rightarrow> bytes" where
  "sample_digest out = the (response_digest sample_eth 7 out 20 0 9)"

lemma sample_digest: "response_digest sample_eth 7 out 20 0 9 = Some (sample_digest out)"
  unfolding sample_digest_def by (simp add: response_digest_def sample_eth_def)

text \<open>The witness: two outputs with the same hash give the same digest, and it is the outputs that collide.\<close>

lemma signature_binds_witness:
  "collide sample_eth [1] [1, 0]"
proof -
  have k: "eth_keccak256 sample_eth [1] = eth_keccak256 sample_eth [1, 0]"
    by (simp add: sample_eth_def numeral_eq_Suc)
  then have t: "response_tokens sample_eth 7 [1] 20 0 9 = response_tokens sample_eth 7 [1, 0] 20 0 9"
    by (simp add: response_tokens_def)
  then have d: "sample_digest [1] = sample_digest [1, 0]"
    by (simp add: sample_digest_def response_digest_def k)
  have "\<not> collide sample_eth x x" for x by (simp add: collide_def)
  with signature_binds [OF sample_decodable sample_digest sample_digest, of "[1]" "[1, 0]"] d t show ?thesis by auto
qed

end
