(* ===== verification/EX_Sender.thy ===== *)
theory EX_Sender
  imports EX_Jobs
begin

text \<open>
  Sending the transactions of the serverless executor: \<open>generate_txn\<close>, \<open>estimate_gas_and_price\<close> and
  \<open>parse_send_error\<close> of \<open>utils.rs\<close>, \<open>send_execution_output\<close> and \<open>resend_pending_transaction\<close> of
  \<open>event_handler.rs\<close>.

  The loops ask the RPC again and again, so they are functions over the list of what they see: the clock at
  the head of the loop and the answers of the calls of one turn. A list that ends before the loop does gives
  \<open>Unfinished\<close>. Sums and products of \<open>U256\<close> panic when they overflow, \<open>None\<close>. The error texts are those of
  the RPC, and \<open>to_lowercase\<close> is the one of ASCII.
\<close>

section \<open>Errors of the RPC\<close>

datatype send_error = NonceTooLow | NonceTooHigh | OutOfGas | GasTooHigh | GasPriceLow | ContractExecution
  | NetworkConnectivity | OtherRetryable

definition parse_send_error :: "string \<Rightarrow> send_error" where
  "parse_send_error error =
     (if str_contains error ''nonce too low'' then NonceTooLow
      else if str_contains error ''nonce too high'' \<or> str_contains error ''too many pending transactions''
      then NonceTooHigh
      else if str_contains error ''out of gas'' then OutOfGas
      else if str_contains error ''gas limit too high'' \<or> str_contains error ''transaction exceeds block gas limit''
      then GasTooHigh
      else if str_contains error ''gas price too low'' \<or> str_contains error ''transaction underpriced''
      then GasPriceLow
      else if str_contains error ''connection'' \<or> str_contains error ''network'' then NetworkConnectivity
      else if str_contains error ''reverted'' \<or> str_contains error ''failed'' then ContractExecution
      else OtherRetryable)"

definition rpc_error :: "string \<Rightarrow> send_error" where
  "rpc_error error = parse_send_error (map ascii_lower error)"

section \<open>Transactions\<close>

record txn_request =
  tr_to :: address
  tr_data :: bytes

text \<open>\<open>encode\<close> looks up a function of the ABI and encodes its arguments. The output of a response is unwrapped.\<close>

definition generate_txn ::
    "(string \<Rightarrow> token list \<Rightarrow> bytes rust_result) \<Rightarrow> address \<Rightarrow> txn_metadata \<Rightarrow> txn_request rust_result option" where
  "generate_txn encode jobs_contract m =
     (case tm_type m of
        OUTPUT \<Rightarrow>
          (case tm_output m of None \<Rightarrow> None
           | Some out \<Rightarrow>
               (case encode ''submitOutput''
                       [TBytes (jo_signature out), TUint (tm_job m), TBytes (jo_output out),
                        TUint (ucast (jo_total_time out)), TUint (ucast (jo_error_code out)),
                        TUint (jo_sign_timestamp out)] of
                  Inl e \<Rightarrow> Some (Inl e)
                | Inr data \<Rightarrow> Some (Inr \<lparr>tr_to = jobs_contract, tr_data = data\<rparr>)))
      | TIMEOUT \<Rightarrow>
          (case encode ''slashOnExecutionTimeout'' [TUint (tm_job m)] of
             Inl e \<Rightarrow> Some (Inl e)
           | Inr data \<Rightarrow> Some (Inr \<lparr>tr_to = jobs_contract, tr_data = data\<rparr>)))"

text \<open>\<open>estimate_gas_and_price\<close>: a gas price of zero counts as none.\<close>

fun gas_price_loop :: "instant \<Rightarrow> (instant \<times> u256 rust_result) list \<Rightarrow> u256 option" where
  "gas_price_loop deadline [] = None"
| "gas_price_loop deadline ((now, price) # polls) =
     (if now < deadline then (case price of Inl _ \<Rightarrow> gas_price_loop deadline polls | Inr p \<Rightarrow> Some p)
      else Some 0)"

fun gas_limit_loop :: "instant \<Rightarrow> (instant \<times> u256 rust_result) list \<Rightarrow> u256 option option" where
  "gas_limit_loop deadline [] = None"
| "gas_limit_loop deadline ((now, gas) # polls) =
     (if now < deadline then
        (case gas of
           Inr g \<Rightarrow> Some (Some g)
         | Inl e \<Rightarrow>
             if rpc_error e \<in> {GasTooHigh, ContractExecution} then Some None else gas_limit_loop deadline polls)
      else Some None)"

text \<open>\<open>None\<close> when the polls end before the loops.\<close>

definition estimate_gas_and_price ::
    "instant \<Rightarrow> (instant \<times> u256 rust_result) list \<Rightarrow> (instant \<times> u256 rust_result) list \<Rightarrow> (u256 \<times> u256) option option" where
  "estimate_gas_and_price deadline price_polls gas_polls =
     (case gas_price_loop deadline price_polls of None \<Rightarrow> None
      | Some gas_price \<Rightarrow>
      if gas_price = 0 then Some None
      else
        (case gas_limit_loop deadline gas_polls of None \<Rightarrow> None
         | Some None \<Rightarrow> Some None
         | Some (Some gas) \<Rightarrow> Some (Some (gas, gas_price))))"

section \<open>Gas\<close>

definition u256_add :: "u256 \<Rightarrow> u256 \<Rightarrow> u256 option" where
  "u256_add a b = (if unat a + unat b < 2 ^ 256 then Some (a + b) else None)"

definition raise_gas_limit :: "u256 \<Rightarrow> u256 option" where
  "raise_gas_limit gas_limit = u256_add gas_limit 200000"

text \<open>110 per cent, rounded down.\<close>

definition raise_gas_price :: "u256 \<Rightarrow> u256 option" where
  "raise_gas_price gas_price = (if 110 * unat gas_price < 2 ^ 256 then Some (110 * gas_price div 100) else None)"

section \<open>Sending\<close>

record pending_txn =
  pt_hash :: b256
  pt_data :: txn_metadata
  pt_client :: address
  pt_nonce :: u256
  pt_gas_limit :: u256
  pt_gas_price :: u256
  pt_monitor :: instant

text \<open>What one turn of the loop sees: the clock, the client, the nonce the network has (asked for only if an
  update is due), a nonce the configuration end point has set meanwhile, the hash or the error the call gives,
  and the clock after it.\<close>

record attempt =
  at_now :: instant
  at_client :: address
  at_count :: "u256 rust_result"
  at_injected :: "u256 option"
  at_send :: "b256 rust_result"
  at_sent :: instant

record send_state =
  ss_nonce :: u256
  ss_update :: bool
  ss_gas_limit :: u256
  ss_gas_price :: u256

datatype send_result = Sent pending_txn | Dropped | Unfinished

definition next_nonce :: "attempt \<Rightarrow> send_state \<Rightarrow> send_state option" where
  "next_nonce a s =
     (if ss_update s then
        (case at_count a of Inl _ \<Rightarrow> None | Inr n \<Rightarrow> Some (s\<lparr>ss_nonce := n, ss_update := False\<rparr>))
      else Some s)"

definition injected :: "attempt \<Rightarrow> send_state \<Rightarrow> send_state" where
  "injected a s = (case at_injected a of None \<Rightarrow> s | Some n \<Rightarrow> s\<lparr>ss_nonce := n\<rparr>)"

fun send_loop :: "txn_metadata \<Rightarrow> attempt list \<Rightarrow> send_state \<Rightarrow> (send_result \<times> send_state) option" where
  "send_loop m [] s = Some (Unfinished, s)"
| "send_loop m (a # rest) s =
     (if tm_retry_deadline m \<le> at_now a then Some (Dropped, s)
      else case next_nonce a s of None \<Rightarrow> send_loop m rest s
      | Some s1 \<Rightarrow>
      let s2 = injected a s1 in
      case at_send a of
        Inl e \<Rightarrow>
          (case rpc_error e of
             NonceTooLow \<Rightarrow> send_loop m rest (s2\<lparr>ss_update := True\<rparr>)
           | OutOfGas \<Rightarrow>
               (case raise_gas_limit (ss_gas_limit s2) of None \<Rightarrow> None
                | Some g \<Rightarrow> send_loop m rest (s2\<lparr>ss_gas_limit := g\<rparr>))
           | GasPriceLow \<Rightarrow>
               (case raise_gas_price (ss_gas_price s2) of None \<Rightarrow> None
                | Some p \<Rightarrow> send_loop m rest (s2\<lparr>ss_gas_price := p\<rparr>))
           | GasTooHigh \<Rightarrow> Some (Dropped, s2)
           | ContractExecution \<Rightarrow> Some (Dropped, s2)
           | _ \<Rightarrow> send_loop m rest s2)
      | Inr hash \<Rightarrow>
          (case u256_add (ss_nonce s2) 1 of None \<Rightarrow> None
           | Some n \<Rightarrow>
               Some (Sent \<lparr>pt_hash = hash, pt_data = m, pt_client = at_client a, pt_nonce = ss_nonce s2,
                       pt_gas_limit = ss_gas_limit s2, pt_gas_price = ss_gas_price s2, pt_monitor = at_sent a\<rparr>,
                     s2\<lparr>ss_nonce := n\<rparr>)))"

text \<open>What the channel gives: a message with what its loops see.\<close>

record message =
  ms_txn :: txn_metadata
  ms_price_polls :: "(instant \<times> u256 rust_result) list"
  ms_gas_polls :: "(instant \<times> u256 rust_result) list"
  ms_attempts :: "attempt list"

text \<open>The sender: the nonce to send and the queue of pending transactions. A transaction that cannot be
  generated is a panic. \<open>Inl\<close> tells that some list ended early, with the state then.\<close>

record sender =
  sd_nonce :: u256
  sd_pending :: "pending_txn list"

fun send_execution_output ::
    "(string \<Rightarrow> token list \<Rightarrow> bytes rust_result) \<Rightarrow> address \<Rightarrow> message list \<Rightarrow> sender \<Rightarrow> (sender + sender) option" where
  "send_execution_output encode jobs_contract [] d = Some (Inr d)"
| "send_execution_output encode jobs_contract (m # ms) d =
     (case generate_txn encode jobs_contract (ms_txn m) of
        None \<Rightarrow> None
      | Some (Inl _) \<Rightarrow> None
      | Some (Inr _) \<Rightarrow>
      case estimate_gas_and_price (tm_retry_deadline (ms_txn m)) (ms_price_polls m) (ms_gas_polls m) of
        None \<Rightarrow> Some (Inl d)
      | Some None \<Rightarrow> send_execution_output encode jobs_contract ms d
      | Some (Some (gas_limit, gas_price)) \<Rightarrow>
      case send_loop (ms_txn m) (ms_attempts m)
             \<lparr>ss_nonce = sd_nonce d, ss_update = False, ss_gas_limit = gas_limit, ss_gas_price = gas_price\<rparr> of
        None \<Rightarrow> None
      | Some (Unfinished, s) \<Rightarrow> Some (Inl (d\<lparr>sd_nonce := ss_nonce s\<rparr>))
      | Some (Dropped, s) \<Rightarrow> send_execution_output encode jobs_contract ms (d\<lparr>sd_nonce := ss_nonce s\<rparr>)
      | Some (Sent p, s) \<Rightarrow>
          send_execution_output encode jobs_contract ms \<lparr>sd_nonce = ss_nonce s, sd_pending = sd_pending d @ [p]\<rparr>)"

section \<open>Resending\<close>

text \<open>A turn of the replacement loop: the clock, the address of the current client, whether the message could be
  handed to the sender, and what the call gives. A turn of the dummy loop: the address of the current client,
  what the call gives, and whether the transaction was confirmed.\<close>

record replacement =
  rp_now :: instant
  rp_client :: address
  rp_handed :: bool
  rp_send :: "b256 rust_result"
  rp_sent :: instant

datatype replace_result = Handed_over | Replaced | Mined | Given_up | Abandoned | Replace_unfinished

text \<open>\<open>dummy\<close> is the flag \<open>send_dummy\<close>.\<close>

fun replace_loop :: "replacement list \<Rightarrow> bool \<Rightarrow> pending_txn \<Rightarrow> (replace_result \<times> pending_txn) option" where
  "replace_loop [] dummy p = Some (Replace_unfinished, p)"
| "replace_loop (r # rest) dummy p =
     (if tm_retry_deadline (pt_data p) \<le> rp_now r then Some (if dummy then Given_up else Abandoned, p)
      else if rp_client r \<noteq> pt_client p then
        if rp_handed r then Some (Handed_over, p) else replace_loop rest False p
      else case rp_send r of
        Inl e \<Rightarrow>
          (case rpc_error e of
             NonceTooLow \<Rightarrow> Some (Mined, p)
           | OutOfGas \<Rightarrow>
               (case raise_gas_limit (pt_gas_limit p) of None \<Rightarrow> None
                | Some g \<Rightarrow> replace_loop rest dummy (p\<lparr>pt_gas_limit := g\<rparr>))
           | GasPriceLow \<Rightarrow>
               (case raise_gas_price (pt_gas_price p) of None \<Rightarrow> None
                | Some g \<Rightarrow> replace_loop rest dummy (p\<lparr>pt_gas_price := g\<rparr>))
           | GasTooHigh \<Rightarrow> Some (if dummy then Given_up else Abandoned, p)
           | ContractExecution \<Rightarrow> Some (if dummy then Given_up else Abandoned, p)
           | _ \<Rightarrow> replace_loop rest dummy p)
      | Inr hash \<Rightarrow> Some (Replaced, p\<lparr>pt_hash := hash, pt_monitor := rp_sent r\<rparr>))"

datatype dummy_result = Account_changed | Nonce_used | Confirmed_dummy | Dummy_unfinished

fun dummy_loop :: "(address \<times> b256 rust_result \<times> bool) list \<Rightarrow> pending_txn \<Rightarrow> (dummy_result \<times> pending_txn) option" where
  "dummy_loop [] p = Some (Dummy_unfinished, p)"
| "dummy_loop ((client, answer, confirmed) # rest) p =
     (if client \<noteq> pt_client p then Some (Account_changed, p)
      else case answer of
        Inl e \<Rightarrow>
          (case rpc_error e of
             NonceTooLow \<Rightarrow> Some (Nonce_used, p)
           | OutOfGas \<Rightarrow>
               (case raise_gas_limit (pt_gas_limit p) of None \<Rightarrow> None
                | Some g \<Rightarrow> dummy_loop rest (p\<lparr>pt_gas_limit := g\<rparr>))
           | GasPriceLow \<Rightarrow>
               (case raise_gas_price (pt_gas_price p) of None \<Rightarrow> None
                | Some g \<Rightarrow> dummy_loop rest (p\<lparr>pt_gas_price := g\<rparr>))
           | _ \<Rightarrow> dummy_loop rest p)
      | Inr _ \<Rightarrow> if confirmed then Some (Confirmed_dummy, p) else dummy_loop rest p)"

datatype resend_result = Confirmed | Resent "pending_txn list" | Handed txn_metadata | Resolved | Unblocked
  | Resend_unfinished

text \<open>The wait before a pending transaction is looked at: in whole seconds.\<close>

definition resend_wait :: "pending_txn \<Rightarrow> instant \<Rightarrow> nat" where
  "resend_wait p now = min (5 - min 5 ((now - pt_monitor p) div 1000000000))
     ((tm_retry_deadline (pt_data p) - now) div 1000000000)"

text \<open>One turn of \<open>resend_pending_transaction\<close> with the transaction \<open>p\<close> it popped and the rest of the queue.\<close>

definition resend_pending ::
    "bool \<Rightarrow> replacement list \<Rightarrow> (address \<times> b256 rust_result \<times> bool) list \<Rightarrow> pending_txn \<Rightarrow> pending_txn list
     \<Rightarrow> resend_result option" where
  "resend_pending mined replacements dummies p queue =
     (if mined then Some Confirmed
      else
      case raise_gas_limit (pt_gas_limit p) of None \<Rightarrow> None
      | Some gas_limit \<Rightarrow>
      case raise_gas_price (pt_gas_price p) of None \<Rightarrow> None
      | Some gas_price \<Rightarrow>
      case replace_loop replacements True (p\<lparr>pt_gas_limit := gas_limit, pt_gas_price := gas_price\<rparr>) of
        None \<Rightarrow> None
      | Some (Replaced, p1) \<Rightarrow> Some (Resent (p1 # queue))
      | Some (Handed_over, p1) \<Rightarrow> Some (Handed (pt_data p1))
      | Some (Mined, _) \<Rightarrow> Some Resolved
      | Some (Abandoned, _) \<Rightarrow> Some Resolved
      | Some (Replace_unfinished, _) \<Rightarrow> Some Resend_unfinished
      | Some (Given_up, p1) \<Rightarrow>
          (case dummy_loop dummies p1 of None \<Rightarrow> None
           | Some (Dummy_unfinished, _) \<Rightarrow> Some Resend_unfinished
           | Some _ \<Rightarrow> Some Unblocked))"

section \<open>Lemmas\<close>

lemma u256_add_Some: "u256_add a b = Some c \<Longrightarrow> unat c = unat a + unat b"
  by (auto simp: u256_add_def unat_word_ariths split: if_splits)

lemma raise_gas_price_Some:
  assumes "raise_gas_price p = Some q"
  shows "unat q = 110 * unat p div 100"
proof -
  have bound: "110 * unat p < 2 ^ 256" and q: "q = 110 * p div 100"
    using assms by (auto simp: raise_gas_price_def split: if_splits)
  have "unat (110 * p) = 110 * unat p" using bound by (simp add: unat_word_ariths)
  then show ?thesis unfolding q by (simp add: unat_div)
qed

lemma raise_gas_price_mono: "raise_gas_price p = Some q \<Longrightarrow> unat p \<le> unat q"
  by (drule raise_gas_price_Some) simp

lemma raise_gas_price_small: "unat p < 10 \<Longrightarrow> raise_gas_price p = Some p"
proof -
  assume small: "unat p < 10"
  then have "110 * unat p < 2 ^ 256" by simp
  then obtain q where q: "raise_gas_price p = Some q" by (simp add: raise_gas_price_def)
  have "110 * unat p div 100 = unat p" using small by linarith
  with raise_gas_price_Some [OF q] have "unat q = unat p" by simp
  with q show ?thesis by (simp add: word_unat_eq_iff)
qed

text \<open>A replacement keeps the transaction, its client and its nonce, and never lowers its gas.\<close>

lemma replace_loop_keeps:
  "replace_loop rs dummy p = Some (res, q) \<Longrightarrow> pt_nonce q = pt_nonce p \<and> pt_data q = pt_data p
    \<and> pt_client q = pt_client p \<and> unat (pt_gas_price p) \<le> unat (pt_gas_price q)
    \<and> unat (pt_gas_limit p) \<le> unat (pt_gas_limit q)"
proof (induction rs arbitrary: dummy p)
  case (Cons r rest)
  show ?case
  proof (cases "tm_retry_deadline (pt_data p) \<le> rp_now r \<or> rp_client r \<noteq> pt_client p")
    case True
    with Cons show ?thesis by (auto split: if_splits)
  next
    case False
    show ?thesis
    proof (cases "rp_send r")
      case (Inr h)
      with False Cons show ?thesis by auto
    next
      case (Inl e)
      show ?thesis
      proof (cases "rpc_error e")
        case OutOfGas
        with False Inl Cons.prems obtain g where g: "raise_gas_limit (pt_gas_limit p) = Some g"
            "replace_loop rest dummy (p\<lparr>pt_gas_limit := g\<rparr>) = Some (res, q)"
          by (auto split: option.splits)
        have "unat (pt_gas_limit p) \<le> unat g" using u256_add_Some g(1) by (fastforce simp: raise_gas_limit_def)
        with Cons.IH [OF g(2)] show ?thesis by simp
      next
        case GasPriceLow
        with False Inl Cons.prems obtain g where g: "raise_gas_price (pt_gas_price p) = Some g"
            "replace_loop rest dummy (p\<lparr>pt_gas_price := g\<rparr>) = Some (res, q)"
          by (auto split: option.splits)
        from Cons.IH [OF g(2)] raise_gas_price_mono [OF g(1)] show ?thesis by simp
      qed (use False Inl Cons in auto)
    qed
  qed
qed simp

text \<open>A message that is sent uses the nonce and moves it by one; otherwise the nonce stays. An attempt is
  steady when nobody else touches the nonce.\<close>

definition steady :: "attempt \<Rightarrow> bool" where
  "steady a \<longleftrightarrow> at_injected a = None \<and> (\<forall>e. at_send a = Inl e \<longrightarrow> rpc_error e \<noteq> NonceTooLow)"

lemma retryI:
  assumes "send_loop m rest t = Some r" and "ss_nonce t = ss_nonce s" and "\<not> ss_update t"
  shows "\<exists>s2. send_loop m rest s2 = Some r \<and> ss_nonce s2 = ss_nonce s \<and> \<not> ss_update s2"
  using assms by blast

lemma send_loop_steady:
  assumes "send_loop m as s = Some (res, s')" and "list_all steady as" and "\<not> ss_update s"
  shows "\<not> ss_update s'
    \<and> (\<forall>p. res = Sent p \<longrightarrow> pt_nonce p = ss_nonce s \<and> pt_data p = m \<and> ss_nonce s' = ss_nonce s + 1)
    \<and> ((\<forall>p. res \<noteq> Sent p) \<longrightarrow> ss_nonce s' = ss_nonce s)"
  using assms
proof (induction as arbitrary: s)
  case (Cons a rest)
  have same: "next_nonce a s = Some s" "injected a s = s"
    using Cons.prems(2,3) by (simp_all add: next_nonce_def injected_def steady_def)
  show ?case
  proof (cases "at_send a")
    case (Inr h)
    with Cons.prems same show ?thesis by (auto simp: u256_add_def split: if_splits)
  next
    case (Inl e)
    then have "rpc_error e \<noteq> NonceTooLow" using Cons.prems(2) by (simp add: steady_def)
    then have "res = Dropped \<and> s' = s \<or>
        (\<exists>s2. send_loop m rest s2 = Some (res, s') \<and> ss_nonce s2 = ss_nonce s \<and> \<not> ss_update s2)"
      using Inl Cons.prems same
      by (cases "rpc_error e") (auto split: if_splits option.splits intro: retryI)
    then show ?thesis
    proof (elim disjE exE conjE)
      fix s2
      assume "send_loop m rest s2 = Some (res, s')" "ss_nonce s2 = ss_nonce s" "\<not> ss_update s2"
      with Cons.IH [of s2] Cons.prems(2) show ?thesis by simp
    qed (use Cons.prems(3) in simp)
  qed
qed auto

definition consecutive :: "u256 \<Rightarrow> pending_txn list \<Rightarrow> bool" where
  "consecutive n ps \<longleftrightarrow> map pt_nonce ps = map (\<lambda>i. n + of_nat i) [0..<length ps]"

lemma consecutive_snoc:
  assumes "consecutive n ps" and "pt_nonce p = n + of_nat (length ps)"
  shows "consecutive n (ps @ [p])"
  using assms by (simp add: consecutive_def)

definition sender_after :: "sender + sender \<Rightarrow> sender" where
  "sender_after r = (case r of Inl d \<Rightarrow> d | Inr d \<Rightarrow> d)"

lemma send_execution_output_steady:
  assumes "send_execution_output encode jobs ms d = Some r"
    and "list_all (\<lambda>m. list_all steady (ms_attempts m)) ms"
    and "consecutive n ps" and "sd_pending d = qs @ ps" and "sd_nonce d = n + of_nat (length ps)"
  shows "\<exists>new. sd_pending (sender_after r) = qs @ new \<and> consecutive n new
    \<and> sd_nonce (sender_after r) = n + of_nat (length new)"
  using assms
proof (induction ms arbitrary: d ps)
  case Nil
  then show ?case by (auto simp: sender_after_def)
next
  case (Cons m ms)
  from Cons.prems(1) obtain t where t: "generate_txn encode jobs (ms_txn m) = Some (Inr t)"
    by (auto split: option.splits sum.splits)
  show ?case
  proof (cases "estimate_gas_and_price (tm_retry_deadline (ms_txn m)) (ms_price_polls m) (ms_gas_polls m)")
    case None
    with Cons.prems t show ?thesis by (auto simp: sender_after_def)
  next
    case (Some est)
    show ?thesis
    proof (cases est)
      case None
      with Some Cons t show ?thesis by simp
    next
      case (Some gas)
      obtain gl gp where gas: "gas = (gl, gp)" by fastforce
      let ?s = "\<lparr>ss_nonce = sd_nonce d, ss_update = False, ss_gas_limit = gl, ss_gas_price = gp\<rparr>"
      obtain res s where loop: "send_loop (ms_txn m) (ms_attempts m) ?s = Some (res, s)"
        using Cons.prems(1) t Some \<open>_ = Some est\<close> gas by (auto split: option.splits)
      have step: "pt_nonce p = sd_nonce d \<and> ss_nonce s = sd_nonce d + 1" if "res = Sent p" for p
        using send_loop_steady [OF loop] Cons.prems(2) that by simp
      have stay: "ss_nonce s = sd_nonce d" if "\<forall>p. res \<noteq> Sent p"
        using send_loop_steady [OF loop] Cons.prems(2) that by simp
      note run = Cons.prems(1) t Some \<open>_ = Some est\<close> gas loop
      show ?thesis
      proof (cases res)
        case (Sent p)
        let ?d = "\<lparr>sd_nonce = ss_nonce s, sd_pending = sd_pending d @ [p]\<rparr>"
        have "send_execution_output encode jobs ms ?d = Some r" using run Sent by simp
        then show ?thesis
          by (rule Cons.IH [where ps = "ps @ [p]"])
            (use Cons.prems step [OF Sent] in \<open>auto intro: consecutive_snoc simp: add.assoc\<close>)
      next
        case Dropped
        then have "send_execution_output encode jobs ms (d\<lparr>sd_nonce := ss_nonce s\<rparr>) = Some r" using run by simp
        then show ?thesis
          by (rule Cons.IH [where ps = ps]) (use Cons.prems stay Dropped in auto)
      next
        case Unfinished
        then show ?thesis using run Cons.prems stay by (auto simp: sender_after_def)
      qed
    qed
  qed
qed

section \<open>Properties\<close>

definition sample_txn :: txn_metadata where
  "sample_txn = timeout_message 7 0"

definition sample_attempts :: "attempt list" where
  "sample_attempts = [\<lparr>at_now = 1, at_client = 5, at_count = Inr 0, at_injected = None,
       at_send = Inl ''transaction underpriced'', at_sent = 2\<rparr>,
     \<lparr>at_now = 3, at_client = 5, at_count = Inr 0, at_injected = None, at_send = Inr 99, at_sent = 4\<rparr>]"

definition sample_messages :: "message list" where
  "sample_messages = (let m = \<lparr>ms_txn = sample_txn, ms_price_polls = [(0, Inr 100)],
       ms_gas_polls = [(0, Inr 21000)], ms_attempts = sample_attempts\<rparr> in [m, m])"

definition sample_pending :: "u256 \<Rightarrow> pending_txn" where
  "sample_pending n = \<lparr>pt_hash = 99, pt_data = sample_txn, pt_client = 5, pt_nonce = n, pt_gas_limit = 21000,
     pt_gas_price = 110, pt_monitor = 4\<rparr>"

lemma sample_underpriced: "rpc_error ''transaction underpriced'' = GasPriceLow"
  by code_simp

lemma sample_sent:
  "send_execution_output (\<lambda>_ _. Inr []) 8 sample_messages \<lparr>sd_nonce = 40, sd_pending = []\<rparr> =
    Some (Inr \<lparr>sd_nonce = 42, sd_pending = [sample_pending 40, sample_pending 41]\<rparr>)"
  by (simp add: Let_def sample_messages_def sample_attempts_def sample_txn_def timeout_message_def generate_txn_def
      estimate_gas_and_price_def duration_from_secs_def next_nonce_def injected_def sample_underpriced
      raise_gas_price_def u256_add_def sample_pending_def)

text \<open>C18: The nonces of the transactions sent by the executor are consecutive: as long as nobody else uses the
  gas account (no attempt is answered with a nonce that is too low and no new account is configured meanwhile),
  the transactions that join the queue of pending ones have the nonces that follow the one the sender started
  with, without a gap and in order, whatever messages were dropped in between and whatever errors were retried,
  and the nonce to send is the next one.\<close>

theorem nonces_consecutive:
  assumes "send_execution_output encode jobs ms d = Some r"
    and "list_all (\<lambda>m. list_all steady (ms_attempts m)) ms"
  shows "\<exists>new. sd_pending (sender_after r) = sd_pending d @ new \<and> consecutive (sd_nonce d) new
    \<and> sd_nonce (sender_after r) = sd_nonce d + of_nat (length new)"
  using send_execution_output_steady [OF assms, of "sd_nonce d" "[]"] by (simp add: consecutive_def)

theorem nonces_consecutive_witness:
  "\<exists>new. [sample_pending 40, sample_pending 41] = new \<and> consecutive 40 new"
proof -
  have "list_all (\<lambda>m. list_all steady (ms_attempts m)) sample_messages"
    by (simp add: Let_def sample_messages_def sample_attempts_def steady_def sample_underpriced)
  from nonces_consecutive [OF sample_sent this] show ?thesis by (auto simp: sender_after_def)
qed

text \<open>C38: A replacement takes the place of the transaction it replaces: the same message, account and nonce. Its
  gas limit is at least 200000 higher and its gas price at least 10 per cent higher, rounded down; so it outbids
  the old price if that was 10 wei or more, while a price below 10 is never raised, by any number of increments.\<close>

theorem replacement_outbids:
  assumes "resend_pending mined rs ds p queue = Some (Resent (q # queue))"
  shows "pt_nonce q = pt_nonce p \<and> pt_data q = pt_data p \<and> pt_client q = pt_client p
    \<and> unat (pt_gas_limit p) + 200000 \<le> unat (pt_gas_limit q)
    \<and> 110 * unat (pt_gas_price p) div 100 \<le> unat (pt_gas_price q)
    \<and> (10 \<le> unat (pt_gas_price p) \<longrightarrow> unat (pt_gas_price p) < unat (pt_gas_price q))
    \<and> (unat (pt_gas_price p) < 10 \<longrightarrow> raise_gas_price (pt_gas_price p) = Some (pt_gas_price p))"
proof -
  obtain l g res where l: "raise_gas_limit (pt_gas_limit p) = Some l"
    and g: "raise_gas_price (pt_gas_price p) = Some g"
    and loop: "replace_loop rs True (p\<lparr>pt_gas_limit := l, pt_gas_price := g\<rparr>) = Some (res, q)"
    using assms by (auto simp: resend_pending_def split: if_splits option.splits replace_result.splits dummy_result.splits)
  have "unat l = unat (pt_gas_limit p) + 200000" using u256_add_Some l by (fastforce simp: raise_gas_limit_def)
  with replace_loop_keeps [OF loop] raise_gas_price_Some [OF g] raise_gas_price_small [of "pt_gas_price p"]
  show ?thesis by auto
qed

theorem replacement_outbids_witness:
  "\<exists>q. resend_pending False [\<lparr>rp_now = 5, rp_client = 5, rp_handed = False, rp_send = Inr 98, rp_sent = 6\<rparr>] []
      (sample_pending 40) [] = Some (Resent [q]) \<and> unat (pt_gas_price q) > 110"
proof -
  have "\<exists>q. resend_pending False [\<lparr>rp_now = 5, rp_client = 5, rp_handed = False, rp_send = Inr 98, rp_sent = 6\<rparr>] []
      (sample_pending 40) [] = Some (Resent [q])"
    by (simp add: resend_pending_def sample_pending_def raise_gas_limit_def u256_add_def raise_gas_price_def
        sample_txn_def timeout_message_def duration_from_secs_def)
  then obtain q where q: "resend_pending False
      [\<lparr>rp_now = 5, rp_client = 5, rp_handed = False, rp_send = Inr 98, rp_sent = 6\<rparr>] [] (sample_pending 40) [] =
      Some (Resent [q])" by blast
  with replacement_outbids [OF q] show ?thesis by (auto simp: sample_pending_def)
qed

end
