(* ===== verification/EX_Node.thy ===== *)
theory EX_Node
  imports EX_Jobs
begin

text \<open>
  The end points of the serverless executor (\<open>node_handler.rs\<close>): the two injections of configuration, the
  details, and the signed registration message, which starts the listener of events once.

  The hex decoder, the wallet, the URL of the RPC and the answers of the RPC are inputs; the texts of library
  errors are left out of the responses. The lock of a flag is held for the whole handler where the code holds it,
  so a handler is one step; \<open>inject_mutable_config\<close> waits for the RPC before it takes its lock.
\<close>

section \<open>State\<close>

record node =
  nd_immutable :: bool
  nd_mutable :: bool
  nd_owner :: bytes
  nd_client :: "address option"
  nd_nonce :: u256
  nd_active :: bool
  nd_listeners :: nat

definition initial_node :: node where
  "initial_node = \<lparr>nd_immutable = False, nd_mutable = False, nd_owner = replicate 20 0, nd_client = None,
     nd_nonce = 0, nd_active = False, nd_listeners = 0\<rparr>"

record registration =
  rg_job_capacity :: u64
  rg_sign_timestamp :: u64
  rg_env :: u8
  rg_owner :: bytes
  rg_signature :: bytes

datatype http_response =
    Http_ok string | Bad_request string | Internal_server_error string
  | Details address bytes bytes address | Registration registration

record node_lib =
  nl_hex_decode :: "string \<Rightarrow> bytes option"
  nl_wallet :: "bytes \<Rightarrow> address option"
  nl_provider :: bool
  nl_eth :: eth_lib
  nl_capacity :: u64
  nl_enclave_address :: address
  nl_public_key :: bytes
  nl_address_of :: "bytes \<Rightarrow> address"

definition strip_0x :: "string \<Rightarrow> string" where
  "strip_0x s = (if prefix ''0x'' s then drop 2 s else s)"

section \<open>Handlers\<close>

definition inject_immutable_config :: "node_lib \<Rightarrow> string \<Rightarrow> node \<Rightarrow> http_response \<times> node" where
  "inject_immutable_config lib owner_address_hex n =
     (if nd_immutable n then (Bad_request ''Immutable params already configured!'', n)
      else case nl_hex_decode lib (strip_0x owner_address_hex) of
        None \<Rightarrow> (Bad_request ''Invalid owner address hex string'', n)
      | Some owner_address \<Rightarrow>
          if length owner_address \<noteq> 20 then (Bad_request ''Owner address must be 20 bytes long!'', n)
          else (Http_ok ''Immutable params configured!'', n\<lparr>nd_owner := owner_address, nd_immutable := True\<rparr>))"

definition inject_mutable_config :: "node_lib \<Rightarrow> string \<Rightarrow> u256 rust_result \<Rightarrow> node \<Rightarrow> http_response \<times> node" where
  "inject_mutable_config lib gas_key_hex nonce n =
     (case nl_hex_decode lib (strip_0x gas_key_hex) of
        None \<Rightarrow> (Bad_request ''Invalid gas private key hex string'', n)
      | Some gas_key \<Rightarrow>
      if length gas_key \<noteq> 32 then (Bad_request ''Gas private key must be 32 bytes long!'', n)
      else case nl_wallet lib gas_key of
        None \<Rightarrow> (Bad_request ''Invalid gas private key provided'', n)
      | Some wallet \<Rightarrow>
      if \<not> nl_provider lib then (Internal_server_error ''Failed to initialize the http rpc server'', n)
      else case nonce of
        Inl _ \<Rightarrow> (Internal_server_error ''Failed to fetch current nonce for the gas address'', n)
      | Inr nonce_to_send \<Rightarrow>
          (Http_ok ''Mutable params configured!'',
           n\<lparr>nd_nonce := nonce_to_send, nd_client := Some wallet, nd_mutable := True\<rparr>))"

text \<open>A client that is not there when the flag is set would be a panic, \<open>None\<close>.\<close>

definition get_executor_details :: "node_lib \<Rightarrow> node \<Rightarrow> http_response option" where
  "get_executor_details lib n =
     (case (if nd_mutable n then nd_client n else Some 0) of None \<Rightarrow> None
      | Some gas_address \<Rightarrow>
          Some (Details (nl_enclave_address lib) (nl_public_key lib) (nd_owner n) gas_address))"

definition registration_struct :: "node_lib \<Rightarrow> bytes \<Rightarrow> u64 \<Rightarrow> bytes" where
  "registration_struct lib owner sign_timestamp =
     eth_keccak256 (nl_eth lib) (eth_encode (nl_eth lib)
       [TFixedBytes (keccak_str (nl_eth lib)
          ''Register(address owner,uint256 jobCapacity,uint8 env,uint256 signTimestamp)''),
        TAddress (nl_address_of lib owner), TUint (ucast (nl_capacity lib)), TUint 1, TUint (ucast sign_timestamp)])"

text \<open>\<open>block\<close> is the answer to the request for the latest block.\<close>

definition export_signed_registration_message ::
    "node_lib \<Rightarrow> u64 \<Rightarrow> u64 rust_result \<Rightarrow> node \<Rightarrow> (http_response \<times> node) option" where
  "export_signed_registration_message lib sign_timestamp block n =
     (if \<not> nd_immutable n then Some (Bad_request ''Immutable params not configured yet!'', n)
      else if \<not> nd_mutable n then Some (Bad_request ''Mutable params not configured yet!'', n)
      else case eth_encode_packed (nl_eth lib) (packed_digest
             (domain_separator (nl_eth lib) ''marlin.oyster.Executors'')
             (registration_struct lib (nd_owner n) sign_timestamp)) of
        None \<Rightarrow> Some (Internal_server_error ''Failed to encode the registration message for signing'', n)
      | Some digest \<Rightarrow>
      case eth_sign (nl_eth lib) (eth_keccak256 (nl_eth lib) digest) of
        None \<Rightarrow> Some (Internal_server_error ''Failed to sign the registration message using enclave key'', n)
      | Some (rs, v) \<Rightarrow>
      let reg = \<lparr>rg_job_capacity = nl_capacity lib, rg_sign_timestamp = sign_timestamp, rg_env = 1,
                 rg_owner = nd_owner n, rg_signature = rs @ [27 + v]\<rparr>
      in case nd_client n of None \<Rightarrow> None
      | Some _ \<Rightarrow>
      if nd_active n then Some (Registration reg, n)
      else case block of
        Inl _ \<Rightarrow> Some (Internal_server_error ''Failed to fetch the latest block number'', n)
      | Inr _ \<Rightarrow> Some (Registration reg, n\<lparr>nd_active := True, nd_listeners := nd_listeners n + 1\<rparr>))"

text \<open>The end of the listener, which clears the flag however it ends.\<close>

definition listener_ended :: "node \<Rightarrow> node option" where
  "listener_ended n =
     (if nd_listeners n = 0 then None else Some (n\<lparr>nd_active := False, nd_listeners := nd_listeners n - 1\<rparr>))"

datatype node_event = Inject_immutable string | Inject_mutable string "u256 rust_result"
  | Export u64 "u64 rust_result" | Listener_ends

fun node_step :: "node_lib \<Rightarrow> node \<Rightarrow> node_event \<Rightarrow> node option" where
  "node_step lib n (Inject_immutable hex) = Some (snd (inject_immutable_config lib hex n))"
| "node_step lib n (Inject_mutable hex nonce) = Some (snd (inject_mutable_config lib hex nonce n))"
| "node_step lib n (Export ts block) = map_option snd (export_signed_registration_message lib ts block n)"
| "node_step lib n Listener_ends = listener_ended n"

section \<open>Invariant\<close>

text \<open>The client is there once the flag says so, the owner is an address, and one listener runs if and only if
  the flag says so.\<close>

definition node_inv :: "node \<Rightarrow> bool" where
  "node_inv n \<longleftrightarrow> (nd_mutable n \<longrightarrow> nd_client n \<noteq> None) \<and> length (nd_owner n) = 20
     \<and> nd_listeners n = (if nd_active n then 1 else 0)"

lemma node_step_inv: "node_inv n \<Longrightarrow> node_step lib n ev = Some n' \<Longrightarrow> node_inv n'"
  by (cases ev)
    (auto simp: node_inv_def inject_immutable_config_def inject_mutable_config_def listener_ended_def Let_def
      export_signed_registration_message_def split: option.splits sum.splits if_splits)

lemma node_step_owner:
  "node_step lib n ev = Some n' \<Longrightarrow> nd_immutable n \<longrightarrow> nd_immutable n' \<and> nd_owner n' = nd_owner n"
  by (cases ev)
    (auto simp: inject_immutable_config_def inject_mutable_config_def listener_ended_def Let_def
      export_signed_registration_message_def split: option.splits sum.splits if_splits)

interpretation node: invariant_system "node_step lib" node_inv
  by unfold_locales (rule node_step_inv)

section \<open>Property\<close>

text \<open>Whatever requests are made, in any order: the owner of the enclave never changes once it is configured;
  no end point panics for want of a client; a registration message is only signed when both configurations are
  in, and it carries the owner and the capacity of the enclave; and at most one listener of events runs at any
  time.\<close>

lemma executor_configuration:
  assumes "run_steps (node_step lib) initial_node evs = Some n" and "run_steps (node_step lib) n evs' = Some n'"
  shows "(nd_immutable n \<longrightarrow> nd_immutable n' \<and> nd_owner n' = nd_owner n)
    \<and> get_executor_details lib n \<noteq> None \<and> export_signed_registration_message lib ts block n \<noteq> None
    \<and> (\<forall>reg m. export_signed_registration_message lib ts block n = Some (Registration reg, m) \<longrightarrow>
        nd_immutable n \<and> nd_mutable n \<and> rg_owner reg = nd_owner n \<and> rg_job_capacity reg = nl_capacity lib)
    \<and> nd_listeners n \<le> 1"
proof -
  have "node_inv initial_node" by (simp add: node_inv_def initial_node_def)
  then have inv: "node_inv n" using assms(1) by (rule node.run_inv)
  have "nd_immutable n \<longrightarrow> nd_immutable n' \<and> nd_owner n' = nd_owner n"
    by (rule node.run_relation [OF _ _ _ inv assms(2)]) (auto dest: node_step_owner)
  moreover have "get_executor_details lib n \<noteq> None" "export_signed_registration_message lib ts block n \<noteq> None"
    using inv by (auto simp: node_inv_def get_executor_details_def export_signed_registration_message_def Let_def
        split: option.splits sum.splits)
  moreover have "nd_listeners n \<le> 1" using inv by (simp add: node_inv_def)
  ultimately show ?thesis
    by (auto simp: export_signed_registration_message_def Let_def split: option.splits sum.splits if_splits)
qed

definition sample_node_lib :: node_lib where
  "sample_node_lib = \<lparr>nl_hex_decode = (\<lambda>s. if s = ''owner'' then Some (replicate 20 7) else Some (replicate 32 9)),
     nl_wallet = (\<lambda>_. Some 5), nl_provider = True,
     nl_eth = \<lparr>eth_keccak256 = id, eth_encode = (\<lambda>ts. [of_nat (length ts)]),
       eth_encode_packed = (\<lambda>ts. Some [of_nat (length ts)]), eth_sign = (\<lambda>d. Some (d, 0))\<rparr>,
     nl_capacity = 20, nl_enclave_address = 1, nl_public_key = [], nl_address_of = (\<lambda>_. 7)\<rparr>"

lemma sample_node:
  "run_steps (node_step sample_node_lib) initial_node
      [Inject_immutable ''0xowner'', Inject_mutable ''key'' (Inr 3), Export 1 (Inr 2), Export 4 (Inr 5)] =
    Some \<lparr>nd_immutable = True, nd_mutable = True, nd_owner = replicate 20 7, nd_client = Some 5, nd_nonce = 3,
      nd_active = True, nd_listeners = 1\<rparr>"
  by (simp add: inject_immutable_config_def inject_mutable_config_def export_signed_registration_message_def
      sample_node_lib_def initial_node_def strip_0x_def Let_def)

lemma executor_configuration_witness:
  "(\<lambda>n. nd_listeners n \<le> 1 \<and> get_executor_details sample_node_lib n \<noteq> None)
    \<lparr>nd_immutable = True, nd_mutable = True, nd_owner = replicate 20 7, nd_client = Some 5, nd_nonce = 3,
      nd_active = True, nd_listeners = 1\<rparr>"
  using executor_configuration [OF sample_node, of "[]"] by simp

end
