(* ===== verification/Scallop_Stream.thy ===== *)
theory Scallop_Stream
  imports Oyster_Prelude
begin

text \<open>
  The encrypted stream of the Rust SDK, from \<open>sdks/rs/src/scallop.rs\<close>: the state of a \<open>ScallopStream\<close>, its
  \<open>poll_read\<close>, \<open>poll_write\<close>, \<open>poll_flush\<close> and \<open>poll_shutdown\<close>, and a connection of two of them.

  The transport state of \<open>snow\<close> is a type of its own, with its operations in the record \<open>noiser\<close>: an operation
  takes a payload and the buffer the message goes to, and returns the number of bytes written, or an error, with
  the new state and buffer. The base stream is the record \<open>base_io\<close>: its operations act on a state which is
  passed beside the one of the stream, so that the two ends of a connection can share it. A read of the base
  returns the bytes it puts into the buffer, of which it is given the size.

  \<open>None\<close> is a panic, or a call that never returns. Of the waker that comes with every call nothing is modelled.
\<close>

section \<open>The libraries\<close>

datatype 'a poll = Pending | Ready 'a

record 'n noiser =
  read_message :: "'n \<Rightarrow> bytes \<Rightarrow> bytes \<Rightarrow> 'n \<times> bytes \<times> nat rust_result"
  write_message :: "'n \<Rightarrow> bytes \<Rightarrow> bytes \<Rightarrow> 'n \<times> bytes \<times> nat rust_result"

record 's base_io =
  base_read :: "'s \<Rightarrow> nat \<Rightarrow> 's \<times> bytes rust_result poll"
  base_write :: "'s \<Rightarrow> bytes \<Rightarrow> 's \<times> nat rust_result poll"
  base_flush :: "'s \<Rightarrow> 's \<times> unit rust_result poll"
  base_shutdown :: "'s \<Rightarrow> 's \<times> unit rust_result poll"

section \<open>The stream\<close>

datatype read_mode = ModeLength | ModeBody | ModeRead

record 'n scallop_stream =
  noise :: 'n
  rbuf :: bytes
  pending :: nat
  mode :: read_mode
  read_end :: nat
  read_start :: nat
  wbuf :: bytes
  write_start :: nat
  write_end :: nat

text \<open>The stream both handshakes end with.\<close>

definition fresh_stream :: "'n \<Rightarrow> 'n scallop_stream" where
  "fresh_stream n =
     \<lparr>noise = n, rbuf = replicate 2 0, pending = 2, mode = ModeLength, read_end = 0, read_start = 0,
      wbuf = [], write_start = 0, write_end = 0\<rparr>"

text \<open>\<open>copy_from_slice\<close> and the fill of a \<open>ReadBuf\<close>: bytes written over a buffer from a position on.\<close>

definition overwrite :: "'a list \<Rightarrow> nat \<Rightarrow> 'a list \<Rightarrow> 'a list" where
  "overwrite xs i ys = take i xs @ ys @ drop (i + length ys) xs"

definition usize_sub :: "nat \<Rightarrow> nat \<Rightarrow> nat" where
  "usize_sub a b = (if b \<le> a then a - b else 2 ^ 64 + a - b)"

subsection \<open>Reading\<close>

text \<open>
  The loop that fills the read buffer. It ends with the answer of \<open>poll_read\<close>, or with \<open>None\<close> when nothing is
  pending any more. A base stream cannot put more into a \<open>ReadBuf\<close> than it has room for.
\<close>

function fill_rbuf ::
  "'s base_io \<Rightarrow> 'n scallop_stream \<Rightarrow> 's \<Rightarrow> ('n scallop_stream \<times> 's \<times> bytes rust_result poll option) option"
where
  "fill_rbuf io st s =
     (if pending st = 0 then Some (st, s, None)
      else if length (rbuf st) < pending st then None
      else
        case base_read io s (pending st) of
          (s', Pending) \<Rightarrow> Some (st, s', Some Pending)
        | (s', Ready (Inl e)) \<Rightarrow> Some (st, s', Some (Ready (Inl e)))
        | (s', Ready (Inr d)) \<Rightarrow>
            if d = [] then Some (st, s', Some (Ready (Inr [])))
            else if pending st < length d then None
            else fill_rbuf io (st\<lparr>rbuf := overwrite (rbuf st) (length (rbuf st) - pending st) d,
                                 pending := pending st - length d\<rparr>) s')"
  by pat_completeness auto
termination
  by (relation "measure (\<lambda>(io, st, s). pending st)") auto

declare fill_rbuf.simps [simp del]

fun mode_rank :: "read_mode \<Rightarrow> nat" where
  "mode_rank ModeLength = 2"
| "mode_rank ModeBody = 1"
| "mode_rank ModeRead = 0"

lemma fill_rbuf_cases:
  assumes "fill_rbuf io st s = Some (st', s', r)"
  obtains
    (full) "pending st = 0" "st' = st" "s' = s" "r = None"
  | (stopped) a where "0 < pending st" "pending st \<le> length (rbuf st)" "base_read io s (pending st) = (s', a)"
      "st' = st" "r = Some a" "\<forall>d. a \<noteq> Ready (Inr d) \<or> d = []"
  | (more) s1 d where "0 < pending st" "pending st \<le> length (rbuf st)"
      "base_read io s (pending st) = (s1, Ready (Inr d))" "d \<noteq> []" "length d \<le> pending st"
      "fill_rbuf io (st\<lparr>rbuf := overwrite (rbuf st) (length (rbuf st) - pending st) d,
                     pending := pending st - length d\<rparr>) s1 = Some (st', s', r)"
  using assms
  by (subst (asm) fill_rbuf.simps) (auto split: if_splits prod.splits poll.splits sum.splits)

text \<open>What holds at the start and is kept by every turn holds at the end.\<close>

lemma fill_rbuf_induct:
  assumes ret: "fill_rbuf io st s = Some (st', s', r)" and start: "P st s"
    and more: "\<And>st s s1 d. P st s \<Longrightarrow> 0 < pending st \<Longrightarrow> pending st \<le> length (rbuf st) \<Longrightarrow>
       base_read io s (pending st) = (s1, Ready (Inr d)) \<Longrightarrow> d \<noteq> [] \<Longrightarrow> length d \<le> pending st \<Longrightarrow>
       P (st\<lparr>rbuf := overwrite (rbuf st) (length (rbuf st) - pending st) d, pending := pending st - length d\<rparr>) s1"
    and stopped: "\<And>s a. P st' s \<Longrightarrow> 0 < pending st' \<Longrightarrow> base_read io s (pending st') = (s', a) \<Longrightarrow>
       \<forall>d. a \<noteq> Ready (Inr d) \<or> d = [] \<Longrightarrow> P st' s'"
  shows "P st' s' \<and> (r = None \<longrightarrow> pending st' = 0) \<and> (\<forall>a. r = Some a \<longrightarrow> 0 < pending st')"
  using ret start
proof (induction "pending st" arbitrary: st s rule: less_induct)
  case less
  from less.prems(1) show ?case
  proof (cases rule: fill_rbuf_cases)
    case full
    with less.prems(2) show ?thesis by simp
  next
    case (stopped a)
    with less.prems(2) assms(4) show ?thesis by auto
  next
    case (more s1 d)
    with less.prems(2) assms(3)
    have "P (st\<lparr>rbuf := overwrite (rbuf st) (length (rbuf st) - pending st) d,
               pending := pending st - length d\<rparr>) s1"
      by blast
    moreover from more have "pending st - length d < pending st" by simp
    ultimately show ?thesis by (intro less.hyps [OF _ more(6)]) simp_all
  qed
qed

lemma fill_rbuf_keeps:
  "fill_rbuf io st s = Some (st', s', r) \<Longrightarrow>
   mode st' = mode st \<and> noise st' = noise st \<and> read_start st' = read_start st \<and> read_end st' = read_end st
   \<and> wbuf st' = wbuf st \<and> write_start st' = write_start st \<and> write_end st' = write_end st"
  by (drule fill_rbuf_induct [where P = "\<lambda>x s. mode x = mode st \<and> noise x = noise st
        \<and> read_start x = read_start st \<and> read_end x = read_end st \<and> wbuf x = wbuf st
        \<and> write_start x = write_start st \<and> write_end x = write_end st"]) auto

text \<open>\<open>poll_read\<close> with room for \<open>room\<close> bytes in the buffer of the caller; the answer carries the bytes put.\<close>

function poll_read ::
  "'n noiser \<Rightarrow> 's base_io \<Rightarrow> 'n scallop_stream \<Rightarrow> 's \<Rightarrow> nat
     \<Rightarrow> ('n scallop_stream \<times> 's \<times> bytes rust_result poll) option"
where
  "poll_read lib io st s room =
     (case fill_rbuf io st s of None \<Rightarrow> None
      | Some (st, s, Some answer) \<Rightarrow> Some (st, s, answer)
      | Some (st, s, None) \<Rightarrow>
          (case mode st of
             ModeLength \<Rightarrow>
               (if length (rbuf st) < 2 then None
                else
                  let record_length = unat (u16_from_be_bytes (rbuf st ! 0) (rbuf st ! 1))
                  in poll_read lib io
                       (st\<lparr>pending := record_length, mode := ModeBody, rbuf := replicate record_length 0\<rparr>)
                       s room)
           | ModeBody \<Rightarrow>
               (case read_message lib (noise st) (rbuf st) (rbuf st) of
                  (n, dst, Inl e) \<Rightarrow> Some (st\<lparr>noise := n, rbuf := dst\<rparr>, s, Ready (Inl e))
                | (n, dst, Inr len) \<Rightarrow>
                    poll_read lib io
                      (st\<lparr>noise := n, rbuf := dst, read_start := 0, read_end := len, mode := ModeRead\<rparr>)
                      s room)
           | ModeRead \<Rightarrow>
               (if room < usize_sub (read_end st) (read_start st)
                then
                  case vslice (rbuf st) (read_start st) (read_start st + room) of None \<Rightarrow> None
                  | Some d \<Rightarrow> Some (st\<lparr>read_start := read_start st + room\<rparr>, s, Ready (Inr d))
                else
                  case vslice (rbuf st) (read_start st) (read_end st) of None \<Rightarrow> None
                  | Some d \<Rightarrow>
                      Some (st\<lparr>rbuf := replicate 2 0, pending := 2, mode := ModeLength\<rparr>, s, Ready (Inr d)))))"
  by pat_completeness auto
termination
  by (relation "measure (\<lambda>(lib, io, st, s, room). mode_rank (mode st))") (auto dest!: fill_rbuf_keeps)

declare poll_read.simps [simp del]

subsection \<open>Writing\<close>

text \<open>The loop of \<open>poll_flush\<close> goes on for as long as the base stream accepts nothing.\<close>

partial_function (option) poll_flush ::
  "'s base_io \<Rightarrow> 'n scallop_stream \<Rightarrow> 's \<Rightarrow> ('n scallop_stream \<times> 's \<times> unit rust_result poll) option"
where
  "poll_flush io st s =
     (if write_start st = write_end st
      then case base_flush io s of (s', answer) \<Rightarrow> Some (st, s', answer)
      else
        case vslice (wbuf st) (write_start st) (write_end st) of None \<Rightarrow> None
        | Some d \<Rightarrow>
            (case base_write io s d of
               (s', Pending) \<Rightarrow> Some (st, s', Pending)
             | (s', Ready (Inl e)) \<Rightarrow> Some (st, s', Ready (Inl e))
             | (s', Ready (Inr k)) \<Rightarrow> poll_flush io (st\<lparr>write_start := write_start st + k\<rparr>) s'))"

declare poll_flush.simps [code]

text \<open>A buffer that keeps two bytes for the length, and the message after it.\<close>

definition record_buffer :: "nat \<Rightarrow> bytes \<Rightarrow> bytes" where
  "record_buffer noise_len dst = u16_to_be_bytes (of_nat noise_len) @ dst"

definition poll_write ::
  "'n noiser \<Rightarrow> 's base_io \<Rightarrow> 'n scallop_stream \<Rightarrow> 's \<Rightarrow> bytes
     \<Rightarrow> ('n scallop_stream \<times> 's \<times> nat rust_result poll) option"
where
  "poll_write lib io st s buf =
     (case poll_flush io st s of None \<Rightarrow> None
      | Some (st, s, Pending) \<Rightarrow> Some (st, s, Pending)
      | Some (st, s, Ready (Inl e)) \<Rightarrow> Some (st, s, Ready (Inl e))
      | Some (st, s, Ready (Inr _)) \<Rightarrow>
          (let len = min (length buf) 64000;
               new_buf = replicate (len + 1000) 0
           in case write_message lib (noise st) (take len buf) (drop 2 new_buf) of
                (n, dst, Inl e) \<Rightarrow> Some (st\<lparr>noise := n\<rparr>, s, Ready (Inl e))
              | (n, dst, Inr noise_len) \<Rightarrow>
                  Some (st\<lparr>noise := n, wbuf := record_buffer noise_len dst, write_start := 0,
                          write_end := noise_len + 2\<rparr>, s, Ready (Inr len))))"

definition poll_shutdown ::
  "'s base_io \<Rightarrow> 'n scallop_stream \<Rightarrow> 's \<Rightarrow> ('n scallop_stream \<times> 's \<times> unit rust_result poll) option"
where
  "poll_shutdown io st s =
     (case poll_flush io st s of None \<Rightarrow> None
      | Some (st, s, Pending) \<Rightarrow> Some (st, s, Pending)
      | Some (st, s, Ready (Inl e)) \<Rightarrow> Some (st, s, Ready (Inl e))
      | Some (st, s, Ready (Inr _)) \<Rightarrow> (case base_shutdown io s of (s', answer) \<Rightarrow> Some (st, s', answer)))"

section \<open>What the libraries promise\<close>

datatype side = Client | Server

fun peer :: "side \<Rightarrow> side" where
  "peer Client = Server"
| "peer Server = Client"

lemma peer_peer [simp]: "peer (peer d) = d"
  by (cases d) simp_all

lemma peer_neq [simp]: "peer d \<noteq> d" "d \<noteq> peer d"
  by (cases d, simp_all)+

text \<open>
  The transport of \<open>snow\<close>: \<open>in_sync a fl b\<close> says that \<open>fl\<close> are the messages, with their ciphertexts, which the
  state \<open>a\<close> wrote and \<open>b\<close> has not read yet. A write adds a message, a tag of 16 bytes longer and below 64 KiB,
  or fails and adds none; the first of them is read back when it comes next; the other direction is independent.
\<close>

definition noise_channel :: "'n noiser \<Rightarrow> ('n \<Rightarrow> (bytes \<times> bytes) list \<Rightarrow> 'n \<Rightarrow> bool) \<Rightarrow> bool" where
  "noise_channel lib in_sync \<longleftrightarrow>
     (\<forall>a fl b m dst a' dst' r. in_sync a fl b \<longrightarrow> write_message lib a m dst = (a', dst', r) \<longrightarrow>
        length dst' = length dst \<and>
        (case r of Inl _ \<Rightarrow> in_sync a' fl b
         | Inr n \<Rightarrow> n = length m + 16 \<and> n \<le> length dst \<and> n < 65536 \<and> in_sync a' (fl @ [(m, take n dst')]) b)) \<and>
     (\<forall>a m c fl b dst b' dst' r. in_sync a ((m, c) # fl) b \<longrightarrow> length c \<le> length dst \<longrightarrow>
        read_message lib b c dst = (b', dst', r) \<longrightarrow>
        r = Inr (length m) \<and> length m \<le> length dst \<and> length dst' = length dst \<and> take (length m) dst' = m \<and>
        in_sync a fl b') \<and>
     (\<forall>a fl b p dst. in_sync a fl b \<longrightarrow> in_sync (fst (read_message lib a p dst)) fl b) \<and>
     (\<forall>a fl b p dst. in_sync a fl b \<longrightarrow> in_sync a fl (fst (write_message lib b p dst)))"

text \<open>A base stream between two sides: \<open>wire d s\<close> are the bytes side \<open>d\<close> sent and its peer did not read.\<close>

definition duplex :: "(side \<Rightarrow> 's base_io) \<Rightarrow> (side \<Rightarrow> 's \<Rightarrow> bytes) \<Rightarrow> bool" where
  "duplex io wire \<longleftrightarrow>
     (\<forall>d s n s' a. base_read (io d) s n = (s', a) \<longrightarrow>
        wire d s' = wire d s \<and>
        (\<forall>x. a = Ready (Inr x) \<longrightarrow> length x \<le> n \<and> wire (peer d) s = x @ wire (peer d) s') \<and>
        ((\<forall>x. a \<noteq> Ready (Inr x)) \<longrightarrow> wire (peer d) s' = wire (peer d) s)) \<and>
     (\<forall>d s x s' a. base_write (io d) s x = (s', a) \<longrightarrow>
        wire (peer d) s' = wire (peer d) s \<and>
        (\<forall>k. a = Ready (Inr k) \<longrightarrow> k \<le> length x \<and> wire d s' = wire d s @ take k x) \<and>
        ((\<forall>k. a \<noteq> Ready (Inr k)) \<longrightarrow> wire d s' = wire d s)) \<and>
     (\<forall>d e s. wire e (fst (base_flush (io d) s)) = wire e s \<and> wire e (fst (base_shutdown (io d) s)) = wire e s)"

text \<open>A base stream that accepts at least a byte when it answers a write.\<close>

definition accepts_bytes :: "'s base_io \<Rightarrow> bool" where
  "accepts_bytes io \<longleftrightarrow>
     (\<forall>s x s' k. x \<noteq> [] \<longrightarrow> base_write io s x = (s', Ready (Inr k)) \<longrightarrow> 0 < k \<and> k \<le> length x)"

section \<open>A connection\<close>

record ('n, 's) connection =
  ends :: "side \<Rightarrow> 'n scallop_stream"
  pipe :: 's
  accepted :: "side \<Rightarrow> bytes"
  received :: "side \<Rightarrow> bytes"

datatype call = CallRead nat | CallWrite bytes | CallFlush | CallShutdown

fun bytes_read :: "bytes rust_result poll \<Rightarrow> bytes" where
  "bytes_read (Ready (Inr d)) = d"
| "bytes_read _ = []"

fun bytes_taken :: "bytes \<Rightarrow> nat rust_result poll \<Rightarrow> bytes" where
  "bytes_taken buf (Ready (Inr k)) = take k buf"
| "bytes_taken buf _ = []"

definition new_connection :: "'n \<Rightarrow> 'n \<Rightarrow> 's \<Rightarrow> ('n, 's) connection" where
  "new_connection a b s =
     \<lparr>ends = (\<lambda>d. fresh_stream (case d of Client \<Rightarrow> a | Server \<Rightarrow> b)), pipe = s, accepted = (\<lambda>_. []),
      received = (\<lambda>_. [])\<rparr>"

definition connection_step ::
  "'n noiser \<Rightarrow> (side \<Rightarrow> 's base_io) \<Rightarrow> ('n, 's) connection \<Rightarrow> side \<times> call \<Rightarrow> ('n, 's) connection option"
where
  "connection_step lib io c e =
     (case e of (d, call) \<Rightarrow>
        (case call of
           CallRead room \<Rightarrow>
             (case poll_read lib (io d) (ends c d) (pipe c) room of None \<Rightarrow> None
              | Some (st, s, answer) \<Rightarrow>
                  Some (c\<lparr>ends := (ends c)(d := st), pipe := s,
                          received := (received c)(d := received c d @ bytes_read answer)\<rparr>))
         | CallWrite buf \<Rightarrow>
             (case poll_write lib (io d) (ends c d) (pipe c) buf of None \<Rightarrow> None
              | Some (st, s, answer) \<Rightarrow>
                  Some (c\<lparr>ends := (ends c)(d := st), pipe := s,
                          accepted := (accepted c)(d := accepted c d @ bytes_taken buf answer)\<rparr>))
         | CallFlush \<Rightarrow>
             (case poll_flush (io d) (ends c d) (pipe c) of None \<Rightarrow> None
              | Some (st, s, answer) \<Rightarrow> Some (c\<lparr>ends := (ends c)(d := st), pipe := s\<rparr>))
         | CallShutdown \<Rightarrow>
             (case poll_shutdown (io d) (ends c d) (pipe c) of None \<Rightarrow> None
              | Some (st, s, answer) \<Rightarrow> Some (c\<lparr>ends := (ends c)(d := st), pipe := s\<rparr>))))"

section \<open>The invariant of a direction\<close>

text \<open>What is queued for writing, what was read of the current record, what is decrypted and not delivered.\<close>

definition unsent :: "'n scallop_stream \<Rightarrow> bytes" where
  "unsent st = take (write_end st - write_start st) (drop (write_start st) (wbuf st))"

definition got :: "'n scallop_stream \<Rightarrow> bytes" where
  "got st = take (length (rbuf st) - pending st) (rbuf st)"

definition undelivered :: "'n scallop_stream \<Rightarrow> bytes" where
  "undelivered st =
     (if mode st = ModeRead then take (read_end st - read_start st) (drop (read_start st) (rbuf st)) else [])"

definition record_bytes :: "bytes \<times> bytes \<Rightarrow> bytes" where
  "record_bytes mc = u16_to_be_bytes (of_nat (length (snd mc))) @ snd mc"

definition writer_inv :: "'n scallop_stream \<Rightarrow> bool" where
  "writer_inv st \<longleftrightarrow> write_start st \<le> write_end st \<and> write_end st \<le> length (wbuf st)"

definition reader_inv :: "'n scallop_stream \<Rightarrow> (bytes \<times> bytes) list \<Rightarrow> bytes \<Rightarrow> bool" where
  "reader_inv st fl rest \<longleftrightarrow>
     (case mode st of
        ModeLength \<Rightarrow> length (rbuf st) = 2 \<and> pending st \<le> 2 \<and> got st @ rest = concat (map record_bytes fl)
      | ModeBody \<Rightarrow> (\<exists>m c fl'. fl = (m, c) # fl' \<and> length (rbuf st) = length c \<and> pending st \<le> length c \<and>
                       got st @ rest = c @ concat (map record_bytes fl'))
      | ModeRead \<Rightarrow> pending st = 0 \<and> read_start st \<le> read_end st \<and> read_end st \<le> length (rbuf st) \<and>
                     rest = concat (map record_bytes fl))"

text \<open>\<open>coming in_sync a st rest t\<close>: with the bytes \<open>rest\<close> on their way to it, the reader will deliver \<open>t\<close>.\<close>

definition coming ::
  "('n \<Rightarrow> (bytes \<times> bytes) list \<Rightarrow> 'n \<Rightarrow> bool) \<Rightarrow> 'n \<Rightarrow> 'n scallop_stream \<Rightarrow> bytes \<Rightarrow> bytes \<Rightarrow> bool"
where
  "coming in_sync a st rest t \<longleftrightarrow>
     (\<exists>fl. in_sync a fl (noise st) \<and> (\<forall>mc \<in> set fl. length (snd mc) < 65536) \<and>
           t = undelivered st @ concat (map fst fl) \<and> reader_inv st fl rest)"

lemma comingI:
  "in_sync a fl (noise st) \<Longrightarrow> \<forall>mc \<in> set fl. length (snd mc) < 65536 \<Longrightarrow>
   t = undelivered st @ concat (map fst fl) \<Longrightarrow> reader_inv st fl rest \<Longrightarrow> coming in_sync a st rest t"
  by (auto simp: coming_def)

lemma record_header:
  assumes "length c < 65536"
  shows "unat (u16_from_be_bytes (record_bytes (m, c) ! 0) (record_bytes (m, c) ! 1)) = length c"
proof -
  have "unat (of_nat (length c) :: u16) = length c"
    using assms by (simp add: unat_of_nat take_bit_nat_eq_self)
  then show ?thesis by (simp add: record_bytes_def u16_to_be_bytes_def u16_be_roundtrip)
qed

lemma overwrite_fill:
  assumes "0 < p" "p \<le> length xs" "length d \<le> p"
  shows "length (overwrite xs (length xs - p) d) = length xs"
    and "take (length xs - (p - length d)) (overwrite xs (length xs - p) d) = take (length xs - p) xs @ d"
proof -
  have "length xs - (p - length d) = length xs - p + length d" using assms by simp
  with assms show "take (length xs - (p - length d)) (overwrite xs (length xs - p) d) = take (length xs - p) xs @ d"
    by (simp add: overwrite_def)
  show "length (overwrite xs (length xs - p) d) = length xs" using assms by (simp add: overwrite_def)
qed

subsection \<open>Reading keeps it\<close>

lemma duplex_read:
  assumes "duplex io wire" "base_read (io d) s n = (s', a)"
  shows "wire d s' = wire d s" "a = Ready (Inr x) \<Longrightarrow> length x \<le> n"
    "wire (peer d) s = bytes_read a @ wire (peer d) s'"
proof -
  from assms have *: "wire d s' = wire d s \<and>
      (\<forall>x. a = Ready (Inr x) \<longrightarrow> length x \<le> n \<and> wire (peer d) s = x @ wire (peer d) s') \<and>
      ((\<forall>x. a \<noteq> Ready (Inr x)) \<longrightarrow> wire (peer d) s' = wire (peer d) s)"
    unfolding duplex_def by simp
  then show "wire d s' = wire d s" "a = Ready (Inr x) \<Longrightarrow> length x \<le> n" by auto
  from * show "wire (peer d) s = bytes_read a @ wire (peer d) s'"
    by (cases a rule: bytes_read.cases) auto
qed

lemma duplex_write:
  assumes "duplex io wire" "base_write (io d) s x = (s', a)"
  shows "wire (peer d) s' = wire (peer d) s" "a = Ready (Inr k) \<Longrightarrow> k \<le> length x"
    "wire d s' = wire d s @ bytes_taken x a"
proof -
  from assms have *: "wire (peer d) s' = wire (peer d) s \<and>
      (\<forall>k. a = Ready (Inr k) \<longrightarrow> k \<le> length x \<and> wire d s' = wire d s @ take k x) \<and>
      ((\<forall>k. a \<noteq> Ready (Inr k)) \<longrightarrow> wire d s' = wire d s)"
    unfolding duplex_def by simp
  then show "wire (peer d) s' = wire (peer d) s" "a = Ready (Inr k) \<Longrightarrow> k \<le> length x" by auto
  from * show "wire d s' = wire d s @ bytes_taken x a"
    by (cases "(x, a)" rule: bytes_taken.cases) simp_all
qed

lemma duplex_quiet:
  assumes "duplex io wire"
  shows "base_flush (io d) s = (s', a) \<Longrightarrow> wire e s' = wire e s"
    and "base_shutdown (io d) s = (s', b) \<Longrightarrow> wire e s' = wire e s"
proof -
  from assms have *: "\<forall>d e s. wire e (fst (base_flush (io d) s)) = wire e s \<and>
      wire e (fst (base_shutdown (io d) s)) = wire e s"
    unfolding duplex_def by simp
  show "base_flush (io d) s = (s', a) \<Longrightarrow> wire e s' = wire e s"
    using * [THEN spec [of _ d], THEN spec [of _ e], THEN spec [of _ s]] by simp
  show "base_shutdown (io d) s = (s', b) \<Longrightarrow> wire e s' = wire e s"
    using * [THEN spec [of _ d], THEN spec [of _ e], THEN spec [of _ s]] by simp
qed

lemma fill_rbuf_total:
  assumes dup: "duplex io wire" and "pending st \<le> length (rbuf st)"
  shows "\<exists>st' s' r. fill_rbuf (io d) st s = Some (st', s', r)"
  using assms(2)
proof (induction "pending st" arbitrary: st s rule: less_induct)
  case less
  obtain s1 a where read: "base_read (io d) s (pending st) = (s1, a)" by fastforce
  show ?case
  proof (cases "pending st = 0 \<or> (\<forall>x. a \<noteq> Ready (Inr x) \<or> x = [])")
    case True
    with less.prems read show ?thesis
      by (subst fill_rbuf.simps) (auto split: poll.splits sum.splits)
  next
    case False
    then obtain x where x: "a = Ready (Inr x)" "x \<noteq> []" "0 < pending st" by auto
    let ?st = "st\<lparr>rbuf := overwrite (rbuf st) (length (rbuf st) - pending st) x,
                 pending := pending st - length x\<rparr>"
    have le: "length x \<le> pending st" using dup read x(1) by (auto dest: duplex_read(2))
    with x less.prems have "pending ?st < pending st" "pending ?st \<le> length (rbuf ?st)"
      by (auto simp: overwrite_fill(1))
    then have "\<exists>st' s' r. fill_rbuf (io d) ?st s1 = Some (st', s', r)" by (rule less.hyps)
    with x read le less.prems show ?thesis by (subst fill_rbuf.simps) (simp add: not_less [symmetric])
  qed
qed

lemma reader_inv_fill:
  assumes "reader_inv st fl (x @ rest)" "0 < pending st" "x \<noteq> []" "length x \<le> pending st"
  shows "reader_inv (st\<lparr>rbuf := overwrite (rbuf st) (length (rbuf st) - pending st) x,
                       pending := pending st - length x\<rparr>) fl rest" (is "reader_inv ?st fl rest")
proof -
  have le: "pending st \<le> length (rbuf st)"
    using assms(1,2) by (auto simp: reader_inv_def split: read_mode.splits)
  then have "got ?st = got st @ x" and "length (rbuf ?st) = length (rbuf st)"
    using overwrite_fill [OF assms(2) le assms(4)] by (simp_all add: got_def)
  then show ?thesis using assms by (auto simp: reader_inv_def split: read_mode.splits)
qed

text \<open>Filling the buffer moves bytes of the wire to what the reader has got.\<close>

lemma fill_rbuf_exact:
  assumes dup: "duplex io wire" and inv: "reader_inv st fl (wire (peer d) s @ u)"
    and ret: "fill_rbuf (io d) st s = Some (st', s', r)"
  shows "reader_inv st' fl (wire (peer d) s' @ u) \<and> wire d s' = wire d s"
    and "r = None \<Longrightarrow> pending st' = 0"
    and "r = Some a \<Longrightarrow> bytes_read a = []"
    and "r = Some a \<Longrightarrow> undelivered st' = [] \<and> undelivered st = []"
proof -
  let ?P = "\<lambda>x y. reader_inv x fl (wire (peer d) y @ u) \<and> wire d y = wire d s"
  have *: "?P st' s' \<and> (r = None \<longrightarrow> pending st' = 0) \<and> (\<forall>a. r = Some a \<longrightarrow> 0 < pending st')"
  proof (rule fill_rbuf_induct [where P = ?P, OF ret])
    show "?P st s" using inv by simp
  next
    fix x y y1 z
    assume P: "?P x y" and n: "0 < pending x" and z: "z \<noteq> []" "length z \<le> pending x"
      and read: "base_read (io d) y (pending x) = (y1, Ready (Inr z))"
    from duplex_read(3) [OF dup read] have w: "wire (peer d) y = z @ wire (peer d) y1" by simp
    with P have "reader_inv x fl (z @ (wire (peer d) y1 @ u))" by simp
    from reader_inv_fill [OF this n z] duplex_read(1) [OF dup read] P
    show "?P (x\<lparr>rbuf := overwrite (rbuf x) (length (rbuf x) - pending x) z, pending := pending x - length z\<rparr>) y1"
      by simp
  next
    fix y b
    assume P: "?P st' y" and read: "base_read (io d) y (pending st') = (s', b)"
      and b: "\<forall>z. b \<noteq> Ready (Inr z) \<or> z = []"
    have "bytes_read b = []" using b by (cases b rule: bytes_read.cases) auto
    with duplex_read(1,3) [OF dup read] P show "?P st' s'" by simp
  qed
  then show "reader_inv st' fl (wire (peer d) s' @ u) \<and> wire d s' = wire d s" by blast
  show "r = None \<Longrightarrow> pending st' = 0" using * by blast
  show "bytes_read a = []" if "r = Some a"
    using ret that
  proof (induction "pending st" arbitrary: st s rule: less_induct)
    case less
    from less.prems(1) show ?case
    proof (cases rule: fill_rbuf_cases)
      case full
      with less.prems show ?thesis by simp
    next
      case (stopped b)
      with less.prems show ?thesis by (cases a rule: bytes_read.cases) auto
    next
      case (more s1 z)
      have "pending st - length z < pending st" using more by simp
      then show ?thesis by (intro less.hyps [OF _ more(6) less.prems(2)]) simp_all
    qed
  qed
  assume "r = Some a"
  with * have "0 < pending st'" "reader_inv st' fl (wire (peer d) s' @ u)" by auto
  then have "mode st' \<noteq> ModeRead" by (auto simp: reader_inv_def)
  with fill_rbuf_keeps [OF ret] show "undelivered st' = [] \<and> undelivered st = []"
    by (simp add: undelivered_def)
qed

lemma noise_reads:
  assumes "noise_channel lib in_sync" "in_sync a ((m, c) # fl) b" "length c \<le> length dst"
    "read_message lib b c dst = (b', dst', r)"
  shows "r = Inr (length m)" "length m \<le> length dst" "length dst' = length dst" "take (length m) dst' = m"
    "in_sync a fl b'"
  using assms(1) [unfolded noise_channel_def, THEN conjunct2, THEN conjunct1] assms(2-) by blast+

lemma noise_writes:
  assumes "noise_channel lib in_sync" "in_sync a fl b" "write_message lib a m dst = (a', dst', r)"
  shows "length dst' = length dst"
    and "r = Inl e \<Longrightarrow> in_sync a' fl b"
    and "r = Inr n \<Longrightarrow> n = length m + 16 \<and> n \<le> length dst \<and> n < 65536 \<and> in_sync a' (fl @ [(m, take n dst')]) b"
proof -
  from assms(1) [unfolded noise_channel_def, THEN conjunct1] assms(2,3)
  have *: "length dst' = length dst \<and>
        (case r of Inl _ \<Rightarrow> in_sync a' fl b
         | Inr n \<Rightarrow> n = length m + 16 \<and> n \<le> length dst \<and> n < 65536 \<and> in_sync a' (fl @ [(m, take n dst')]) b)"
    by blast
  then show "length dst' = length dst" by simp
  from * show "r = Inl e \<Longrightarrow> in_sync a' fl b" by simp
  assume r: "r = Inr n"
  from * show "n = length m + 16 \<and> n \<le> length dst \<and> n < 65536 \<and> in_sync a' (fl @ [(m, take n dst')]) b"
    unfolding r sum.case by blast
qed

lemma noise_independent:
  assumes "noise_channel lib in_sync" "in_sync a fl b"
  shows "read_message lib a p dst = (a', x) \<Longrightarrow> in_sync a' fl b"
    and "write_message lib b p dst = (b', y) \<Longrightarrow> in_sync a fl b'"
proof -
  from assms(1) [unfolded noise_channel_def, THEN conjunct2, THEN conjunct2, THEN conjunct1] assms(2)
  show "read_message lib a p dst = (a', x) \<Longrightarrow> in_sync a' fl b" by (metis fst_conv)
  from assms(1) [unfolded noise_channel_def, THEN conjunct2, THEN conjunct2, THEN conjunct2] assms(2)
  show "write_message lib b p dst = (b', y) \<Longrightarrow> in_sync a fl b'" by (metis fst_conv)
qed

text \<open>A reader whose buffer is full goes on as if the call started there.\<close>

lemma poll_read_filled:
  assumes "fill_rbuf io st s = Some (st1, s1, None)" "pending st1 = 0"
  shows "poll_read lib io st s room = poll_read lib io st1 s1 room"
proof -
  have "fill_rbuf io st1 s1 = Some (st1, s1, None)" using assms(2) by (subst fill_rbuf.simps) simp
  with assms(1) show ?thesis by (subst (1 2) poll_read.simps) simp
qed

lemma poll_read_full:
  assumes "pending st = 0"
  shows "poll_read lib io st s room =
     (case mode st of
             ModeLength \<Rightarrow>
               (if length (rbuf st) < 2 then None
                else
                  let record_length = unat (u16_from_be_bytes (rbuf st ! 0) (rbuf st ! 1))
                  in poll_read lib io
                       (st\<lparr>pending := record_length, mode := ModeBody, rbuf := replicate record_length 0\<rparr>)
                       s room)
           | ModeBody \<Rightarrow>
               (case read_message lib (noise st) (rbuf st) (rbuf st) of
                  (n, dst, Inl e) \<Rightarrow> Some (st\<lparr>noise := n, rbuf := dst\<rparr>, s, Ready (Inl e))
                | (n, dst, Inr len) \<Rightarrow>
                    poll_read lib io
                      (st\<lparr>noise := n, rbuf := dst, read_start := 0, read_end := len, mode := ModeRead\<rparr>)
                      s room)
           | ModeRead \<Rightarrow>
               (if room < usize_sub (read_end st) (read_start st)
                then
                  case vslice (rbuf st) (read_start st) (read_start st + room) of None \<Rightarrow> None
                  | Some d \<Rightarrow> Some (st\<lparr>read_start := read_start st + room\<rparr>, s, Ready (Inr d))
                else
                  case vslice (rbuf st) (read_start st) (read_end st) of None \<Rightarrow> None
                  | Some d \<Rightarrow>
                      Some (st\<lparr>rbuf := replicate 2 0, pending := 2, mode := ModeLength\<rparr>, s, Ready (Inr d))))"
  using assms by (subst poll_read.simps) (simp add: fill_rbuf.simps)

text \<open>
  \<open>reads_exactly\<close>: the call returns, what it gives to its caller is the front of what is coming, and it
  leaves the writing side of the stream as it is.
\<close>

definition reads_exactly where
  "reads_exactly lib io wire in_sync a u d room st s t \<longleftrightarrow>
     (\<exists>st' s' r t'. poll_read lib (io d) st s room = Some (st', s', r) \<and>
        coming in_sync a st' (wire (peer d) s' @ u) t' \<and> t = bytes_read r @ t' \<and> length (bytes_read r) \<le> room \<and>
        wire d s' = wire d s \<and> unsent st' = unsent st \<and> writer_inv st' = writer_inv st \<and>
        (\<forall>fl b. in_sync (noise st) fl b \<longrightarrow> in_sync (noise st') fl b))"

lemma reads_exactly_next:
  assumes "poll_read lib (io d) st s room = poll_read lib (io d) st1 s1 room"
    "wire d s1 = wire d s" "wbuf st1 = wbuf st" "write_start st1 = write_start st" "write_end st1 = write_end st"
    "\<And>fl b. in_sync (noise st) fl b \<Longrightarrow> in_sync (noise st1) fl b"
    "reads_exactly lib io wire in_sync a u d room st1 s1 t"
  shows "reads_exactly lib io wire in_sync a u d room st s t"
proof -
  have "unsent st1 = unsent st" "writer_inv st1 = writer_inv st"
    using assms(3-5) by (simp_all add: unsent_def writer_inv_def)
  with assms show ?thesis unfolding reads_exactly_def by metis
qed

lemma header_of_record:
  assumes "concat (map record_bytes fl) = xs @ rest" "length xs = 2" "\<forall>mc \<in> set fl. length (snd mc) < 65536"
  obtains m c fl' where "fl = (m, c) # fl'" "rest = c @ concat (map record_bytes fl')"
    "unat (u16_from_be_bytes (xs ! 0) (xs ! 1)) = length c"
proof -
  from assms(1,2) have "fl \<noteq> []" by auto
  then obtain m c fl' where fl: "fl = (m, c) # fl'" by (metis list.exhaust surj_pair)
  with assms(1) have "u16_to_be_bytes (of_nat (length c)) @ (c @ concat (map record_bytes fl')) = xs @ rest"
    by (simp add: record_bytes_def)
  with assms(2) have "u16_to_be_bytes (of_nat (length c)) = xs" "rest = c @ concat (map record_bytes fl')"
    by (simp_all add: append_eq_append_conv)
  moreover from fl assms(3) have "unat (u16_from_be_bytes (record_bytes (m, c) ! 0) (record_bytes (m, c) ! 1)) = length c"
    by (intro record_header) simp
  ultimately show ?thesis using fl assms(2) by (intro that) (auto simp: record_bytes_def nth_append)
qed

text \<open>A reader that has the bytes its mode asks for.\<close>

lemma full_reader_exact:
  assumes chan: "noise_channel lib in_sync" and full: "pending st = 0"
    and inv: "coming in_sync a st (wire (peer d) s @ u) t"
    and IH: "\<And>st1. mode_rank (mode st1) < mode_rank (mode st) \<Longrightarrow>
       coming in_sync a st1 (wire (peer d) s @ u) t \<Longrightarrow> reads_exactly lib io wire in_sync a u d room st1 s t"
  shows "reads_exactly lib io wire in_sync a u d room st s t"
proof -
  from inv obtain fl where sync: "in_sync a fl (noise st)"
    and short: "\<forall>mc \<in> set fl. length (snd mc) < 65536" and t: "t = undelivered st @ concat (map fst fl)"
    and rinv: "reader_inv st fl (wire (peer d) s @ u)"
    by (auto simp: coming_def)
  note call = poll_read_full [OF full, where lib = lib and io = "io d" and s = s and room = room]
  show ?thesis
  proof (cases "mode st")
    case ModeLength
    with rinv full have "length (rbuf st) = 2" "concat (map record_bytes fl) = rbuf st @ (wire (peer d) s @ u)"
      by (simp_all add: reader_inv_def got_def)
    with short obtain m c fl' where fl: "fl = (m, c) # fl'" "wire (peer d) s @ u = c @ concat (map record_bytes fl')"
        "unat (u16_from_be_bytes (rbuf st ! 0) (rbuf st ! 1)) = length c"
      by (elim header_of_record)
    define st1 where "st1 = st\<lparr>pending := length c, mode := ModeBody, rbuf := replicate (length c) 0\<rparr>"
    have go: "poll_read lib (io d) st s room = poll_read lib (io d) st1 s room"
      using call ModeLength \<open>length (rbuf st) = 2\<close> fl(3) by (simp add: st1_def Let_def)
    have then_ok: "reads_exactly lib io wire in_sync a u d room st1 s t"
    proof (rule IH)
      show "mode_rank (mode st1) < mode_rank (mode st)" using ModeLength by (simp add: st1_def)
      show "coming in_sync a st1 (wire (peer d) s @ u) t"
        using sync short t fl ModeLength
        by (intro comingI [of in_sync a fl]) (simp_all add: st1_def reader_inv_def got_def undelivered_def)
    qed
    show ?thesis
      by (rule reads_exactly_next [where ?st1.0 = st1 and ?s1.0 = s]) (use go then_ok in \<open>simp_all add: st1_def\<close>)
  next
    case ModeBody
    with rinv full obtain m c fl' where fl: "fl = (m, c) # fl'" "rbuf st = c"
        "wire (peer d) s @ u = concat (map record_bytes fl')"
      by (auto simp: reader_inv_def got_def)
    obtain n dst r where msg: "read_message lib (noise st) c c = (n, dst, r)" using prod_cases3 by blast
    note res = noise_reads [OF chan sync [unfolded fl(1)] order_refl msg]
    define st1 where
      "st1 = st\<lparr>noise := n, rbuf := dst, read_start := 0, read_end := length m, mode := ModeRead\<rparr>"
    have go: "poll_read lib (io d) st s room = poll_read lib (io d) st1 s room"
      using call ModeBody msg res(1) fl(2) by (simp add: st1_def)
    have then_ok: "reads_exactly lib io wire in_sync a u d room st1 s t"
    proof (rule IH)
      show "mode_rank (mode st1) < mode_rank (mode st)" using ModeBody by (simp add: st1_def)
      show "coming in_sync a st1 (wire (peer d) s @ u) t"
        using res short t fl ModeBody full
        by (auto simp: coming_def st1_def reader_inv_def undelivered_def)
    qed
    show ?thesis
      by (rule reads_exactly_next [where ?st1.0 = st1 and ?s1.0 = s])
         (use go then_ok noise_independent(1) [OF chan _ msg] in \<open>simp_all add: st1_def\<close>)
  next
    case ModeRead
    with rinv have b: "read_start st \<le> read_end st" "read_end st \<le> length (rbuf st)"
        "wire (peer d) s @ u = concat (map record_bytes fl)"
      by (simp_all add: reader_inv_def)
    show ?thesis
    proof (cases "room < read_end st - read_start st")
      case True
      define st1 where "st1 = st\<lparr>read_start := read_start st + room\<rparr>"
      define x where "x = take room (drop (read_start st) (rbuf st))"
      have "poll_read lib (io d) st s room = Some (st1, s, Ready (Inr x))"
        using call ModeRead True b by (simp add: usize_sub_def vslice_Some st1_def x_def)
      moreover have "undelivered st = x @ undelivered st1"
      proof -
        have "take (read_end st - read_start st) (drop (read_start st) (rbuf st)) =
            take room (drop (read_start st) (rbuf st)) @
            take (read_end st - read_start st - room) (drop room (drop (read_start st) (rbuf st)))"
          using True by (metis le_add_diff_inverse less_imp_le take_add)
        then show ?thesis using ModeRead by (simp add: undelivered_def st1_def x_def add.commute)
      qed
      moreover have "reader_inv st1 fl (wire (peer d) s @ u)"
        using True b rinv ModeRead by (simp add: reader_inv_def st1_def)
      moreover have "length x \<le> room" by (simp add: x_def)
      ultimately show ?thesis using sync short t
        by (auto simp: reads_exactly_def coming_def st1_def unsent_def writer_inv_def)
    next
      case False
      define st1 where "st1 = st\<lparr>rbuf := replicate 2 0, pending := 2, mode := ModeLength\<rparr>"
      have "poll_read lib (io d) st s room = Some (st1, s, Ready (Inr (undelivered st)))"
        using call ModeRead False b by (simp add: usize_sub_def vslice_Some st1_def undelivered_def)
      moreover have "coming in_sync a st1 (wire (peer d) s @ u) (concat (map fst fl))"
        using sync short b(3) by (auto simp: coming_def st1_def undelivered_def reader_inv_def got_def)
      moreover have "length (undelivered st) \<le> room" using False by (auto simp: undelivered_def)
      ultimately show ?thesis using t
        by (auto simp: reads_exactly_def st1_def unsent_def writer_inv_def)
    qed
  qed
qed

lemma poll_read_exact:
  assumes chan: "noise_channel lib in_sync" and dup: "duplex io wire"
    and inv: "coming in_sync a st (wire (peer d) s @ u) t"
  shows "reads_exactly lib io wire in_sync a u d room st s t"
  using inv
proof (induction "mode_rank (mode st)" arbitrary: st s rule: less_induct)
  case less
  from less.prems obtain fl where sync: "in_sync a fl (noise st)"
    and short: "\<forall>mc \<in> set fl. length (snd mc) < 65536" and t: "t = undelivered st @ concat (map fst fl)"
    and rinv: "reader_inv st fl (wire (peer d) s @ u)"
    by (auto simp: coming_def)
  have "pending st \<le> length (rbuf st)" using rinv by (auto simp: reader_inv_def split: read_mode.splits)
  with fill_rbuf_total [OF dup] obtain st1 s1 r where fill: "fill_rbuf (io d) st s = Some (st1, s1, r)" by blast
  note keeps = fill_rbuf_keeps [OF fill] and exact = fill_rbuf_exact [OF dup rinv fill]
  have same: "unsent st1 = unsent st" "writer_inv st1 = writer_inv st"
    using keeps by (simp_all add: unsent_def writer_inv_def)
  show ?case
  proof (cases r)
    case (Some b)
    have "coming in_sync a st1 (wire (peer d) s1 @ u) t"
      using sync short t exact(1) exact(4) [OF Some] keeps by (auto simp: coming_def)
    moreover have "poll_read lib (io d) st s room = Some (st1, s1, b)"
      using fill Some by (subst poll_read.simps) simp
    ultimately show ?thesis
      using exact(1) exact(3) [OF Some] same keeps by (simp add: reads_exactly_def)
  next
    case None
    have full: "pending st1 = 0" using exact(2) [OF None] .
    have go: "poll_read lib (io d) st s room = poll_read lib (io d) st1 s1 room"
      using fill None by (intro poll_read_filled full) simp
    have und: "undelivered st1 = undelivered st"
    proof (cases "mode st = ModeRead")
      case True
      then have "pending st = 0" using rinv by (simp add: reader_inv_def)
      with fill have "st1 = st" by (simp add: fill_rbuf.simps)
      then show ?thesis by simp
    next
      case False
      then show ?thesis using keeps by (simp add: undelivered_def)
    qed
    have then_ok: "reads_exactly lib io wire in_sync a u d room st1 s1 t"
    proof (rule full_reader_exact [OF chan full])
      show "coming in_sync a st1 (wire (peer d) s1 @ u) t"
        using sync short t exact(1) und keeps by (auto simp: coming_def)
      show "reads_exactly lib io wire in_sync a u d room st2 s1 t"
        if "mode_rank (mode st2) < mode_rank (mode st1)" "coming in_sync a st2 (wire (peer d) s1 @ u) t" for st2
        using that keeps by (intro less.hyps) simp_all
    qed
    show ?thesis
      by (rule reads_exactly_next [where ?st1.0 = st1 and ?s1.0 = s1])
         (use go then_ok exact(1) keeps in simp_all)
  qed
qed

subsection \<open>Writing keeps it\<close>

text \<open>The answer of a call of \<open>poll_flush\<close>: that of the base's flush, or of a write that accepted nothing.\<close>

definition flush_stops where
  "flush_stops io st s s' r \<longleftrightarrow>
     write_start st = write_end st \<and> base_flush io s = (s', r) \<or>
     write_start st \<noteq> write_end st \<and>
     (\<exists>d a. vslice (wbuf st) (write_start st) (write_end st) = Some d \<and> base_write io s d = (s', a) \<and>
           (a = Pending \<and> r = Pending \<or> (\<exists>e. a = Ready (Inl e) \<and> r = Ready (Inl e))))"

lemma poll_flush_induct:
  assumes ret: "poll_flush io st s = Some (st', s', r)" and start: "P st s"
    and more: "\<And>st s d s1 k. P st s \<Longrightarrow> write_start st \<noteq> write_end st \<Longrightarrow>
       vslice (wbuf st) (write_start st) (write_end st) = Some d \<Longrightarrow> base_write io s d = (s1, Ready (Inr k)) \<Longrightarrow>
       P (st\<lparr>write_start := write_start st + k\<rparr>) s1"
  obtains s1 where "P st' s1" "flush_stops io st' s1 s' r"
proof -
  let ?Q = "\<lambda>io0 st s res. io0 = io \<longrightarrow> P st s \<longrightarrow>
      (\<exists>s1. P (fst res) s1 \<and> flush_stops io (fst res) s1 (fst (snd res)) (snd (snd res)))"
  have "?Q io st s (st', s', r)"
  proof (rule poll_flush.raw_induct [where P = ?Q, OF _ ret], intro impI)
    fix f :: "'b base_io \<Rightarrow> 'a scallop_stream \<Rightarrow> 'b \<Rightarrow> ('a scallop_stream \<times> 'b \<times> unit rust_result poll) option"
    fix io0 st s res
    assume IH: "\<And>io0 st s res. f io0 st s = Some res \<Longrightarrow> ?Q io0 st s res"
      and io: "io0 = io" and P: "P st s"
      and eq: "(if write_start st = write_end st
          then case base_flush io0 s of (s', answer) \<Rightarrow> Some (st, s', answer)
          else
            case vslice (wbuf st) (write_start st) (write_end st) of None \<Rightarrow> None
            | Some d \<Rightarrow>
                (case base_write io0 s d of
                   (s', Pending) \<Rightarrow> Some (st, s', Pending)
                 | (s', Ready (Inl e)) \<Rightarrow> Some (st, s', Ready (Inl e))
                 | (s', Ready (Inr k)) \<Rightarrow> f io0 (st\<lparr>write_start := write_start st + k\<rparr>) s')) = Some res"
    show "\<exists>s1. P (fst res) s1 \<and> flush_stops io (fst res) s1 (fst (snd res)) (snd (snd res))"
    proof (cases "write_start st = write_end st")
      case True
      with eq io P show ?thesis
        by (intro exI [of _ s]) (auto simp: flush_stops_def split: prod.splits)
    next
      case False
      with eq obtain d where d: "vslice (wbuf st) (write_start st) (write_end st) = Some d"
        by (auto split: option.splits)
      obtain s1 a where w: "base_write io s d = (s1, a)" by fastforce
      show ?thesis
      proof (cases "\<exists>k. a = Ready (Inr k)")
        case True
        then obtain k where k: "a = Ready (Inr k)" by blast
        with eq False d w io have "f io0 (st\<lparr>write_start := write_start st + k\<rparr>) s1 = Some res" by simp
        then show ?thesis using IH io more [OF P False d] w k by blast
      next
        case stop: False
        with eq False d w io P show ?thesis
          by (intro exI [of _ s]) (auto simp: flush_stops_def split: poll.splits sum.splits)
      qed
    qed
  qed
  with start that show ?thesis by auto
qed

lemma flush_stops_wire:
  assumes dup: "duplex io wire" and stop: "flush_stops (io d) st s s' r"
  shows "wire e s' = wire e s"
proof (cases "write_start st = write_end st")
  case True
  with stop show ?thesis by (auto simp: flush_stops_def dest: duplex_quiet(1) [OF dup])
next
  case False
  with stop obtain x a where w: "base_write (io d) s x = (s', a)" "\<forall>k. a \<noteq> Ready (Inr k)"
    by (auto simp: flush_stops_def)
  then have "bytes_taken x a = []" by (cases "(x, a)" rule: bytes_taken.cases) auto
  with duplex_write [OF dup w(1)] have "wire d s' = wire d s" "wire (peer d) s' = wire (peer d) s" by simp_all
  moreover have "e = d \<or> e = peer d" by (cases d; cases e) simp_all
  ultimately show ?thesis by blast
qed

lemma poll_flush_exact:
  assumes dup: "duplex io wire" and ret: "poll_flush (io d) st s = Some (st', s', r)" and inv: "writer_inv st"
  shows "writer_inv st'" "wire d s' @ unsent st' = wire d s @ unsent st" "wire (peer d) s' = wire (peer d) s"
    "\<exists>k. st' = st\<lparr>write_start := k\<rparr>" "r = Ready (Inr ()) \<Longrightarrow> unsent st' = []"
proof -
  let ?P = "\<lambda>x y. writer_inv x \<and> wire d y @ unsent x = wire d s @ unsent st \<and> wire (peer d) y = wire (peer d) s \<and>
      (\<exists>k. x = st\<lparr>write_start := k\<rparr>)"
  obtain s1 where P: "?P st' s1" and stop: "flush_stops (io d) st' s1 s' r"
  proof (rule poll_flush_induct [where P = ?P, OF ret])
    have "st = st\<lparr>write_start := write_start st\<rparr>" by simp
    then show "?P st s" using inv by blast
  next
    fix x y z y1 k
    assume P: "?P x y" and sl: "vslice (wbuf x) (write_start x) (write_end x) = Some z"
      and w: "base_write (io d) y z = (y1, Ready (Inr k))"
    let ?x = "x\<lparr>write_start := write_start x + k\<rparr>"
    have z: "z = unsent x" "length z = write_end x - write_start x"
      using sl P by (auto simp: vslice_def unsent_def writer_inv_def split: if_splits)
    note W = duplex_write [OF dup w]
    have k: "k \<le> length z" using W(2) by simp
    then have "writer_inv ?x" using P z by (auto simp: writer_inv_def)
    moreover have "unsent ?x = drop k z"
      unfolding z(1) by (simp add: unsent_def drop_take add.commute)
    ultimately show "?P ?x y1" using P W(1,3) z(1) by auto
  qed blast
  note W = flush_stops_wire [OF dup stop]
  show "writer_inv st'" using P by simp
  show "\<exists>k. st' = st\<lparr>write_start := k\<rparr>" using P by simp
  show "wire d s' @ unsent st' = wire d s @ unsent st" "wire (peer d) s' = wire (peer d) s"
    using P by (simp_all add: W)
  assume "r = Ready (Inr ())"
  with stop have "write_start st' = write_end st'" by (auto simp: flush_stops_def)
  then show "unsent st' = []" by (simp add: unsent_def)
qed

definition same_reader :: "'n scallop_stream \<Rightarrow> 'n scallop_stream \<Rightarrow> bool" where
  "same_reader st st' \<longleftrightarrow> mode st' = mode st \<and> rbuf st' = rbuf st \<and> pending st' = pending st \<and>
     read_start st' = read_start st \<and> read_end st' = read_end st"

lemma coming_reader:
  assumes "coming in_sync a st rest t" "same_reader st st'"
    "\<And>fl. in_sync a fl (noise st) \<Longrightarrow> in_sync a fl (noise st')"
  shows "coming in_sync a st' rest t"
proof -
  have "undelivered st' = undelivered st" "reader_inv st' fl rest = reader_inv st fl rest" for fl
    using assms(2) by (auto simp: same_reader_def undelivered_def reader_inv_def got_def split: read_mode.split)
  with assms(1,3) show ?thesis by (auto simp: coming_def)
qed

lemma coming_writer:
  "coming in_sync a st rest t \<Longrightarrow> (\<And>fl b. in_sync a fl b \<Longrightarrow> in_sync a' fl b) \<Longrightarrow> coming in_sync a' st rest t"
  by (auto simp: coming_def)

lemma coming_append:
  assumes "coming in_sync a st rest t" "length c < 65536"
    "\<And>fl. in_sync a fl (noise st) \<Longrightarrow> in_sync a' (fl @ [(m, c)]) (noise st)"
  shows "coming in_sync a' st (rest @ record_bytes (m, c)) (t @ m)"
proof -
  from assms(1) obtain fl where sync: "in_sync a fl (noise st)"
    and short: "\<forall>mc \<in> set fl. length (snd mc) < 65536" and t: "t = undelivered st @ concat (map fst fl)"
    and rinv: "reader_inv st fl rest"
    by (auto simp: coming_def)
  from rinv have "reader_inv st (fl @ [(m, c)]) (rest @ record_bytes (m, c))"
    by (auto simp: reader_inv_def append_assoc [symmetric] simp del: append_assoc split: read_mode.splits)
  with sync short t assms show ?thesis by (intro comingI [of in_sync a' "fl @ [(m, c)]"]) auto
qed

lemma flush_keeps_reader:
  assumes "duplex io wire" "poll_flush (io d) st s = Some (st', s', r)" "writer_inv st"
  shows "same_reader st st' \<and> noise st' = noise st"
  using poll_flush_exact(4) [OF assms] by (auto simp: same_reader_def)

text \<open>What a write accepts is the end of what comes, and a write leaves the reading side as it is.\<close>

lemma poll_write_exact:
  assumes chan: "noise_channel lib in_sync" and dup: "duplex io wire"
    and ret: "poll_write lib (io d) st s buf = Some (st', s', r)" and inv: "writer_inv st"
    and com: "coming in_sync (noise st) rd (wire d s @ unsent st) t"
  shows "writer_inv st'" "same_reader st st'" "wire (peer d) s' = wire (peer d) s"
    and "in_sync a fl (noise st) \<Longrightarrow> in_sync a fl (noise st')"
    and "coming in_sync (noise st') rd (wire d s' @ unsent st') (t @ bytes_taken buf r)"
proof -
  from ret obtain st1 s1 r1 where flush: "poll_flush (io d) st s = Some (st1, s1, r1)"
    by (auto simp: poll_write_def split: option.splits)
  note F = poll_flush_exact [OF dup flush inv] and K = flush_keeps_reader [OF dup flush inv]
  have "writer_inv st' \<and> same_reader st st' \<and> wire (peer d) s' = wire (peer d) s \<and>
    (in_sync a fl (noise st) \<longrightarrow> in_sync a fl (noise st')) \<and>
    coming in_sync (noise st') rd (wire d s' @ unsent st') (t @ bytes_taken buf r)"
  proof (cases "r1 = Ready (Inr ())")
    case False
    then have "st' = st1 \<and> s' = s1 \<and> bytes_taken buf r = []"
      using ret flush by (auto simp: poll_write_def split: poll.splits sum.splits)
    with F K com show ?thesis by auto
  next
    case True
    define len where "len = min (length buf) 64000"
    define dst0 where "dst0 = drop 2 (replicate (len + 1000) (0 :: u8))"
    obtain n dst q where msg: "write_message lib (noise st1) (take len buf) dst0 = (n, dst, q)"
      using prod_cases3 by blast
    have empty: "unsent st1 = []" using F(5) True by simp
    have ind: "in_sync a fl (noise st) \<Longrightarrow> in_sync a fl n"
      using noise_independent(2) [OF chan _ msg] K by simp
    show ?thesis
    proof (cases q)
      case (Inl e)
      have "st' = st1\<lparr>noise := n\<rparr> \<and> s' = s1 \<and> r = Ready (Inl e)"
        using ret flush True msg Inl by (simp add: poll_write_def Let_def len_def dst0_def)
      moreover have "coming in_sync n rd (wire d s @ unsent st) t"
        using com noise_writes(2) [OF chan _ msg] Inl K by (auto intro: coming_writer)
      ultimately show ?thesis using F K ind
        by (simp add: same_reader_def unsent_def writer_inv_def)
    next
      case (Inr k)
      have st': "st' = st1\<lparr>noise := n, wbuf := record_buffer k dst, write_start := 0, write_end := k + 2\<rparr>"
          "s' = s1" "r = Ready (Inr len)"
        using ret flush True msg Inr by (simp_all add: poll_write_def Let_def len_def dst0_def)
      from com obtain fl0 where sync: "in_sync (noise st1) fl0 (noise rd)" using K by (auto simp: coming_def)
      note W = noise_writes(3) [OF chan sync msg Inr] and L = noise_writes(1) [OF chan sync msg]
      show ?thesis
      proof (intro conjI impI)
        show "same_reader st st'" "wire (peer d) s' = wire (peer d) s"
          using K F(3) st' by (simp_all add: same_reader_def)
        show "in_sync a fl (noise st')" if "in_sync a fl (noise st)" using ind that st' by simp
        have k: "length (take k dst) = k" using W L by simp
        then have "unsent st' = record_bytes (take len buf, take k dst)"
          by (simp add: st' unsent_def record_buffer_def record_bytes_def)
        moreover have "coming in_sync n rd (wire d s1 @ record_bytes (take len buf, take k dst)) (t @ take len buf)"
        proof (rule coming_append)
          show "coming in_sync (noise st) rd (wire d s1) t" using com F(2) empty by simp
          show "length (take k dst) < 65536" using W k by (simp del: length_take)
          show "in_sync n (fl @ [(take len buf, take k dst)]) (noise rd)"
            if "in_sync (noise st) fl (noise rd)" for fl
          proof -
            from that K have "in_sync (noise st1) fl (noise rd)" by simp
            from noise_writes(3) [OF chan this msg Inr] show ?thesis by blast
          qed
        qed
        ultimately show "coming in_sync (noise st') rd (wire d s' @ unsent st') (t @ bytes_taken buf r)"
          by (simp add: st')
        show "writer_inv st'" using W L by (simp add: st' writer_inv_def record_buffer_def)
      qed
    qed
  qed
  then show "writer_inv st'" "same_reader st st'" "wire (peer d) s' = wire (peer d) s"
    and "in_sync a fl (noise st) \<Longrightarrow> in_sync a fl (noise st')"
    and "coming in_sync (noise st') rd (wire d s' @ unsent st') (t @ bytes_taken buf r)"
    by blast+
qed

lemma poll_shutdown_exact:
  assumes dup: "duplex io wire" and ret: "poll_shutdown (io d) st s = Some (st', s', r)" and inv: "writer_inv st"
  shows "writer_inv st'" "wire d s' @ unsent st' = wire d s @ unsent st" "wire (peer d) s' = wire (peer d) s"
    "same_reader st st'" "noise st' = noise st"
proof -
  from ret obtain st1 s1 r1 where flush: "poll_flush (io d) st s = Some (st1, s1, r1)"
    by (auto simp: poll_shutdown_def split: option.splits)
  note F = poll_flush_exact [OF dup flush inv] and K = flush_keeps_reader [OF dup flush inv]
  have "st' = st1 \<and> (\<forall>e. wire e s' = wire e s1)"
    using ret flush
    by (auto simp: poll_shutdown_def split: poll.splits sum.splits prod.splits dest: duplex_quiet(2) [OF dup])
  with F K show "writer_inv st'" "wire d s' @ unsent st' = wire d s @ unsent st"
    "wire (peer d) s' = wire (peer d) s" "same_reader st st'" "noise st' = noise st"
    by auto
qed

subsection \<open>Calls return\<close>

lemma poll_flush_total:
  assumes acc: "accepts_bytes io" and inv: "writer_inv st"
  shows "\<exists>res. poll_flush io st s = Some res"
  using inv
proof (induction "write_end st - write_start st" arbitrary: st s rule: less_induct)
  case less
  show ?case
  proof (cases "write_start st = write_end st")
    case True
    then show ?thesis by (subst poll_flush.simps) (simp split: prod.split)
  next
    case False
    define d where "d = take (write_end st - write_start st) (drop (write_start st) (wbuf st))"
    have sl: "vslice (wbuf st) (write_start st) (write_end st) = Some d"
      using less.prems by (simp add: d_def writer_inv_def vslice_Some)
    have d: "length d = write_end st - write_start st" "d \<noteq> []"
      using less.prems False by (auto simp: d_def writer_inv_def)
    obtain s1 a where w: "base_write io s d = (s1, a)" by fastforce
    show ?thesis
    proof (cases "\<exists>k. a = Ready (Inr k)")
      case True
      then obtain k where k: "a = Ready (Inr k)" by blast
      with acc d(2) w have "0 < k" "k \<le> length d" by (auto simp: accepts_bytes_def)
      with d less.prems have "\<exists>res. poll_flush io (st\<lparr>write_start := write_start st + k\<rparr>) s1 = Some res"
        by (intro less.hyps) (auto simp: writer_inv_def)
      with False sl w k show ?thesis by (subst poll_flush.simps) simp
    next
      case stop: False
      with False sl w show ?thesis by (subst poll_flush.simps) (auto split: poll.split sum.split)
    qed
  qed
qed

lemma poll_write_total:
  "accepts_bytes io \<Longrightarrow> writer_inv st \<Longrightarrow> \<exists>res. poll_write lib io st s buf = Some res"
  by (drule (1) poll_flush_total [of io st s])
     (auto simp: poll_write_def Let_def split: poll.split sum.split prod.split)

lemma poll_shutdown_total:
  "accepts_bytes io \<Longrightarrow> writer_inv st \<Longrightarrow> \<exists>res. poll_shutdown io st s = Some res"
  by (drule (1) poll_flush_total [of io st s])
     (auto simp: poll_shutdown_def split: poll.split sum.split prod.split)

text \<open>A base stream that goes on answering a write with nothing keeps \<open>poll_flush\<close> in its loop.\<close>

lemma poll_flush_spins:
  assumes "\<And>s x. base_write io s x = (s, Ready (Inr 0))" and "write_start st \<noteq> write_end st"
  shows "poll_flush io st s = None"
proof (cases "poll_flush io st s")
  case (Some res)
  obtain st' s' r where "res = (st', s', r)" using prod_cases3 by blast
  with Some have ret: "poll_flush io st s = Some (st', s', r)" by simp
  obtain s1 where "write_start st' \<noteq> write_end st'" "flush_stops io st' s1 s' r"
    by (rule poll_flush_induct [where P = "\<lambda>x y. write_start x \<noteq> write_end x", OF ret])
       (use assms in auto)
  with assms(1) show ?thesis by (auto simp: flush_stops_def)
qed

section \<open>The connection is a pair of queues\<close>

definition conn_inv where
  "conn_inv in_sync wire c \<longleftrightarrow>
     (\<forall>d. writer_inv (ends c d) \<and>
          (\<exists>t. coming in_sync (noise (ends c d)) (ends c (peer d)) (wire d (pipe c) @ unsent (ends c d)) t \<and>
               accepted c d = received c (peer d) @ t))"

lemma conn_invD:
  assumes "conn_inv in_sync wire c"
  obtains t where "writer_inv (ends c d)"
    "coming in_sync (noise (ends c d)) (ends c (peer d)) (wire d (pipe c) @ unsent (ends c d)) t"
    "accepted c d = received c (peer d) @ t"
  using assms by (auto simp: conn_inv_def)

lemma conn_invI:
  assumes "writer_inv (ends c d)" "writer_inv (ends c (peer d))"
    "coming in_sync (noise (ends c d)) (ends c (peer d)) (wire d (pipe c) @ unsent (ends c d)) t"
    "accepted c d = received c (peer d) @ t"
    "coming in_sync (noise (ends c (peer d))) (ends c d) (wire (peer d) (pipe c) @ unsent (ends c (peer d))) t'"
    "accepted c (peer d) = received c d @ t'"
  shows "conn_inv in_sync wire c"
  unfolding conn_inv_def
proof
  fix e
  have "e = d \<or> e = peer d" by (cases d; cases e) simp_all
  then show "writer_inv (ends c e) \<and>
      (\<exists>t. coming in_sync (noise (ends c e)) (ends c (peer e)) (wire e (pipe c) @ unsent (ends c e)) t \<and>
           accepted c e = received c (peer e) @ t)"
    using assms by auto
qed

lemma connection_step_inv:
  assumes chan: "noise_channel lib in_sync" and dup: "duplex io wire"
    and inv: "conn_inv in_sync wire c" and ret: "connection_step lib io c e = Some c'"
  shows "conn_inv in_sync wire c'"
proof -
  obtain d call where e: "e = (d, call)" by fastforce
  obtain t where w: "writer_inv (ends c d)"
    and out: "coming in_sync (noise (ends c d)) (ends c (peer d)) (wire d (pipe c) @ unsent (ends c d)) t"
    and acc: "accepted c d = received c (peer d) @ t"
    using inv by (rule conn_invD)
  obtain t' where w': "writer_inv (ends c (peer d))"
    and inn: "coming in_sync (noise (ends c (peer d))) (ends c d)
       (wire (peer d) (pipe c) @ unsent (ends c (peer d))) t'"
    and acc': "accepted c (peer d) = received c d @ t'"
    using conn_invD [OF inv, of "peer d"] by (metis peer_peer)
  show ?thesis
  proof (cases call)
    case (CallRead room)
    from poll_read_exact [OF chan dup inn] obtain st s r t1 where
      read: "poll_read lib (io d) (ends c d) (pipe c) room = Some (st, s, r)"
      and "coming in_sync (noise (ends c (peer d))) st (wire (peer d) s @ unsent (ends c (peer d))) t1"
        "t' = bytes_read r @ t1" "wire d s = wire d (pipe c)" "unsent st = unsent (ends c d)"
        "writer_inv st = writer_inv (ends c d)"
        "\<And>fl b. in_sync (noise (ends c d)) fl b \<Longrightarrow> in_sync (noise st) fl b"
      unfolding reads_exactly_def by blast
    note R = this
    have "c' = c\<lparr>ends := (ends c)(d := st), pipe := s,
        received := (received c)(d := received c d @ bytes_read r)\<rparr>"
      using ret e CallRead read by (simp add: connection_step_def)
    then show ?thesis using R(2-6) w w' acc acc' coming_writer [OF out R(7)]
      by (intro conn_invI [where d = d and t = t and t' = t1]) simp_all
  next
    case (CallWrite buf)
    then obtain st s r where wrote: "poll_write lib (io d) (ends c d) (pipe c) buf = Some (st, s, r)"
      and c': "c' = c\<lparr>ends := (ends c)(d := st), pipe := s,
        accepted := (accepted c)(d := accepted c d @ bytes_taken buf r)\<rparr>"
      using ret e by (auto simp: connection_step_def split: option.splits)
    note W = poll_write_exact [OF chan dup wrote w out]
    show ?thesis using W(1,3,5) w' acc acc' coming_reader [OF inn W(2,4)]
      by (intro conn_invI [where d = d and t = "t @ bytes_taken buf r" and t' = t']) (simp_all add: c')
  next
    case CallFlush
    then obtain st s r where flush: "poll_flush (io d) (ends c d) (pipe c) = Some (st, s, r)"
      and c': "c' = c\<lparr>ends := (ends c)(d := st), pipe := s\<rparr>"
      using ret e by (auto simp: connection_step_def split: option.splits)
    note F = poll_flush_exact [OF dup flush w] and K = flush_keeps_reader [OF dup flush w]
    show ?thesis using F(1-3) w' acc acc' out K coming_reader [OF inn, of st]
      by (intro conn_invI [where d = d and t = t and t' = t']) (simp_all add: c')
  next
    case CallShutdown
    then obtain st s r where shut: "poll_shutdown (io d) (ends c d) (pipe c) = Some (st, s, r)"
      and c': "c' = c\<lparr>ends := (ends c)(d := st), pipe := s\<rparr>"
      using ret e by (auto simp: connection_step_def split: option.splits)
    note S = poll_shutdown_exact [OF dup shut w]
    show ?thesis using S(1-5) w' acc acc' out coming_reader [OF inn, of st]
      by (intro conn_invI [where d = d and t = t and t' = t']) (simp_all add: c')
  qed
qed

lemma fresh_inv:
  assumes "in_sync a [] b" "in_sync b [] a" "wire Client s = []" "wire Server s = []"
  shows "conn_inv in_sync wire (new_connection a b s)"
proof (rule conn_invI [where d = Client and t = "[]" and t' = "[]"])
  have *: "coming in_sync x (fresh_stream y) [] []" if "in_sync x [] y" for x y
    using that by (intro comingI [of in_sync x "[]"]) (simp_all add: fresh_stream_def undelivered_def reader_inv_def got_def)
  have u: "unsent (fresh_stream x) = []" for x :: 'a by (simp add: unsent_def fresh_stream_def)
  let ?c = "new_connection a b s"
  show "coming in_sync (noise (ends ?c Client)) (ends ?c (peer Client)) (wire Client (pipe ?c) @ unsent (ends ?c Client)) []"
    using * [OF assms(1)] assms(3) u by (simp add: new_connection_def) (simp add: fresh_stream_def)
  show "coming in_sync (noise (ends ?c (peer Client))) (ends ?c Client)
      (wire (peer Client) (pipe ?c) @ unsent (ends ?c (peer Client))) []"
    using * [OF assms(2)] assms(4) u by (simp add: new_connection_def) (simp add: fresh_stream_def)
qed (simp_all add: new_connection_def fresh_stream_def writer_inv_def)

lemma connection_inv:
  assumes "noise_channel lib in_sync" "duplex io wire" "in_sync a [] b" "in_sync b [] a"
    "wire Client s = []" "wire Server s = []"
    and run: "run_steps (connection_step lib io) (new_connection a b s) calls = Some c"
  shows "conn_inv in_sync wire c"
proof -
  have "invariant_system (connection_step lib io) (conn_inv in_sync wire)"
    using connection_step_inv [OF assms(1,2)] by (rule invariant_system.intro)
  moreover have "conn_inv in_sync wire (new_connection a b s)" using assms(3-6) by (rule fresh_inv)
  ultimately show ?thesis using run by (rule invariant_system.run_inv)
qed

lemma coming_drained:
  assumes "coming in_sync a st [] t" "mode st = ModeLength" "pending st = 2"
  shows "t = []"
proof -
  from assms obtain fl where "t = concat (map fst fl)" "concat (map record_bytes fl) = []"
    by (auto simp: coming_def undelivered_def reader_inv_def got_def)
  moreover have "record_bytes mc \<noteq> []" for mc by (simp add: record_bytes_def u16_to_be_bytes_def)
  ultimately show ?thesis by (cases fl) auto
qed

text \<open>C3: However the calls on the two ends are ordered and however the base stream cuts, delays or fails
  them, what an end has read is, byte for byte and in order, the front of what the writes of the other end
  accepted; and when nothing is queued or on the wire and the reader waits for the next record, it is all of it.\<close>

theorem stream_exact:
  assumes "noise_channel lib in_sync" "duplex io wire" "in_sync a [] b" "in_sync b [] a"
    "wire Client s = []" "wire Server s = []"
    and run: "run_steps (connection_step lib io) (new_connection a b s) calls = Some c"
  shows "prefix (received c (peer d)) (accepted c d) \<and>
    (unsent (ends c d) = [] \<and> wire d (pipe c) = [] \<and>
     mode (ends c (peer d)) = ModeLength \<and> pending (ends c (peer d)) = 2 \<longrightarrow>
     received c (peer d) = accepted c d)"
proof -
  obtain t where "coming in_sync (noise (ends c d)) (ends c (peer d)) (wire d (pipe c) @ unsent (ends c d)) t"
    and acc: "accepted c d = received c (peer d) @ t"
    using connection_inv [OF assms] by (rule conn_invD)
  then have "t = []" if "unsent (ends c d) = []" "wire d (pipe c) = []"
      "mode (ends c (peer d)) = ModeLength" "pending (ends c (peer d)) = 2"
    using that coming_drained by force
  with acc show ?thesis by auto
qed

text \<open>C31: No call on an end of a connection panics, and each returns, as long as the base stream accepts at
  least a byte when it answers a write. A base stream that answers with zero bytes keeps \<open>poll_flush\<close> in its
  loop for ever instead of an error.\<close>

theorem stream_calls_return:
  assumes "noise_channel lib in_sync" "duplex io wire" "in_sync a [] b" "in_sync b [] a"
    "wire Client s = []" "wire Server s = []"
    and run: "run_steps (connection_step lib io) (new_connection a b s) calls = Some c"
  shows "(accepts_bytes (io d) \<longrightarrow> (\<exists>c'. connection_step lib io c (d, call) = Some c')) \<and>
    ((\<forall>s x. base_write (io d) s x = (s, Ready (Inr 0))) \<and> write_start (ends c d) \<noteq> write_end (ends c d) \<longrightarrow>
     connection_step lib io c (d, CallFlush) = None)"
proof (intro conjI impI)
  have inv: "conn_inv in_sync wire c" using assms by (rule connection_inv)
  obtain t where w: "writer_inv (ends c d)" using inv by (rule conn_invD)
  obtain t' where inn: "coming in_sync (noise (ends c (peer d))) (ends c d)
      (wire (peer d) (pipe c) @ unsent (ends c (peer d))) t'"
    using conn_invD [OF inv, of "peer d"] by (metis peer_peer)
  show "\<exists>c'. connection_step lib io c (d, call) = Some c'" if acc: "accepts_bytes (io d)"
  proof (cases call)
    case (CallRead room)
    obtain st s' r where "poll_read lib (io d) (ends c d) (pipe c) room = Some (st, s', r)"
      using poll_read_exact [OF assms(1,2) inn, of room] by (auto simp: reads_exactly_def)
    with CallRead show ?thesis by (simp add: connection_step_def)
  next
    case (CallWrite buf)
    then show ?thesis using poll_write_total [OF acc w, of lib "pipe c" buf]
      by (auto simp: connection_step_def split: prod.split)
  next
    case CallFlush
    then show ?thesis using poll_flush_total [OF acc w, of "pipe c"]
      by (auto simp: connection_step_def split: prod.split)
  next
    case CallShutdown
    then show ?thesis using poll_shutdown_total [OF acc w, of "pipe c"]
      by (auto simp: connection_step_def split: prod.split)
  qed
  show "connection_step lib io c (d, CallFlush) = None"
    if "(\<forall>s x. base_write (io d) s x = (s, Ready (Inr 0))) \<and> write_start (ends c d) \<noteq> write_end (ends c d)"
    using poll_flush_spins [of "io d" "ends c d" "pipe c"] that by (simp add: connection_step_def)
qed

section \<open>A concrete connection\<close>

text \<open>A channel that adds an empty tag, over a base stream that takes and gives all it can.\<close>

definition plain_noiser :: "unit noiser" where
  "plain_noiser =
     \<lparr>read_message = (\<lambda>_ p dst.
        if length p < 16 \<or> length dst < length p - 16 then ((), dst, Inl ''decrypt'')
        else ((), overwrite dst 0 (take (length p - 16) p), Inr (length p - 16))),
      write_message = (\<lambda>_ p dst.
        if length dst < length p + 16 \<or> 65535 < length p + 16 then ((), dst, Inl ''input'')
        else ((), overwrite dst 0 (p @ replicate 16 0), Inr (length p + 16)))\<rparr>"

definition plain_sync :: "unit \<Rightarrow> (bytes \<times> bytes) list \<Rightarrow> unit \<Rightarrow> bool" where
  "plain_sync _ fl _ \<longleftrightarrow> (\<forall>mc \<in> set fl. snd mc = fst mc @ replicate 16 0)"

definition pipe_io :: "side \<Rightarrow> (side \<Rightarrow> bytes) base_io" where
  "pipe_io d =
     \<lparr>base_read = (\<lambda>s n. (s(peer d := drop n (s (peer d))),
        if s (peer d) = [] then Pending else Ready (Inr (take n (s (peer d)))))),
      base_write = (\<lambda>s x. (s(d := s d @ x), Ready (Inr (length x)))),
      base_flush = (\<lambda>s. (s, Ready (Inr ()))), base_shutdown = (\<lambda>s. (s, Ready (Inr ())))\<rparr>"

lemma plain_channel: "noise_channel plain_noiser plain_sync"
  by (auto simp: noise_channel_def plain_noiser_def plain_sync_def overwrite_def split: if_splits)

lemma pipe_duplex: "duplex pipe_io (\<lambda>d s. s d)" and pipe_accepts: "accepts_bytes (pipe_io d)"
  by (auto simp: duplex_def pipe_io_def accepts_bytes_def split: if_splits)

definition stream_calls :: "(side \<times> call) list" where
  "stream_calls = [(Client, CallWrite [7, 8, 9]), (Client, CallFlush), (Server, CallRead 2)]"

definition stream_start :: "(unit, side \<Rightarrow> bytes) connection" where
  "stream_start = new_connection () () (\<lambda>_. [])"

definition sample_wbuf :: bytes where
  "sample_wbuf = record_buffer 19 ([7, 8, 9] @ replicate 16 0 @ replicate 982 0)"

definition sample_writer :: "nat \<Rightarrow> unit scallop_stream" where
  "sample_writer k = (fresh_stream ())\<lparr>wbuf := sample_wbuf, write_start := k, write_end := 21\<rparr>"

definition sample_reader :: "unit scallop_stream" where
  "sample_reader =
     (fresh_stream ())\<lparr>rbuf := [7, 8, 9] @ replicate 16 0, pending := 0, mode := ModeRead, read_start := 2,
        read_end := 3\<rparr>"

lemma sample_slice: "vslice sample_wbuf 0 21 = Some ([0, 19, 7, 8, 9] @ replicate 16 0)"
  by (simp add: sample_wbuf_def record_buffer_def u16_to_be_bytes_def vslice_def)

lemma sample_write:
  "poll_write plain_noiser (pipe_io Client) (fresh_stream ()) (\<lambda>_. []) [7, 8, 9] =
   Some (sample_writer 0, \<lambda>_. [], Ready (Inr 3))"
  by (simp add: poll_write_def poll_flush.simps fresh_stream_def plain_noiser_def pipe_io_def overwrite_def
      sample_writer_def sample_wbuf_def)

lemma sample_flush:
  "poll_flush (pipe_io Client) (sample_writer 0) (\<lambda>_. []) =
   Some (sample_writer 21, (\<lambda>_. [])(Client := [0, 19, 7, 8, 9] @ replicate 16 0), Ready (Inr ()))"
  by (subst poll_flush.simps, subst poll_flush.simps)
     (simp add: sample_slice sample_writer_def pipe_io_def fresh_stream_def)

lemma sample_read:
  "poll_read plain_noiser (pipe_io Server) (fresh_stream ())
     ((\<lambda>_. [])(Client := [0, 19, 7, 8, 9] @ replicate 16 0)) 2 =
   Some (sample_reader, \<lambda>_. [], Ready (Inr [7, 8]))"
  by (simp add: poll_read.simps fill_rbuf.simps fresh_stream_def pipe_io_def overwrite_def plain_noiser_def
      sample_reader_def vslice_def usize_sub_def u16_from_be_bytes_def fun_upd_idem)

definition stream_end :: "(unit, side \<Rightarrow> bytes) connection" where
  "stream_end =
     \<lparr>ends = (\<lambda>d. case d of Client \<Rightarrow> sample_writer 21 | Server \<Rightarrow> sample_reader), pipe = (\<lambda>_. []),
      accepted = (\<lambda>_. [])(Client := [7, 8, 9]), received = (\<lambda>_. [])(Server := [7, 8])\<rparr>"

lemma stream_run:
  "run_steps (connection_step plain_noiser pipe_io) (new_connection () () (\<lambda>_. [])) stream_calls = Some stream_end"
proof -
  have "(\<lambda>d. fresh_stream (case d of Client \<Rightarrow> () | Server \<Rightarrow> ()))(Client := sample_writer 21, Server := sample_reader)
      = (\<lambda>d. case d of Client \<Rightarrow> sample_writer 21 | Server \<Rightarrow> sample_reader)"
    by (rule ext) (simp split: side.split)
  then show ?thesis
    by (simp add: stream_calls_def new_connection_def connection_step_def sample_write sample_flush sample_read [simplified]
        stream_end_def)
qed

lemmas plain_start = plain_channel pipe_duplex

lemma plain_sync_start: "plain_sync a [] b"
  by (simp add: plain_sync_def)

theorem stream_exact_witness:
  "received stream_end Server = [7, 8] \<and> prefix (received stream_end (peer Client)) (accepted stream_end Client)"
  using stream_exact [OF plain_start plain_sync_start plain_sync_start refl refl stream_run, where d = Client]
  by (simp add: stream_end_def)

theorem stream_calls_return_witness:
  "\<exists>c'. connection_step plain_noiser pipe_io stream_end (Server, CallRead 5) = Some c'"
  using stream_calls_return [OF plain_start plain_sync_start plain_sync_start refl refl stream_run,
      where d = Server and call = "CallRead 5"] pipe_accepts
  by blast

end
