(* ===== verification/Scallop_Handshake.thy ===== *)
theory Scallop_Handshake
  imports Scallop_Stream
begin

text \<open>
  The handshakes of the encrypted stream, from \<open>sdks/rs/src/scallop.rs\<close>: \<open>noise_read\<close> and \<open>noise_write\<close>, the
  client and the server with their optional attestations.

  The awaits of a handshake follow each other, so that it is a function of a world: the base stream, the state
  of \<open>snow\<close>, the two buffers and the auth store. The operations of \<open>AsyncReadExt\<close> and \<open>AsyncWriteExt\<close>, \<open>snow\<close>'s
  builder and states, and the auth store are parameters. \<open>new_client\<close> and \<open>new_server\<close> are cut where the handshake
  state becomes a transport state, whose type differs. The answer of the auther's \<open>new_auth\<close>, where there is an
  auther, is an input.
\<close>

section \<open>Libraries and effects\<close>

datatype scallop_error =
  InitFailed string | TransportError string | NoiseError string | ProtocolError string

record 's async_io =
  read_exact :: "'s \<Rightarrow> nat \<Rightarrow> 's \<times> bytes rust_result"
  write_all :: "'s \<Rightarrow> bytes \<Rightarrow> 's \<times> unit rust_result"
  async_flush :: "'s \<Rightarrow> 's \<times> unit rust_result"

record ('h, 'n) snow =
  build_initiator :: "bytes \<Rightarrow> bytes \<Rightarrow> 'h rust_result"
  build_responder :: "bytes \<Rightarrow> bytes \<Rightarrow> 'h rust_result"
  handshake_noiser :: "'h noiser"
  remote_static :: "'h \<Rightarrow> bytes option"
  into_transport :: "'h \<Rightarrow> 'n rust_result"
  transport_noiser :: "'n noiser"

type_synonym pcrs = "bytes \<times> bytes \<times> bytes"

record 'a auth_store_ops =
  store_contains :: "'a \<Rightarrow> bytes \<Rightarrow> bool"
  store_verify :: "'a \<Rightarrow> bytes \<Rightarrow> bytes \<Rightarrow> 'a \<times> pcrs option"
  store_set :: "'a \<Rightarrow> bytes \<Rightarrow> pcrs \<Rightarrow> 'a"

record ('s, 'n, 'a) hs_world =
  hs_base :: 's
  hs_noise :: 'n
  hs_buf :: bytes
  hs_noise_buf :: bytes
  hs_store :: "'a option"

text \<open>An action panics, fails or gives a value; \<open>?\<close> is \<open>act_bind\<close>.\<close>

type_synonym ('w, 'b) action = "'w \<Rightarrow> ('w \<times> (scallop_error + 'b)) option"

definition act_ok :: "'b \<Rightarrow> ('w, 'b) action" where
  "act_ok x w = Some (w, Inr x)"

definition act_err :: "scallop_error \<Rightarrow> ('w, 'b) action" where
  "act_err e w = Some (w, Inl e)"

definition act_bind :: "('w, 'b) action \<Rightarrow> ('b \<Rightarrow> ('w, 'c) action) \<Rightarrow> ('w, 'c) action" where
  "act_bind m f w =
     (case m w of None \<Rightarrow> None | Some (w', Inl e) \<Rightarrow> Some (w', Inl e) | Some (w', Inr x) \<Rightarrow> f x w')"

definition act_ensure :: "bool \<Rightarrow> string \<Rightarrow> ('w, 'b) action \<Rightarrow> ('w, 'b) action" where
  "act_ensure b msg m = (if b then m else act_err (ProtocolError msg))"

section \<open>Messages\<close>

definition async_read :: "'s async_io \<Rightarrow> nat \<Rightarrow> (('s, 'n, 'a) hs_world, bytes) action" where
  "async_read io n w =
     (case read_exact io (hs_base w) n of
        (s, Inl e) \<Rightarrow> Some (w\<lparr>hs_base := s\<rparr>, Inl (TransportError e))
      | (s, Inr d) \<Rightarrow> Some (w\<lparr>hs_base := s\<rparr>, Inr d))"

definition read_u16 :: "'s async_io \<Rightarrow> (('s, 'n, 'a) hs_world, nat) action" where
  "read_u16 io = act_bind (async_read io 2) (\<lambda>d. act_ok (unat (u16_from_be_bytes (d ! 0) (d ! 1))))"

definition noise_read :: "'n noiser \<Rightarrow> 's async_io \<Rightarrow> (('s, 'n, 'a) hs_world, nat) action" where
  "noise_read lib io =
     act_bind (read_u16 io) (\<lambda>len w.
       if length (hs_buf w) < len then None
       else act_bind (async_read io len) (\<lambda>d w.
         let src = overwrite (hs_buf w) 0 d in
         case read_message lib (hs_noise w) (take len src) (hs_noise_buf w) of
           (n, dst, r) \<Rightarrow>
             Some (w\<lparr>hs_noise := n, hs_buf := src, hs_noise_buf := dst\<rparr>,
                   case r of Inl e \<Rightarrow> Inl (NoiseError e) | Inr l \<Rightarrow> Inr l)) w)"

definition noise_write ::
  "'n noiser \<Rightarrow> 's async_io \<Rightarrow> bytes \<Rightarrow> nat \<Rightarrow> (('s, 'n, 'a) hs_world, unit) action"
where
  "noise_write lib io src dst_offset w =
     (if length (hs_buf w) < dst_offset + 2 then None
      else
        case write_message lib (hs_noise w) src (drop (dst_offset + 2) (hs_buf w)) of
          (n, dst, Inl e) \<Rightarrow>
            Some (w\<lparr>hs_noise := n, hs_buf := take (dst_offset + 2) (hs_buf w) @ dst\<rparr>, Inl (TransportError e))
        | (n, dst, Inr len) \<Rightarrow>
            let buf = take dst_offset (hs_buf w) @ u16_to_be_bytes (of_nat len) @ dst;
                w = w\<lparr>hs_noise := n, hs_buf := buf\<rparr>
            in if length buf < dst_offset + len + 2 then None
               else
                 case write_all io (hs_base w) (take (dst_offset + len + 2) buf) of
                   (s, Inl e) \<Rightarrow> Some (w\<lparr>hs_base := s\<rparr>, Inl (TransportError e))
                 | (s, Inr _) \<Rightarrow>
                     (case async_flush io s of
                        (s, Inl e) \<Rightarrow> Some (w\<lparr>hs_base := s\<rparr>, Inl (TransportError e))
                      | (s, Inr _) \<Rightarrow> Some (w\<lparr>hs_base := s\<rparr>, Inr ())))"

section \<open>The client\<close>

definition prologue :: bytes where
  "prologue = [78, 111, 105, 115, 101, 83, 111, 99, 107, 101, 116, 73, 110, 105, 116, 49, 0, 0]"

text \<open>\<open>try_into::<[u8; 32]>().unwrap()\<close> panics on another length.\<close>

definition static_key :: "('h, 'n) snow \<Rightarrow> 'h \<Rightarrow> bytes option" where
  "static_key snow h =
     (case remote_static snow h of None \<Rightarrow> None | Some k \<Rightarrow> if length k = 32 then Some k else None)"

definition should_ask :: "'a auth_store_ops \<Rightarrow> 'a option \<Rightarrow> bytes \<Rightarrow> bool" where
  "should_ask ops auth_store key = (case auth_store of None \<Rightarrow> False | Some a \<Rightarrow> \<not> store_contains ops a key)"

text \<open>Up to the end of the Noise handshake: the static key of the server, whether to send and to ask for an
  attestation.\<close>

definition client_hello ::
  "('h, 'n) snow \<Rightarrow> 's async_io \<Rightarrow> 'a auth_store_ops \<Rightarrow> bytes option
     \<Rightarrow> (('s, 'h, 'a) hs_world, bytes \<times> bool \<times> bool) action"
where
  "client_hello snow io ops auther =
     act_bind (noise_write (handshake_noiser snow) io [] 2) (\<lambda>_.
     act_bind (read_u16 io) (\<lambda>len.
     act_ensure (len = 0) ''non zero second negotiation length'' (
     act_bind (noise_read (handshake_noiser snow) io) (\<lambda>len w.
       let nb = hs_noise_buf w in
       act_ensure (\<not> (len \<noteq> 3 \<or> nb ! 0 \<noteq> 0 \<or> nb ! 1 \<noteq> 1)) ''invalid second payload length'' (
       act_ensure (\<not> nb ! 2 > 1) ''invalid auth request in second payload'' (
       let should_send_auth = nb ! 2 = 1 in
       act_ensure (\<not> (should_send_auth \<and> auther = None)) ''auth requested but no auther available'' (\<lambda>w.
         case static_key snow (hs_noise w) of None \<Rightarrow> None
         | Some key \<Rightarrow> act_ok (key, should_send_auth, should_ask ops (hs_store w) key) w))) w))))"

definition send_CLIENTFIN ::
  "'n noiser \<Rightarrow> 's async_io \<Rightarrow> bytes \<Rightarrow> bool \<Rightarrow> (('s, 'n, 'a) hs_world, unit) action"
where
  "send_CLIENTFIN lib io payload should_ask_auth w =
     (if length (hs_noise_buf w) < 3 + length payload then None
      else
        let nb = overwrite (hs_noise_buf w) 0
                   ([if \<not> should_ask_auth then 0 else 1] @ u16_to_be_bytes (of_nat (length payload)) @ payload)
        in noise_write lib io (take (length payload + 3) nb) 0 (w\<lparr>hs_noise_buf := nb\<rparr>))"

definition large_buffers :: "('s, 'n, 'a) hs_world \<Rightarrow> ('s, 'n, 'a) hs_world" where
  "large_buffers w = w\<lparr>hs_buf := replicate 65000 0, hs_noise_buf := replicate 65000 0\<rparr>"

text \<open>The check of the attestation in a message, whose PCRs are then stored under the key of the peer.\<close>

definition verify_peer ::
  "'a auth_store_ops \<Rightarrow> bytes \<Rightarrow> bytes \<Rightarrow> (('s, 'n, 'a) hs_world, unit) action"
where
  "verify_peer ops attestation key w =
     (case hs_store w of None \<Rightarrow> None
      | Some a \<Rightarrow>
          (case store_verify ops a attestation key of
             (a, None) \<Rightarrow> act_err (ProtocolError ''invalid attestation'') (w\<lparr>hs_store := Some a\<rparr>)
           | (a, Some pcrs) \<Rightarrow> act_ok () (w\<lparr>hs_store := Some (store_set ops a key pcrs)\<rparr>)))"

definition verify_payload ::
  "'a auth_store_ops \<Rightarrow> nat \<Rightarrow> nat \<Rightarrow> bytes \<Rightarrow> (('s, 'n, 'a) hs_world, unit) action"
where
  "verify_payload ops start len key w =
     (case vslice (hs_noise_buf w) start len of None \<Rightarrow> None | Some attestation \<Rightarrow> verify_peer ops attestation key w)"

definition read_SERVERFIN ::
  "'n noiser \<Rightarrow> 's async_io \<Rightarrow> 'a auth_store_ops \<Rightarrow> bytes \<Rightarrow> (('s, 'n, 'a) hs_world, unit) action"
where
  "read_SERVERFIN lib io ops key w =
     act_bind (noise_read lib io) (\<lambda>len w.
       let nb = hs_noise_buf w in
       act_ensure (\<not> len < 2) ''invalid SERVERFIN length'' (
       act_ensure (unat (u16_from_be_bytes (nb ! 0) (nb ! 1)) = len - 2) ''invalid SERVERFIN payload length'' (
       verify_payload ops 2 len key)) w) (large_buffers w)"

definition client_fin ::
  "'n noiser \<Rightarrow> 's async_io \<Rightarrow> 'a auth_store_ops \<Rightarrow> bytes option \<Rightarrow> bytes \<Rightarrow> bool \<Rightarrow> bool
     \<Rightarrow> (('s, 'n, 'a) hs_world, unit) action"
where
  "client_fin lib io ops auther key should_send_auth should_ask_auth =
     act_bind
       (if should_send_auth
        then
          (case auther of None \<Rightarrow> \<lambda>w. None
           | Some payload \<Rightarrow>
               act_ensure (\<not> length payload > 60000) ''auth payload too big''
                 (\<lambda>w. send_CLIENTFIN lib io payload should_ask_auth (large_buffers w)))
        else send_CLIENTFIN lib io [] should_ask_auth)
       (\<lambda>_. if should_ask_auth then read_SERVERFIN lib io ops key else act_ok ())"

text \<open>The switch to transport mode, and what both ends return.\<close>

definition switch_mode ::
  "('h, 'n) snow \<Rightarrow> ('s, 'h, 'a) hs_world \<Rightarrow> ('s, 'n, 'a) hs_world rust_result"
where
  "switch_mode snow w =
     (case into_transport snow (hs_noise w) of Inl e \<Rightarrow> Inl e
      | Inr n \<Rightarrow> Inr \<lparr>hs_base = hs_base w, hs_noise = n, hs_buf = hs_buf w, hs_noise_buf = hs_noise_buf w,
                    hs_store = hs_store w\<rparr>)"

definition finish_handshake where
  "finish_handshake snow hello fin w =
     (case hello w of None \<Rightarrow> None
      | Some (w, Inl e) \<Rightarrow> Some (hs_base w, hs_store w, Inl e)
      | Some (w, Inr x) \<Rightarrow>
          (case switch_mode snow w of
             Inl e \<Rightarrow> Some (hs_base w, hs_store w, Inl (NoiseError e))
           | Inr w \<Rightarrow>
               (case fin x w of None \<Rightarrow> None
                | Some (w, Inl e) \<Rightarrow> Some (hs_base w, hs_store w, Inl e)
                | Some (w, Inr _) \<Rightarrow> Some (hs_base w, hs_store w, Inr (fresh_stream (hs_noise w))))))"

definition hello_world :: "'s \<Rightarrow> 'h \<Rightarrow> 'a option \<Rightarrow> ('s, 'h, 'a) hs_world" where
  "hello_world s h auth_store =
     \<lparr>hs_base = s, hs_noise = h, hs_buf = replicate 1024 0, hs_noise_buf = replicate 1024 0,
      hs_store = auth_store\<rparr>"

definition new_client ::
  "('h, 'n) snow \<Rightarrow> 's async_io \<Rightarrow> 'a auth_store_ops \<Rightarrow> 's \<Rightarrow> bytes \<Rightarrow> 'a option \<Rightarrow> bytes option
     \<Rightarrow> ('s \<times> 'a option \<times> (scallop_error + 'n scallop_stream)) option"
where
  "new_client snow io ops s secret auth_store auther =
     (case build_initiator snow secret prologue of
        Inl e \<Rightarrow> Some (s, auth_store, Inl (InitFailed e))
      | Inr h \<Rightarrow>
          finish_handshake snow (client_hello snow io ops auther)
            (\<lambda>(key, send, ask). client_fin (transport_noiser snow) io ops auther key send ask)
            (hello_world s h auth_store))"

section \<open>The server\<close>

definition server_hello ::
  "('h, 'n) snow \<Rightarrow> 's async_io \<Rightarrow> 'a auth_store_ops \<Rightarrow> (('s, 'h, 'a) hs_world, bytes \<times> bool) action"
where
  "server_hello snow io ops =
     act_bind (read_u16 io) (\<lambda>len.
     act_ensure (len = 0) ''non zero first negotiation length'' (
     act_bind (noise_read (handshake_noiser snow) io) (\<lambda>len.
     act_ensure (len = 0) ''non zero first handshake payload'' (\<lambda>w.
       case static_key snow (hs_noise w) of None \<Rightarrow> None
       | Some key \<Rightarrow>
           (let ask = should_ask ops (hs_store w) key
            in act_bind (noise_write (handshake_noiser snow) io [0, 1, if \<not> ask then 0 else 1] 2)
                 (\<lambda>_. act_ok (key, ask)) (w\<lparr>hs_buf := overwrite (hs_buf w) 0 (u16_to_be_bytes 0)\<rparr>))))))"

definition send_SERVERFIN ::
  "'n noiser \<Rightarrow> 's async_io \<Rightarrow> bytes \<Rightarrow> (('s, 'n, 'a) hs_world, unit) action"
where
  "send_SERVERFIN lib io payload w0 =
     (let w = large_buffers w0
      in if length (hs_noise_buf w) < 2 + length payload then None
         else
           let nb = overwrite (hs_noise_buf w) 0 (u16_to_be_bytes (of_nat (length payload)) @ payload)
           in noise_write lib io (take (length payload + 2) nb) 0 (w\<lparr>hs_noise_buf := nb\<rparr>))"

text \<open>The answer to the request for an attestation in the first byte of CLIENTFIN.\<close>

definition answer_auth ::
  "'n noiser \<Rightarrow> 's async_io \<Rightarrow> bytes option \<Rightarrow> u8 \<Rightarrow> (('s, 'n, 'a) hs_world, unit) action"
where
  "answer_auth lib io auther request =
     act_ensure (\<not> request > 1) ''invalid auth request in third payload'' (
     let should_send_auth = request = 1 in
     act_ensure (\<not> (should_send_auth \<and> auther = None)) ''auth requested but no auther available'' (
     if should_send_auth
     then
       (case auther of None \<Rightarrow> \<lambda>w. None
        | Some payload \<Rightarrow>
            act_ensure (\<not> length payload > 60000) ''auth payload too big'' (send_SERVERFIN lib io payload))
     else act_ok ()))"

definition server_fin ::
  "'n noiser \<Rightarrow> 's async_io \<Rightarrow> 'a auth_store_ops \<Rightarrow> bytes option \<Rightarrow> bytes \<Rightarrow> bool
     \<Rightarrow> (('s, 'n, 'a) hs_world, unit) action"
where
  "server_fin lib io ops auther key should_ask_auth =
     act_bind (noise_read lib io) (\<lambda>len w.
       let nb = hs_noise_buf w in
       act_ensure (\<not> len < 3) ''invalid CLIENTFIN length'' (
       act_ensure (unat (u16_from_be_bytes (nb ! 1) (nb ! 2)) = len - 3) ''invalid CLIENTFIN payload length'' (
       act_bind (if should_ask_auth then verify_payload ops 3 len key else act_ok ())
         (\<lambda>_. answer_auth lib io auther (nb ! 0)))) w)"

definition new_server ::
  "('h, 'n) snow \<Rightarrow> 's async_io \<Rightarrow> 'a auth_store_ops \<Rightarrow> 's \<Rightarrow> bytes \<Rightarrow> 'a option \<Rightarrow> bytes option
     \<Rightarrow> ('s \<times> 'a option \<times> (scallop_error + 'n scallop_stream)) option"
where
  "new_server snow io ops s secret auth_store auther =
     (case build_responder snow secret prologue of
        Inl e \<Rightarrow> Some (s, auth_store, Inl (InitFailed e))
      | Inr h \<Rightarrow>
          finish_handshake snow (server_hello snow io ops)
            (\<lambda>(key, ask). server_fin (transport_noiser snow) io ops auther key ask)
            (hello_world s h auth_store))"

section \<open>A finished handshake has authenticated its peer\<close>

lemma act_bind_Inr:
  "act_bind m f w = Some (w', Inr y) \<longleftrightarrow> (\<exists>w1 x. m w = Some (w1, Inr x) \<and> f x w1 = Some (w', Inr y))"
  by (auto simp: act_bind_def split: option.splits prod.splits sum.splits)

lemma act_ensure_Inr:
  "act_ensure b msg m w = Some (w', Inr y) \<longleftrightarrow> b \<and> m w = Some (w', Inr y)"
  by (auto simp: act_ensure_def act_err_def)

lemma act_ok_Some [simp]: "act_ok x w = Some (w', r) \<longleftrightarrow> w' = w \<and> r = Inr x"
  by (auto simp: act_ok_def)

lemmas act_Inr = act_bind_Inr act_ensure_Inr

lemma async_read_Inr:
  assumes "async_read io n w = Some (w', Inr d)"
  obtains s where "read_exact io (hs_base w) n = (s, Inr d)" "w' = w\<lparr>hs_base := s\<rparr>"
  using assms by (auto simp: async_read_def split: prod.splits sum.splits)

lemma read_u16_Inr:
  assumes "read_u16 io w = Some (w', Inr len)"
  obtains s where "w' = w\<lparr>hs_base := s\<rparr>"
  using assms by (auto simp: read_u16_def act_bind_Inr elim: async_read_Inr)

lemma noise_read_Inr:
  assumes "noise_read lib io w = Some (w', Inr len)"
  obtains c where "read_message lib (hs_noise w) c (hs_noise_buf w) = (hs_noise w', hs_noise_buf w', Inr len)"
    "hs_store w' = hs_store w"
proof -
  from assms obtain w1 n where "read_u16 io w = Some (w1, Inr n)"
    and r: "(if length (hs_buf w1) < n then None
       else act_bind (async_read io n) (\<lambda>d w.
         let src = overwrite (hs_buf w) 0 d in
         case read_message lib (hs_noise w) (take n src) (hs_noise_buf w) of
           (n, dst, r) \<Rightarrow>
             Some (w\<lparr>hs_noise := n, hs_buf := src, hs_noise_buf := dst\<rparr>,
                   case r of Inl e \<Rightarrow> Inl (NoiseError e) | Inr l \<Rightarrow> Inr l)) w1) = Some (w', Inr len)"
    by (auto simp: noise_read_def act_bind_Inr)
  then obtain s1 where w1: "w1 = w\<lparr>hs_base := s1\<rparr>" by (elim read_u16_Inr)
  from r obtain w2 d where "async_read io n w1 = Some (w2, Inr d)"
    and m: "(let src = overwrite (hs_buf w2) 0 d in
         case read_message lib (hs_noise w2) (take n src) (hs_noise_buf w2) of
           (n, dst, r) \<Rightarrow>
             Some (w2\<lparr>hs_noise := n, hs_buf := src, hs_noise_buf := dst\<rparr>,
                   case r of Inl e \<Rightarrow> Inl (NoiseError e) | Inr l \<Rightarrow> Inr l)) = Some (w', Inr len)"
    by (auto simp: act_bind_Inr split: if_splits)
  then obtain s2 where w2: "w2 = w\<lparr>hs_base := s2\<rparr>" using w1 by (auto elim: async_read_Inr)
  obtain n' dst r' where q: "read_message lib (hs_noise w) (take n (overwrite (hs_buf w) 0 d)) (hs_noise_buf w) =
      (n', dst, r')" using prod_cases3 by blast
  with m w2 show ?thesis by (intro that) (auto simp: Let_def split: sum.splits)
qed

lemma noise_write_Inr:
  assumes "noise_write lib io src off w = Some (w', Inr u)"
  obtains dst dst' len where "write_message lib (hs_noise w) src dst = (hs_noise w', dst', Inr len)"
    "hs_store w' = hs_store w"
  using assms unfolding noise_write_def
  by (auto simp: Let_def split: if_splits prod.splits sum.splits)

text \<open>Bytes the transport of the handshake decrypted.\<close>

definition from_peer :: "'n noiser \<Rightarrow> bytes \<Rightarrow> bool" where
  "from_peer lib x \<longleftrightarrow>
     (\<exists>n c dst n' dst' len k. read_message lib n c dst = (n', dst', Inr len) \<and> vslice dst' k len = Some x)"

text \<open>The store after a handshake: the key of the peer was in it, or an attestation that came over the
  channel was verified for this key, and its PCRs were stored.\<close>

definition authenticated :: "'a auth_store_ops \<Rightarrow> 'n noiser \<Rightarrow> 'a \<Rightarrow> bytes \<Rightarrow> 'a option \<Rightarrow> bool" where
  "authenticated ops lib a key after \<longleftrightarrow>
     (store_contains ops a key \<and> after = Some a) \<or>
     (\<not> store_contains ops a key \<and>
      (\<exists>attestation a' pcrs. from_peer lib attestation \<and> store_verify ops a attestation key = (a', Some pcrs) \<and>
         after = Some (store_set ops a' key pcrs)))"

lemma from_peerI:
  "read_message lib n c dst = (n', dst', Inr len) \<Longrightarrow> vslice dst' k len = Some x \<Longrightarrow> from_peer lib x"
  unfolding from_peer_def by blast

lemma verify_payload_Inr:
  assumes "verify_payload ops start len key w = Some (w', Inr u)"
    and "read_message lib n c dst = (n', hs_noise_buf w, Inr len)"
  obtains x a a' pcrs where "from_peer lib x" "hs_store w = Some a" "store_verify ops a x key = (a', Some pcrs)"
    "hs_store w' = Some (store_set ops a' key pcrs)"
  using assms
  by (auto simp: verify_payload_def verify_peer_def act_err_def dest: from_peerI split: option.splits prod.splits)

definition fin_authenticates where
  "fin_authenticates ops lib key ask w w' \<longleftrightarrow>
     (if ask
      then \<exists>a a' x pcrs. hs_store w = Some a \<and> from_peer lib x \<and> store_verify ops a x key = (a', Some pcrs) \<and>
             hs_store w' = Some (store_set ops a' key pcrs)
      else hs_store w' = hs_store w)"

lemma fin_authenticatesI:
  "from_peer lib x \<Longrightarrow> store_verify ops a x key = (a', Some pcrs) \<Longrightarrow> hs_store w = Some a \<Longrightarrow>
   hs_store w' = Some (store_set ops a' key pcrs) \<Longrightarrow> fin_authenticates ops lib key True w w'"
  unfolding fin_authenticates_def if_True by blast

lemma read_SERVERFIN_Inr:
  assumes "read_SERVERFIN lib io ops key w = Some (w', Inr u)"
  shows "fin_authenticates ops lib key True w w'"
proof -
  from assms obtain w1 len where r: "noise_read lib io (large_buffers w) = Some (w1, Inr len)"
    and v: "verify_payload ops 2 len key w1 = Some (w', Inr u)"
    by (auto simp: read_SERVERFIN_def act_Inr Let_def)
  from r obtain c where m: "read_message lib (hs_noise w) c (hs_noise_buf (large_buffers w)) =
      (hs_noise w1, hs_noise_buf w1, Inr len)" and s: "hs_store w1 = hs_store w"
    by (auto simp: large_buffers_def elim: noise_read_Inr)
  from v m show ?thesis
    by (rule verify_payload_Inr) (rule fin_authenticatesI, use s in simp_all)
qed

lemma send_CLIENTFIN_store:
  "send_CLIENTFIN lib io p ask w = Some (w', Inr u) \<Longrightarrow> hs_store w' = hs_store w"
  by (auto simp: send_CLIENTFIN_def Let_def elim: noise_write_Inr split: if_splits)

lemma client_fin_Inr:
  assumes "client_fin lib io ops auther key send ask w = Some (w', Inr u)"
  shows "fin_authenticates ops lib key ask w w'"
proof -
  from assms obtain w1 where w1: "hs_store w1 = hs_store w"
    and r: "(if ask then read_SERVERFIN lib io ops key else act_ok ()) w1 = Some (w', Inr u)"
    by (auto simp: client_fin_def act_Inr large_buffers_def dest!: send_CLIENTFIN_store
        split: if_splits option.splits)
  then show ?thesis using read_SERVERFIN_Inr [of lib io ops key w1 w' u]
    by (auto simp: fin_authenticates_def split: if_splits)
qed

lemma send_SERVERFIN_store:
  "send_SERVERFIN lib io p w = Some (w', Inr u) \<Longrightarrow> hs_store w' = hs_store w"
  by (auto simp: send_SERVERFIN_def large_buffers_def Let_def elim: noise_write_Inr split: if_splits)

lemma answer_auth_store:
  "answer_auth lib io auther b w = Some (w', Inr u) \<Longrightarrow> hs_store w' = hs_store w"
  by (auto simp: answer_auth_def act_Inr Let_def dest!: send_SERVERFIN_store split: option.splits if_splits)

lemma server_fin_Inr:
  assumes "server_fin lib io ops auther key ask w = Some (w', Inr u)"
  shows "fin_authenticates ops lib key ask w w'"
proof -
  from assms obtain w1 len w2 where r: "noise_read lib io w = Some (w1, Inr len)"
    and v: "(if ask then verify_payload ops 3 len key else act_ok ()) w1 = Some (w2, Inr ())"
    and "answer_auth lib io auther (hs_noise_buf w1 ! 0) w2 = Some (w', Inr u)"
    unfolding server_fin_def act_Inr Let_def by auto
  then have w2: "hs_store w' = hs_store w2" by (elim answer_auth_store)
  from r obtain c where m: "read_message lib (hs_noise w) c (hs_noise_buf w) =
      (hs_noise w1, hs_noise_buf w1, Inr len)" and s: "hs_store w1 = hs_store w"
    by (auto elim: noise_read_Inr)
  show ?thesis
  proof (cases ask)
    case True
    with v have "verify_payload ops 3 len key w1 = Some (w2, Inr ())" by simp
    then have "fin_authenticates ops lib key True w w'" using m
      by (rule verify_payload_Inr) (rule fin_authenticatesI, use s w2 in simp_all)
    with True show ?thesis by simp
  next
    case False
    with v s w2 show ?thesis by (simp add: fin_authenticates_def)
  qed
qed

lemma client_hello_Inr:
  assumes "client_hello snow io ops auther w = Some (w', Inr (key, send, ask))"
  shows "static_key snow (hs_noise w') = Some key" "ask = should_ask ops (hs_store w') key" "hs_store w' = hs_store w"
  using assms
  by (auto simp: client_hello_def act_Inr Let_def split: option.splits
      elim!: noise_read_Inr noise_write_Inr read_u16_Inr)

lemma server_hello_Inr:
  assumes "server_hello snow io ops w = Some (w', Inr (key, ask))"
  obtains h p dst dst' len where "static_key snow h = Some key"
    "write_message (handshake_noiser snow) h p dst = (hs_noise w', dst', Inr len)"
    "ask = should_ask ops (hs_store w') key" "hs_store w' = hs_store w"
  using assms
  by (auto simp: server_hello_def act_Inr Let_def split: option.splits
      elim!: noise_read_Inr noise_write_Inr read_u16_Inr)

lemma finish_handshake_Inr:
  assumes "finish_handshake snow hello fin w = Some (s, store, Inr st)"
  obtains w1 x n w2 where "hello w = Some (w1, Inr x)" "into_transport snow (hs_noise w1) = Inr n"
    "fin x \<lparr>hs_base = hs_base w1, hs_noise = n, hs_buf = hs_buf w1, hs_noise_buf = hs_noise_buf w1,
            hs_store = hs_store w1\<rparr> = Some (w2, Inr ())" "store = hs_store w2"
proof -
  from assms obtain w1 x where h: "hello w = Some (w1, Inr x)"
    by (auto simp: finish_handshake_def split: option.splits sum.splits)
  with assms obtain n where n: "into_transport snow (hs_noise w1) = Inr n"
    by (auto simp: finish_handshake_def switch_mode_def split: sum.splits)
  let ?w = "\<lparr>hs_base = hs_base w1, hs_noise = n, hs_buf = hs_buf w1, hs_noise_buf = hs_noise_buf w1,
            hs_store = hs_store w1\<rparr>"
  from assms h n obtain w2 where "fin x ?w = Some (w2, Inr ())" "store = hs_store w2"
    by (auto simp: finish_handshake_def switch_mode_def split: option.splits sum.splits)
  with h n that show ?thesis by blast
qed

lemma fin_authenticates_store:
  assumes "fin_authenticates ops lib key ask w w'" "ask = should_ask ops (Some a) key" "hs_store w = Some a"
  shows "authenticated ops lib a key (hs_store w')"
proof (cases ask)
  case True
  with assms have "\<not> store_contains ops a key" by (simp add: should_ask_def)
  moreover from assms True obtain a' x pcrs where "from_peer lib x" "store_verify ops a x key = (a', Some pcrs)"
      "hs_store w' = Some (store_set ops a' key pcrs)"
    unfolding fin_authenticates_def by (metis option.inject)
  ultimately show ?thesis unfolding authenticated_def by blast
next
  case False
  with assms show ?thesis by (simp add: fin_authenticates_def authenticated_def should_ask_def)
qed

lemma static_key_Some: "static_key snow h = Some k \<Longrightarrow> remote_static snow h = Some k \<and> length k = 32"
  by (auto simp: static_key_def split: option.splits if_splits)

text \<open>C6: A handshake that ends with a stream has authenticated its peer if the caller gave an auth store, on
  either side: the 32-byte static key the Noise handshake gives for the peer was in the store, which is as it
  was, or an attestation decrypted from the channel was verified for that key and its PCRs were stored under it.\<close>

theorem handshake_authenticates:
  shows "(new_client snow io ops s secret (Some a) auther = Some (s', store, Inr st) \<longrightarrow>
      (\<exists>h n key. into_transport snow h = Inr n \<and> remote_static snow h = Some key \<and> length key = 32 \<and>
         authenticated ops (transport_noiser snow) a key store)) \<and>
    (new_server snow io ops s secret (Some a) auther = Some (s', store, Inr st) \<longrightarrow>
      (\<exists>h p dst h' dst' len n key. remote_static snow h = Some key \<and> length key = 32 \<and>
         write_message (handshake_noiser snow) h p dst = (h', dst', Inr len) \<and> into_transport snow h' = Inr n \<and>
         authenticated ops (transport_noiser snow) a key store))"
proof (intro conjI impI)
  assume "new_client snow io ops s secret (Some a) auther = Some (s', store, Inr st)"
  then obtain h where "finish_handshake snow (client_hello snow io ops auther)
            (\<lambda>(key, send, ask). client_fin (transport_noiser snow) io ops auther key send ask)
            (hello_world s h (Some a)) = Some (s', store, Inr st)"
    by (auto simp: new_client_def split: sum.splits)
  then obtain w1 x n w2 where hello: "client_hello snow io ops auther (hello_world s h (Some a)) = Some (w1, Inr x)"
    and n: "into_transport snow (hs_noise w1) = Inr n"
    and fin: "(\<lambda>(key, send, ask). client_fin (transport_noiser snow) io ops auther key send ask) x
      \<lparr>hs_base = hs_base w1, hs_noise = n, hs_buf = hs_buf w1, hs_noise_buf = hs_noise_buf w1,
       hs_store = hs_store w1\<rparr> = Some (w2, Inr ())" and store: "store = hs_store w2"
    by (rule finish_handshake_Inr)
  obtain key send ask where x: "x = (key, send, ask)" by (rule prod_cases3)
  note H = client_hello_Inr [OF hello [unfolded x]]
  from H(3) have W: "hs_store w1 = Some a" by (simp add: hello_world_def)
  from fin have F: "fin_authenticates ops (transport_noiser snow) key ask
      \<lparr>hs_base = hs_base w1, hs_noise = n, hs_buf = hs_buf w1, hs_noise_buf = hs_noise_buf w1,
       hs_store = hs_store w1\<rparr> w2"
    unfolding x prod.case by (rule client_fin_Inr)
  have "authenticated ops (transport_noiser snow) a key store"
    unfolding store by (rule fin_authenticates_store [OF F]) (use H(2) W in simp_all)
  with n static_key_Some [OF H(1)]
  show "\<exists>h n key. into_transport snow h = Inr n \<and> remote_static snow h = Some key \<and> length key = 32 \<and>
         authenticated ops (transport_noiser snow) a key store"
    by blast
next
  assume "new_server snow io ops s secret (Some a) auther = Some (s', store, Inr st)"
  then obtain g where "finish_handshake snow (server_hello snow io ops)
            (\<lambda>(key, ask). server_fin (transport_noiser snow) io ops auther key ask)
            (hello_world s g (Some a)) = Some (s', store, Inr st)"
    by (auto simp: new_server_def split: sum.splits)
  then obtain w1 x n w2 where hello: "server_hello snow io ops (hello_world s g (Some a)) = Some (w1, Inr x)"
    and n: "into_transport snow (hs_noise w1) = Inr n"
    and fin: "(\<lambda>(key, ask). server_fin (transport_noiser snow) io ops auther key ask) x
      \<lparr>hs_base = hs_base w1, hs_noise = n, hs_buf = hs_buf w1, hs_noise_buf = hs_noise_buf w1,
       hs_store = hs_store w1\<rparr> = Some (w2, Inr ())" and store: "store = hs_store w2"
    by (rule finish_handshake_Inr)
  obtain key ask where x: "x = (key, ask)" by fastforce
  obtain h p dst dst' len where k: "static_key snow h = Some key"
    and wr: "write_message (handshake_noiser snow) h p dst = (hs_noise w1, dst', Inr len)"
    and H: "ask = should_ask ops (hs_store w1) key" "hs_store w1 = hs_store (hello_world s g (Some a))"
    by (rule server_hello_Inr [OF hello [unfolded x]])
  from H(2) have W: "hs_store w1 = Some a" by (simp add: hello_world_def)
  from fin have F: "fin_authenticates ops (transport_noiser snow) key ask
      \<lparr>hs_base = hs_base w1, hs_noise = n, hs_buf = hs_buf w1, hs_noise_buf = hs_noise_buf w1,
       hs_store = hs_store w1\<rparr> w2"
    unfolding x prod.case by (rule server_fin_Inr)
  have "authenticated ops (transport_noiser snow) a key store"
    unfolding store by (rule fin_authenticates_store [OF F]) (use H(1) W in simp_all)
  with n wr static_key_Some [OF k]
  show "\<exists>h p dst h' dst' len n key. remote_static snow h = Some key \<and> length key = 32 \<and>
         write_message (handshake_noiser snow) h p dst = (h', dst', Inr len) \<and> into_transport snow h' = Inr n \<and>
         authenticated ops (transport_noiser snow) a key store"
    by blast
qed

section \<open>Handshakes over a pipe\<close>

text \<open>A base stream whose input is there from the start and whose output is collected.\<close>

record wire =
  inbox :: bytes
  outbox :: bytes

definition wire_io :: "wire async_io" where
  "wire_io =
     \<lparr>read_exact = (\<lambda>s n. if length (inbox s) < n then (s\<lparr>inbox := []\<rparr>, Inl ''early eof'')
                         else (s\<lparr>inbox := drop n (inbox s)\<rparr>, Inr (take n (inbox s)))),
      write_all = (\<lambda>s x. (s\<lparr>outbox := outbox s @ x\<rparr>, Inr ())),
      async_flush = (\<lambda>s. (s, Inr ()))\<rparr>"

text \<open>A record: the length of a message and the message.\<close>

definition framed :: "bytes \<Rightarrow> bytes" where
  "framed c = u16_to_be_bytes (of_nat (length c)) @ c"

lemma framed_header:
  assumes "length c < 65536"
  shows "unat (u16_from_be_bytes ((framed c @ x) ! 0) ((framed c @ x) ! 1)) = length c"
proof -
  have "unat (of_nat (length c) :: u16) = length c"
    using assms by (simp add: unat_of_nat take_bit_nat_eq_self)
  then show ?thesis by (simp add: framed_def u16_to_be_bytes_def u16_be_roundtrip)
qed

lemma async_read_wire:
  "async_read wire_io n w =
     (if length (inbox (hs_base w)) < n
      then Some (w\<lparr>hs_base := (hs_base w)\<lparr>inbox := []\<rparr>\<rparr>, Inl (TransportError ''early eof''))
      else Some (w\<lparr>hs_base := (hs_base w)\<lparr>inbox := drop n (inbox (hs_base w))\<rparr>\<rparr>, Inr (take n (inbox (hs_base w)))))"
  by (simp add: async_read_def wire_io_def)

lemma read_u16_wire:
  assumes "inbox (hs_base w) = x # y # rest"
  shows "read_u16 wire_io w = Some (w\<lparr>hs_base := (hs_base w)\<lparr>inbox := rest\<rparr>\<rparr>, Inr (unat (u16_from_be_bytes x y)))"
  using assms by (simp add: read_u16_def act_bind_def async_read_wire act_ok_def)

lemma noise_read_wire_panics:
  assumes "inbox (hs_base w) = x # y # rest"
  shows "noise_read lib wire_io w = None \<longleftrightarrow> length (hs_buf w) < unat (u16_from_be_bytes x y)"
  using read_u16_wire [OF assms]
  by (simp add: noise_read_def act_bind_def async_read_wire Let_def split: prod.split)

lemma noise_read_wire:
  assumes inp: "inbox (hs_base w) = framed c @ rest" and len: "length c < 65536" "length c \<le> length (hs_buf w)"
    and msg: "read_message lib (hs_noise w) c (hs_noise_buf w) = (n, dst, Inr l)"
  shows "noise_read lib wire_io w =
    Some (w\<lparr>hs_base := (hs_base w)\<lparr>inbox := rest\<rparr>, hs_noise := n, hs_buf := overwrite (hs_buf w) 0 c,
            hs_noise_buf := dst\<rparr>, Inr l)"
proof -
  have two: "inbox (hs_base w) = (framed c @ rest) ! 0 # (framed c @ rest) ! 1 # (c @ rest)"
    using inp by (simp add: framed_def u16_to_be_bytes_def)
  have "take (length c) (overwrite (hs_buf w) 0 c) = c" by (simp add: overwrite_def)
  with read_u16_wire [OF two] len msg show ?thesis
    unfolding framed_header [OF len(1)]
    by (simp add: noise_read_def act_bind_def async_read_wire Let_def)
qed

lemma noise_write_wire:
  assumes "off + 2 \<le> length (hs_buf w)"
    and msg: "write_message lib (hs_noise w) src (drop (off + 2) (hs_buf w)) = (n, dst, Inr len)"
    and len: "len \<le> length dst"
  shows "noise_write lib wire_io src off w =
    Some (w\<lparr>hs_base := (hs_base w)\<lparr>outbox := outbox (hs_base w) @ take off (hs_buf w) @ framed (take len dst)\<rparr>,
            hs_noise := n, hs_buf := take off (hs_buf w) @ u16_to_be_bytes (of_nat len) @ dst\<rparr>, Inr ())"
  using assms by (simp add: noise_write_def Let_def wire_io_def framed_def min_def)

text \<open>The sizes of the messages of a transport.\<close>

definition noise_sizes :: "'n noiser \<Rightarrow> bool" where
  "noise_sizes lib \<longleftrightarrow>
     (\<forall>n m dst n' dst' r. write_message lib n m dst = (n', dst', r) \<longrightarrow>
        length dst' = length dst \<and> (\<forall>k. r = Inr k \<longrightarrow> k = length m + 16 \<and> k \<le> length dst \<and> k < 65536)) \<and>
     (\<forall>n c dst n' dst' r. read_message lib n c dst = (n', dst', r) \<longrightarrow>
        length dst' = length dst \<and> (\<forall>k. r = Inr k \<longrightarrow> k \<le> length dst))"

lemma noise_sizes_write:
  assumes "noise_sizes lib" "write_message lib n m dst = (n', dst', r)"
  shows "length dst' = length dst" "r = Inr k \<Longrightarrow> k = length m + 16 \<and> k \<le> length dst \<and> k < 65536"
  using assms unfolding noise_sizes_def by blast+

lemma noise_sizes_read:
  assumes "noise_sizes lib" "read_message lib n c dst = (n', dst', r)"
  shows "length dst' = length dst" "r = Inr k \<Longrightarrow> k \<le> length dst"
  using assms unfolding noise_sizes_def by blast+

lemma noise_write_wire_total:
  assumes "noise_sizes lib" "off + 2 \<le> length (hs_buf w)"
  shows "noise_write lib wire_io src off w \<noteq> None"
proof -
  obtain n dst r where msg: "write_message lib (hs_noise w) src (drop (off + 2) (hs_buf w)) = (n, dst, r)"
    using prod_cases3 by blast
  show ?thesis
  proof (cases r)
    case (Inl e)
    with assms msg show ?thesis by (simp add: noise_write_def)
  next
    case (Inr len)
    with noise_sizes_write [OF assms(1) msg] noise_write_wire [OF assms(2) msg [unfolded Inr]] show ?thesis
      by simp
  qed
qed

text \<open>What CLIENTFIN puts on the wire.\<close>

lemma send_CLIENTFIN_wire:
  assumes sizes: "noise_sizes lib" and "length (hs_buf w) = length (hs_noise_buf w)"
    "3 + length p \<le> length (hs_noise_buf w)"
  obtains w' r c where "send_CLIENTFIN lib wire_io p ask w = Some (w', r)"
    "inbox (hs_base w') = inbox (hs_base w)"
    "r = Inr () \<and> length c = length p + 19 \<and> length c < 65536 \<and> outbox (hs_base w') = outbox (hs_base w) @ framed c
     \<or> r \<noteq> Inr () \<and> outbox (hs_base w') = outbox (hs_base w)"
proof -
  define nb where "nb = overwrite (hs_noise_buf w) 0
      ([if \<not> ask then 0 else 1] @ u16_to_be_bytes (of_nat (length p)) @ p)"
  let ?w = "w\<lparr>hs_noise_buf := nb\<rparr>"
  have len: "length (take (length p + 3) nb) = length p + 3"
    using assms(3) by (simp add: nb_def overwrite_def)
  have eq: "send_CLIENTFIN lib wire_io p ask w = noise_write lib wire_io (take (length p + 3) nb) 0 ?w"
    using assms(3) by (simp add: send_CLIENTFIN_def nb_def Let_def)
  obtain n dst r where msg: "write_message lib (hs_noise ?w) (take (length p + 3) nb) (drop (0 + 2) (hs_buf ?w)) =
      (n, dst, r)" using prod_cases3 by blast
  show ?thesis
  proof (cases r)
    case (Inl e)
    with eq msg assms(2,3) have "send_CLIENTFIN lib wire_io p ask w =
        Some (?w\<lparr>hs_noise := n, hs_buf := take (0 + 2) (hs_buf w) @ dst\<rparr>, Inl (TransportError e))"
      by (simp add: noise_write_def)
    then show ?thesis by (rule that) simp_all
  next
    case (Inr k)
    with noise_sizes_write [OF sizes msg] len have k: "k = length p + 19" "k < 65536" "k \<le> length dst" by simp_all
    have "0 + 2 \<le> length (hs_buf ?w)" using assms(2,3) by simp
    note t = trans [OF eq noise_write_wire [OF this msg [unfolded Inr] k(3)]]
    show ?thesis by (rule that [where c = "take k dst", OF t]) (use k in simp_all)
  qed
qed

lemma send_SERVERFIN_total:
  assumes "noise_sizes lib" "length p \<le> 60000"
  shows "send_SERVERFIN lib wire_io p w \<noteq> None"
proof -
  have "noise_write lib wire_io src 0 (w'\<lparr>hs_noise_buf := nb\<rparr>) \<noteq> None" if "w' = large_buffers w" for src nb w'
    using that by (intro noise_write_wire_total [OF assms(1)]) (simp add: large_buffers_def)
  with assms(2) show ?thesis by (simp add: send_SERVERFIN_def Let_def) (simp add: large_buffers_def)
qed

lemma answer_auth_total:
  assumes "noise_sizes lib"
  shows "answer_auth lib wire_io auther b w \<noteq> None"
  using send_SERVERFIN_total [OF assms, of _ w]
  by (auto simp: answer_auth_def act_ensure_def act_err_def act_ok_def Let_def split: option.split)

lemma verify_payload_total:
  "start \<le> len \<Longrightarrow> len \<le> length (hs_noise_buf w) \<Longrightarrow> hs_store w \<noteq> None \<Longrightarrow>
   verify_payload ops start len key w \<noteq> None"
  by (auto simp: verify_payload_def vslice_Some verify_peer_def act_err_def act_ok_def
      split: option.splits prod.splits)

lemma act_bind_None:
  "act_bind m f w = None \<longleftrightarrow> m w = None \<or> (\<exists>w' x. m w = Some (w', Inr x) \<and> f x w' = None)"
  by (auto simp: act_bind_def split: option.splits prod.splits sum.splits)

lemma act_ensure_None: "act_ensure b msg m w = None \<longleftrightarrow> b \<and> m w = None"
  by (simp add: act_ensure_def act_err_def)

lemma server_fin_panics:
  assumes sizes: "noise_sizes lib" and buf: "length (hs_buf w) = 1024"
    and store: "ask \<longrightarrow> hs_store w \<noteq> None" and inp: "inbox (hs_base w) = x # y # rest"
  shows "server_fin lib wire_io ops auther key ask w = None \<longleftrightarrow> 1024 < unat (u16_from_be_bytes x y)"
proof -
  have rest: "act_bind (if ask then verify_payload ops 3 len key else act_ok ())
         (\<lambda>_. answer_auth lib wire_io auther (hs_noise_buf w1 ! 0)) w1 \<noteq> None"
    if r: "noise_read lib wire_io w = Some (w1, Inr len)" and len: "\<not> len < 3" for w1 len
  proof -
    from r obtain c where m: "read_message lib (hs_noise w) c (hs_noise_buf w) = (hs_noise w1, hs_noise_buf w1, Inr len)"
      and "hs_store w1 = hs_store w" by (rule noise_read_Inr)
    moreover have "len \<le> length (hs_noise_buf w1)" using noise_sizes_read [OF sizes m] by simp
    ultimately have "ask \<Longrightarrow> verify_payload ops 3 len key w1 \<noteq> None"
      using store len by (intro verify_payload_total) auto
    with answer_auth_total [OF sizes] show ?thesis
      by (cases ask) (auto simp: act_bind_None)
  qed
  have "server_fin lib wire_io ops auther key ask w = None \<longleftrightarrow> noise_read lib wire_io w = None \<or>
      (\<exists>w1 len. noise_read lib wire_io w = Some (w1, Inr len) \<and> \<not> len < 3 \<and>
         unat (u16_from_be_bytes (hs_noise_buf w1 ! 1) (hs_noise_buf w1 ! 2)) = len - 3 \<and>
         act_bind (if ask then verify_payload ops 3 len key else act_ok ())
           (\<lambda>_. answer_auth lib wire_io auther (hs_noise_buf w1 ! 0)) w1 = None)"
    by (simp only: server_fin_def act_bind_None [where m = "noise_read lib wire_io"] act_ensure_None Let_def)
  with rest have "server_fin lib wire_io ops auther key ask w = None \<longleftrightarrow> noise_read lib wire_io w = None"
    by blast
  with noise_read_wire_panics [OF inp] buf show ?thesis by simp
qed

lemma read_u16_out:
  "read_u16 wire_io w = Some (w', r) \<Longrightarrow> outbox (hs_base w') = outbox (hs_base w)"
  by (auto simp: read_u16_def act_bind_def async_read_wire act_ok_def split: if_splits)

lemma noise_read_out:
  assumes "noise_read lib wire_io w = Some (w', r)"
  shows "outbox (hs_base w') = outbox (hs_base w)"
proof -
  from assms obtain w1 q where "read_u16 wire_io w = Some (w1, q)"
    by (auto simp: noise_read_def act_bind_def split: option.splits)
  with assms show ?thesis
    by (cases q) (auto simp: noise_read_def act_bind_def async_read_wire Let_def dest!: read_u16_out
        split: if_splits prod.splits)
qed

lemma verify_payload_base:
  "verify_payload ops start len key w = Some (w', r) \<Longrightarrow> hs_base w' = hs_base w"
  by (auto simp: verify_payload_def verify_peer_def act_err_def act_ok_def split: option.splits prod.splits)

lemma read_SERVERFIN_out:
  assumes "read_SERVERFIN lib wire_io ops key w = Some (w', r)"
  shows "outbox (hs_base w') = outbox (hs_base w)"
proof -
  from assms obtain w1 q where n: "noise_read lib wire_io (large_buffers w) = Some (w1, q)"
    by (auto simp: read_SERVERFIN_def act_bind_def split: option.splits)
  with assms have "hs_base w' = hs_base w1"
    by (cases q) (auto simp: read_SERVERFIN_def act_bind_def act_ensure_def act_err_def Let_def
        dest: verify_payload_base split: if_splits)
  with noise_read_out [OF n] show ?thesis by (simp add: large_buffers_def)
qed

text \<open>C39: The server reads the message with the attestation of the client into a buffer of 1024 bytes, while the
  client accepts to send one of up to 60000: on what a client sent with an attestation, the server panics if
  and only if the attestation has more than 1005 bytes.\<close>

theorem large_attestation_panics:
  assumes "noise_sizes lib"
    and "client_fin lib wire_io cops (Some p) ckey True cask cw = Some (cw', r)"
    and "outbox (hs_base cw) = []" "outbox (hs_base cw') \<noteq> []"
    and "inbox (hs_base sw) = outbox (hs_base cw')" "length (hs_buf sw) = 1024" "sask \<longrightarrow> hs_store sw \<noteq> None"
  shows "server_fin lib wire_io sops auther skey sask sw = None \<longleftrightarrow> 1005 < length p"
proof -
  let ?w = "large_buffers cw"
  have "length p \<le> 60000"
    using assms(2-4) by (auto simp: client_fin_def act_bind_def act_ensure_def act_err_def split: if_splits)
  then have "length (hs_buf ?w) = length (hs_noise_buf ?w)" "3 + length p \<le> length (hs_noise_buf ?w)"
    by (simp_all add: large_buffers_def)
  then obtain w1 r1 c where s: "send_CLIENTFIN lib wire_io p cask ?w = Some (w1, r1)"
    and out: "r1 = Inr () \<and> length c = length p + 19 \<and> length c < 65536 \<and>
        outbox (hs_base w1) = outbox (hs_base ?w) @ framed c \<or>
        r1 \<noteq> Inr () \<and> outbox (hs_base w1) = outbox (hs_base ?w)"
    by (rule send_CLIENTFIN_wire [OF assms(1)])
  have empty: "outbox (hs_base ?w) = []" using assms(3) by (simp add: large_buffers_def)
  have "outbox (hs_base cw') = outbox (hs_base w1)"
    using assms(2) s \<open>length p \<le> 60000\<close>
    by (auto simp: client_fin_def act_bind_def act_ensure_def act_ok_def dest: read_SERVERFIN_out
        split: option.splits prod.splits sum.splits if_splits)
  with out empty assms(4) have c: "length c = length p + 19" "length c < 65536" "outbox (hs_base cw') = framed c"
    by auto
  have "inbox (hs_base sw) = (framed c @ []) ! 0 # (framed c @ []) ! 1 # c"
    using assms(5) c(3) by (simp add: framed_def u16_to_be_bytes_def)
  from server_fin_panics [OF assms(1,6,7) this] show ?thesis
    unfolding framed_header [OF c(2)] c(1) by auto
qed

section \<open>Two ends that follow the protocol finish\<close>

text \<open>A transport that does not run out of nonces: a message that fits is written.\<close>

definition noise_room :: "'n noiser \<Rightarrow> bool" where
  "noise_room lib \<longleftrightarrow>
     (\<forall>n m dst. length m + 16 \<le> length dst \<longrightarrow> length m + 16 < 65536 \<longrightarrow>
        (\<exists>n' dst'. write_message lib n m dst = (n', dst', Inr (length m + 16))))"

text \<open>The Noise handshake IX between two secrets: the first message carries the static key of the client, the
  second the static key of the server and the request, and the transports of the two ends are in step.\<close>

definition ix_handshake where
  "ix_handshake snow in_sync cs ss ck sk \<longleftrightarrow>
     (\<exists>h0 g0 h1 g1 c1.
        build_initiator snow cs prologue = Inr h0 \<and> build_responder snow ss prologue = Inr g0 \<and>
        (\<forall>dst. length dst = 1020 \<longrightarrow>
           (\<exists>x. write_message (handshake_noiser snow) h0 [] dst = (h1, c1 @ x, Inr (length c1)) \<and>
                length (c1 @ x) = 1020)) \<and>
        (\<forall>dst. length dst = 1024 \<longrightarrow>
           (\<exists>x. read_message (handshake_noiser snow) g0 c1 dst = (g1, x, Inr 0) \<and> length x = 1024)) \<and>
        static_key snow g1 = Some ck \<and>
        (\<forall>b. \<exists>h2 g2 c2 n m.
           (\<forall>dst. length dst = 1020 \<longrightarrow>
              (\<exists>x. write_message (handshake_noiser snow) g1 [0, 1, b] dst = (g2, c2 @ x, Inr (length c2)) \<and>
                   length (c2 @ x) = 1020)) \<and>
           (\<forall>dst. length dst = 1024 \<longrightarrow>
              (\<exists>x. read_message (handshake_noiser snow) h1 c2 dst = (h2, [0, 1, b] @ x, Inr 3) \<and>
                   length ([0, 1, b] @ x) = 1024)) \<and>
           static_key snow h2 = Some sk \<and> into_transport snow h2 = Inr n \<and> into_transport snow g2 = Inr m \<and>
           in_sync n [] m \<and> in_sync m [] n))"

text \<open>A side that asks for an attestation gets one of at most \<open>limit\<close> bytes that its store accepts.\<close>

definition convinced where
  "convinced ops store auther key limit \<longleftrightarrow>
     (should_ask ops store key \<longrightarrow>
        (\<exists>a a' p pcrs. store = Some a \<and> auther = Some p \<and> length p \<le> limit \<and>
           store_verify ops a p key = (a', Some pcrs)))"

lemma transport_write:
  assumes chan: "noise_channel lib in_sync" and room: "noise_room lib"
    and sync: "in_sync (hs_noise w) fl m" and fit: "18 + length src \<le> length (hs_buf w)" "length src + 16 < 65536"
  obtains n b c where "\<forall>s. noise_write lib wire_io src 0 (w\<lparr>hs_base := s\<rparr>) =
      Some (w\<lparr>hs_base := s\<lparr>outbox := outbox s @ framed c\<rparr>, hs_noise := n, hs_buf := b\<rparr>, Inr ())"
    "in_sync n (fl @ [(src, c)]) m" "length c = length src + 16"
    "\<And>fl'. in_sync m fl' (hs_noise w) \<Longrightarrow> in_sync m fl' n"
proof -
  have "length src + 16 \<le> length (drop (0 + 2) (hs_buf w))" using fit by simp
  with room fit obtain n dst where
    msg: "write_message lib (hs_noise w) src (drop (0 + 2) (hs_buf w)) = (n, dst, Inr (length src + 16))"
    unfolding noise_room_def by blast
  note W = noise_writes(1) [OF chan sync msg] noise_writes(3) [OF chan sync msg refl]
  have len: "length src + 16 \<le> length dst" using W by simp
  have "\<forall>s. noise_write lib wire_io src 0 (w\<lparr>hs_base := s\<rparr>) =
      Some (w\<lparr>hs_base := s\<lparr>outbox := outbox s @ framed (take (length src + 16) dst)\<rparr>,
              hs_noise := n, hs_buf := u16_to_be_bytes (of_nat (length src + 16)) @ dst\<rparr>, Inr ())"
    using fit msg len by (simp add: noise_write_wire [where n = n and dst = dst])
  then show ?thesis
  proof (rule that)
    show "in_sync n (fl @ [(src, take (length src + 16) dst)]) m" using W by blast
    show "length (take (length src + 16) dst) = length src + 16" using len by simp
  qed (rule noise_independent(2) [OF chan _ msg])
qed

lemma transport_read:
  assumes chan: "noise_channel lib in_sync" and sync: "in_sync n ((src, c) # fl) (hs_noise w)"
    and inp: "inbox (hs_base w) = framed c @ rest"
    and fit: "length c < 65536" "length c \<le> length (hs_buf w)" "length c \<le> length (hs_noise_buf w)"
  obtains m nb where "noise_read lib wire_io w =
      Some (w\<lparr>hs_base := (hs_base w)\<lparr>inbox := rest\<rparr>, hs_noise := m, hs_buf := overwrite (hs_buf w) 0 c,
              hs_noise_buf := nb\<rparr>, Inr (length src))"
    "take (length src) nb = src" "in_sync n fl m" "\<And>fl'. in_sync (hs_noise w) fl' n \<Longrightarrow> in_sync m fl' n"
proof -
  obtain m nb r where msg: "read_message lib (hs_noise w) c (hs_noise_buf w) = (m, nb, r)"
    using prod_cases3 by blast
  note R = noise_reads [OF chan sync fit(3) msg]
  from noise_read_wire [OF inp fit(1,2) msg [unfolded R(1)]] show ?thesis
    by (rule that) (use R in simp_all, rule noise_independent(1) [OF chan _ msg])
qed

text \<open>The plaintexts of the last two messages.\<close>

definition clientfin :: "bytes \<Rightarrow> bool \<Rightarrow> bytes" where
  "clientfin p ask = [if ask then 1 else 0] @ u16_to_be_bytes (of_nat (length p)) @ p"

definition serverfin :: "bytes \<Rightarrow> bytes" where
  "serverfin p = u16_to_be_bytes (of_nat (length p)) @ p"

lemma length_fin [simp]: "length (clientfin p ask) = length p + 3" "length (serverfin p) = length p + 2"
  by (simp_all add: clientfin_def serverfin_def)

lemma be_length:
  fixes p :: bytes
  assumes "length p < 65536"
  shows "unat (u16_from_be_bytes (u16_to_be_bytes (of_nat (length p)) ! 0) (u16_to_be_bytes (of_nat (length p)) ! 1)) =
    length p"
  using framed_header [of p "[]"] assms by (simp add: framed_def u16_to_be_bytes_def)

lemma clientfin_fields:
  assumes "take (length p + 3) nb = clientfin p ask" "length p < 65536"
  shows "nb ! 0 = (if ask then 1 else 0)" "unat (u16_from_be_bytes (nb ! 1) (nb ! 2)) = length p"
    "vslice nb 3 (length p + 3) = Some p"
proof -
  have l: "length p + 3 \<le> length nb"
    using assms(1) by (metis length_fin(1) length_take min.cobounded1 min.commute)
  have nth: "nb ! i = clientfin p ask ! i" if "i < length p + 3" for i
    using assms(1) that by (metis nth_take)
  show "nb ! 0 = (if ask then 1 else 0)" using nth [of 0] by (simp add: clientfin_def)
  show "unat (u16_from_be_bytes (nb ! 1) (nb ! 2)) = length p"
    using nth [of 1] nth [of 2] be_length [OF assms(2)]
    by (simp add: clientfin_def u16_to_be_bytes_def)
  have "take (length p) (drop 3 nb) = drop 3 (take (length p + 3) nb)"
    by (simp add: drop_take)
  with l assms(1) show "vslice nb 3 (length p + 3) = Some p"
    by (simp add: vslice_def clientfin_def u16_to_be_bytes_def)
qed

lemma serverfin_fields:
  assumes "take (length p + 2) nb = serverfin p" "length p < 65536"
  shows "unat (u16_from_be_bytes (nb ! 0) (nb ! 1)) = length p" "vslice nb 2 (length p + 2) = Some p"
proof -
  have l: "length p + 2 \<le> length nb"
    using assms(1) by (metis length_fin(2) length_take min.cobounded1 min.commute)
  have nth: "nb ! i = serverfin p ! i" if "i < length p + 2" for i
    using assms(1) that by (metis nth_take)
  show "unat (u16_from_be_bytes (nb ! 0) (nb ! 1)) = length p"
    using nth [of 0] nth [of 1] be_length [OF assms(2)]
    by (simp add: serverfin_def u16_to_be_bytes_def)
  have "take (length p) (drop 2 nb) = drop 2 (take (length p + 2) nb)"
    by (simp add: drop_take)
  with l assms(1) show "vslice nb 2 (length p + 2) = Some p"
    by (simp add: vslice_def serverfin_def u16_to_be_bytes_def)
qed

lemma client_sends:
  assumes chan: "noise_channel lib in_sync" and room: "noise_room lib" and sync: "in_sync (hs_noise w) [] m"
    and bufs: "length (hs_buf w) = 1024" "length (hs_noise_buf w) = 1024"
    and p: "if send then auther = Some p \<and> length p \<le> 60000 else p = []"
  obtains w1 c where
    "\<forall>s. (if send
      then (case auther of None \<Rightarrow> \<lambda>w. None
            | Some payload \<Rightarrow>
                act_ensure (\<not> length payload > 60000) ''auth payload too big''
                  (\<lambda>w. send_CLIENTFIN lib wire_io payload ask (large_buffers w)))
      else send_CLIENTFIN lib wire_io [] ask) (w\<lparr>hs_base := s\<rparr>) =
      Some (w1\<lparr>hs_base := s\<lparr>outbox := outbox s @ framed c\<rparr>\<rparr>, Inr ())" "hs_store w1 = hs_store w"
    "in_sync (hs_noise w1) [(clientfin p ask, c)] m" "length c = length p + 19"
    "\<And>fl. in_sync m fl (hs_noise w) \<Longrightarrow> in_sync m fl (hs_noise w1)"
proof -
  define w0 where "w0 = (if send then large_buffers w else w)"
  define nb where "nb = overwrite (hs_noise_buf w0) 0 (clientfin p ask)"
  let ?w = "w0\<lparr>hs_noise_buf := nb\<rparr>"
  have fit: "3 + length p \<le> length (hs_noise_buf w0)" "21 + length p \<le> length (hs_buf w0)" "length p \<le> 60000"
    using p bufs by (auto simp: w0_def large_buffers_def split: if_splits)
  have nb: "take (length p + 3) nb = clientfin p ask"
    by (simp add: nb_def overwrite_def)
  have large_base: "large_buffers (w\<lparr>hs_base := s\<rparr>) = (large_buffers w)\<lparr>hs_base := s\<rparr>" for s
    by (simp add: large_buffers_def)
  have eq: "(if send
      then (case auther of None \<Rightarrow> \<lambda>w. None
            | Some payload \<Rightarrow>
                act_ensure (\<not> length payload > 60000) ''auth payload too big''
                  (\<lambda>w. send_CLIENTFIN lib wire_io payload ask (large_buffers w)))
      else send_CLIENTFIN lib wire_io [] ask) (w\<lparr>hs_base := s\<rparr>) = send_CLIENTFIN lib wire_io p ask (w0\<lparr>hs_base := s\<rparr>)" for s
    using p large_base by (auto simp: w0_def act_ensure_def)
  have bytes: "[if \<not> ask then 0 else 1] @ u16_to_be_bytes (of_nat (length p)) @ p = clientfin p ask"
    by (simp add: clientfin_def)
  have eq2: "send_CLIENTFIN lib wire_io p ask (w0\<lparr>hs_base := s\<rparr>) =
      noise_write lib wire_io (clientfin p ask) 0 (?w\<lparr>hs_base := s\<rparr>)" for s
  proof -
    have w: "?w\<lparr>hs_base := s\<rparr> = w0\<lparr>hs_base := s, hs_noise_buf := nb\<rparr>" by (rule hs_world.equality) simp_all
    show ?thesis
      using fit unfolding send_CLIENTFIN_def bytes w by (simp add: nb_def [symmetric] nb Let_def)
  qed
  have "in_sync (hs_noise ?w) [] m" "18 + length (clientfin p ask) \<le> length (hs_buf ?w)"
    "length (clientfin p ask) + 16 < 65536"
    using sync fit by (simp_all add: w0_def large_buffers_def)
  then obtain n b c where W: "\<forall>s. noise_write lib wire_io (clientfin p ask) 0 (?w\<lparr>hs_base := s\<rparr>) =
      Some (?w\<lparr>hs_base := s\<lparr>outbox := outbox s @ framed c\<rparr>, hs_noise := n, hs_buf := b\<rparr>, Inr ())"
    "in_sync n ([] @ [(clientfin p ask, c)]) m" "length c = length (clientfin p ask) + 16"
    "\<And>fl'. in_sync m fl' (hs_noise ?w) \<Longrightarrow> in_sync m fl' n"
    by (rule transport_write [OF chan room]) blast
  show ?thesis
    by (rule that [of c "?w\<lparr>hs_noise := n, hs_buf := b\<rparr>"], unfold eq eq2)
       (use W in \<open>simp_all add: w0_def large_buffers_def\<close>)
qed

lemma convinced_check:
  assumes "convinced ops store (Some p) key limit" "should_ask ops store key" "hs_store w = store"
    "vslice (hs_noise_buf w) start len = Some p"
  obtains store' where "verify_payload ops start len key w = Some (w\<lparr>hs_store := store'\<rparr>, Inr ())"
  using assms by (auto simp: convinced_def verify_payload_def verify_peer_def act_ok_def)

lemma server_finishes:
  assumes chan: "noise_channel lib in_sync" and room: "noise_room lib"
    and sync: "in_sync n [(clientfin p cask, c)] (hs_noise w)" "in_sync (hs_noise w) [] n"
    and bufs: "length (hs_buf w) = 1024" "length (hs_noise_buf w) = 1024"
    and inp: "hs_base w = \<lparr>inbox = framed c, outbox = out\<rparr>" and c: "length c = length p + 19" "length p \<le> 1005"
    and ask: "ask = should_ask ops store key" "hs_store w = store" "ask \<longrightarrow> convinced ops store (Some p) key limit"
    and q: "if cask then auther = Some q \<and> length q \<le> 60000 else q = []"
  obtains w1 d where "server_fin lib wire_io ops auther key ask w = Some (w1, Inr ())"
    "hs_base w1 = \<lparr>inbox = [], outbox = out @ (if cask then framed d else [])\<rparr>"
    "in_sync n [] (hs_noise w1)" "in_sync (hs_noise w1) (if cask then [(serverfin q, d)] else []) n"
    "length d = length q + 18"
proof -
  have "inbox (hs_base w) = framed c @ []" "length c < 65536" "length c \<le> length (hs_buf w)"
    "length c \<le> length (hs_noise_buf w)"
    using inp c bufs by simp_all
  then obtain m nb where
    "noise_read lib wire_io w = Some (w\<lparr>hs_base := (hs_base w)\<lparr>inbox := []\<rparr>, hs_noise := m,
          hs_buf := overwrite (hs_buf w) 0 c, hs_noise_buf := nb\<rparr>, Inr (length (clientfin p cask)))"
    "take (length (clientfin p cask)) nb = clientfin p cask" "in_sync n [] m"
    "\<And>fl'. in_sync (hs_noise w) fl' n \<Longrightarrow> in_sync m fl' n"
    by (rule transport_read [OF chan sync(1)]) blast
  note R = this [unfolded length_fin]
  note r = R(1) and nb = R(2) and sm = R(3) R(4) [OF sync(2)]
  define w1 where "w1 = w\<lparr>hs_base := (hs_base w)\<lparr>inbox := []\<rparr>, hs_noise := m, hs_buf := overwrite (hs_buf w) 0 c,
      hs_noise_buf := nb\<rparr>"
  have "length p < 65536" using c(2) by simp
  note F = clientfin_fields [OF nb this]
  obtain st where v: "(if ask then verify_payload ops 3 (length p + 3) key else act_ok ()) w1 =
      Some (w1\<lparr>hs_store := st\<rparr>, Inr ())"
  proof (cases ask)
    case True
    then show ?thesis using ask F(3) convinced_check [of ops store p key limit w1 3 "length p + 3"] that
      by (auto simp: w1_def)
  next
    case False
    then show ?thesis using that [of "hs_store w1"] by (simp add: act_ok_def)
  qed
  define w2 where "w2 = w1\<lparr>hs_store := st\<rparr>"
  have fin: "server_fin lib wire_io ops auther key ask w = answer_auth lib wire_io auther (nb ! 0) w2"
    using r v F(1,2) unfolding server_fin_def
    by (simp add: act_bind_def act_ensure_def w1_def w2_def Let_def)
  have base: "hs_base w2 = \<lparr>inbox = [], outbox = out\<rparr>" and noise: "hs_noise w2 = m"
    using inp by (simp_all add: w1_def w2_def)
  show ?thesis
  proof (cases cask)
    case False
    then have "answer_auth lib wire_io auther (nb ! 0) w2 = Some (w2, Inr ())"
      using F(1) by (simp add: answer_auth_def act_ensure_def act_ok_def)
    with fin have "server_fin lib wire_io ops auther key ask w = Some (w2, Inr ())" by simp
    then show ?thesis
      by (rule that [where d = "replicate 18 0"]) (use False q base noise sm in simp_all)
  next
    case True
    with q have q': "auther = Some q" "length q \<le> 60000" by simp_all
    let ?l = "large_buffers w2"
    define nb2 where "nb2 = overwrite (hs_noise_buf ?l) 0 (serverfin q)"
    let ?w = "?l\<lparr>hs_noise_buf := nb2\<rparr>"
    have bytes: "u16_to_be_bytes (of_nat (length q)) @ q = serverfin q" by (simp add: serverfin_def)
    have "length (hs_noise_buf ?l) = 65000" by (simp add: large_buffers_def)
    moreover have "take (length q + 2) nb2 = serverfin q" by (simp add: nb2_def overwrite_def)
    ultimately have send: "send_SERVERFIN lib wire_io q w2 = noise_write lib wire_io (serverfin q) 0 ?w"
      using q'(2) unfolding send_SERVERFIN_def bytes by (simp add: nb2_def [symmetric] Let_def)
    have ans: "answer_auth lib wire_io auther (nb ! 0) w2 = send_SERVERFIN lib wire_io q w2"
      using F(1) True q' by (simp add: answer_auth_def act_ensure_def)
    have "in_sync (hs_noise ?w) [] n" "18 + length (serverfin q) \<le> length (hs_buf ?w)"
      "length (serverfin q) + 16 < 65536"
      using sm noise q'(2) by (simp_all add: large_buffers_def)
    then obtain m2 b d where V: "\<forall>s. noise_write lib wire_io (serverfin q) 0 (?w\<lparr>hs_base := s\<rparr>) =
        Some (?w\<lparr>hs_base := s\<lparr>outbox := outbox s @ framed d\<rparr>, hs_noise := m2, hs_buf := b\<rparr>, Inr ())"
      and W:
      "in_sync m2 ([] @ [(serverfin q, d)]) n" "length d = length (serverfin q) + 16"
      "\<And>fl'. in_sync n fl' (hs_noise ?w) \<Longrightarrow> in_sync n fl' m2"
      by (rule transport_write [OF chan room]) blast
    have w: "noise_write lib wire_io (serverfin q) 0 ?w =
        Some (?w\<lparr>hs_base := (hs_base ?w)\<lparr>outbox := outbox (hs_base ?w) @ framed d\<rparr>, hs_noise := m2, hs_buf := b\<rparr>,
          Inr ())"
      using V [THEN spec [of _ "hs_base ?w"]] by simp
    show ?thesis
      by (rule that [OF trans [OF fin trans [OF ans trans [OF send w]]], of d])
         (use W True base noise sm in \<open>simp_all add: large_buffers_def\<close>)
  qed
qed

lemma client_reads_SERVERFIN:
  assumes chan: "noise_channel lib in_sync"
    and sync: "in_sync m [(serverfin q, d)] (hs_noise w)" "in_sync (hs_noise w) [] m"
    and inp: "hs_base w = \<lparr>inbox = framed d, outbox = out\<rparr>" and d: "length d = length q + 18" "length q \<le> 60000"
    and ask: "should_ask ops store key" "hs_store w = store" "convinced ops store (Some q) key limit"
  obtains w1 where "read_SERVERFIN lib wire_io ops key w = Some (w1, Inr ())"
    "hs_base w1 = \<lparr>inbox = [], outbox = out\<rparr>" "in_sync m [] (hs_noise w1)" "in_sync (hs_noise w1) [] m"
proof -
  let ?w = "large_buffers w"
  have same: "hs_noise ?w = hs_noise w" "hs_base ?w = hs_base w" "hs_store ?w = hs_store w"
    by (simp_all add: large_buffers_def)
  have pre: "inbox (hs_base ?w) = framed d @ []" "length d < 65536" "length d \<le> length (hs_buf ?w)"
    "length d \<le> length (hs_noise_buf ?w)"
    using inp d by (simp_all add: large_buffers_def)
  from sync(1) have s: "in_sync m [(serverfin q, d)] (hs_noise ?w)" by (simp add: same)
  from pre obtain n nb where
    "noise_read lib wire_io ?w = Some (?w\<lparr>hs_base := (hs_base ?w)\<lparr>inbox := []\<rparr>, hs_noise := n,
          hs_buf := overwrite (hs_buf ?w) 0 d, hs_noise_buf := nb\<rparr>, Inr (length (serverfin q)))"
    "take (length (serverfin q)) nb = serverfin q" "in_sync m [] n"
    "\<And>fl'. in_sync (hs_noise ?w) fl' m \<Longrightarrow> in_sync n fl' m"
    by (rule transport_read [OF chan s]) blast
  note R = this [unfolded length_fin same]
  note r = R(1) [unfolded same(2) [symmetric]] and nb = R(2) and sn = R(3) R(4) [OF sync(2)]
  define w1 where "w1 = ?w\<lparr>hs_base := (hs_base ?w)\<lparr>inbox := []\<rparr>, hs_noise := n,
      hs_buf := overwrite (hs_buf ?w) 0 d, hs_noise_buf := nb\<rparr>"
  have "length q < 65536" using d(2) by simp
  note F = serverfin_fields [OF nb this]
  have "hs_store w1 = store" "vslice (hs_noise_buf w1) 2 (length q + 2) = Some q"
    using ask(2) same F(2) by (simp_all add: w1_def)
  then obtain st where v: "verify_payload ops 2 (length q + 2) key w1 = Some (w1\<lparr>hs_store := st\<rparr>, Inr ())"
    by (rule convinced_check [OF ask(3,1)])
  have "read_SERVERFIN lib wire_io ops key w = Some (w1\<lparr>hs_store := st\<rparr>, Inr ())"
    using r v F(1) unfolding read_SERVERFIN_def by (simp add: act_bind_def act_ensure_def w1_def Let_def)
  then show ?thesis by (rule that) (use sn inp same in \<open>simp_all add: w1_def\<close>)
qed

lemma client_hello_wire:
  assumes wr: "\<And>dst. length dst = 1020 \<Longrightarrow>
      \<exists>x. write_message (handshake_noiser snow) h0 [] dst = (h1, c1 @ x, Inr (length c1)) \<and> length (c1 @ x) = 1020"
    and rd: "\<And>dst. length dst = 1024 \<Longrightarrow>
      \<exists>x. read_message (handshake_noiser snow) h1 c2 dst = (h2, [0, 1, b] @ x, Inr 3) \<and> length ([0, 1, b] @ x) = 1024"
    and key: "static_key snow h2 = Some sk" and b: "b \<le> 1" "b = 1 \<longrightarrow> auther \<noteq> None" and c2: "length c2 \<le> 1020"
  obtains w1 where
    "\<forall>rest. client_hello snow wire_io ops auther (hello_world \<lparr>inbox = [0, 0] @ framed c2 @ rest, outbox = []\<rparr> h0 store)
       = Some (w1\<lparr>hs_base := \<lparr>inbox = rest, outbox = [0, 0] @ framed c1\<rparr>\<rparr>, Inr (sk, b = 1, should_ask ops store sk))"
    "hs_noise w1 = h2" "hs_store w1 = store" "length (hs_buf w1) = 1024" "length (hs_noise_buf w1) = 1024"
proof -
  obtain x where x: "write_message (handshake_noiser snow) h0 [] (replicate 1020 0) = (h1, c1 @ x, Inr (length c1))"
    "length (c1 @ x) = 1020" using wr [of "replicate 1020 0"] by auto
  obtain y where y: "read_message (handshake_noiser snow) h1 c2 (replicate 1024 0) = (h2, [0, 1, b] @ y, Inr 3)"
    "length ([0, 1, b] @ y) = 1024" using rd [of "replicate 1024 0"] by auto
  define buf1 where "buf1 = replicate 2 (0 :: u8) @ u16_to_be_bytes (of_nat (length c1)) @ c1 @ x"
  have l1: "length buf1 = 1024" using x(2) by (simp add: buf1_def)
  define w1 where "w1 = (hello_world \<lparr>inbox = [], outbox = []\<rparr> h0 store)\<lparr>hs_noise := h2,
      hs_buf := overwrite buf1 0 c2, hs_noise_buf := [0, 1, b] @ y\<rparr>"
  have "client_hello snow wire_io ops auther (hello_world \<lparr>inbox = [0, 0] @ framed c2 @ rest, outbox = []\<rparr> h0 store)
       = Some (w1\<lparr>hs_base := \<lparr>inbox = rest, outbox = [0, 0] @ framed c1\<rparr>\<rparr>, Inr (sk, b = 1, should_ask ops store sk))"
    for rest
  proof -
    let ?w0 = "hello_world \<lparr>inbox = [0, 0] @ framed c2 @ rest, outbox = []\<rparr> h0 store"
    have two: "take 2 (replicate 1024 (0 :: u8)) = [0, 0]" by (simp add: numeral_2_eq_2)
    have wrote: "noise_write (handshake_noiser snow) wire_io [] 2 ?w0 =
        Some (?w0\<lparr>hs_base := \<lparr>inbox = [0, 0] @ framed c2 @ rest, outbox = [0, 0] @ framed c1\<rparr>,
                  hs_noise := h1, hs_buf := buf1\<rparr>, Inr ())" (is "_ = Some (?w1, _)")
      using x two
      by (subst noise_write_wire [where n = h1 and dst = "c1 @ x" and len = "length c1"])
         (simp_all add: hello_world_def buf1_def)
    let ?w2 = "?w1\<lparr>hs_base := \<lparr>inbox = framed c2 @ rest, outbox = [0, 0] @ framed c1\<rparr>\<rparr>"
    have neg: "read_u16 wire_io ?w1 = Some (?w2, Inr 0)"
      by (subst read_u16_wire [where x = 0 and y = 0 and rest = "framed c2 @ rest"])
         (simp_all add: u16_from_be_bytes_def)
    have red: "noise_read (handshake_noiser snow) wire_io ?w2 =
        Some (w1\<lparr>hs_base := \<lparr>inbox = rest, outbox = [0, 0] @ framed c1\<rparr>\<rparr>, Inr 3)"
      using y(1) c2 l1
      by (subst noise_read_wire [where c = c2 and rest = rest and n = h2 and dst = "[0, 1, b] @ y" and l = 3])
         (simp_all add: hello_world_def w1_def)
    have "\<not> b > 1" using b(1) by simp
    with wrote neg red key b(2) show ?thesis
      by (auto simp: client_hello_def act_bind_def act_ensure_def act_ok_def Let_def w1_def hello_world_def)
  qed
  then show ?thesis
    by (intro that [of w1]) (use y(2) l1 c2 in \<open>simp_all add: w1_def hello_world_def overwrite_def\<close>)
qed

lemma server_hello_wire:
  assumes rd: "\<And>dst. length dst = 1024 \<Longrightarrow>
      \<exists>x. read_message (handshake_noiser snow) g0 c1 dst = (g1, x, Inr 0) \<and> length x = 1024"
    and key: "static_key snow g1 = Some ck" and b: "b = (if should_ask ops store ck then 1 else 0)"
    and wr: "\<And>dst. length dst = 1020 \<Longrightarrow>
      \<exists>x. write_message (handshake_noiser snow) g1 [0, 1, b] dst = (g2, c2 @ x, Inr (length c2)) \<and>
          length (c2 @ x) = 1020"
    and c1: "length c1 \<le> 1020"
  obtains w1 where
    "\<forall>rest. server_hello snow wire_io ops (hello_world \<lparr>inbox = [0, 0] @ framed c1 @ rest, outbox = []\<rparr> g0 store)
       = Some (w1\<lparr>hs_base := \<lparr>inbox = rest, outbox = [0, 0] @ framed c2\<rparr>\<rparr>, Inr (ck, should_ask ops store ck))"
    "hs_noise w1 = g2" "hs_store w1 = store" "length (hs_buf w1) = 1024" "length (hs_noise_buf w1) = 1024"
proof -
  obtain y where y: "read_message (handshake_noiser snow) g0 c1 (replicate 1024 0) = (g1, y, Inr 0)"
    "length y = 1024" using rd [of "replicate 1024 0"] by auto
  define buf1 where "buf1 = overwrite (overwrite (replicate 1024 (0 :: u8)) 0 c1) 0 (u16_to_be_bytes 0)"
  have l1: "length buf1 = 1024" using c1 by (simp add: buf1_def overwrite_def)
  obtain x where x: "write_message (handshake_noiser snow) g1 [0, 1, b] (drop 4 buf1) = (g2, c2 @ x, Inr (length c2))"
    "length (c2 @ x) = 1020" using wr [of "drop 4 buf1"] l1 by auto
  define w4 where "w4 = (hello_world \<lparr>inbox = [], outbox = []\<rparr> g0 store)\<lparr>hs_noise := g2,
      hs_buf := [0, 0] @ u16_to_be_bytes (of_nat (length c2)) @ c2 @ x, hs_noise_buf := y\<rparr>"
  have "server_hello snow wire_io ops (hello_world \<lparr>inbox = [0, 0] @ framed c1 @ rest, outbox = []\<rparr> g0 store)
       = Some (w4\<lparr>hs_base := \<lparr>inbox = rest, outbox = [0, 0] @ framed c2\<rparr>\<rparr>, Inr (ck, should_ask ops store ck))"
    for rest
  proof -
    let ?w0 = "hello_world \<lparr>inbox = [0, 0] @ framed c1 @ rest, outbox = []\<rparr> g0 store"
    let ?w1 = "?w0\<lparr>hs_base := \<lparr>inbox = framed c1 @ rest, outbox = []\<rparr>\<rparr>"
    have neg: "read_u16 wire_io ?w0 = Some (?w1, Inr 0)"
      by (subst read_u16_wire [where x = 0 and y = 0 and rest = "framed c1 @ rest"])
         (simp_all add: u16_from_be_bytes_def hello_world_def)
    let ?w2 = "?w1\<lparr>hs_base := \<lparr>inbox = rest, outbox = []\<rparr>, hs_noise := g1,
        hs_buf := overwrite (replicate 1024 0) 0 c1, hs_noise_buf := y\<rparr>"
    have red: "noise_read (handshake_noiser snow) wire_io ?w1 = Some (?w2, Inr 0)"
      using y(1) c1
      by (subst noise_read_wire [where c = c1 and rest = rest and n = g1 and dst = y and l = 0])
         (simp_all add: hello_world_def)
    have two: "take 2 buf1 = [0, 0]" by (simp add: buf1_def overwrite_def u16_to_be_bytes_def)
    have wrote: "noise_write (handshake_noiser snow) wire_io [0, 1, b] 2 (?w2\<lparr>hs_buf := buf1\<rparr>) =
        Some (w4\<lparr>hs_base := \<lparr>inbox = rest, outbox = [0, 0] @ framed c2\<rparr>\<rparr>, Inr ())"
      using x two l1
      by (subst noise_write_wire [where n = g2 and dst = "c2 @ x" and len = "length c2"])
         (simp_all add: w4_def hello_world_def)
    have bb: "(if \<not> should_ask ops store ck then 0 else 1) = b" using b by simp
    have st: "hs_store ?w2 = store" "hs_noise ?w2 = g1" "hs_buf ?w2 = overwrite (replicate 1024 0) 0 c1"
      by (simp_all add: hello_world_def)
    show ?thesis
      using neg red wrote key st
      by (simp add: server_hello_def act_bind_def act_ensure_def act_ok_def Let_def bb buf1_def [symmetric])
  qed
  then show ?thesis
    by (intro that [of w4]) (use x(2) y(2) in \<open>simp_all add: w4_def hello_world_def\<close>)
qed

lemma client_finishes:
  assumes chan: "noise_channel lib in_sync"
    and sends: "\<forall>s. (if send
      then (case auther of None \<Rightarrow> \<lambda>w. None
            | Some payload \<Rightarrow>
                act_ensure (\<not> length payload > 60000) ''auth payload too big''
                  (\<lambda>w. send_CLIENTFIN lib wire_io payload ask (large_buffers w)))
      else send_CLIENTFIN lib wire_io [] ask) (w\<lparr>hs_base := s\<rparr>) =
      Some (w1\<lparr>hs_base := s\<lparr>outbox := outbox s @ framed c\<rparr>\<rparr>, Inr ())"
    and sync: "in_sync m (if ask then [(serverfin q, d)] else []) (hs_noise w1)" "in_sync (hs_noise w1) [] m"
    and d: "length d = length q + 18" "length q \<le> 60000"
    and ask: "ask = should_ask ops store key" "hs_store w1 = store" "ask \<longrightarrow> convinced ops store (Some q) key limit"
  obtains w2 where "client_fin lib wire_io ops auther key send ask
      (w\<lparr>hs_base := \<lparr>inbox = if ask then framed d else [], outbox = out\<rparr>\<rparr>) = Some (w2, Inr ())"
    "hs_base w2 = \<lparr>inbox = [], outbox = out @ framed c\<rparr>" "in_sync m [] (hs_noise w2)" "in_sync (hs_noise w2) [] m"
proof -
  let ?w1 = "w1\<lparr>hs_base := \<lparr>inbox = if ask then framed d else [], outbox = out @ framed c\<rparr>\<rparr>"
  have eq: "client_fin lib wire_io ops auther key send ask
      (w\<lparr>hs_base := \<lparr>inbox = if ask then framed d else [], outbox = out\<rparr>\<rparr>) =
      (if ask then read_SERVERFIN lib wire_io ops key else act_ok ()) ?w1"
    using sends [THEN spec [of _ "\<lparr>inbox = if ask then framed d else [], outbox = out\<rparr>"]]
    unfolding client_fin_def act_bind_def by simp
  show ?thesis
  proof (cases ask)
    case False
    with eq show ?thesis by (intro that [of ?w1]) (use sync in \<open>simp_all add: act_ok_def\<close>)
  next
    case True
    then have s: "in_sync m [(serverfin q, d)] (hs_noise ?w1)" "in_sync (hs_noise ?w1) [] m"
      "hs_base ?w1 = \<lparr>inbox = framed d, outbox = out @ framed c\<rparr>" "should_ask ops store key" "hs_store ?w1 = store"
      "convinced ops store (Some q) key limit"
      using sync ask by simp_all
    obtain w2 where "read_SERVERFIN lib wire_io ops key ?w1 = Some (w2, Inr ())"
      "hs_base w2 = \<lparr>inbox = [], outbox = out @ framed c\<rparr>" "in_sync m [] (hs_noise w2)" "in_sync (hs_noise w2) [] m"
      by (rule client_reads_SERVERFIN [OF chan s(1-3) d s(4-6)])
    with eq True show ?thesis by (intro that [of w2]) simp_all
  qed
qed

text \<open>The two messages in transport mode.\<close>

lemma fins_complete:
  assumes chan: "noise_channel lib in_sync" and room: "noise_room lib"
    and sync: "in_sync (hs_noise tw) [] (hs_noise uw)" "in_sync (hs_noise uw) [] (hs_noise tw)"
    and bufs: "length (hs_buf tw) = 1024" "length (hs_noise_buf tw) = 1024"
      "length (hs_buf uw) = 1024" "length (hs_noise_buf uw) = 1024"
    and sask: "sask = should_ask sops (hs_store uw) ck" and cask: "cask = should_ask cops (hs_store tw) sk"
    and server: "convinced sops (hs_store uw) caut ck 1005" and client: "convinced cops (hs_store tw) saut sk 60000"
  obtains c d cw sw where
    "client_fin lib wire_io cops caut sk sask cask
       (tw\<lparr>hs_base := \<lparr>inbox = if cask then framed d else [], outbox = o1\<rparr>\<rparr>) = Some (cw, Inr ())"
    "server_fin lib wire_io sops saut ck sask (uw\<lparr>hs_base := \<lparr>inbox = framed c, outbox = o2\<rparr>\<rparr>) = Some (sw, Inr ())"
    "hs_base cw = \<lparr>inbox = [], outbox = o1 @ framed c\<rparr>"
    "hs_base sw = \<lparr>inbox = [], outbox = o2 @ (if cask then framed d else [])\<rparr>"
    "in_sync (hs_noise cw) [] (hs_noise sw)" "in_sync (hs_noise sw) [] (hs_noise cw)"
proof -
  define p where "p = (if sask then the caut else [])"
  define q where "q = (if cask then the saut else [])"
  have p: "if sask then caut = Some p \<and> length p \<le> 60000 else p = []" "length p \<le> 1005"
    "sask \<longrightarrow> convinced sops (hs_store uw) (Some p) ck 1005"
    using server by (auto simp: p_def sask convinced_def)
  have q: "if cask then saut = Some q \<and> length q \<le> 60000 else q = []" "length q \<le> 60000"
    "cask \<longrightarrow> convinced cops (hs_store tw) (Some q) sk 60000"
    using client by (auto simp: q_def cask convinced_def)
  obtain cw1 c where sends: "\<forall>s. (if sask
      then (case caut of None \<Rightarrow> \<lambda>w. None
            | Some payload \<Rightarrow>
                act_ensure (\<not> length payload > 60000) ''auth payload too big''
                  (\<lambda>w. send_CLIENTFIN lib wire_io payload cask (large_buffers w)))
      else send_CLIENTFIN lib wire_io [] cask) (tw\<lparr>hs_base := s\<rparr>) =
      Some (cw1\<lparr>hs_base := s\<lparr>outbox := outbox s @ framed c\<rparr>\<rparr>, Inr ())"
    and cw1: "hs_store cw1 = hs_store tw" "in_sync (hs_noise cw1) [(clientfin p cask, c)] (hs_noise uw)"
      "length c = length p + 19" "\<And>fl. in_sync (hs_noise uw) fl (hs_noise tw) \<Longrightarrow> in_sync (hs_noise uw) fl (hs_noise cw1)"
    by (rule client_sends [OF chan room sync(1) bufs(1,2) p(1)]) blast
  let ?uw = "uw\<lparr>hs_base := \<lparr>inbox = framed c, outbox = o2\<rparr>\<rparr>"
  have u: "in_sync (hs_noise cw1) [(clientfin p cask, c)] (hs_noise ?uw)" "in_sync (hs_noise ?uw) [] (hs_noise cw1)"
    "length (hs_buf ?uw) = 1024" "length (hs_noise_buf ?uw) = 1024"
    "hs_base ?uw = \<lparr>inbox = framed c, outbox = o2\<rparr>" "hs_store ?uw = hs_store uw"
    using cw1 sync bufs by simp_all
  obtain sw d where fin: "server_fin lib wire_io sops saut ck sask ?uw = Some (sw, Inr ())"
    and sw: "hs_base sw = \<lparr>inbox = [], outbox = o2 @ (if cask then framed d else [])\<rparr>"
      "in_sync (hs_noise cw1) [] (hs_noise sw)"
      "in_sync (hs_noise sw) (if cask then [(serverfin q, d)] else []) (hs_noise cw1)" "length d = length q + 18"
    by (rule server_finishes [OF chan room u(1-5) cw1(3) p(2) sask u(6) p(3) q(1)])
  obtain cw where "client_fin lib wire_io cops caut sk sask cask
      (tw\<lparr>hs_base := \<lparr>inbox = if cask then framed d else [], outbox = o1\<rparr>\<rparr>) = Some (cw, Inr ())"
    "hs_base cw = \<lparr>inbox = [], outbox = o1 @ framed c\<rparr>"
    "in_sync (hs_noise sw) [] (hs_noise cw)" "in_sync (hs_noise cw) [] (hs_noise sw)"
    by (rule client_finishes [OF chan sends sw(3,2,4) q(2) cask cw1(1) q(3)])
  then show ?thesis using fin sw(1) by (intro that)
qed

lemma ends_complete:
  assumes chan: "noise_channel (transport_noiser snow) in_sync" and room: "noise_room (transport_noiser snow)"
    and ix: "ix_handshake snow in_sync cs ss ck sk"
    and server: "convinced sops sstore caut ck 1005" and client: "convinced cops cstore saut sk 60000"
  shows "\<exists>x y n m cstore' sstore'.
    new_client snow wire_io cops \<lparr>inbox = y, outbox = []\<rparr> cs cstore caut =
      Some (\<lparr>inbox = [], outbox = x\<rparr>, cstore', Inr (fresh_stream n)) \<and>
    new_server snow wire_io sops \<lparr>inbox = x, outbox = []\<rparr> ss sstore saut =
      Some (\<lparr>inbox = [], outbox = y\<rparr>, sstore', Inr (fresh_stream m)) \<and>
    in_sync n [] m \<and> in_sync m [] n"
proof -
  define sask where "sask = should_ask sops sstore ck"
  define cask where "cask = should_ask cops cstore sk"
  define b where "b = (if sask then 1 else 0 :: u8)"
  from ix obtain h0 g0 h1 g1 c1 where
    build: "build_initiator snow cs prologue = Inr h0" "build_responder snow ss prologue = Inr g0"
    and w1: "\<And>dst. length dst = 1020 \<Longrightarrow>
      \<exists>x. write_message (handshake_noiser snow) h0 [] dst = (h1, c1 @ x, Inr (length c1)) \<and> length (c1 @ x) = 1020"
    and r1: "\<And>dst. length dst = 1024 \<Longrightarrow>
      \<exists>x. read_message (handshake_noiser snow) g0 c1 dst = (g1, x, Inr 0) \<and> length x = 1024"
    and ck: "static_key snow g1 = Some ck"
    and second: "\<exists>h2 g2 c2 n m.
           (\<forall>dst. length dst = 1020 \<longrightarrow>
              (\<exists>x. write_message (handshake_noiser snow) g1 [0, 1, b] dst = (g2, c2 @ x, Inr (length c2)) \<and>
                   length (c2 @ x) = 1020)) \<and>
           (\<forall>dst. length dst = 1024 \<longrightarrow>
              (\<exists>x. read_message (handshake_noiser snow) h1 c2 dst = (h2, [0, 1, b] @ x, Inr 3) \<and>
                   length ([0, 1, b] @ x) = 1024)) \<and>
           static_key snow h2 = Some sk \<and> into_transport snow h2 = Inr n \<and> into_transport snow g2 = Inr m \<and>
           in_sync n [] m \<and> in_sync m [] n"
    unfolding ix_handshake_def by blast
  from second obtain h2 g2 c2 n m where
    w2: "\<And>dst. length dst = 1020 \<Longrightarrow>
      \<exists>x. write_message (handshake_noiser snow) g1 [0, 1, b] dst = (g2, c2 @ x, Inr (length c2)) \<and>
          length (c2 @ x) = 1020"
    and r2: "\<And>dst. length dst = 1024 \<Longrightarrow>
      \<exists>x. read_message (handshake_noiser snow) h1 c2 dst = (h2, [0, 1, b] @ x, Inr 3) \<and>
          length ([0, 1, b] @ x) = 1024"
    and sk: "static_key snow h2 = Some sk" and into: "into_transport snow h2 = Inr n" "into_transport snow g2 = Inr m"
    and sync: "in_sync n [] m" "in_sync m [] n"
    by blast
  have lens: "length c1 \<le> 1020" "length c2 \<le> 1020"
    using w1 [of "replicate 1020 0"] w2 [of "replicate 1020 0"] by auto
  have b: "b \<le> 1" "b = 1 \<longrightarrow> caut \<noteq> None" "b = 1 \<longleftrightarrow> sask" using server by (auto simp: b_def sask_def convinced_def)
  obtain cw where ch: "\<forall>rest. client_hello snow wire_io cops caut
        (hello_world \<lparr>inbox = [0, 0] @ framed c2 @ rest, outbox = []\<rparr> h0 cstore)
      = Some (cw\<lparr>hs_base := \<lparr>inbox = rest, outbox = [0, 0] @ framed c1\<rparr>\<rparr>, Inr (sk, b = 1, should_ask cops cstore sk))"
    and cw: "hs_noise cw = h2" "hs_store cw = cstore" "length (hs_buf cw) = 1024" "length (hs_noise_buf cw) = 1024"
    by (rule client_hello_wire [OF w1 r2 sk b(1,2) lens(2)])
  obtain sw where sh: "\<forall>rest. server_hello snow wire_io sops
        (hello_world \<lparr>inbox = [0, 0] @ framed c1 @ rest, outbox = []\<rparr> g0 sstore)
      = Some (sw\<lparr>hs_base := \<lparr>inbox = rest, outbox = [0, 0] @ framed c2\<rparr>\<rparr>, Inr (ck, sask))"
    and sw: "hs_noise sw = g2" "hs_store sw = sstore" "length (hs_buf sw) = 1024" "length (hs_noise_buf sw) = 1024"
    unfolding sask_def by (rule server_hello_wire [OF r1 ck b_def [unfolded sask_def] w2 lens(1)])
  define tw where "tw = \<lparr>hs_base = \<lparr>inbox = [], outbox = []\<rparr>, hs_noise = n, hs_buf = hs_buf cw,
      hs_noise_buf = hs_noise_buf cw, hs_store = cstore\<rparr>"
  define uw where "uw = \<lparr>hs_base = \<lparr>inbox = [], outbox = []\<rparr>, hs_noise = m, hs_buf = hs_buf sw,
      hs_noise_buf = hs_noise_buf sw, hs_store = sstore\<rparr>"
  have f: "in_sync (hs_noise tw) [] (hs_noise uw)" "in_sync (hs_noise uw) [] (hs_noise tw)"
    "length (hs_buf tw) = 1024" "length (hs_noise_buf tw) = 1024" "length (hs_buf uw) = 1024"
    "length (hs_noise_buf uw) = 1024" "sask = should_ask sops (hs_store uw) ck" "cask = should_ask cops (hs_store tw) sk"
    "convinced sops (hs_store uw) caut ck 1005" "convinced cops (hs_store tw) saut sk 60000"
    using sync cw sw server client by (simp_all add: tw_def uw_def sask_def cask_def)
  obtain c d cw1 sw1 where
    fins: "client_fin (transport_noiser snow) wire_io cops caut sk sask cask
       (tw\<lparr>hs_base := \<lparr>inbox = if cask then framed d else [], outbox = [0, 0] @ framed c1\<rparr>\<rparr>) = Some (cw1, Inr ())"
    "server_fin (transport_noiser snow) wire_io sops saut ck sask
       (uw\<lparr>hs_base := \<lparr>inbox = framed c, outbox = [0, 0] @ framed c2\<rparr>\<rparr>) = Some (sw1, Inr ())"
    "hs_base cw1 = \<lparr>inbox = [], outbox = ([0, 0] @ framed c1) @ framed c\<rparr>"
    "hs_base sw1 = \<lparr>inbox = [], outbox = ([0, 0] @ framed c2) @ (if cask then framed d else [])\<rparr>"
    "in_sync (hs_noise cw1) [] (hs_noise sw1)" "in_sync (hs_noise sw1) [] (hs_noise cw1)"
    by (rule fins_complete [OF chan room f])
  have "new_server snow wire_io sops \<lparr>inbox = [0, 0] @ framed c1 @ framed c, outbox = []\<rparr> ss sstore saut =
      Some (\<lparr>inbox = [], outbox = [0, 0] @ framed c2 @ (if cask then framed d else [])\<rparr>, hs_store sw1,
            Inr (fresh_stream (hs_noise sw1)))"
    using build(2) sh fins(2,4) sw into(2)
    by (simp add: new_server_def finish_handshake_def switch_mode_def uw_def)
  moreover have "new_client snow wire_io cops
      \<lparr>inbox = [0, 0] @ framed c2 @ (if cask then framed d else []), outbox = []\<rparr> cs cstore caut =
      Some (\<lparr>inbox = [], outbox = [0, 0] @ framed c1 @ framed c\<rparr>, hs_store cw1, Inr (fresh_stream (hs_noise cw1)))"
    using build(1) ch fins(1,3) cw into(1) b(3)
    by (simp add: new_client_def finish_handshake_def switch_mode_def tw_def cask_def)
  ultimately show ?thesis using fins(5,6) by blast
qed

text \<open>C29: Two ends that use the same Noise handshake, and each of which is given what it asks for (an attestation
  the other end has and its store accepts, of at most 1005 bytes from the client and 60000 from the server), both
  finish with a stream, and each has read exactly what the other wrote. Over these streams, whatever the base
  stream does, each end reads the front of what the other writes.\<close>

theorem handshakes_complete:
  assumes "noise_channel (transport_noiser snow) in_sync" "noise_room (transport_noiser snow)"
    and "ix_handshake snow in_sync cs ss ck sk"
    and "convinced sops sstore caut ck 1005" "convinced cops cstore saut sk 60000"
  shows "\<exists>x y n m cstore' sstore'.
    new_client snow wire_io cops \<lparr>inbox = y, outbox = []\<rparr> cs cstore caut =
      Some (\<lparr>inbox = [], outbox = x\<rparr>, cstore', Inr (fresh_stream n)) \<and>
    new_server snow wire_io sops \<lparr>inbox = x, outbox = []\<rparr> ss sstore saut =
      Some (\<lparr>inbox = [], outbox = y\<rparr>, sstore', Inr (fresh_stream m)) \<and>
    (\<forall>io wire s calls c d. duplex io wire \<longrightarrow> wire Client s = [] \<longrightarrow> wire Server s = [] \<longrightarrow>
       run_steps (connection_step (transport_noiser snow) io) (new_connection n m s) calls = Some c \<longrightarrow>
       prefix (received c (peer d)) (accepted c d))"
proof -
  from ends_complete [OF assms] obtain x y n m cstore' sstore' where
    ends: "new_client snow wire_io cops \<lparr>inbox = y, outbox = []\<rparr> cs cstore caut =
      Some (\<lparr>inbox = [], outbox = x\<rparr>, cstore', Inr (fresh_stream n))"
    "new_server snow wire_io sops \<lparr>inbox = x, outbox = []\<rparr> ss sstore saut =
      Some (\<lparr>inbox = [], outbox = y\<rparr>, sstore', Inr (fresh_stream m))"
    and sync: "in_sync n [] m" "in_sync m [] n"
    by blast
  have "prefix (received c (peer d)) (accepted c d)"
    if "duplex io wire" "wire Client s = []" "wire Server s = []"
      "run_steps (connection_step (transport_noiser snow) io) (new_connection n m s) calls = Some c"
    for io wire s calls c d
  proof -
    have "conn_inv in_sync wire c"
      using assms(1) that(1) sync that(2-4) by (rule connection_inv)
    then obtain t where "accepted c d = received c (peer d) @ t" by (rule conn_invD)
    then show ?thesis by simp
  qed
  with ends show ?thesis by blast
qed

section \<open>Concrete handshakes\<close>

text \<open>A Noise handshake whose messages carry the static key in the clear, and a store of known keys that accepts the
  key itself as an attestation.\<close>

definition plain_snow :: "(bytes \<times> bytes option, unit) snow" where
  "plain_snow =
     \<lparr>build_initiator = (\<lambda>k _. Inr (k, None)), build_responder = (\<lambda>k _. Inr (k, None)),
      handshake_noiser =
        \<lparr>read_message = (\<lambda>(k, r) p dst.
           if length p < 32 \<or> length dst < length p - 32 then ((k, r), dst, Inl ''decrypt'')
           else ((k, Some (take 32 p)), overwrite dst 0 (drop 32 p), Inr (length p - 32))),
         write_message = (\<lambda>(k, r) p dst.
           if length dst < length k + length p then ((k, r), dst, Inl ''input'')
           else ((k, r), overwrite dst 0 (k @ p), Inr (length k + length p)))\<rparr>,
      remote_static = snd, into_transport = (\<lambda>_. Inr ()), transport_noiser = plain_noiser\<rparr>"

definition key_store :: "bytes list auth_store_ops" where
  "key_store =
     \<lparr>store_contains = (\<lambda>a k. k \<in> set a),
      store_verify = (\<lambda>a x k. (a, if x = k then Some ([], [], []) else None)),
      store_set = (\<lambda>a k _. k # a)\<rparr>"

lemma plain_ix: "ix_handshake plain_snow plain_sync (replicate 32 1) (replicate 32 2) (replicate 32 1) (replicate 32 2)"
  unfolding ix_handshake_def
proof (intro exI conjI allI impI)
  let ?k = "replicate 32 (1 :: u8)" and ?l = "replicate 32 (2 :: u8)"
  show "build_initiator plain_snow ?k prologue = Inr (?k, None)" "build_responder plain_snow ?l prologue = Inr (?l, None)"
    by (simp_all add: plain_snow_def)
  show "write_message (handshake_noiser plain_snow) (?k, None) [] dst = ((?k, None), ?k @ drop 32 dst, Inr (length ?k))"
    "length (?k @ drop 32 dst) = 1020" if "length dst = 1020" for dst
    using that by (simp_all add: plain_snow_def overwrite_def)
  show "read_message (handshake_noiser plain_snow) (?l, None) ?k dst = ((?l, Some ?k), dst, Inr 0)" "length dst = 1024"
    if "length dst = 1024" for dst
    using that by (simp_all add: plain_snow_def overwrite_def)
  show "static_key plain_snow (?l, Some ?k) = Some ?k" by (simp add: plain_snow_def static_key_def)
  fix b :: u8
  show "write_message (handshake_noiser plain_snow) (?l, Some ?k) [0, 1, b] dst =
      ((?l, Some ?k), (?l @ [0, 1, b]) @ drop 35 dst, Inr (length (?l @ [0, 1, b])))"
    "length ((?l @ [0, 1, b]) @ drop 35 dst) = 1020" if "length dst = 1020" for dst
    using that by (simp_all add: plain_snow_def overwrite_def)
  show "read_message (handshake_noiser plain_snow) (?k, None) (?l @ [0, 1, b]) dst =
      ((?k, Some ?l), [0, 1, b] @ drop 3 dst, Inr 3)" "length ([0, 1, b] @ drop 3 dst) = 1024"
    if "length dst = 1024" for dst
    using that by (simp_all add: plain_snow_def overwrite_def numeral_3_eq_3)
  show "static_key plain_snow (?k, Some ?l) = Some ?l" by (simp add: plain_snow_def static_key_def)
qed (simp_all add: plain_snow_def plain_sync_def)

lemma plain_transport:
  "noise_channel (transport_noiser plain_snow) plain_sync" "noise_room (transport_noiser plain_snow)"
  "noise_sizes (transport_noiser plain_snow)"
  using plain_channel
  by (auto simp: plain_snow_def plain_noiser_def noise_room_def noise_sizes_def overwrite_def split: if_splits)

lemma key_convinced: "length k \<le> limit \<Longrightarrow> convinced key_store (Some []) (Some k) k limit"
  by (simp add: convinced_def key_store_def)

lemmas plain_ends = plain_transport(1,2) plain_ix key_convinced key_convinced

theorem handshakes_complete_witness:
  "\<exists>x y n m cstore sstore.
    new_client plain_snow wire_io key_store \<lparr>inbox = y, outbox = []\<rparr> (replicate 32 1) (Some []) (Some (replicate 32 1)) =
      Some (\<lparr>inbox = [], outbox = x\<rparr>, cstore, Inr (fresh_stream n)) \<and>
    new_server plain_snow wire_io key_store \<lparr>inbox = x, outbox = []\<rparr> (replicate 32 2) (Some []) (Some (replicate 32 2)) =
      Some (\<lparr>inbox = [], outbox = y\<rparr>, sstore, Inr (fresh_stream m))"
proof -
  have "length (replicate 32 (1 :: u8)) \<le> 1005" "length (replicate 32 (2 :: u8)) \<le> 60000" by simp_all
  from handshakes_complete [OF plain_ends, OF this] show ?thesis
    by (elim exE conjE) (intro exI conjI, assumption+)
qed

theorem handshake_authenticates_witness:
  "\<exists>s x y store st. new_client plain_snow wire_io key_store s (replicate 32 1) (Some []) (Some x) =
      Some (y, store, Inr st) \<and>
    (\<exists>h n key. into_transport plain_snow h = Inr n \<and> remote_static plain_snow h = Some key \<and> length key = 32 \<and>
       authenticated key_store (transport_noiser plain_snow) [] key store)"
proof -
  have "length (replicate 32 (1 :: u8)) \<le> 1005" "length (replicate 32 (2 :: u8)) \<le> 60000" by simp_all
  from ends_complete [OF plain_ends, OF this] obtain s y store st where
    run: "new_client plain_snow wire_io key_store s (replicate 32 1) (Some []) (Some (replicate 32 1)) =
      Some (y, store, Inr st)"
    by blast
  from handshake_authenticates [THEN conjunct1, rule_format, OF run] run show ?thesis by blast
qed

theorem large_attestation_panics_witness:
  "\<exists>cw r sw. client_fin plain_noiser wire_io key_store (Some (replicate 1006 0)) [] True False
      (hello_world \<lparr>inbox = [], outbox = []\<rparr> () None) = Some (cw, r) \<and>
    inbox (hs_base sw) = outbox (hs_base cw) \<and> server_fin plain_noiser wire_io key_store None [] False sw = None"
proof -
  let ?w = "hello_world \<lparr>inbox = [], outbox = []\<rparr> () (None :: bytes list option)"
  note plain = plain_transport [unfolded plain_snow_def snow.simps]
  have "in_sync (hs_noise ?w) [] ()" if "in_sync = plain_sync" for in_sync
    using that by (simp add: plain_sync_start)
  then have pre: "plain_sync (hs_noise ?w) [] ()" "length (hs_buf ?w) = 1024" "length (hs_noise_buf ?w) = 1024"
    "if True then Some (replicate 1006 0) = Some (replicate 1006 (0 :: u8)) \<and> length (replicate 1006 (0 :: u8)) \<le> 60000
     else replicate 1006 (0 :: u8) = []"
    by (simp_all add: hello_world_def)
  obtain w1 c where "\<forall>s. (if True
      then (case Some (replicate 1006 0) of None \<Rightarrow> \<lambda>w. None
            | Some payload \<Rightarrow>
                act_ensure (\<not> length payload > 60000) ''auth payload too big''
                  (\<lambda>w. send_CLIENTFIN plain_noiser wire_io payload False (large_buffers w)))
      else send_CLIENTFIN plain_noiser wire_io [] False) (?w\<lparr>hs_base := s\<rparr>) =
      Some (w1\<lparr>hs_base := s\<lparr>outbox := outbox s @ framed c\<rparr>\<rparr>, Inr ())"
    by (rule client_sends [OF plain(1,2) pre, where ask = False])
  from this [THEN spec [of _ "hs_base ?w"]]
  have run: "client_fin plain_noiser wire_io key_store (Some (replicate 1006 0)) [] True False ?w =
      Some (w1\<lparr>hs_base := \<lparr>inbox = [], outbox = framed c\<rparr>\<rparr>, Inr ())"
    by (simp add: client_fin_def act_bind_def act_ok_def hello_world_def)
  define sw where "sw = ?w\<lparr>hs_base := \<lparr>inbox = framed c, outbox = []\<rparr>\<rparr>"
  have "framed c \<noteq> []" by (simp add: framed_def u16_to_be_bytes_def)
  with large_attestation_panics
    [where sw = sw and sask = False and auther = None and skey = "[]" and sops = key_store, OF plain(3) run]
  have "server_fin plain_noiser wire_io key_store None [] False sw = None"
    by (simp add: sw_def hello_world_def)
  with run show ?thesis by (intro exI [of _ sw] exI conjI) (assumption, simp_all add: sw_def)
qed

end
