(* ===== verification/Sdk_Attestation.thy ===== *)
theory Sdk_Attestation
  imports Oyster_Prelude
begin

text \<open>
  The attestations of enclaves: their verification in the Rust SDK (\<open>sdks/rs/src/attestation.rs\<close>) and the
  verifier that signs them for the contracts (\<open>attestation/verifier/src/handler.rs\<close>).

  The COSE, CBOR, X.509, secp256k1 and Keccak libraries are parameters. A value of \<open>serde_cbor\<close> is a datatype of the
  variants the code tells apart, and the conversion of a value to a map is a parameter that gives a partial
  function. Two certificates are equal if \<open>X509\<close>'s comparison says so. The clock of the certificate checks is a
  function of the position in the chain, since it is asked again for every link. \<open>usize\<close> has 64 bits and wraps, as
  in the release build.
\<close>

section \<open>Errors, values, libraries\<close>

datatype attestation_error =
  ParseFailed string | VerifyFailed string

datatype cbor =
  CborBytes bytes | CborArray "cbor list" | CborInteger int | CborText string | CborOther string

record ('c, 'x, 'k) attestation_lib =
  cose_from_bytes :: "bytes \<Rightarrow> 'c rust_result"
  cose_payload :: "'c \<Rightarrow> bytes rust_result"
  cose_verify :: "'c \<Rightarrow> 'k \<Rightarrow> bool rust_result"
  cbor_from_slice :: "bytes \<Rightarrow> cbor rust_result"
  cbor_as_map :: "cbor \<Rightarrow> (cbor \<rightharpoonup> cbor) rust_result"
  x509_from_der :: "bytes \<Rightarrow> 'x rust_result"
  x509_from_pem :: "bytes \<Rightarrow> 'x rust_result"
  x509_public_key :: "'x \<Rightarrow> 'k rust_result"
  x509_verify :: "'x \<Rightarrow> 'k \<Rightarrow> bool rust_result"
  x509_issued :: "'x \<Rightarrow> 'x \<Rightarrow> bool"
  x509_not_after :: "'x \<Rightarrow> int"
  x509_not_before :: "'x \<Rightarrow> int"

record attestation_decoded =
  pcrs :: "bytes list"
  timestamp :: u64
  public_key :: bytes

type_synonym 'a attestation_result = "attestation_error + 'a"

definition att_bind :: "'a attestation_result \<Rightarrow> ('a \<Rightarrow> 'b attestation_result) \<Rightarrow> 'b attestation_result" where
  "att_bind m f = (case m of Inl e \<Rightarrow> Inl e | Inr x \<Rightarrow> f x)"

definition parse_err :: "string \<Rightarrow> 'a rust_result \<Rightarrow> 'a attestation_result" where
  "parse_err msg r = (case r of Inl e \<Rightarrow> Inl (ParseFailed (msg @ e)) | Inr x \<Rightarrow> Inr x)"

definition parse_ok_or :: "string \<Rightarrow> 'a option \<Rightarrow> 'a attestation_result" where
  "parse_ok_or msg x = (case x of None \<Rightarrow> Inl (ParseFailed msg) | Some y \<Rightarrow> Inr y)"

definition verify_ensure :: "bool \<Rightarrow> string \<Rightarrow> unit attestation_result" where
  "verify_ensure b msg = (if b then Inr () else Inl (VerifyFailed msg))"

text \<open>The variants of a value.\<close>

fun as_bytes :: "cbor \<Rightarrow> bytes option" where
  "as_bytes (CborBytes b) = Some b"
| "as_bytes _ = None"

fun as_array :: "cbor \<Rightarrow> cbor list option" where
  "as_array (CborArray b) = Some b"
| "as_array _ = None"

fun as_integer :: "cbor \<Rightarrow> int option" where
  "as_integer (CborInteger b) = Some b"
| "as_integer _ = None"

section \<open>Certificates\<close>

fun decode_certs :: "('c, 'x, 'k) attestation_lib \<Rightarrow> cbor list \<Rightarrow> 'x list attestation_result" where
  "decode_certs lib [] = Inr []"
| "decode_certs lib (v # vs) =
     att_bind (parse_ok_or ''cert decode'' (as_bytes v)) (\<lambda>b.
     att_bind (parse_err ''der: '' (x509_from_der lib b)) (\<lambda>x.
     att_bind (decode_certs lib vs) (\<lambda>xs. Inr (x # xs))))"

definition get_all_certs ::
  "('c, 'x, 'k) attestation_lib \<Rightarrow> 'x \<Rightarrow> cbor list \<Rightarrow> 'x list attestation_result"
where
  "get_all_certs lib cert cabundle = att_bind (decode_certs lib cabundle) (\<lambda>xs. Inr (cert # xs))"

text \<open>The checks of certificate \<open>i\<close> against the one that issued it.\<close>

definition verify_link ::
  "('c, 'x, 'k) attestation_lib \<Rightarrow> (nat \<Rightarrow> int rust_result) \<Rightarrow> nat \<Rightarrow> 'x \<Rightarrow> 'x \<Rightarrow> unit attestation_result"
where
  "verify_link lib now i cert issuer =
     att_bind (parse_err ''pubkey: '' (x509_public_key lib issuer)) (\<lambda>pubkey.
     att_bind (parse_err ''signature: '' (x509_verify lib cert pubkey)) (\<lambda>valid.
     att_bind (verify_ensure valid ''signature'') (\<lambda>_.
     att_bind (verify_ensure (x509_issued lib issuer cert) ''issuer or subject'') (\<lambda>_.
     att_bind (parse_err '''' (now i)) (\<lambda>t.
     verify_ensure (\<not> (x509_not_after lib cert < t \<or> x509_not_before lib cert > t)) ''timestamp'')))))"

fun verify_links ::
  "('c, 'x, 'k) attestation_lib \<Rightarrow> (nat \<Rightarrow> int rust_result) \<Rightarrow> nat \<Rightarrow> 'x list \<Rightarrow> unit attestation_result"
where
  "verify_links lib now i (c # d # cs) =
     att_bind (verify_link lib now i c d) (\<lambda>_. verify_links lib now (Suc i) (d # cs))"
| "verify_links lib now i _ = Inr ()"

definition verify_cert_chain ::
  "('c, 'x, 'k) attestation_lib \<Rightarrow> (nat \<Rightarrow> int rust_result) \<Rightarrow> 'x \<Rightarrow> cbor list \<Rightarrow> bytes \<Rightarrow> unit attestation_result"
where
  "verify_cert_chain lib now cert cabundle root_cert_pem =
     att_bind (get_all_certs lib cert cabundle) (\<lambda>certs.
     att_bind (verify_links lib now 0 certs) (\<lambda>_.
     att_bind (parse_err ''pem: '' (x509_from_pem lib root_cert_pem)) (\<lambda>root.
     att_bind (parse_ok_or ''root'' (if certs = [] then None else Some (last certs))) (\<lambda>top.
     verify_ensure (root = top) ''root''))))"

section \<open>Fields\<close>

definition parse_attestation_doc ::
  "('c, 'x, 'k) attestation_lib \<Rightarrow> bytes \<Rightarrow> ('c \<times> (cbor \<rightharpoonup> cbor)) attestation_result"
where
  "parse_attestation_doc lib att =
     att_bind (parse_err ''cose: '' (cose_from_bytes lib att)) (\<lambda>cose.
     att_bind (parse_err ''cose payload: '' (cose_payload lib cose)) (\<lambda>payload.
     att_bind (parse_err ''cbor: '' (cbor_from_slice lib payload)) (\<lambda>v.
     att_bind (parse_err ''doc: '' (cbor_as_map lib v)) (\<lambda>doc. Inr (cose, doc)))))"

text \<open>\<open>remove(key).ok_or(..)\<close>: the value, and the map without it.\<close>

definition remove_key ::
  "string \<Rightarrow> cbor \<Rightarrow> (cbor \<rightharpoonup> cbor) \<Rightarrow> (cbor \<times> (cbor \<rightharpoonup> cbor)) attestation_result"
where
  "remove_key msg key doc = att_bind (parse_ok_or msg (doc key)) (\<lambda>v. Inr (v, doc(key := None)))"

definition pcr_name :: "nat \<Rightarrow> string" where
  "pcr_name i = (if i = 0 then ''pcr0'' else if i = 1 then ''pcr1'' else ''pcr2'')"

fun take_pcrs :: "nat list \<Rightarrow> (cbor \<rightharpoonup> cbor) \<Rightarrow> bytes list attestation_result" where
  "take_pcrs [] m = Inr []"
| "take_pcrs (i # is) m =
     att_bind (remove_key (pcr_name i @ '' not found'') (CborInteger (int i)) m) (\<lambda>(v, m).
     att_bind (parse_ok_or (pcr_name i @ '' decode failure'') (as_bytes v)) (\<lambda>b.
     att_bind (if length b = 48 then Inr b else Inl (ParseFailed (pcr_name i @ '' not 48 bytes''))) (\<lambda>b.
     att_bind (take_pcrs is m) (\<lambda>bs. Inr (b # bs)))))"

definition parse_pcrs ::
  "('c, 'x, 'k) attestation_lib \<Rightarrow> (cbor \<rightharpoonup> cbor) \<Rightarrow> (bytes list \<times> (cbor \<rightharpoonup> cbor)) attestation_result"
where
  "parse_pcrs lib doc =
     att_bind (remove_key ''pcrs not found'' (CborText ''pcrs'') doc) (\<lambda>(v, doc).
     att_bind (parse_err ''pcrs: '' (cbor_as_map lib v)) (\<lambda>m.
     att_bind (take_pcrs [0, 1, 2] m) (\<lambda>p. Inr (p, doc))))"

definition verify_signature_and_cert_chain ::
  "('c, 'x, 'k) attestation_lib \<Rightarrow> (nat \<Rightarrow> int rust_result) \<Rightarrow> bytes \<Rightarrow> (cbor \<rightharpoonup> cbor) \<Rightarrow> 'c
     \<Rightarrow> (cbor \<rightharpoonup> cbor) attestation_result"
where
  "verify_signature_and_cert_chain lib now root doc cose =
     att_bind (remove_key ''certificate key not found'' (CborText ''certificate'') doc) (\<lambda>(v, doc).
     att_bind (parse_ok_or ''enclave certificate decode failure'' (as_bytes v)) (\<lambda>b.
     att_bind (parse_err ''der: '' (x509_from_der lib b)) (\<lambda>cert.
     att_bind (parse_err ''pubkey: '' (x509_public_key lib cert)) (\<lambda>key.
     att_bind (parse_err ''signature: '' (cose_verify lib cose key)) (\<lambda>valid.
     att_bind (verify_ensure valid ''signature'') (\<lambda>_.
     att_bind (remove_key ''cabundle key not found in attestation doc'' (CborText ''cabundle'') doc) (\<lambda>(v, doc).
     att_bind (parse_ok_or ''cabundle decode failure'' (as_array v)) (\<lambda>cabundle.
     att_bind (verify_cert_chain lib now cert (rev cabundle) root) (\<lambda>_. Inr doc)))))))))"

definition parse_timestamp :: "(cbor \<rightharpoonup> cbor) \<Rightarrow> (u64 \<times> (cbor \<rightharpoonup> cbor)) attestation_result" where
  "parse_timestamp doc =
     att_bind (remove_key ''timestamp not found in attestation doc'' (CborText ''timestamp'') doc) (\<lambda>(v, doc).
     att_bind (parse_ok_or ''timestamp decode failure'' (as_integer v)) (\<lambda>t.
     if 0 \<le> t \<and> t < 2 ^ 64 then Inr (of_int t, doc)
     else Inl (ParseFailed ''timestamp: out of range integral type conversion attempted'')))"

definition parse_enclave_key :: "(cbor \<rightharpoonup> cbor) \<Rightarrow> (bytes \<times> (cbor \<rightharpoonup> cbor)) attestation_result" where
  "parse_enclave_key doc =
     att_bind (remove_key ''public key not found in attestation doc'' (CborText ''public_key'') doc) (\<lambda>(v, doc).
     att_bind (parse_ok_or ''public key decode failure'' (as_bytes v)) (\<lambda>k. Inr (k, doc)))"

section \<open>The entry points\<close>

definition decode_attestation ::
  "('c, 'x, 'k) attestation_lib \<Rightarrow> bytes \<Rightarrow> attestation_decoded attestation_result"
where
  "decode_attestation lib att =
     att_bind (parse_attestation_doc lib att) (\<lambda>(_, doc).
     att_bind (parse_pcrs lib doc) (\<lambda>(p, doc).
     att_bind (parse_timestamp doc) (\<lambda>(t, doc).
     att_bind (parse_enclave_key doc) (\<lambda>(k, doc).
     Inr \<lparr>pcrs = p, timestamp = t, public_key = k\<rparr>))))"

definition verify_and_decode_attestation ::
  "('c, 'x, 'k) attestation_lib \<Rightarrow> (nat \<Rightarrow> int rust_result) \<Rightarrow> bytes \<Rightarrow> bytes \<Rightarrow> attestation_decoded attestation_result"
where
  "verify_and_decode_attestation lib now root att =
     att_bind (parse_attestation_doc lib att) (\<lambda>(cose, doc).
     att_bind (parse_pcrs lib doc) (\<lambda>(p, doc).
     att_bind (verify_signature_and_cert_chain lib now root doc cose) (\<lambda>doc.
     att_bind (parse_timestamp doc) (\<lambda>(t, doc).
     att_bind (parse_enclave_key doc) (\<lambda>(k, doc).
     Inr \<lparr>pcrs = p, timestamp = t, public_key = k\<rparr>)))))"

text \<open>The comparison of the three PCRs with the expected ones, in order.\<close>

fun check_pcrs :: "nat list \<Rightarrow> bytes list \<Rightarrow> bytes list \<Rightarrow> unit attestation_result" where
  "check_pcrs [] p q = Inr ()"
| "check_pcrs (i # is) p q =
     att_bind (verify_ensure (p ! i = q ! i) (pcr_name i)) (\<lambda>_. check_pcrs is p q)"

definition verify ::
  "('c, 'x, 'k) attestation_lib \<Rightarrow> (nat \<Rightarrow> int rust_result) \<Rightarrow> bytes \<Rightarrow> u64 \<Rightarrow> bytes \<Rightarrow> bytes list \<Rightarrow> u64
     \<Rightarrow> bytes attestation_result"
where
  "verify lib now root now_millis att expected max_age =
     att_bind (verify_and_decode_attestation lib now root att) (\<lambda>decoded.
     att_bind (check_pcrs [0, 1, 2] (pcrs decoded) expected) (\<lambda>_.
     att_bind (verify_ensure (\<not> now_millis - max_age > timestamp decoded) ''too old'') (\<lambda>_.
     Inr (public_key decoded))))"

definition verify_with_timestamp ::
  "('c, 'x, 'k) attestation_lib \<Rightarrow> (nat \<Rightarrow> int rust_result) \<Rightarrow> bytes \<Rightarrow> bytes \<Rightarrow> bytes list \<Rightarrow> u64
     \<Rightarrow> bytes attestation_result"
where
  "verify_with_timestamp lib now root att expected ts =
     att_bind (verify_and_decode_attestation lib now root att) (\<lambda>decoded.
     att_bind (check_pcrs [0, 1, 2] (pcrs decoded) expected) (\<lambda>_.
     att_bind (verify_ensure (\<not> ts \<noteq> timestamp decoded) ''timestamp does not match'') (\<lambda>_.
     Inr (public_key decoded))))"

section \<open>What an accepted attestation is\<close>

lemma att_bind_Inr [simp]: "att_bind m f = Inr y \<longleftrightarrow> (\<exists>x. m = Inr x \<and> f x = Inr y)"
  by (cases m) (auto simp: att_bind_def)

lemma parse_err_Inr [simp]: "parse_err msg r = Inr x \<longleftrightarrow> r = Inr x"
  by (cases r) (auto simp: parse_err_def)

lemma parse_ok_or_Inr [simp]: "parse_ok_or msg x = Inr y \<longleftrightarrow> x = Some y"
  by (cases x) (auto simp: parse_ok_or_def)

lemma verify_ensure_Inr [simp]: "verify_ensure b msg = Inr u \<longleftrightarrow> b"
  by (simp add: verify_ensure_def)

lemma remove_key_Inr [simp]: "remove_key msg k m = Inr (v, m') \<longleftrightarrow> m k = Some v \<and> m' = m(k := None)"
  by (auto simp: remove_key_def)

lemma as_variant [simp]:
  "as_bytes v = Some b \<longleftrightarrow> v = CborBytes b" "as_array v = Some a \<longleftrightarrow> v = CborArray a"
  "as_integer v = Some i \<longleftrightarrow> v = CborInteger i"
  by (cases v; simp)+

text \<open>Certificate \<open>i\<close> of a chain was signed and issued by the next one, and is in its validity.\<close>

definition link_valid ::
  "('c, 'x, 'k) attestation_lib \<Rightarrow> (nat \<Rightarrow> int rust_result) \<Rightarrow> nat \<Rightarrow> 'x \<Rightarrow> 'x \<Rightarrow> bool"
where
  "link_valid lib now i cert issuer \<longleftrightarrow>
     (\<exists>key t. x509_public_key lib issuer = Inr key \<and> x509_verify lib cert key = Inr True \<and>
        x509_issued lib issuer cert \<and> now i = Inr t \<and> x509_not_before lib cert \<le> t \<and> t \<le> x509_not_after lib cert)"

lemma verify_link_valid: "verify_link lib now i c d = Inr u \<longleftrightarrow> link_valid lib now i c d"
  by (auto simp: verify_link_def link_valid_def not_less)

lemma verify_links_valid:
  "verify_links lib now n certs = Inr u \<longleftrightarrow>
   (\<forall>i. Suc i < length certs \<longrightarrow> link_valid lib now (n + i) (certs ! i) (certs ! Suc i))"
proof (induction lib now n certs rule: verify_links.induct)
  case (1 lib now i c d cs)
  have "(\<forall>j. Suc j < length (c # d # cs) \<longrightarrow> link_valid lib now (i + j) ((c # d # cs) ! j) ((c # d # cs) ! Suc j)) \<longleftrightarrow>
      link_valid lib now i c d \<and>
      (\<forall>j. Suc j < length (d # cs) \<longrightarrow> link_valid lib now (Suc i + j) ((d # cs) ! j) ((d # cs) ! Suc j))"
    by (simp add: All_less_Suc2)
  with 1 show ?case by (simp add: verify_link_valid)
qed simp_all

definition chain_valid ::
  "('c, 'x, 'k) attestation_lib \<Rightarrow> (nat \<Rightarrow> int rust_result) \<Rightarrow> bytes \<Rightarrow> 'x list \<Rightarrow> bool"
where
  "chain_valid lib now root certs \<longleftrightarrow>
     (\<forall>i. Suc i < length certs \<longrightarrow> link_valid lib now i (certs ! i) (certs ! Suc i)) \<and>
     x509_from_pem lib root = Inr (last certs)"

lemma decode_certs_list:
  "decode_certs lib vs = Inr xs \<longleftrightarrow>
   list_all2 (\<lambda>v x. \<exists>b. v = CborBytes b \<and> x509_from_der lib b = Inr x) vs xs"
proof (induction vs arbitrary: xs)
  case Nil
  then show ?case by auto
next
  case (Cons v vs)
  have "decode_certs lib (v # vs) = Inr xs \<longleftrightarrow>
      (\<exists>b x ys. v = CborBytes b \<and> x509_from_der lib b = Inr x \<and> decode_certs lib vs = Inr ys \<and> xs = x # ys)"
    by auto
  with Cons.IH show ?case unfolding list_all2_Cons1 by blast
qed

lemma verify_cert_chain_valid:
  "verify_cert_chain lib now cert bundle root = Inr u \<longleftrightarrow>
   (\<exists>xs. decode_certs lib bundle = Inr xs \<and> chain_valid lib now root (cert # xs))"
proof -
  have "verify_cert_chain lib now cert bundle root = Inr u \<longleftrightarrow>
      (\<exists>xs. decode_certs lib bundle = Inr xs \<and> verify_links lib now 0 (cert # xs) = Inr () \<and>
         x509_from_pem lib root = Inr (last (cert # xs)))"
    by (auto simp: verify_cert_chain_def get_all_certs_def simp del: last.simps)
  then show ?thesis by (simp add: chain_valid_def verify_links_valid)
qed

text \<open>The fields of a document, as maps.\<close>

definition pcrs_field :: "('c, 'x, 'k) attestation_lib \<Rightarrow> (cbor \<rightharpoonup> cbor) \<Rightarrow> bytes list \<Rightarrow> bool" where
  "pcrs_field lib doc p \<longleftrightarrow>
     (\<exists>v m p0 p1 p2. doc (CborText ''pcrs'') = Some v \<and> cbor_as_map lib v = Inr m \<and>
        m (CborInteger 0) = Some (CborBytes p0) \<and> m (CborInteger 1) = Some (CborBytes p1) \<and>
        m (CborInteger 2) = Some (CborBytes p2) \<and> length p0 = 48 \<and> length p1 = 48 \<and> length p2 = 48 \<and>
        p = [p0, p1, p2])"

definition timestamp_field :: "(cbor \<rightharpoonup> cbor) \<Rightarrow> u64 \<Rightarrow> bool" where
  "timestamp_field doc t \<longleftrightarrow>
     (\<exists>i. doc (CborText ''timestamp'') = Some (CborInteger i) \<and> 0 \<le> i \<and> i < 2 ^ 64 \<and> t = of_int i)"

definition document_fields ::
  "('c, 'x, 'k) attestation_lib \<Rightarrow> (cbor \<rightharpoonup> cbor) \<Rightarrow> attestation_decoded \<Rightarrow> bool"
where
  "document_fields lib doc d \<longleftrightarrow>
     pcrs_field lib doc (pcrs d) \<and> timestamp_field doc (timestamp d) \<and>
     doc (CborText ''public_key'') = Some (CborBytes (public_key d))"

text \<open>The signature of a document: it is by the key of the certificate in the document, whose chain through the
  bundle, from its end to its start, ends in the root.\<close>

definition document_signed ::
  "('c, 'x, 'k) attestation_lib \<Rightarrow> (nat \<Rightarrow> int rust_result) \<Rightarrow> bytes \<Rightarrow> 'c \<Rightarrow> (cbor \<rightharpoonup> cbor) \<Rightarrow> bool"
where
  "document_signed lib now root cose doc \<longleftrightarrow>
     (\<exists>b cert key bundle xs.
        doc (CborText ''certificate'') = Some (CborBytes b) \<and> x509_from_der lib b = Inr cert \<and>
        x509_public_key lib cert = Inr key \<and> cose_verify lib cose key = Inr True \<and>
        doc (CborText ''cabundle'') = Some (CborArray bundle) \<and> list_all2 (\<lambda>v x. \<exists>b. v = CborBytes b \<and> x509_from_der lib b = Inr x) (rev bundle) xs \<and>
        chain_valid lib now root (cert # xs))"

definition document_of :: "('c, 'x, 'k) attestation_lib \<Rightarrow> bytes \<Rightarrow> 'c \<Rightarrow> (cbor \<rightharpoonup> cbor) \<Rightarrow> bool" where
  "document_of lib att cose doc \<longleftrightarrow>
     (\<exists>payload v. cose_from_bytes lib att = Inr cose \<and> cose_payload lib cose = Inr payload \<and>
        cbor_from_slice lib payload = Inr v \<and> cbor_as_map lib v = Inr doc)"

lemma parse_attestation_doc_Inr:
  "parse_attestation_doc lib att = Inr (cose, doc) \<longleftrightarrow> document_of lib att cose doc"
  by (auto simp: parse_attestation_doc_def document_of_def)

lemma length_check [simp]: "(if length b = 48 then Inr b else Inl e) = Inr x \<longleftrightarrow> x = b \<and> length b = 48"
  by auto

lemma parse_pcrs_Inr:
  "parse_pcrs lib doc = Inr (p, doc') \<longleftrightarrow> pcrs_field lib doc p \<and> doc' = doc(CborText ''pcrs'' := None)"
  by (auto simp: parse_pcrs_def pcrs_field_def)

lemma parse_timestamp_Inr:
  "parse_timestamp doc = Inr (t, doc') \<longleftrightarrow> timestamp_field doc t \<and> doc' = doc(CborText ''timestamp'' := None)"
  by (auto simp: parse_timestamp_def timestamp_field_def split: if_splits)

lemma parse_enclave_key_Inr:
  "parse_enclave_key doc = Inr (k, doc') \<longleftrightarrow>
   doc (CborText ''public_key'') = Some (CborBytes k) \<and> doc' = doc(CborText ''public_key'' := None)"
  by (auto simp: parse_enclave_key_def)

lemmas parse_Inr = parse_attestation_doc_Inr parse_pcrs_Inr parse_timestamp_Inr parse_enclave_key_Inr

lemma verify_signature_Inr:
  "verify_signature_and_cert_chain lib now root doc cose = Inr doc' \<longleftrightarrow>
   document_signed lib now root cose doc \<and> doc' = doc(CborText ''certificate'' := None, CborText ''cabundle'' := None)"
  by (auto simp: verify_signature_and_cert_chain_def document_signed_def verify_cert_chain_valid
      decode_certs_list)

lemma other_field:
  "k \<noteq> CborText ''timestamp'' \<Longrightarrow> timestamp_field (doc(k := x)) t = timestamp_field doc t"
  "k \<noteq> CborText ''certificate'' \<Longrightarrow> k \<noteq> CborText ''cabundle'' \<Longrightarrow>
   document_signed lib now root cose (doc(k := x)) = document_signed lib now root cose doc"
  by (simp_all add: timestamp_field_def document_signed_def)

lemma decode_attestation_Inr:
  "decode_attestation lib att = Inr d \<longleftrightarrow> (\<exists>cose doc. document_of lib att cose doc \<and> document_fields lib doc d)"
  by (cases d) (auto simp: decode_attestation_def parse_Inr document_fields_def other_field split_beta; metis)

lemma verify_and_decode_Inr:
  "verify_and_decode_attestation lib now root att = Inr d \<longleftrightarrow>
   (\<exists>cose doc. document_of lib att cose doc \<and> document_fields lib doc d \<and> document_signed lib now root cose doc)"
  by (cases d) (auto simp: verify_and_decode_attestation_def parse_Inr verify_signature_Inr document_fields_def
      other_field; metis)

lemma check_pcrs_Inr: "length p = 3 \<Longrightarrow> length q = 3 \<Longrightarrow> check_pcrs [0, 1, 2] p q = Inr u \<longleftrightarrow> p = q"
  by (auto simp: length_Suc_conv numeral_3_eq_3)

lemma document_fields_pcrs: "document_fields lib doc d \<Longrightarrow> length (pcrs d) = 3"
  by (auto simp: document_fields_def pcrs_field_def)

text \<open>C7: \<open>verify\<close> accepts an attestation and returns a key if and only if it is a COSE structure over a document
  that is signed by the key of its certificate, whose chain through the bundle is signed, issued and valid link by
  link up to the root, the document has the three expected PCRs and this public key, and its timestamp is at most
  \<open>max_age\<close> before now. There is no bound on a timestamp in the future, and a \<open>max_age\<close> above the clock wraps, so
  that nearly every document is too old.\<close>

theorem attestation_accepted_iff:
  assumes "length expected = 3"
  shows "verify lib now root now_millis att expected max_age = Inr key \<longleftrightarrow>
    (\<exists>cose doc d. document_of lib att cose doc \<and> document_signed lib now root cose doc \<and>
       document_fields lib doc d \<and> pcrs d = expected \<and> public_key d = key \<and>
       unat now_millis + (if max_age \<le> now_millis then 0 else 2 ^ 64) \<le> unat (timestamp d) + unat max_age)"
proof -
  have age: "\<not> now_millis - max_age > t \<longleftrightarrow>
      unat now_millis + (if max_age \<le> now_millis then 0 else 2 ^ 64) \<le> unat t + unat max_age" for t :: u64
  proof (cases "max_age \<le> now_millis")
    case True
    then show ?thesis by (auto simp: not_less word_le_nat_alt unat_sub)
  next
    case False
    then have lt: "unat now_millis < unat max_age" by (simp add: word_le_nat_alt)
    have "unat (now_millis - max_age) = 2 ^ 64 + unat now_millis - unat max_age"
      using lt by (subst unat_sub_if') (simp_all add: word_le_nat_alt)
    with False lt show ?thesis by (auto simp: not_less word_le_nat_alt)
  qed
  have "verify lib now root now_millis att expected max_age = Inr key \<longleftrightarrow>
      (\<exists>d. verify_and_decode_attestation lib now root att = Inr d \<and> check_pcrs [0, 1, 2] (pcrs d) expected = Inr () \<and>
         \<not> now_millis - max_age > timestamp d \<and> public_key d = key)"
    by (auto simp: verify_def simp del: check_pcrs.simps)
  also have "\<dots> \<longleftrightarrow> (\<exists>d cose doc. document_of lib att cose doc \<and> document_signed lib now root cose doc \<and>
       document_fields lib doc d \<and> pcrs d = expected \<and> public_key d = key \<and>
       unat now_millis + (if max_age \<le> now_millis then 0 else 2 ^ 64) \<le> unat (timestamp d) + unat max_age)"
    unfolding age verify_and_decode_Inr
    using check_pcrs_Inr [OF document_fields_pcrs assms] by blast
  finally show ?thesis by blast
qed

section \<open>The verifier\<close>

datatype user_error =
  AttestationDecode string | AttestationVerification attestation_error | MessageGeneration | InvalidRecovery

fun status_code :: "user_error \<Rightarrow> nat" where
  "status_code (AttestationDecode _) = 400"
| "status_code (AttestationVerification _) = 401"
| "status_code MessageGeneration = 500"
| "status_code InvalidRecovery = 401"

record 'sk verifier_lib =
  keccak256 :: "bytes \<Rightarrow> bytes"
  sign_recoverable :: "'sk \<Rightarrow> bytes \<Rightarrow> int \<times> bytes"
  hex_encode :: "bytes \<Rightarrow> string"
  hex_decode :: "bytes \<Rightarrow> bytes rust_result"

record verify_response =
  signature :: string
  secp256k1_public :: string
  resp_pcr0 :: string
  resp_pcr1 :: string
  resp_pcr2 :: string
  resp_timestamp :: u64
  verifier_secp256k1_public :: string

definition DOMAIN_SEPARATOR :: bytes where
  "DOMAIN_SEPARATOR =
     [0x0d, 0xe8, 0x34, 0xfe, 0xb0, 0x3c, 0x21, 0x4f, 0x78, 0x5e, 0x75, 0xb2, 0x82, 0x8f, 0xfe, 0xce,
      0xb3, 0x22, 0x31, 0x2d, 0x44, 0x87, 0xe2, 0xfb, 0x96, 0x40, 0xca, 0x5f, 0xc3, 0x25, 0x42, 0xc7]"

definition ATTESTATION_TYPEHASH :: bytes where
  "ATTESTATION_TYPEHASH =
     [0x68, 0x89, 0xdf, 0x47, 0x6c, 0xa3, 0x8f, 0x3f, 0x4b, 0x41, 0x7c, 0x17, 0xeb, 0x49, 0x66, 0x82,
      0xeb, 0x40, 0x1b, 0x4f, 0x41, 0xa2, 0x25, 0x97, 0x41, 0xa7, 0x8a, 0xcc, 0x48, 0x1e, 0xa8, 0x05]"

text \<open>\<open>U256::from(timestamp).to_big_endian\<close>: 32 bytes, the 24 upper ones zero.\<close>

definition u64_be_bytes :: "u64 \<Rightarrow> bytes" where
  "u64_be_bytes x = map (\<lambda>i. ucast (drop_bit (8 * i) x)) (rev [0..<8])"

definition u256_be_bytes :: "u64 \<Rightarrow> bytes" where
  "u256_be_bytes x = replicate 24 0 @ u64_be_bytes x"

definition encoded_struct :: "'sk verifier_lib \<Rightarrow> bytes \<Rightarrow> bytes list \<Rightarrow> u64 \<Rightarrow> bytes" where
  "encoded_struct vl pubkey p ts =
     (let e = ATTESTATION_TYPEHASH @ keccak256 vl pubkey @ keccak256 vl (p ! 0) @ keccak256 vl (p ! 1) @
              keccak256 vl (p ! 2)
      in take (32 * 5) (e @ replicate (32 * 6) 0) @ u256_be_bytes ts)"

definition encoded_message :: "'sk verifier_lib \<Rightarrow> bytes \<Rightarrow> bytes list \<Rightarrow> u64 \<Rightarrow> bytes" where
  "encoded_message vl pubkey p ts =
     [0x19, 0x01] @ DOMAIN_SEPARATOR @ keccak256 vl (encoded_struct vl pubkey p ts)"

definition compute_digest :: "'sk verifier_lib \<Rightarrow> bytes \<Rightarrow> bytes list \<Rightarrow> u64 \<Rightarrow> bytes" where
  "compute_digest vl pubkey p ts = keccak256 vl (encoded_message vl pubkey p ts)"

definition verifier_verify ::
  "'sk verifier_lib \<Rightarrow> ('c, 'x, 'k) attestation_lib \<Rightarrow> (nat \<Rightarrow> int rust_result) \<Rightarrow> bytes \<Rightarrow> 'sk \<Rightarrow> bytes \<Rightarrow> bytes
     \<Rightarrow> user_error + verify_response"
where
  "verifier_verify vl lib now root secret public att =
     (case decode_attestation lib att of Inl e \<Rightarrow> Inl (AttestationVerification e)
      | Inr parsed \<Rightarrow>
          (case verify_with_timestamp lib now root att (pcrs parsed) (timestamp parsed) of
             Inl e \<Rightarrow> Inl (AttestationVerification e)
           | Inr _ \<Rightarrow>
               let digest = compute_digest vl (public_key parsed) (pcrs parsed) (timestamp parsed) in
               if length digest \<noteq> 32 then Inl MessageGeneration
               else
                 case sign_recoverable vl secret digest of
                   (recid, sig) \<Rightarrow>
                     if \<not> (0 \<le> recid \<and> recid < 256) then Inl InvalidRecovery
                     else
                       Inr \<lparr>signature = hex_encode vl sig @ hex_encode vl [of_int recid + 27],
                            secp256k1_public = hex_encode vl (public_key parsed),
                            resp_pcr0 = hex_encode vl (pcrs parsed ! 0),
                            resp_pcr1 = hex_encode vl (pcrs parsed ! 1),
                            resp_pcr2 = hex_encode vl (pcrs parsed ! 2),
                            resp_timestamp = timestamp parsed,
                            verifier_secp256k1_public = hex_encode vl public\<rparr>))"

definition verify_raw where
  "verify_raw vl lib now root secret public req = verifier_verify vl lib now root secret public req"

definition verify_hex where
  "verify_hex vl lib now root secret public req =
     (case hex_decode vl req of Inl e \<Rightarrow> Inl (AttestationDecode e)
      | Inr att \<Rightarrow> verifier_verify vl lib now root secret public att)"

definition attested_response :: "'sk verifier_lib \<Rightarrow> 'sk \<Rightarrow> bytes \<Rightarrow> attestation_decoded \<Rightarrow> verify_response" where
  "attested_response vl secret public d =
     (let (recid, sig) = sign_recoverable vl secret (compute_digest vl (public_key d) (pcrs d) (timestamp d))
      in \<lparr>signature = hex_encode vl sig @ hex_encode vl [of_int recid + 27],
          secp256k1_public = hex_encode vl (public_key d), resp_pcr0 = hex_encode vl (pcrs d ! 0),
          resp_pcr1 = hex_encode vl (pcrs d ! 1), resp_pcr2 = hex_encode vl (pcrs d ! 2),
          resp_timestamp = timestamp d, verifier_secp256k1_public = hex_encode vl public\<rparr>)"

lemma document_fields_unique:
  assumes "document_of lib att cose doc" "document_fields lib doc d"
    "document_of lib att cose' doc'" "document_fields lib doc' d'"
  shows "d = d'"
proof -
  have "doc = doc'" using assms(1,3) by (auto simp: document_of_def)
  with assms(2,4) show ?thesis
    by (cases d; cases d') (auto simp: document_fields_def pcrs_field_def timestamp_field_def)
qed

text \<open>The second decoding of a verification agrees with the first, so a document matches the measurements and the time
  that it states itself as soon as it is authentic.\<close>

lemma verified_decoded: "verify_and_decode_attestation lib now root att = Inr d \<Longrightarrow> decode_attestation lib att = Inr d"
  unfolding verify_and_decode_Inr decode_attestation_Inr by blast

lemma verify_own_fields:
  assumes dec: "decode_attestation lib att = Inr d"
  shows "verify_with_timestamp lib now root att (pcrs d) (timestamp d) = Inr k \<longleftrightarrow>
    verify_and_decode_attestation lib now root att = Inr d \<and> k = public_key d"
proof -
  have "d' = d" if "verify_and_decode_attestation lib now root att = Inr d'" for d'
    using verified_decoded [OF that] dec by simp
  then show ?thesis by (auto simp: verify_with_timestamp_def)
qed

text \<open>C30: The verifier answers a request with a signature if and only if the attestation is authentic (signed,
  with a valid chain to the root): its second comparison, of the PCRs and the timestamp with the ones it parsed
  itself, never fails, and it asks for no particular PCRs or age. What it signs is the digest of the key, the PCRs
  and the timestamp of that attestation, which the response repeats.\<close>

theorem verifier_signs_authentic:
  assumes keccak: "\<forall>b. length (keccak256 vl b) = 32"
    and recid: "\<forall>d. fst (sign_recoverable vl secret d) \<in> {0, 1, 2, 3}"
  shows "verify_raw vl lib now root secret public att = Inr resp \<longleftrightarrow>
    (\<exists>d. verify_and_decode_attestation lib now root att = Inr d \<and> resp = attested_response vl secret public d)"
proof -
  note same = verify_own_fields [where lib = lib and att = att and now = now and root = root]
  note decoded = verified_decoded [where lib = lib and att = att and now = now and root = root]
  have answer: "verify_raw vl lib now root secret public att =
      (case verify_with_timestamp lib now root att (pcrs d) (timestamp d) of
         Inl e \<Rightarrow> Inl (AttestationVerification e) | Inr _ \<Rightarrow> Inr (attested_response vl secret public d))"
    if "decode_attestation lib att = Inr d" for d
  proof -
    have "length (compute_digest vl k p t) = 32" for k p t using keccak by (simp add: compute_digest_def)
    moreover have "0 \<le> fst (sign_recoverable vl secret x) \<and> fst (sign_recoverable vl secret x) < 256" for x
      using recid [THEN spec [of _ x]] by auto
    ultimately show ?thesis using that
      by (simp add: verify_raw_def verifier_verify_def attested_response_def Let_def split_beta split: sum.split)
  qed
  show ?thesis
  proof (cases "decode_attestation lib att")
    case (Inl e)
    then show ?thesis using decoded by (auto simp: verify_raw_def verifier_verify_def)
  next
    case (Inr d)
    show ?thesis
    proof (cases "verify_with_timestamp lib now root att (pcrs d) (timestamp d)")
      case (Inl e)
      have "verify_and_decode_attestation lib now root att \<noteq> Inr d'" for d'
        using same [OF Inr] Inl decoded [of d'] Inr by force
      then show ?thesis using answer [OF Inr] Inl by simp
    next
      case ok: (Inr k)
      then have "verify_and_decode_attestation lib now root att = Inr d" using same [OF Inr] by blast
      then show ?thesis using answer [OF Inr] ok by auto
    qed
  qed
qed

section \<open>The digest binds\<close>

lemma u64_be_bytes_inject: "u64_be_bytes x = u64_be_bytes y \<longleftrightarrow> x = y"
proof
  assume eq: "u64_be_bytes x = u64_be_bytes y"
  show "x = y"
  proof (rule bit_word_eqI)
    fix n assume n: "n < LENGTH(64)"
    from eq have "\<forall>i < 8. (ucast (drop_bit (8 * i) x) :: u8) = ucast (drop_bit (8 * i) y)"
      by (simp add: u64_be_bytes_def)
    moreover have "n div 8 < 8" using n by simp
    ultimately have "bit (ucast (drop_bit (8 * (n div 8)) x) :: u8) (n mod 8) =
        bit (ucast (drop_bit (8 * (n div 8)) y) :: u8) (n mod 8)" by metis
    then show "bit x n = bit y n" by (simp add: bit_simps)
  qed
qed simp

definition collide :: "'sk verifier_lib \<Rightarrow> bytes \<Rightarrow> bytes \<Rightarrow> bool" where
  "collide vl x y \<longleftrightarrow> x \<noteq> y \<and> keccak256 vl x = keccak256 vl y"

lemma encoded_struct_eq:
  assumes "\<forall>b. length (keccak256 vl b) = 32"
  shows "encoded_struct vl k p t = ATTESTATION_TYPEHASH @ keccak256 vl k @ keccak256 vl (p ! 0) @
    keccak256 vl (p ! 1) @ keccak256 vl (p ! 2) @ u256_be_bytes t"
  using assms by (simp add: encoded_struct_def ATTESTATION_TYPEHASH_def Let_def)

text \<open>The digest the verifier signs determines the public key, the three PCRs and the timestamp, unless two
  different inputs of Keccak that the computation of the two digests really hashes have the same hash.\<close>

lemma attestation_digest_binds:
  assumes keccak: "\<forall>b. length (keccak256 vl b) = 32" and three: "length p = 3" "length p' = 3"
    and eq: "compute_digest vl k p t = compute_digest vl k' p' t'"
  shows "(k = k' \<and> p = p' \<and> t = t') \<or> collide vl k k' \<or> (\<exists>i < 3. collide vl (p ! i) (p' ! i)) \<or>
    collide vl (encoded_struct vl k p t) (encoded_struct vl k' p' t') \<or>
    collide vl (encoded_message vl k p t) (encoded_message vl k' p' t')"
proof (rule ccontr)
  assume "\<not> ?thesis"
  then have no: "\<not> collide vl k k'" "\<forall>i < 3. \<not> collide vl (p ! i) (p' ! i)"
    "\<not> collide vl (encoded_struct vl k p t) (encoded_struct vl k' p' t')"
    "\<not> collide vl (encoded_message vl k p t) (encoded_message vl k' p' t')"
    and diff: "\<not> (k = k' \<and> p = p' \<and> t = t')"
    by auto
  from no(4) eq have "encoded_message vl k p t = encoded_message vl k' p' t'"
    by (simp add: collide_def compute_digest_def)
  with no(3) have "encoded_struct vl k p t = encoded_struct vl k' p' t'"
    by (simp add: collide_def encoded_message_def)
  then have hashes: "keccak256 vl k = keccak256 vl k'" "keccak256 vl (p ! 0) = keccak256 vl (p' ! 0)"
    "keccak256 vl (p ! 1) = keccak256 vl (p' ! 1)" "keccak256 vl (p ! 2) = keccak256 vl (p' ! 2)" "t = t'"
    using keccak by (simp_all add: encoded_struct_eq u256_be_bytes_def u64_be_bytes_inject)
  with no(1) have "k = k'" by (simp add: collide_def)
  moreover have "p ! i = p' ! i" if "i < 3" for i
  proof -
    have "i = 0 \<or> i = 1 \<or> i = 2" using that by linarith
    then show ?thesis using no(2) hashes(2-4) that by (auto simp: collide_def)
  qed
  then have "p = p'" using three by (intro nth_equalityI) simp_all
  ultimately show False using hashes(5) diff by blast
qed

section \<open>Concrete attestations\<close>

text \<open>Certificates are numbers, each signed and issued by the next; the document is the same for every input.\<close>

definition sample_pcr :: bytes where
  "sample_pcr = replicate 48 9"

definition sample_doc :: "cbor \<rightharpoonup> cbor" where
  "sample_doc =
     [CborText ''certificate'' \<mapsto> CborBytes [], CborText ''cabundle'' \<mapsto> CborArray [CborBytes [0, 0], CborBytes [0]],
      CborText ''pcrs'' \<mapsto> CborOther ''pcrs'', CborText ''timestamp'' \<mapsto> CborInteger 900,
      CborText ''public_key'' \<mapsto> CborBytes [7]]"

definition sample_lib :: "(bytes, nat, nat) attestation_lib" where
  "sample_lib =
     \<lparr>cose_from_bytes = Inr, cose_payload = Inr, cose_verify = (\<lambda>_ k. Inr (k = 0)),
      cbor_from_slice = (\<lambda>_. Inr (CborOther ''doc'')),
      cbor_as_map = (\<lambda>v. if v = CborOther ''pcrs'' then Inr (\<lambda>_. Some (CborBytes sample_pcr)) else Inr sample_doc),
      x509_from_der = (\<lambda>b. Inr (length b)), x509_from_pem = (\<lambda>_. Inr 2), x509_public_key = Inr,
      x509_verify = (\<lambda>c k. Inr (k = Suc c)), x509_issued = (\<lambda>i c. i = Suc c),
      x509_not_after = (\<lambda>_. 100), x509_not_before = (\<lambda>_. 0)\<rparr>"

definition sample_decoded :: attestation_decoded where
  "sample_decoded = \<lparr>pcrs = [sample_pcr, sample_pcr, sample_pcr], timestamp = 900, public_key = [7]\<rparr>"

lemma sample_document:
  "document_of sample_lib [1] [1] sample_doc" "document_fields sample_lib sample_doc sample_decoded"
  "document_signed sample_lib (\<lambda>_. Inr 50) [] [1] sample_doc"
proof -
  show "document_of sample_lib [1] [1] sample_doc" by (simp add: document_of_def sample_lib_def)
  show "document_fields sample_lib sample_doc sample_decoded"
    by (simp add: document_fields_def pcrs_field_def timestamp_field_def sample_lib_def sample_doc_def
        sample_decoded_def sample_pcr_def)
  have "list_all2 (\<lambda>v x. \<exists>b. v = CborBytes b \<and> x509_from_der sample_lib b = Inr x)
      (rev [CborBytes [0, 0], CborBytes [0]]) [1, 2]"
    by (simp add: sample_lib_def)
  moreover have "chain_valid sample_lib (\<lambda>_. Inr 50) [] (0 # [1, 2])"
    by (simp add: chain_valid_def link_valid_def sample_lib_def less_Suc_eq All_less_Suc2)
  ultimately show "document_signed sample_lib (\<lambda>_. Inr 50) [] [1] sample_doc"
    unfolding document_signed_def
    by (intro exI [of _ "[]"] exI [of _ 0] exI [of _ "[CborBytes [0, 0], CborBytes [0]]"] exI [of _ "[1, 2]"])
       (simp add: sample_doc_def sample_lib_def)
qed

lemma sample_authentic: "verify_and_decode_attestation sample_lib (\<lambda>_. Inr 50) [] [1] = Inr sample_decoded"
  unfolding verify_and_decode_Inr using sample_document by blast

theorem attestation_accepted_iff_witness:
  "verify sample_lib (\<lambda>_. Inr 50) [] 1000 [1] [sample_pcr, sample_pcr, sample_pcr] 200 = Inr [7]"
proof (rule attestation_accepted_iff [THEN iffD2])
  show "length [sample_pcr, sample_pcr, sample_pcr] = 3" by simp
  show "\<exists>cose doc d. document_of sample_lib [1] cose doc \<and> document_signed sample_lib (\<lambda>_. Inr 50) [] cose doc \<and>
       document_fields sample_lib doc d \<and> pcrs d = [sample_pcr, sample_pcr, sample_pcr] \<and> public_key d = [7] \<and>
       unat (1000 :: u64) + (if (200 :: u64) \<le> 1000 then 0 else 2 ^ 64) \<le> unat (timestamp d) + unat (200 :: u64)"
    using sample_document by (intro exI [of _ "[1]"] exI [of _ sample_doc] exI [of _ sample_decoded])
      (simp add: sample_decoded_def)
qed

definition sample_verifier :: "unit verifier_lib" where
  "sample_verifier =
     \<lparr>keccak256 = (\<lambda>b. take 32 (b @ replicate 32 0)), sign_recoverable = (\<lambda>_ d. (1, d)),
      hex_encode = map (\<lambda>_. CHR ''x''), hex_decode = (\<lambda>_. Inl ''odd length'')\<rparr>"

lemma sample_keccak: "\<forall>b. length (keccak256 sample_verifier b) = 32"
  by (simp add: sample_verifier_def min_def)

theorem verifier_signs_authentic_witness:
  "verify_raw sample_verifier sample_lib (\<lambda>_. Inr 50) [] () [] [1] =
     Inr (attested_response sample_verifier () [] sample_decoded)"
  using sample_authentic sample_keccak
  by (intro verifier_signs_authentic [THEN iffD2] exI [of _ sample_decoded]) (simp_all, simp add: sample_verifier_def)

lemma attestation_digest_binds_witness:
  "collide sample_verifier [1] [1, 0] \<or>
   (\<exists>i < 3. collide sample_verifier ([sample_pcr, sample_pcr, sample_pcr] ! i) ([sample_pcr, sample_pcr, sample_pcr] ! i))
   \<or> collide sample_verifier (encoded_struct sample_verifier [1] [sample_pcr, sample_pcr, sample_pcr] 5)
       (encoded_struct sample_verifier [1, 0] [sample_pcr, sample_pcr, sample_pcr] 5)
   \<or> collide sample_verifier (encoded_message sample_verifier [1] [sample_pcr, sample_pcr, sample_pcr] 5)
       (encoded_message sample_verifier [1, 0] [sample_pcr, sample_pcr, sample_pcr] 5)"
proof -
  have "keccak256 sample_verifier [1] = keccak256 sample_verifier [1, 0]"
    by (simp add: sample_verifier_def numeral_eq_Suc)
  then have "compute_digest sample_verifier [1] [sample_pcr, sample_pcr, sample_pcr] 5 =
      compute_digest sample_verifier [1, 0] [sample_pcr, sample_pcr, sample_pcr] 5"
    by (simp add: compute_digest_def encoded_message_def encoded_struct_def)
  with sample_keccak show ?thesis
    using attestation_digest_binds [of sample_verifier "[sample_pcr, sample_pcr, sample_pcr]"
        "[sample_pcr, sample_pcr, sample_pcr]" "[1]" 5 "[1, 0]" 5]
    by simp
qed

end
