(* ===== verification/Guest_Verifier.thy ===== *)
theory Guest_Verifier
  imports Oyster_Prelude "HOL-Library.Monad_Syntax"
begin

text \<open>
  The zero-knowledge verifier of attestations, from \<open>attestation/verifier-risczero/methods/guest/src/main.rs\<close>: the
  guest program reads an attestation, asserts its layout byte by byte, checks the certificates and the signature,
  and commits the fields to the journal of the proof.

  A failed assertion, an index out of range or an \<open>unwrap\<close> of an error panics: \<open>None\<close>, and there is no proof then,
  so that the journal counts only at the end. The certificate parser, P-384 and SHA-384 are parameters. An
  attestation that passes the check of its length is shorter than \<open>2^17\<close>, so the sums of offsets do not wrap in the
  32 bits of the guest's \<open>usize\<close>. Printing is not modelled.
\<close>

section \<open>Assertions and reads\<close>

record ('x, 'v, 'g) guest_lib =
  cert_from_der :: "bytes \<Rightarrow> 'x option"
  cert_not_before :: "'x \<Rightarrow> u64"
  cert_not_after :: "'x \<Rightarrow> u64"
  cert_public_key :: "'x \<Rightarrow> bytes"
  cert_signature :: "'x \<Rightarrow> bytes"
  signature_from_der :: "bytes \<Rightarrow> 'g option"
  signature_from_scalars :: "bytes \<Rightarrow> bytes \<Rightarrow> 'g option"
  key_from_sec1 :: "bytes \<Rightarrow> 'v option"
  key_verify :: "'v \<Rightarrow> bytes \<Rightarrow> 'g \<Rightarrow> bool"
  key_verify_prehash :: "'v \<Rightarrow> bytes \<Rightarrow> 'g \<Rightarrow> bool"
  sha384 :: "bytes \<Rightarrow> bytes"

definition ascii :: "string \<Rightarrow> bytes" where
  "ascii s = map (\<lambda>c. of_nat (of_char c)) s"

definition expect :: "bool \<Rightarrow> unit option" where
  "expect b = (if b then Some () else None)"

definition expect_byte :: "bytes \<Rightarrow> nat \<Rightarrow> u8 \<Rightarrow> unit option" where
  "expect_byte att i b = do { x \<leftarrow> vindex att i; expect (x = b) }"

definition expect_bytes :: "bytes \<Rightarrow> nat \<Rightarrow> bytes \<Rightarrow> unit option" where
  "expect_bytes att i bs = do { d \<leftarrow> vslice att i (i + length bs); expect (d = bs) }"

definition read_be16 :: "bytes \<Rightarrow> nat \<Rightarrow> nat option" where
  "read_be16 att i = do { h \<leftarrow> vindex att i; l \<leftarrow> vindex att (i + 1); Some (unat (u16_from_be_bytes h l)) }"

definition u64_from_be_bytes :: "bytes \<Rightarrow> u64" where
  "u64_from_be_bytes bs = foldl (\<lambda>a b. push_bit 8 a OR ucast b) 0 bs"

section \<open>The document\<close>

text \<open>The initial fields: the size of the payload.\<close>

definition cose_header :: bytes where
  "cose_header = [0x84, 0x44, 0xa1, 0x01, 0x38, 0x22, 0xa0, 0x59]"

definition read_header :: "bytes \<Rightarrow> nat option" where
  "read_header att = do {
     expect_bytes att 0 cose_header;
     payload_size \<leftarrow> read_be16 att 8;
     expect (length att = 10 + payload_size + 98);
     Some payload_size }"

text \<open>Up to the PCRs: the timestamp, and the offset after it.\<close>

definition read_timestamp :: "bytes \<Rightarrow> (nat \<times> bytes) option" where
  "read_timestamp att = do {
     expect_bytes att 10 [0xa9, 0x69];
     expect_byte att 21 0x78;
     n \<leftarrow> vindex att 22;
     let offset = 23 + unat n;
     expect_byte att offset 0x66;
     expect_byte att (offset + 7) 0x66;
     expect_byte att (offset + 14) 0x69;
     expect_bytes att (offset + 15) (ascii ''timestamp'');
     expect_byte att (offset + 24) 0x1b;
     ts \<leftarrow> vslice att (offset + 25) (offset + 33);
     expect_byte att (offset + 33) 0x64;
     expect_bytes att (offset + 34) (ascii ''pcrs'');
     expect_byte att (offset + 38) 0xb0;
     Some (offset + 39, ts) }"

definition read_pcr :: "bytes \<Rightarrow> nat \<Rightarrow> u8 \<Rightarrow> bytes option" where
  "read_pcr att offset i = do {
     expect_bytes att offset [i, 0x58, 0x30];
     vslice att (offset + 3) (offset + 51) }"

fun skip_pcrs :: "bytes \<Rightarrow> nat \<Rightarrow> u8 list \<Rightarrow> nat option" where
  "skip_pcrs att offset [] = Some offset"
| "skip_pcrs att offset (i # is) = do { expect_bytes att offset [i, 0x58, 0x30]; skip_pcrs att (offset + 51) is }"

definition read_pcrs :: "bytes \<Rightarrow> nat \<Rightarrow> (nat \<times> bytes list) option" where
  "read_pcrs att offset = do {
     p0 \<leftarrow> read_pcr att offset 0;
     p1 \<leftarrow> read_pcr att (offset + 51) 1;
     p2 \<leftarrow> read_pcr att (offset + 102) 2;
     offset \<leftarrow> skip_pcrs att (offset + 153) [3, 4, 5, 6, 7, 8, 9, 10, 11, 12, 13, 14, 15];
     Some (offset, [p0, p1, p2]) }"

text \<open>A byte string with two bytes of length, parsed as a certificate.\<close>

definition read_cert :: "('x, 'v, 'g) guest_lib \<Rightarrow> bytes \<Rightarrow> nat \<Rightarrow> (nat \<times> 'x) option" where
  "read_cert lib att offset = do {
     expect_byte att offset 0x59;
     size \<leftarrow> read_be16 att (offset + 1);
     der \<leftarrow> vslice att (offset + 3) (offset + 3 + size);
     cert \<leftarrow> cert_from_der lib der;
     Some (offset + 3 + size, cert) }"

definition expect_validity :: "('x, 'v, 'g) guest_lib \<Rightarrow> u64 \<Rightarrow> 'x \<Rightarrow> unit option" where
  "expect_validity lib ts cert = do {
     expect (cert_not_before lib cert < ts);
     expect (cert_not_after lib cert > ts) }"

definition read_leaf :: "('x, 'v, 'g) guest_lib \<Rightarrow> bytes \<Rightarrow> nat \<Rightarrow> (nat \<times> 'x) option" where
  "read_leaf lib att offset = do {
     expect_byte att offset 0x6b;
     expect_bytes att (offset + 1) (ascii ''certificate'');
     read_cert lib att (offset + 12) }"

definition read_chain_size :: "bytes \<Rightarrow> nat \<Rightarrow> (nat \<times> nat) option" where
  "read_chain_size att offset = do {
     expect_byte att offset 0x68;
     expect_bytes att (offset + 1) (ascii ''cabundle'');
     n \<leftarrow> vindex att (offset + 9);
     expect (n > 0x80 \<and> n \<le> 0x90);
     Some (offset + 10, unat (n - 0x80)) }"

section \<open>Certificates\<close>

text \<open>The signature of the certificate whose DER is at \<open>offset\<close>, by the key of another.\<close>

definition expect_signed :: "('x, 'v, 'g) guest_lib \<Rightarrow> bytes \<Rightarrow> nat \<Rightarrow> 'x \<Rightarrow> 'x \<Rightarrow> unit option" where
  "expect_signed lib att offset parent cert = do {
     expect_byte att offset 0x30;
     expect_byte att (offset + 1) 0x82;
     expect_byte att (offset + 4) 0x30;
     expect_byte att (offset + 5) 0x82;
     cert_size \<leftarrow> read_be16 att (offset + 6);
     msg \<leftarrow> vslice att (offset + 4) (offset + 8 + cert_size);
     sig \<leftarrow> signature_from_der lib (cert_signature lib cert);
     vkey \<leftarrow> key_from_sec1 lib (cert_public_key lib parent);
     expect (key_verify lib vkey msg sig) }"

definition read_root :: "('x, 'v, 'g) guest_lib \<Rightarrow> bytes \<Rightarrow> u64 \<Rightarrow> nat \<Rightarrow> (nat \<times> 'x \<times> bytes) option" where
  "read_root lib att ts offset = do {
     (next_offset, cert) \<leftarrow> read_cert lib att offset;
     expect_validity lib ts cert;
     let pubkey = cert_public_key lib cert;
     expect (length pubkey = 97);
     expect (pubkey ! 0 = 0x04);
     Some (next_offset, cert, drop 1 pubkey) }"

fun verify_children ::
  "('x, 'v, 'g) guest_lib \<Rightarrow> bytes \<Rightarrow> u64 \<Rightarrow> nat \<Rightarrow> 'x \<Rightarrow> nat \<Rightarrow> (nat \<times> 'x) option"
where
  "verify_children lib att ts 0 parent offset = Some (offset, parent)"
| "verify_children lib att ts (Suc n) parent offset = do {
     (next_offset, child) \<leftarrow> read_cert lib att offset;
     expect_validity lib ts child;
     expect_signed lib att (offset + 3) parent child;
     verify_children lib att ts n child next_offset }"

definition verify_leaf :: "('x, 'v, 'g) guest_lib \<Rightarrow> bytes \<Rightarrow> u64 \<Rightarrow> 'x \<Rightarrow> nat \<Rightarrow> 'x \<Rightarrow> unit option" where
  "verify_leaf lib att ts parent leaf_offset leaf = do {
     expect_validity lib ts leaf;
     expect_signed lib att leaf_offset parent leaf }"

section \<open>Key, user data, signature\<close>

definition read_public_key :: "bytes \<Rightarrow> nat \<Rightarrow> (nat \<times> bytes) option" where
  "read_public_key att offset = do {
     expect_byte att offset 0x6a;
     expect_bytes att (offset + 1) (ascii ''public_key'');
     expect_byte att (offset + 11) 0x58;
     n \<leftarrow> vindex att (offset + 12);
     key \<leftarrow> vslice att (offset + 13) (offset + 13 + unat n);
     Some (offset + 13 + unat n, key) }"

definition read_user_data :: "bytes \<Rightarrow> nat \<Rightarrow> (u16 \<times> bytes) option" where
  "read_user_data att offset = do {
     expect_byte att offset 0x69;
     expect_bytes att (offset + 1) (ascii ''user_data'');
     tag \<leftarrow> vindex att (offset + 10);
     (if tag = 0xf6 then Some (0, [])
      else if tag = 0x58 then do {
        size \<leftarrow> vindex att (offset + 11);
        d \<leftarrow> vslice att (offset + 12) (offset + 12 + unat size);
        Some (ucast size, d) }
      else do {
        expect (tag = 0x59);
        size \<leftarrow> read_be16 att (offset + 11);
        d \<leftarrow> vslice att (offset + 13) (offset + 13 + size);
        Some (of_nat size, d) }) }"

definition verify_cose :: "('x, 'v, 'g) guest_lib \<Rightarrow> bytes \<Rightarrow> nat \<Rightarrow> 'x \<Rightarrow> unit option" where
  "verify_cose lib att payload_size leaf = do {
     h \<leftarrow> vindex att 8;
     l \<leftarrow> vindex att 9;
     payload \<leftarrow> vslice att 10 (10 + payload_size);
     let hash = sha384 lib ([0x84] @ [0x6a] @ ascii ''Signature1'' @ [0x44, 0xa1, 0x01, 0x38, 0x22] @ [0x40] @
                            [0x59, h, l] @ payload);
     expect_byte att (payload_size + 10) 0x58;
     expect_byte att (payload_size + 11) 0x60;
     vkey \<leftarrow> key_from_sec1 lib (cert_public_key lib leaf);
     r \<leftarrow> vslice att (12 + payload_size) (60 + payload_size);
     s \<leftarrow> vslice att (60 + payload_size) (108 + payload_size);
     sig \<leftarrow> signature_from_scalars lib r s;
     expect (key_verify_prehash lib vkey hash sig) }"

text \<open>The program: the journal.\<close>

definition guest_main :: "('x, 'v, 'g) guest_lib \<Rightarrow> bytes \<Rightarrow> bytes option" where
  "guest_main lib att = do {
     payload_size \<leftarrow> read_header att;
     (offset, ts) \<leftarrow> read_timestamp att;
     let timestamp = u64_from_be_bytes ts div 1000;
     (offset, pcrs) \<leftarrow> read_pcrs att offset;
     let leaf_cert_offset = offset + 15;
     (offset, leaf) \<leftarrow> read_leaf lib att offset;
     (offset, chain_size) \<leftarrow> read_chain_size att offset;
     (offset, root, root_key) \<leftarrow> read_root lib att timestamp offset;
     (offset, parent) \<leftarrow> verify_children lib att timestamp (chain_size - 1) root offset;
     verify_leaf lib att timestamp parent leaf_cert_offset leaf;
     (offset, key) \<leftarrow> read_public_key att offset;
     (size, data) \<leftarrow> read_user_data att offset;
     verify_cose lib att payload_size leaf;
     Some (ts @ concat pcrs @ root_key @ [of_nat (length key)] @ key @ u16_to_be_bytes size @ data) }"

section \<open>Layout of an accepted document\<close>

text \<open>
  The reads of the guest, restated as a grammar: \<open>bytes_at att i x\<close> says that the bytes \<open>x\<close> are found at \<open>i\<close>.
\<close>

definition bytes_at :: "bytes \<Rightarrow> nat \<Rightarrow> bytes \<Rightarrow> bool" where
  "bytes_at att i x \<longleftrightarrow> vslice att i (i + length x) = Some x"

definition be16 :: "nat \<Rightarrow> bytes" where
  "be16 n = u16_to_be_bytes (of_nat n)"

named_theorems read_simps \<open>reads that succeed, as occurrences of bytes\<close>

lemma bytes_at_iff: "bytes_at att i x \<longleftrightarrow> (\<exists>ys zs. att = ys @ x @ zs \<and> length ys = i)"
proof
  assume "bytes_at att i x"
  then have le: "i + length x \<le> length att" and x: "take (length x) (drop i att) = x"
    by (auto simp: bytes_at_def vslice_def split: if_splits)
  have "att = take i att @ take (length x) (drop i att) @ drop (length x) (drop i att)"
    by (simp only: append_take_drop_id)
  with x le have "att = take i att @ x @ drop (length x) (drop i att) \<and> length (take i att) = i" by simp
  then show "\<exists>ys zs. att = ys @ x @ zs \<and> length ys = i" by blast
next
  assume "\<exists>ys zs. att = ys @ x @ zs \<and> length ys = i"
  then show "bytes_at att i x" by (auto simp: bytes_at_def vslice_def)
qed

lemma bytes_at_append [read_simps]:
  "bytes_at att i (x @ y) \<longleftrightarrow> bytes_at att i x \<and> bytes_at att (i + length x) y"
proof
  assume "bytes_at att i (x @ y)"
  then obtain ys zs where att: "att = ys @ (x @ y) @ zs" and i: "length ys = i" by (auto simp: bytes_at_iff)
  from att i have "att = ys @ x @ (y @ zs) \<and> length ys = i" by simp
  then have "bytes_at att i x" unfolding bytes_at_iff by blast
  moreover from att i have "att = (ys @ x) @ y @ zs \<and> length (ys @ x) = i + length x" by simp
  then have "bytes_at att (i + length x) y" unfolding bytes_at_iff by blast
  ultimately show "bytes_at att i x \<and> bytes_at att (i + length x) y" ..
next
  assume a: "bytes_at att i x \<and> bytes_at att (i + length x) y"
  then obtain ys zs ys' zs' where 1: "att = ys @ x @ zs" "length ys = i"
    and 2: "att = ys' @ y @ zs'" "length ys' = i + length x" unfolding bytes_at_iff by blast
  have "ys' = take (i + length x) att" using 2 by simp
  also have "\<dots> = ys @ x" using 1 by simp
  finally have "att = ys @ (x @ y) @ zs'" using 2 by simp
  then show "bytes_at att i (x @ y)" using 1(2) unfolding bytes_at_iff by blast
qed

lemma bytes_at_Nil: "bytes_at att i [] \<longleftrightarrow> i \<le> length att"
  by (auto simp: bytes_at_def vslice_def)

lemma bytes_at_le: "bytes_at att i x \<Longrightarrow> i + length x \<le> length att"
  by (auto simp: bytes_at_iff)

lemma bytes_at_Cons:
  "bytes_at att i (b # c # x) \<longleftrightarrow> bytes_at att i [b] \<and> bytes_at att (i + 1) (c # x)"
  using bytes_at_append [of att i "[b]" "c # x"] by simp

lemma bytes_at_unique: "bytes_at att i x \<Longrightarrow> bytes_at att i y \<Longrightarrow> length x = length y \<Longrightarrow> x = y"
  by (simp add: bytes_at_def)

lemma bytes_exist: "i + n \<le> length att \<Longrightarrow> \<exists>x. length x = n \<and> bytes_at att i x"
  by (rule exI [of _ "take n (drop i att)"]) (simp add: bytes_at_def vslice_def)

lemma vslice_eq [read_simps]: "vslice att i j = Some x \<longleftrightarrow> j = i + length x \<and> bytes_at att i x"
  by (auto simp: bytes_at_def vslice_def)

lemma vindex_eq [read_simps]: "vindex att i = Some b \<longleftrightarrow> bytes_at att i [b]"
  by (auto simp: bytes_at_def vslice_def vindex_def take_Suc_conv_app_nth hd_drop_conv_nth take_Suc)

lemma expect_eq [read_simps]: "expect b = Some u \<longleftrightarrow> b"
  by (simp add: expect_def)

lemma expect_byte_eq [read_simps]: "expect_byte att i b = Some u \<longleftrightarrow> bytes_at att i [b]"
  by (auto simp: expect_byte_def bind_eq_Some_conv read_simps)

lemma expect_bytes_eq [read_simps]: "expect_bytes att i bs = Some u \<longleftrightarrow> bytes_at att i bs"
  by (auto simp: expect_bytes_def bind_eq_Some_conv read_simps)

lemma u16_bytes_inverse: "u16_to_be_bytes (u16_from_be_bytes h l) = [h, l]"
  unfolding u16_to_be_bytes_def u16_from_be_bytes_def list.inject
  by (intro conjI refl bit_word_eqI) (auto simp: bit_simps dest: bit_imp_le_length)

lemma length_be16 [simp]: "length (be16 n) = 2"
  by (simp add: be16_def)

lemma read_be16_eq [read_simps]: "read_be16 att i = Some n \<longleftrightarrow> n < 65536 \<and> bytes_at att i (be16 n)"
proof
  assume "read_be16 att i = Some n"
  then obtain h l where at: "bytes_at att i [h]" "bytes_at att (i + 1) [l]" and n: "n = unat (u16_from_be_bytes h l)"
    by (auto simp: read_be16_def bind_eq_Some_conv read_simps)
  from n have "be16 n = [h, l]" by (simp add: be16_def u16_bytes_inverse)
  with at have "bytes_at att i (be16 n)" by (simp add: bytes_at_Cons [of att i h l "[]"])
  moreover have "unat (u16_from_be_bytes h l) < 2 ^ LENGTH(16)" by (rule unsigned_less)
  then have "n < 65536" by (simp add: n)
  ultimately show "n < 65536 \<and> bytes_at att i (be16 n)" by simp
next
  assume a: "n < 65536 \<and> bytes_at att i (be16 n)"
  define w where "w = (of_nat n :: u16)"
  from a have "unat w = n" by (simp add: w_def unat_of_nat)
  moreover from a have "bytes_at att i [ucast (drop_bit 8 w)]" "bytes_at att (i + 1) [ucast w]"
    by (simp_all add: be16_def u16_to_be_bytes_def bytes_at_Cons w_def)
  then have "vindex att i = Some (ucast (drop_bit 8 w))" "vindex att (i + 1) = Some (ucast w)"
    by (simp_all add: vindex_eq)
  ultimately show "read_be16 att i = Some n"
    by (simp add: read_be16_def u16_be_roundtrip)
qed

text \<open>The same facts as rules that run a parser over the bytes it is known to find.\<close>

named_theorems run_simps \<open>the value of a read where the bytes are known\<close>

lemma run_vindex [run_simps]: "bytes_at att i [b] \<Longrightarrow> vindex att i = Some b"
  by (simp add: vindex_eq)

lemma run_vslice [run_simps]: "bytes_at att i x \<Longrightarrow> j = i + length x \<Longrightarrow> vslice att i j = Some x"
  by (simp add: vslice_eq)

lemma run_expect_byte [run_simps]: "bytes_at att i [b] \<Longrightarrow> expect_byte att i b = Some ()"
  by (simp add: expect_byte_eq)

lemma run_expect_bytes [run_simps]: "bytes_at att i bs \<Longrightarrow> expect_bytes att i bs = Some ()"
  by (simp add: expect_bytes_eq)

lemma run_read_be16 [run_simps]: "bytes_at att i (be16 n) \<Longrightarrow> n < 65536 \<Longrightarrow> read_be16 att i = Some n"
  by (simp add: read_be16_eq)

lemma unat_byte [run_simps]: "n < 256 \<Longrightarrow> unat (of_nat n :: u8) = n"
  by (simp add: unat_of_nat)

lemma byte_less: "unat (b :: u8) < 256"
proof -
  have "unat b < 2 ^ LENGTH(8)" by (rule unsigned_less)
  then show ?thesis by simp
qed

text \<open>What an attestation carries, with the fields the guest skips.\<close>

datatype user_data_field = No_Data | Short_Data bytes | Long_Data bytes

record guest_doc =
  gd_module_key :: bytes
  gd_module :: bytes
  gd_digest_key :: bytes
  gd_digest :: bytes
  gd_timestamp :: bytes
  gd_pcrs :: "bytes list"
  gd_leaf :: bytes
  gd_chain :: "bytes list"
  gd_public_key :: bytes
  gd_user_data :: user_data_field

definition ts_bytes :: "bytes \<Rightarrow> bytes \<Rightarrow> bytes \<Rightarrow> bytes \<Rightarrow> bytes \<Rightarrow> bytes" where
  "ts_bytes mkey m dkey dg ts =
     [0xa9, 0x69] @ mkey @ [0x78] @ [of_nat (length m)] @ m @ [0x66] @ dkey @ [0x66] @ dg @
     [0x69] @ ascii ''timestamp'' @ [0x1b] @ ts @ [0x64] @ ascii ''pcrs'' @ [0xb0]"

definition pcr_bytes :: "u8 \<Rightarrow> bytes \<Rightarrow> bytes" where
  "pcr_bytes i v = [i, 0x58, 0x30] @ v"

fun pcrs_bytes :: "u8 \<Rightarrow> bytes list \<Rightarrow> bytes" where
  "pcrs_bytes i [] = []"
| "pcrs_bytes i (v # vs) = pcr_bytes i v @ pcrs_bytes (i + 1) vs"

definition der_bytes :: "bytes \<Rightarrow> bytes" where
  "der_bytes d = [0x59] @ be16 (length d) @ d"

definition leaf_bytes :: "bytes \<Rightarrow> bytes" where
  "leaf_bytes d = [0x6b] @ ascii ''certificate'' @ der_bytes d"

definition chain_bytes :: "bytes list \<Rightarrow> bytes" where
  "chain_bytes ds = ([0x68] @ ascii ''cabundle'' @ [0x80 + of_nat (length ds)]) @ concat (map der_bytes ds)"

definition key_bytes :: "bytes \<Rightarrow> bytes" where
  "key_bytes k = [0x6a] @ ascii ''public_key'' @ [0x58] @ [of_nat (length k)] @ k"

fun field_bytes :: "user_data_field \<Rightarrow> bytes" where
  "field_bytes No_Data = [0xf6]"
| "field_bytes (Short_Data d) = [0x58] @ [of_nat (length d)] @ d"
| "field_bytes (Long_Data d) = [0x59] @ be16 (length d) @ d"

fun field_data :: "user_data_field \<Rightarrow> bytes" where
  "field_data No_Data = []"
| "field_data (Short_Data d) = d"
| "field_data (Long_Data d) = d"

fun field_wf :: "user_data_field \<Rightarrow> bool" where
  "field_wf No_Data = True"
| "field_wf (Short_Data d) = (length d < 256)"
| "field_wf (Long_Data d) = (length d < 65536)"

definition user_data_bytes :: "user_data_field \<Rightarrow> bytes" where
  "user_data_bytes f = [0x69] @ ascii ''user_data'' @ field_bytes f"

definition doc_bytes :: "guest_doc \<Rightarrow> bytes" where
  "doc_bytes d =
     ts_bytes (gd_module_key d) (gd_module d) (gd_digest_key d) (gd_digest d) (gd_timestamp d) @
     pcrs_bytes 0 (gd_pcrs d) @ leaf_bytes (gd_leaf d) @ chain_bytes (gd_chain d) @
     key_bytes (gd_public_key d) @ user_data_bytes (gd_user_data d)"

definition doc_wf :: "guest_doc \<Rightarrow> bool" where
  "doc_wf d \<longleftrightarrow>
     length (gd_module_key d) = 9 \<and> length (gd_module d) < 256 \<and> length (gd_digest_key d) = 6 \<and>
     length (gd_digest d) = 6 \<and> length (gd_timestamp d) = 8 \<and>
     length (gd_pcrs d) = 16 \<and> (\<forall>v \<in> set (gd_pcrs d). length v = 48) \<and>
     length (gd_leaf d) < 65536 \<and> 0 < length (gd_chain d) \<and> length (gd_chain d) \<le> 16 \<and>
     (\<forall>c \<in> set (gd_chain d). length c < 65536) \<and> length (gd_public_key d) < 256 \<and> field_wf (gd_user_data d)"

section \<open>Each section of the guest reads its part of the grammar\<close>

lemma length_ascii [simp]: "length (ascii s) = length s"
  by (simp add: ascii_def)

lemma read_header_eq:
  "read_header att = Some n \<longleftrightarrow>
     n < 65536 \<and> bytes_at att 0 (cose_header @ be16 n) \<and> length att = 10 + n + 98"
proof -
  have "length cose_header = 8" by (simp add: cose_header_def)
  then show ?thesis
    by (auto simp: read_header_def bind_eq_Some_conv read_simps)
qed

lemma read_timestamp_eq:
  "read_timestamp att = Some (off, ts) \<longleftrightarrow>
     (\<exists>mkey m dkey dg. length mkey = 9 \<and> length m < 256 \<and> length dkey = 6 \<and> length dg = 6 \<and> length ts = 8 \<and>
        bytes_at att 10 (ts_bytes mkey m dkey dg ts) \<and> off = 10 + length (ts_bytes mkey m dkey dg ts))"
    (is "?l \<longleftrightarrow> ?r")
proof
  assume ?l
  then obtain b where b: "bytes_at att 22 [b]"
    and r: "bytes_at att 10 [0xa9, 0x69]" "bytes_at att 21 [0x78]"
      "bytes_at att (23 + unat b) [0x66]" "bytes_at att (23 + unat b + 7) [0x66]"
      "bytes_at att (23 + unat b + 14) [0x69]" "bytes_at att (23 + unat b + 15) (ascii ''timestamp'')"
      "bytes_at att (23 + unat b + 24) [0x1b]" "bytes_at att (23 + unat b + 25) ts" "length ts = 8"
      "bytes_at att (23 + unat b + 33) [0x64]" "bytes_at att (23 + unat b + 34) (ascii ''pcrs'')"
      "bytes_at att (23 + unat b + 38) [0xb0]" "off = 23 + unat b + 39"
    by (auto simp: read_timestamp_def bind_eq_Some_conv read_simps Let_def)
  have le: "23 + unat b + 39 \<le> length att" using bytes_at_le [OF r(12)] by simp
  from bytes_exist [of 12 9 att] le obtain mkey where mkey: "length mkey = 9" "bytes_at att 12 mkey" by auto
  from bytes_exist [of 23 "unat b" att] le obtain m where m: "length m = unat b" "bytes_at att 23 m" by auto
  from bytes_exist [of "23 + unat b + 1" 6 att] le obtain dkey where
    dkey: "length dkey = 6" "bytes_at att (23 + unat b + 1) dkey" by auto
  from bytes_exist [of "23 + unat b + 8" 6 att] le obtain dg where
    dg: "length dg = 6" "bytes_at att (23 + unat b + 8) dg" by auto
  have "bytes_at att 10 (ts_bytes mkey m dkey dg ts)"
    using r b mkey m dkey dg unfolding ts_bytes_def bytes_at_append
    by (simp add: add.commute add.left_commute)
  with r mkey m dkey dg show ?r by (intro exI [of _ mkey] exI [of _ m] exI [of _ dkey] exI [of _ dg])
      (simp add: ts_bytes_def byte_less)
next
  assume ?r
  then obtain mkey m dkey dg where len: "length mkey = 9" "length m < 256" "length dkey = 6" "length dg = 6" "length ts = 8"
    and at: "bytes_at att 10 (ts_bytes mkey m dkey dg ts)" and off: "off = 10 + length (ts_bytes mkey m dkey dg ts)" by blast
  from at len show ?l unfolding off ts_bytes_def bytes_at_append
    by - (elim conjE, simp add: read_timestamp_def run_simps Let_def add.commute add.left_commute)
qed

lemma ex_Cons: "\<not> Q [] \<Longrightarrow> (\<exists>v vs. Q (v # vs)) \<longleftrightarrow> (\<exists>vs. Q vs)"
  by (metis list.exhaust)

lemma length_pcr_bytes [simp]: "length (pcr_bytes i v) = 3 + length v"
  by (simp add: pcr_bytes_def)

lemma at_pcr_bytes:
  "bytes_at att off (pcr_bytes i v) \<longleftrightarrow> bytes_at att off [i, 0x58, 0x30] \<and> bytes_at att (off + 3) v"
  using bytes_at_append [of att off "[i, 0x58, 0x30]" v] by (simp add: pcr_bytes_def numeral_3_eq_3)

lemma length_pcrs_bytes: "\<forall>v \<in> set vs. length v = 48 \<Longrightarrow> length (pcrs_bytes i vs) = 51 * length vs"
  by (induction vs arbitrary: i) auto

lemma skip_pcrs_eq:
  "off' \<le> length att \<Longrightarrow>
     skip_pcrs att off (map of_nat [i ..< i + n]) = Some off' \<longleftrightarrow>
     (\<exists>vs. length vs = n \<and> (\<forall>v \<in> set vs. length v = 48) \<and> bytes_at att off (pcrs_bytes (of_nat i) vs) \<and>
        off' = off + 51 * n)"
proof (induction n arbitrary: i off)
  case 0
  then show ?case by (auto simp: bytes_at_Nil)
next
  case (Suc n)
  have range: "[i ..< i + Suc n] = i # [Suc i ..< Suc i + n]"
    using upt_rec [of i "i + Suc n"] by simp
  let ?tail = "\<lambda>vs. length vs = n \<and> (\<forall>v \<in> set vs. length v = 48) \<and>
        bytes_at att (off + 51) (pcrs_bytes (of_nat (Suc i)) vs) \<and> off' = off + 51 + 51 * n"
  have "skip_pcrs att off (map of_nat [i ..< i + Suc n]) = Some off' \<longleftrightarrow>
        bytes_at att off [of_nat i, 0x58, 0x30] \<and> (\<exists>vs. ?tail vs)"
    unfolding range using Suc.IH [OF Suc.prems, of "off + 51" "Suc i"]
    by (simp add: bind_eq_Some_conv read_simps)
  also have "\<dots> \<longleftrightarrow> (\<exists>v vs. length v = 48 \<and> bytes_at att off (pcr_bytes (of_nat i) v) \<and> ?tail vs)"
  proof
    assume a: "bytes_at att off [of_nat i, 0x58, 0x30] \<and> (\<exists>vs. ?tail vs)"
    with Suc.prems have "off + 3 + 48 \<le> length att" by auto
    then obtain v where "length v = 48" "bytes_at att (off + 3) v" using bytes_exist by blast
    moreover with a have "bytes_at att off (pcr_bytes (of_nat i) v)"
      by (simp add: at_pcr_bytes)
    ultimately show "\<exists>v vs. length v = 48 \<and> bytes_at att off (pcr_bytes (of_nat i) v) \<and> ?tail vs" using a by blast
  next
    assume "\<exists>v vs. length v = 48 \<and> bytes_at att off (pcr_bytes (of_nat i) v) \<and> ?tail vs"
    then show "bytes_at att off [of_nat i, 0x58, 0x30] \<and> (\<exists>vs. ?tail vs)"
      by (auto simp: at_pcr_bytes)
  qed
  also have "\<dots> \<longleftrightarrow> (\<exists>v vs. length (v # vs) = Suc n \<and> (\<forall>v \<in> set (v # vs). length v = 48) \<and>
      bytes_at att off (pcrs_bytes (of_nat i) (v # vs)) \<and> off' = off + 51 * Suc n)"
  proof -
    have "length v = 48 \<Longrightarrow> bytes_at att off (pcrs_bytes (of_nat i) (v # vs)) \<longleftrightarrow>
        bytes_at att off (pcr_bytes (of_nat i) v) \<and> bytes_at att (off + 51) (pcrs_bytes (of_nat (Suc i)) vs)" for v vs
      by (simp add: bytes_at_append add.commute)
    then show ?thesis by (auto simp: algebra_simps)
  qed
  also have "\<dots> \<longleftrightarrow> (\<exists>vs. length vs = Suc n \<and> (\<forall>v \<in> set vs. length v = 48) \<and>
      bytes_at att off (pcrs_bytes (of_nat i) vs) \<and> off' = off + 51 * Suc n)"
    by (rule ex_Cons) simp
  finally show ?case .
qed

lemma skipped_pcrs: "[3, 4, 5, 6, 7, 8, 9, 10, 11, 12, 13, 14, 15] = (map of_nat [3 ..< 3 + 13] :: u8 list)"
  by (simp add: upt_rec)

lemma read_pcr_eq:
  "read_pcr att off i = Some v \<longleftrightarrow> length v = 48 \<and> bytes_at att off (pcr_bytes i v)"
  by (auto simp: read_pcr_def bind_eq_Some_conv read_simps at_pcr_bytes)

lemma read_pcrs_eq:
  assumes "off' \<le> length att"
  shows "read_pcrs att off = Some (off', ps) \<longleftrightarrow>
    (\<exists>vs. length vs = 16 \<and> (\<forall>v \<in> set vs. length v = 48) \<and> bytes_at att off (pcrs_bytes 0 vs) \<and>
       off' = off + length (pcrs_bytes 0 vs) \<and> ps = take 3 vs)" (is "?l \<longleftrightarrow> ?r")
proof
  assume ?l
  then obtain p0 p1 p2 where p: "ps = [p0, p1, p2]" "length p0 = 48" "length p1 = 48" "length p2 = 48"
      "bytes_at att off (pcr_bytes 0 p0)" "bytes_at att (off + 51) (pcr_bytes 1 p1)"
      "bytes_at att (off + 102) (pcr_bytes 2 p2)"
    and skip: "skip_pcrs att (off + 153) (map of_nat [3 ..< 3 + 13]) = Some off'"
    by (auto simp only: read_pcrs_def bind_eq_Some_conv read_pcr_eq skipped_pcrs option.inject prod.inject)
  from skip obtain vs where vs: "length vs = 13" "\<forall>v \<in> set vs. length v = 48"
      "bytes_at att (off + 153) (pcrs_bytes 3 vs)" "off' = off + 153 + 51 * 13"
    unfolding skip_pcrs_eq [OF assms] by auto
  have "bytes_at att off (pcrs_bytes 0 (p0 # p1 # p2 # vs))"
    using p vs by (simp add: bytes_at_append add.commute)
  moreover have "length (pcrs_bytes 0 (p0 # p1 # p2 # vs)) = 51 * 16"
    using p vs by (subst length_pcrs_bytes) auto
  ultimately show ?r using p vs by (intro exI [of _ "p0 # p1 # p2 # vs"]) auto
next
  assume ?r
  then obtain vs where vs: "length vs = 16" "\<forall>v \<in> set vs. length v = 48" "bytes_at att off (pcrs_bytes 0 vs)"
    and off': "off' = off + length (pcrs_bytes 0 vs)" and ps: "ps = take 3 vs" by blast
  from vs(1) obtain p0 p1 p2 ws where ws: "vs = p0 # p1 # p2 # ws" "length ws = 13"
    by (auto simp: numeral_eq_Suc length_Suc_conv)
  from vs ws have p: "length p0 = 48" "length p1 = 48" "length p2 = 48" "\<forall>v \<in> set ws. length v = 48" by auto
  from vs(3) p have at: "bytes_at att off (pcr_bytes 0 p0)" "bytes_at att (off + 51) (pcr_bytes 1 p1)"
      "bytes_at att (off + 102) (pcr_bytes 2 p2)" "bytes_at att (off + 153) (pcrs_bytes 3 ws)"
    unfolding ws by (simp_all add: bytes_at_append add.commute)
  have "off' = off + 153 + 51 * 13" using vs off' by (simp add: length_pcrs_bytes)
  with at p ws have "skip_pcrs att (off + 153) (map of_nat [3 ..< 3 + 13]) = Some off'"
    unfolding skip_pcrs_eq [OF assms] by auto
  moreover from at p have "read_pcr att off 0 = Some p0" "read_pcr att (off + 51) 1 = Some p1"
      "read_pcr att (off + 102) 2 = Some p2" by (simp_all only: read_pcr_eq)
  moreover have "ps = [p0, p1, p2]" by (simp add: ps ws numeral_3_eq_3)
  ultimately show ?l by (simp only: read_pcrs_def skipped_pcrs bind.bind_lunit)
qed

subsection \<open>Certificates\<close>

text \<open>The signed part of a certificate, and what it means to be signed, on the DER alone.\<close>

definition tbs_of :: "bytes \<Rightarrow> bytes option" where
  "tbs_of d = do {
     expect_bytes d 0 [0x30, 0x82];
     expect_bytes d 4 [0x30, 0x82];
     size \<leftarrow> read_be16 d 6;
     vslice d 4 (8 + size) }"

definition signed_by :: "('x, 'v, 'g) guest_lib \<Rightarrow> 'x \<Rightarrow> bytes \<Rightarrow> 'x \<Rightarrow> unit option" where
  "signed_by lib parent d cert = do {
     msg \<leftarrow> tbs_of d;
     sig \<leftarrow> signature_from_der lib (cert_signature lib cert);
     vkey \<leftarrow> key_from_sec1 lib (cert_public_key lib parent);
     expect (key_verify lib vkey msg sig) }"

text \<open>
  A certificate that the DER parser accepts is a sequence of three elements, so it has more than eight bytes and the
  first element, with a length of two bytes, ends inside it.
\<close>

definition der_contract :: "('x, 'v, 'g) guest_lib \<Rightarrow> bool" where
  "der_contract lib \<longleftrightarrow> (\<forall>d. cert_from_der lib d \<noteq> None \<longrightarrow> 8 \<le> length d \<and>
     (take 2 d = [0x30, 0x82] \<and> take 2 (drop 4 d) = [0x30, 0x82] \<longrightarrow>
        8 + unat (u16_from_be_bytes (d ! 6) (d ! 7)) \<le> length d))"

lemma length_der_bytes [simp]: "length (der_bytes d) = 3 + length d"
  by (simp add: der_bytes_def)

lemma at_der_bytes:
  "bytes_at att off (der_bytes d) \<longleftrightarrow>
     bytes_at att off [0x59] \<and> bytes_at att (off + 1) (be16 (length d)) \<and> bytes_at att (off + 3) d"
  unfolding der_bytes_def bytes_at_append by (simp add: numeral_3_eq_3)

lemma read_cert_eq:
  "read_cert lib att off = Some (off', c) \<longleftrightarrow>
     (\<exists>d. length d < 65536 \<and> bytes_at att off (der_bytes d) \<and> off' = off + length (der_bytes d) \<and>
        cert_from_der lib d = Some c)"
  unfolding at_der_bytes
  by (auto simp: read_cert_def bind_eq_Some_conv read_simps) metis

lemma expect_validity_eq:
  "expect_validity lib ts c = Some u \<longleftrightarrow> cert_not_before lib c < ts \<and> ts < cert_not_after lib c"
  by (auto simp: expect_validity_def bind_eq_Some_conv read_simps)

lemma bytes_at_take2: "i + 2 \<le> length d \<Longrightarrow> bytes_at d i [x, y] \<longleftrightarrow> take 2 (drop i d) = [x, y]"
  by (auto simp: bytes_at_def vslice_def)

lemma bytes_at_inside:
  assumes "bytes_at att off d"
  shows "bytes_at d i x \<Longrightarrow> bytes_at att (off + i) x"
    and "bytes_at att (off + i) x \<Longrightarrow> i + length x \<le> length d \<Longrightarrow> bytes_at d i x"
proof -
  from assms obtain ys zs where att: "att = ys @ d @ zs" and off: "length ys = off" unfolding bytes_at_iff by blast
  show "bytes_at att (off + i) x" if "bytes_at d i x"
    using that att off unfolding bytes_at_iff
    by (metis append_assoc length_append)
  assume at: "bytes_at att (off + i) x" and le: "i + length x \<le> length d"
  then have "take (length x) (drop i (d @ zs)) = x"
    using att off by (auto simp: bytes_at_def vslice_def split: if_splits)
  moreover have "take (length x) (drop i (d @ zs)) = take (length x) (drop i d)" using le by simp
  ultimately show "bytes_at d i x" using le by (simp add: bytes_at_def vslice_def)
qed

lemma expect_signed_eq:
  assumes contract: "der_contract lib" and d: "cert_from_der lib d = Some c" and at: "bytes_at att off d"
  shows "expect_signed lib att off parent cert = Some u \<longleftrightarrow> signed_by lib parent d cert = Some u"
proof -
  from contract d have len: "8 \<le> length d" by (auto simp: der_contract_def)
  note inside = bytes_at_inside [OF at]
  have pair: "bytes_at att off [x] \<and> bytes_at att (off + 1) [y] \<longleftrightarrow> bytes_at d 0 [x, y]"
    "bytes_at att (off + 4) [x] \<and> bytes_at att (off + 5) [y] \<longleftrightarrow> bytes_at d 4 [x, y]" for x y
    using inside(1) [of 0 "[x]"] inside(1) [of 1 "[y]"] inside(2) [of 0 "[x]"] inside(2) [of 1 "[y]"]
      inside(1) [of 4 "[x]"] inside(1) [of 5 "[y]"] inside(2) [of 4 "[x]"] inside(2) [of 5 "[y]"] len
    by (auto simp: bytes_at_Cons [of d _ x y "[]"])
  have size: "read_be16 att (off + 6) = Some n \<longleftrightarrow> read_be16 d 6 = Some n" for n
    using inside(1) [of 6 "be16 n"] inside(2) [of 6 "be16 n"] len by (auto simp: read_be16_eq)
  have msg: "vslice att (off + 4) (off + 8 + n) = Some m \<longleftrightarrow> vslice d 4 (8 + n) = Some m"
    if tags: "bytes_at d 0 [0x30, 0x82]" "bytes_at d 4 [0x30, 0x82]" and n: "read_be16 d 6 = Some n" for n m
  proof -
    from tags len have "take 2 d = [0x30, 0x82]" "take 2 (drop 4 d) = [0x30, 0x82]" by (auto simp: bytes_at_take2)
    moreover from n len have "n = unat (u16_from_be_bytes (d ! 6) (d ! 7))"
      by (auto simp: read_be16_def bind_eq_Some_conv vindex_def split: if_splits)
    ultimately have "8 + n \<le> length d" using contract d unfolding der_contract_def by auto
    then show ?thesis using inside(1) [of 4 m] inside(2) [of 4 m] by (auto simp: vslice_eq)
  qed
  have "expect_signed lib att off parent cert = Some u \<longleftrightarrow>
     bytes_at d 0 [0x30, 0x82] \<and> bytes_at d 4 [0x30, 0x82] \<and>
     (\<exists>n. read_be16 att (off + 6) = Some n \<and> (\<exists>m. vslice att (off + 4) (off + 8 + n) = Some m \<and>
        (\<exists>sig. signature_from_der lib (cert_signature lib cert) = Some sig \<and>
        (\<exists>k. key_from_sec1 lib (cert_public_key lib parent) = Some k \<and> key_verify lib k m sig))))"
    unfolding expect_signed_def bind_eq_Some_conv expect_byte_eq expect_eq pair [symmetric] by auto
  also have "\<dots> \<longleftrightarrow> signed_by lib parent d cert = Some u"
    unfolding signed_by_def tbs_of_def bind_eq_Some_conv expect_bytes_eq expect_eq
    using size msg by auto
  finally show ?thesis .
qed

text \<open>The chain below the root, over the DER of its certificates.\<close>

fun chain_verified :: "('x, 'v, 'g) guest_lib \<Rightarrow> u64 \<Rightarrow> 'x \<Rightarrow> bytes list \<Rightarrow> 'x option" where
  "chain_verified lib ts parent [] = Some parent"
| "chain_verified lib ts parent (d # ds) = do {
     child \<leftarrow> cert_from_der lib d;
     expect_validity lib ts child;
     signed_by lib parent d child;
     chain_verified lib ts child ds }"

lemma verify_children_eq:
  assumes "der_contract lib" and "off \<le> length att"
  shows "verify_children lib att ts n parent off = Some (off', c) \<longleftrightarrow>
    (\<exists>ds. length ds = n \<and> (\<forall>d \<in> set ds. length d < 65536) \<and> bytes_at att off (concat (map der_bytes ds)) \<and>
       off' = off + length (concat (map der_bytes ds)) \<and> chain_verified lib ts parent ds = Some c)"
  using assms(2)
proof (induction n arbitrary: parent off)
  case 0
  then show ?case by (auto simp: bytes_at_Nil)
next
  case (Suc n)
  have "verify_children lib att ts (Suc n) parent off = Some (off', c) \<longleftrightarrow>
      (\<exists>mid child. read_cert lib att off = Some (mid, child) \<and> (\<exists>u. expect_validity lib ts child = Some u) \<and>
        (\<exists>u. expect_signed lib att (off + 3) parent child = Some u) \<and>
        verify_children lib att ts n child mid = Some (off', c))"
    by (auto simp: bind_eq_Some_conv split: prod.split)
  also have "\<dots> \<longleftrightarrow> (\<exists>d child. length d < 65536 \<and> bytes_at att off (der_bytes d) \<and> cert_from_der lib d = Some child \<and>
        (\<exists>u. expect_validity lib ts child = Some u) \<and> (\<exists>u. signed_by lib parent d child = Some u) \<and>
        verify_children lib att ts n child (off + length (der_bytes d)) = Some (off', c))"
  proof -
    have "expect_signed lib att (off + 3) parent child = Some u \<longleftrightarrow> signed_by lib parent d child = Some u"
      if "bytes_at att off (der_bytes d)" "cert_from_der lib d = Some child" for d child u
      using that assms(1) by (intro expect_signed_eq) (auto simp: at_der_bytes)
    then show ?thesis unfolding read_cert_eq by blast
  qed
  also have "\<dots> \<longleftrightarrow> (\<exists>d ds. length (d # ds) = Suc n \<and> (\<forall>d \<in> set (d # ds). length d < 65536) \<and>
        bytes_at att off (concat (map der_bytes (d # ds))) \<and>
        off' = off + length (concat (map der_bytes (d # ds))) \<and> chain_verified lib ts parent (d # ds) = Some c)"
    (is "?a \<longleftrightarrow> ?b")
  proof -
    have le: "off + length (der_bytes d) \<le> length att" if "bytes_at att off (der_bytes d)" for d
      using that by (rule bytes_at_le)
    show ?thesis
    proof
      assume ?a
      then obtain d child u u' where d: "length d < 65536" "bytes_at att off (der_bytes d)"
          "cert_from_der lib d = Some child" "expect_validity lib ts child = Some u" "signed_by lib parent d child = Some u'"
        and rest: "verify_children lib att ts n child (off + length (der_bytes d)) = Some (off', c)" by blast
      from rest obtain ds where "length ds = n" "\<forall>d \<in> set ds. length d < 65536"
          "bytes_at att (off + length (der_bytes d)) (concat (map der_bytes ds))"
          "off' = off + length (der_bytes d) + length (concat (map der_bytes ds))"
          "chain_verified lib ts child ds = Some c"
        unfolding Suc.IH [OF le [OF d(2)]] by blast
      with d show ?b by (intro exI [of _ d] exI [of _ ds]) (simp add: bytes_at_append)
    next
      assume ?b
      then obtain d ds where "length ds = n" "length d < 65536" "\<forall>d \<in> set ds. length d < 65536"
        and at: "bytes_at att off (der_bytes d)" "bytes_at att (off + length (der_bytes d)) (concat (map der_bytes ds))"
        and off': "off' = off + length (der_bytes d) + length (concat (map der_bytes ds))"
        and ver: "chain_verified lib ts parent (d # ds) = Some c"
        by (auto simp: bytes_at_append add.assoc)
      moreover from ver obtain child u u' where "cert_from_der lib d = Some child"
          "expect_validity lib ts child = Some u" "signed_by lib parent d child = Some u'"
          and "chain_verified lib ts child ds = Some c" by (auto simp: bind_eq_Some_conv)
      moreover have "verify_children lib att ts n child (off + length (der_bytes d)) = Some (off', c)"
        unfolding Suc.IH [OF le [OF at(1)]] using calculation by blast
      ultimately show ?a by blast
    qed
  qed
  also have "\<dots> \<longleftrightarrow> (\<exists>ds. length ds = Suc n \<and> (\<forall>d \<in> set ds. length d < 65536) \<and>
        bytes_at att off (concat (map der_bytes ds)) \<and>
        off' = off + length (concat (map der_bytes ds)) \<and> chain_verified lib ts parent ds = Some c)"
    by (rule ex_Cons) simp
  finally show ?case .
qed

subsection \<open>The other sections\<close>

lemma at_leaf_bytes:
  "bytes_at att off (leaf_bytes d) \<longleftrightarrow>
     bytes_at att off [0x6b] \<and> bytes_at att (off + 1) (ascii ''certificate'') \<and> bytes_at att (off + 12) (der_bytes d)"
  unfolding leaf_bytes_def bytes_at_append by (simp add: eval_nat_numeral)

lemma length_leaf_bytes: "length (leaf_bytes d) = 15 + length d"
  by (simp add: leaf_bytes_def)

lemma read_leaf_eq:
  "read_leaf lib att off = Some (off', c) \<longleftrightarrow>
     (\<exists>d. length d < 65536 \<and> bytes_at att off (leaf_bytes d) \<and> off' = off + length (leaf_bytes d) \<and>
        cert_from_der lib d = Some c)"
  unfolding at_leaf_bytes
  by (auto simp: read_leaf_def bind_eq_Some_conv read_simps read_cert_eq length_leaf_bytes)

lemma read_chain_size_eq:
  "read_chain_size att off = Some (off', n) \<longleftrightarrow>
     0 < n \<and> n \<le> 16 \<and> off' = off + 10 \<and>
     bytes_at att off ([0x68] @ ascii ''cabundle'' @ [0x80 + of_nat n])"
proof -
  have byte: "0x80 < b \<and> b \<le> 0x90 \<and> n = unat (b - 0x80) \<longleftrightarrow> 0 < n \<and> n \<le> 16 \<and> b = 0x80 + of_nat n" for b :: u8
  proof
    assume a: "0x80 < b \<and> b \<le> 0x90 \<and> n = unat (b - 0x80)"
    then have "0x80 \<le> b" by auto
    then have "unat (b - 0x80) = unat b - 0x80" by (simp add: unat_sub)
    with a show "0 < n \<and> n \<le> 16 \<and> b = 0x80 + of_nat n" by (auto simp: word_less_nat_alt word_le_nat_alt)
  next
    assume a: "0 < n \<and> n \<le> 16 \<and> b = 0x80 + of_nat n"
    then have "unat b = 0x80 + n" by (auto simp: unat_word_ariths unat_of_nat)
    moreover from a have "b - 0x80 = of_nat n" by simp
    ultimately show "0x80 < b \<and> b \<le> 0x90 \<and> n = unat (b - 0x80)"
      using a by (auto simp: word_less_nat_alt word_le_nat_alt unat_of_nat)
  qed
  have nine: "Suc (Suc (Suc (Suc (Suc (Suc (Suc (Suc (Suc off)))))))) = off + 9"
    by (simp add: eval_nat_numeral)
  have "read_chain_size att off = Some (off', n) \<longleftrightarrow>
     bytes_at att off [0x68] \<and> bytes_at att (off + 1) (ascii ''cabundle'') \<and>
     (\<exists>b. bytes_at att (off + 9) [b] \<and> (0x80 < b \<and> b \<le> 0x90 \<and> n = unat (b - 0x80))) \<and> off' = off + 10"
    unfolding read_chain_size_def bind_eq_Some_conv read_simps by auto
  also have "\<dots> \<longleftrightarrow> 0 < n \<and> n \<le> 16 \<and> off' = off + 10 \<and>
     bytes_at att off ([0x68] @ ascii ''cabundle'' @ [0x80 + of_nat n])"
    unfolding byte bytes_at_append by (auto simp: nine)
  finally show ?thesis .
qed

lemma byte_length: "length x = unat (b :: u8) \<longleftrightarrow> length x < 256 \<and> b = of_nat (length x)"
  using byte_less [of b] by (auto simp: unat_byte)

lemma at_key_bytes:
  "bytes_at att off (key_bytes k) \<longleftrightarrow>
     bytes_at att off [0x6a] \<and> bytes_at att (off + 1) (ascii ''public_key'') \<and> bytes_at att (off + 11) [0x58] \<and>
     bytes_at att (off + 12) [of_nat (length k)] \<and> bytes_at att (off + 13) k"
  unfolding key_bytes_def bytes_at_append by (simp add: eval_nat_numeral)

lemma length_key_bytes: "length (key_bytes k) = 13 + length k"
  by (simp add: key_bytes_def)

lemma read_public_key_eq:
  "read_public_key att off = Some (off', k) \<longleftrightarrow>
     length k < 256 \<and> bytes_at att off (key_bytes k) \<and> off' = off + length (key_bytes k)"
proof -
  have "read_public_key att off = Some (off', k) \<longleftrightarrow>
     bytes_at att off [0x6a] \<and> bytes_at att (off + 1) (ascii ''public_key'') \<and> bytes_at att (off + 11) [0x58] \<and>
     (\<exists>b. bytes_at att (off + 12) [b] \<and> bytes_at att (off + 13) k \<and> length k = unat b) \<and> off' = off + 13 + length k"
    unfolding read_public_key_def bind_eq_Some_conv read_simps by auto
  also have "\<dots> \<longleftrightarrow> length k < 256 \<and> bytes_at att off (key_bytes k) \<and> off' = off + length (key_bytes k)"
    unfolding byte_length at_key_bytes length_key_bytes by auto
  finally show ?thesis .
qed

lemma at_user_data_bytes:
  "bytes_at att off (user_data_bytes f) \<longleftrightarrow>
     bytes_at att off [0x69] \<and> bytes_at att (off + 1) (ascii ''user_data'') \<and> bytes_at att (off + 10) (field_bytes f)"
  unfolding user_data_bytes_def bytes_at_append by (simp add: eval_nat_numeral)

lemma at_field_bytes:
  "bytes_at att i (field_bytes No_Data) \<longleftrightarrow> bytes_at att i [0xf6]"
  "bytes_at att i (field_bytes (Short_Data d)) \<longleftrightarrow>
     bytes_at att i [0x58] \<and> bytes_at att (i + 1) [of_nat (length d)] \<and> bytes_at att (i + 2) d"
  "bytes_at att i (field_bytes (Long_Data d)) \<longleftrightarrow>
     bytes_at att i [0x59] \<and> bytes_at att (i + 1) (be16 (length d)) \<and> bytes_at att (i + 3) d"
  unfolding field_bytes.simps bytes_at_append by (simp_all add: eval_nat_numeral)

lemma ucast_byte: "n < 256 \<Longrightarrow> (ucast (of_nat n :: u8) :: u16) = of_nat n"
  by (rule word_unat_eq_iff [THEN iffD2]) (simp add: unat_of_nat unsigned_ucast_eq take_bit_nat_eq_self)

lemma read_user_data_eq:
  "read_user_data att off = Some (sz, d) \<longleftrightarrow>
     (\<exists>f. field_wf f \<and> bytes_at att off (user_data_bytes f) \<and> d = field_data f \<and> sz = of_nat (length d))"
    (is "?l \<longleftrightarrow> ?r")
proof
  assume ?l
  then obtain tag where pre: "bytes_at att off [0x69]" "bytes_at att (off + 1) (ascii ''user_data'')"
      and tag: "bytes_at att (off + 10) [tag]"
      and rest: "(if tag = 0xf6 then Some (0, [])
      else if tag = 0x58 then do {
        size \<leftarrow> vindex att (off + 11);
        d \<leftarrow> vslice att (off + 12) (off + 12 + unat size);
        Some (ucast size, d) }
      else do {
        expect (tag = 0x59);
        size \<leftarrow> read_be16 att (off + 11);
        d \<leftarrow> vslice att (off + 13) (off + 13 + size);
        Some (of_nat size, d) }) = Some (sz, d)"
    unfolding read_user_data_def bind_eq_Some_conv read_simps by auto
  consider "tag = 0xf6" | "tag = 0x58" | "tag = 0x59" "tag \<noteq> 0xf6" "tag \<noteq> 0x58"
    using rest by (auto simp: bind_eq_Some_conv read_simps split: if_splits)
  then show ?r
  proof cases
    case 1
    with rest tag pre show ?thesis
      by (intro exI [of _ No_Data]) (simp add: at_user_data_bytes at_field_bytes)
  next
    case 2
    with rest tag obtain b where b: "bytes_at att (off + 11) [b]" "bytes_at att (off + 12) d" "length d = unat b"
      and sz: "sz = ucast b" by (auto simp: bind_eq_Some_conv read_simps)
    with 2 tag pre show ?thesis
      by (intro exI [of _ "Short_Data d"])
        (auto simp: at_user_data_bytes at_field_bytes byte_length ucast_byte add.commute [of off] simp del: field_bytes.simps)
  next
    case 3
    with rest tag have "length d < 65536" "bytes_at att (off + 11) (be16 (length d))" "bytes_at att (off + 13) d"
      and "sz = of_nat (length d)" by (auto simp: bind_eq_Some_conv read_simps)
    with 3 tag pre show ?thesis
      by (intro exI [of _ "Long_Data d"])
        (auto simp: at_user_data_bytes at_field_bytes add.commute [of off] simp del: field_bytes.simps)
  qed
next
  assume ?r
  then obtain f where f: "field_wf f" "bytes_at att off (user_data_bytes f)" "d = field_data f" "sz = of_nat (length d)"
    by blast
  show ?l
  proof (cases f)
    case No_Data
    with f(2) have at: "bytes_at att off [0x69]" "bytes_at att (off + 1) (ascii ''user_data'')"
        "bytes_at att (off + 10) [0xf6]" by (simp_all add: at_user_data_bytes at_field_bytes)
    from No_Data f have "d = []" "sz = 0" by simp_all
    with at show ?thesis by (simp add: read_user_data_def run_simps del: One_nat_def)
  next
    case (Short_Data x)
    with f(2) have at: "bytes_at att off [0x69]" "bytes_at att (off + 1) (ascii ''user_data'')"
        "bytes_at att (off + 10) [0x58]" "bytes_at att (off + 11) [of_nat (length x)]" "bytes_at att (off + 12) x"
      by (simp_all add: at_user_data_bytes at_field_bytes add.commute [of off] del: field_bytes.simps)
    from Short_Data f have "length x < 256" "d = x" "sz = of_nat (length x)" by simp_all
    with at show ?thesis
      by (simp add: read_user_data_def run_simps ucast_byte del: One_nat_def)
  next
    case (Long_Data x)
    with f(2) have at: "bytes_at att off [0x69]" "bytes_at att (off + 1) (ascii ''user_data'')"
        "bytes_at att (off + 10) [0x59]" "bytes_at att (off + 11) (be16 (length x))" "bytes_at att (off + 13) x"
      by (simp_all add: at_user_data_bytes at_field_bytes add.commute [of off] del: field_bytes.simps)
    from Long_Data f have "length x < 65536" "d = x" "sz = of_nat (length x)" by simp_all
    with at show ?thesis
      by (simp add: read_user_data_def run_simps expect_def del: One_nat_def)
  qed
qed

text \<open>The signature over the protected header and the payload.\<close>

definition cose_signed :: "('x, 'v, 'g) guest_lib \<Rightarrow> 'x \<Rightarrow> bytes \<Rightarrow> bytes \<Rightarrow> bytes \<Rightarrow> bool" where
  "cose_signed lib leaf payload r s \<longleftrightarrow>
     (case (key_from_sec1 lib (cert_public_key lib leaf), signature_from_scalars lib r s) of
        (Some vkey, Some sig) \<Rightarrow> key_verify_prehash lib vkey
           (sha384 lib ([0x84, 0x6a] @ ascii ''Signature1'' @ [0x44, 0xa1, 0x01, 0x38, 0x22, 0x40, 0x59] @
              be16 (length payload) @ payload)) sig
      | _ \<Rightarrow> False)"

lemma verify_cose_eq:
  assumes "n < 65536" and "bytes_at att 8 (be16 n)"
  shows "verify_cose lib att n leaf = Some u \<longleftrightarrow>
    (\<exists>payload r s. length payload = n \<and> length r = 48 \<and> length s = 48 \<and>
       bytes_at att 10 (payload @ [0x58, 0x60] @ r @ s) \<and> cose_signed lib leaf payload r s)"
proof -
  define h l where "h = (ucast (drop_bit 8 (of_nat n :: u16)) :: u8)" and "l = (ucast (of_nat n :: u16) :: u8)"
  have be: "be16 n = [h, l]" by (simp add: be16_def u16_to_be_bytes_def h_def l_def)
  with assms(2) have hl: "vindex att 8 = Some h" "vindex att 9 = Some l"
    by (simp_all add: vindex_eq bytes_at_Cons)
  have two: "bytes_at att i [x, y] \<longleftrightarrow> bytes_at att i [x] \<and> bytes_at att (i + 1) [y]" for i x y
    by (rule bytes_at_Cons)
  have pieces: "bytes_at att 10 (payload @ [0x58, 0x60] @ r @ s) \<longleftrightarrow>
      bytes_at att 10 payload \<and> bytes_at att (n + 10) [0x58] \<and> bytes_at att (n + 11) [0x60] \<and>
      bytes_at att (12 + n) r \<and> bytes_at att (60 + n) s"
    if "length payload = n" "length r = 48" for payload r s
    using that unfolding bytes_at_append two by (simp add: add.commute add.left_commute)
  show ?thesis
  proof
    assume "verify_cose lib att n leaf = Some u"
    then obtain payload r s vkey sig where at: "vslice att 10 (10 + n) = Some payload" "bytes_at att (n + 10) [0x58]"
        "bytes_at att (n + 11) [0x60]" "vslice att (12 + n) (60 + n) = Some r" "vslice att (60 + n) (108 + n) = Some s"
      and key: "key_from_sec1 lib (cert_public_key lib leaf) = Some vkey" "signature_from_scalars lib r s = Some sig"
        "key_verify_prehash lib vkey (sha384 lib ([0x84, 0x6a] @ ascii ''Signature1'' @
           [0x44, 0xa1, 0x01, 0x38, 0x22, 0x40, 0x59] @ [h, l] @ payload)) sig"
      unfolding verify_cose_def hl
      by (auto simp: bind_eq_Some_conv expect_byte_eq expect_eq Let_def)
    from at have len: "length payload = n" "length r = 48" "length s = 48" by (auto simp: vslice_eq)
    have "cose_signed lib leaf payload r s"
      using key unfolding cose_signed_def len(1) be by simp
    with at len
    show "\<exists>payload r s. length payload = n \<and> length r = 48 \<and> length s = 48 \<and>
       bytes_at att 10 (payload @ [0x58, 0x60] @ r @ s) \<and> cose_signed lib leaf payload r s"
      using pieces [OF len(1,2)] by (auto simp: vslice_eq)
  next
    assume "\<exists>payload r s. length payload = n \<and> length r = 48 \<and> length s = 48 \<and>
       bytes_at att 10 (payload @ [0x58, 0x60] @ r @ s) \<and> cose_signed lib leaf payload r s"
    then obtain payload r s where len: "length payload = n" "length r = 48" "length s = 48"
      and at: "bytes_at att 10 (payload @ [0x58, 0x60] @ r @ s)" and sig: "cose_signed lib leaf payload r s" by blast
    from at [unfolded pieces [OF len(1,2)]] len have run: "vslice att 10 (10 + n) = Some payload"
        "expect_byte att (n + 10) 0x58 = Some ()" "expect_byte att (n + 11) 0x60 = Some ()"
        "vslice att (12 + n) (60 + n) = Some r" "vslice att (60 + n) (108 + n) = Some s"
      by (auto simp: run_simps)
    from sig len show "verify_cose lib att n leaf = Some u"
      by (auto simp: verify_cose_def hl run cose_signed_def be Let_def expect_def split: option.splits)
  qed
qed

subsection \<open>The whole program\<close>

text \<open>The certificates of a document at its timestamp: the leaf and the key of the root.\<close>

definition doc_certificates :: "('x, 'v, 'g) guest_lib \<Rightarrow> guest_doc \<Rightarrow> ('x \<times> bytes) option" where
  "doc_certificates lib d = do {
     let ts = u64_from_be_bytes (gd_timestamp d) div 1000;
     root \<leftarrow> cert_from_der lib (hd (gd_chain d));
     expect_validity lib ts root;
     let root_key = cert_public_key lib root;
     expect (length root_key = 97 \<and> hd root_key = 0x04);
     parent \<leftarrow> chain_verified lib ts root (tl (gd_chain d));
     leaf \<leftarrow> cert_from_der lib (gd_leaf d);
     expect_validity lib ts leaf;
     signed_by lib parent (gd_leaf d) leaf;
     Some (leaf, tl root_key) }"

definition doc_journal :: "guest_doc \<Rightarrow> bytes \<Rightarrow> bytes" where
  "doc_journal d root_key =
     gd_timestamp d @ concat (take 3 (gd_pcrs d)) @ root_key @
     [of_nat (length (gd_public_key d))] @ gd_public_key d @
     be16 (length (field_data (gd_user_data d))) @ field_data (gd_user_data d)"

text \<open>
  An attestation as a COSE structure: header, payload, signature. The fields are read from byte ten on: nothing ties
  their end to the end of the payload.
\<close>

definition cose_bytes :: "bytes \<Rightarrow> bytes \<Rightarrow> bytes \<Rightarrow> bytes" where
  "cose_bytes payload r s = cose_header @ be16 (length payload) @ payload @ [0x58, 0x60] @ r @ s"

lemma bind_pair_eq:
  "Option.bind m (\<lambda>(a, b). f a b) = Some z \<longleftrightarrow> (\<exists>a b. m = Some (a, b) \<and> f a b = Some z)"
  by (auto simp: bind_eq_Some_conv)

lemma length_cose_header [simp]: "length cose_header = 8"
  by (simp add: cose_header_def)

lemma at_chain_bytes:
  "bytes_at att off (chain_bytes ds) \<longleftrightarrow>
     bytes_at att off ([0x68] @ ascii ''cabundle'' @ [0x80 + of_nat (length ds)]) \<and>
     bytes_at att (off + 10) (concat (map der_bytes ds))"
proof -
  have "length ([0x68] @ ascii ''cabundle'' @ [0x80 + of_nat (length ds)]) = 10" by simp
  then show ?thesis unfolding chain_bytes_def bytes_at_append [of att off "[0x68] @ _ @ _"] by (simp only:)
qed

lemma length_chain_bytes: "length (chain_bytes ds) = 10 + length (concat (map der_bytes ds))"
  by (simp add: chain_bytes_def)

lemma read_root_eq:
  "read_root lib att ts off = Some (off', c, k) \<longleftrightarrow>
     (\<exists>d. length d < 65536 \<and> bytes_at att off (der_bytes d) \<and> off' = off + length (der_bytes d) \<and>
        cert_from_der lib d = Some c \<and> (\<exists>u. expect_validity lib ts c = Some u) \<and>
        length (cert_public_key lib c) = 97 \<and> hd (cert_public_key lib c) = 0x04 \<and> k = tl (cert_public_key lib c))"
proof -
  have hd: "length x = 97 \<Longrightarrow> x ! 0 = hd x" for x :: bytes by (cases x) simp_all
  show ?thesis
    by (auto simp: read_root_def bind_eq_Some_conv read_cert_eq Let_def expect_eq drop_Suc hd)
qed

text \<open>The two passes over the chain, the root and its children, over the list of certificates.\<close>

lemma read_chain_eq:
  assumes "der_contract lib"
  shows "(\<exists>off1 n off2 root parent.
      read_chain_size att off = Some (off1, n) \<and> read_root lib att ts off1 = Some (off2, root, k) \<and>
      verify_children lib att ts (n - 1) root off2 = Some (off', parent) \<and> Q parent) \<longleftrightarrow>
    (\<exists>ds root parent. 0 < length ds \<and> length ds \<le> 16 \<and> (\<forall>d \<in> set ds. length d < 65536) \<and>
      bytes_at att off (chain_bytes ds) \<and> off' = off + length (chain_bytes ds) \<and>
      cert_from_der lib (hd ds) = Some root \<and> (\<exists>u. expect_validity lib ts root = Some u) \<and>
      length (cert_public_key lib root) = 97 \<and> hd (cert_public_key lib root) = 0x04 \<and> k = tl (cert_public_key lib root) \<and>
      chain_verified lib ts root (tl ds) = Some parent \<and> Q parent)" (is "?l \<longleftrightarrow> ?r")
proof
  assume ?l
  then obtain n off2 root parent d where n: "0 < n" "n \<le> 16"
      and at: "bytes_at att off ([0x68] @ ascii ''cabundle'' @ [0x80 + of_nat n])"
      and root: "length d < 65536" "bytes_at att (off + 10) (der_bytes d)" "off2 = off + 10 + length (der_bytes d)"
        "cert_from_der lib d = Some root" "\<exists>u. expect_validity lib ts root = Some u"
        "length (cert_public_key lib root) = 97" "hd (cert_public_key lib root) = 0x04" "k = tl (cert_public_key lib root)"
      and children: "verify_children lib att ts (n - 1) root off2 = Some (off', parent)" and Q: "Q parent"
    unfolding read_chain_size_eq read_root_eq by blast
  have "off2 \<le> length att" using bytes_at_le [OF root(2)] root(3) by simp
  from children [unfolded verify_children_eq [OF assms this]] obtain ds where
    ds: "length ds = n - 1" "\<forall>d \<in> set ds. length d < 65536" "bytes_at att off2 (concat (map der_bytes ds))"
      "off' = off2 + length (concat (map der_bytes ds))" "chain_verified lib ts root ds = Some parent" by blast
  have "length (d # ds) = n" using ds n by simp
  moreover from this at root(2,3) ds(3) have "bytes_at att off (chain_bytes (d # ds))"
    unfolding at_chain_bytes by (simp add: bytes_at_append [of att "off + 10"])
  moreover have "off' = off + length (chain_bytes (d # ds))"
    using ds(4) root(3) by (simp add: length_chain_bytes)
  ultimately show ?r using n root ds Q by (intro exI [of _ "d # ds"]) auto
next
  assume ?r
  then obtain ds root parent where len: "0 < length ds" "length ds \<le> 16" "\<forall>d \<in> set ds. length d < 65536"
    and at: "bytes_at att off (chain_bytes ds)" and off': "off' = off + length (chain_bytes ds)"
    and root: "cert_from_der lib (hd ds) = Some root" "\<exists>u. expect_validity lib ts root = Some u"
      "length (cert_public_key lib root) = 97" "hd (cert_public_key lib root) = 0x04" "k = tl (cert_public_key lib root)"
    and chain: "chain_verified lib ts root (tl ds) = Some parent" and Q: "Q parent" by blast
  from len(1) obtain d es where ds: "ds = d # es" by (cases ds) auto
  let ?off2 = "off + 10 + length (der_bytes d)"
  from at have pieces: "bytes_at att off ([0x68] @ ascii ''cabundle'' @ [0x80 + of_nat (length ds)])"
      "bytes_at att (off + 10) (der_bytes d)" "bytes_at att ?off2 (concat (map der_bytes es))"
    unfolding at_chain_bytes ds by (simp_all add: bytes_at_append [of att "off + 10"])
  have le: "?off2 \<le> length att" using bytes_at_le [OF pieces(2)] by simp
  have "read_chain_size att off = Some (off + 10, length ds)"
    unfolding read_chain_size_eq using len pieces by blast
  moreover have "read_root lib att ts (off + 10) = Some (?off2, root, k)"
    unfolding read_root_eq using pieces len root by (auto simp: ds)
  moreover have "verify_children lib att ts (length ds - 1) root ?off2 = Some (off', parent)"
    unfolding verify_children_eq [OF assms le] using pieces len chain off'
    by (intro exI [of _ es]) (simp add: ds length_chain_bytes)
  ultimately show ?l using Q by blast
qed

lemma be16_of_nat [simp]: "u16_to_be_bytes (of_nat n) = be16 n"
  by (simp add: be16_def)

lemma length_timestamp_bytes:
  "length mkey = 9 \<Longrightarrow> length dkey = 6 \<Longrightarrow> length dg = 6 \<Longrightarrow> length ts = 8 \<Longrightarrow>
     length (ts_bytes mkey m dkey dg ts) = 52 + length m"
  by (simp add: ts_bytes_def)

lemma guest_sound:
  assumes contract: "der_contract lib" and main: "guest_main lib att = Some j"
  shows "\<exists>payload r s d rest leaf root_key.
     att = cose_bytes payload r s \<and> length payload < 65536 \<and> length r = 48 \<and> length s = 48 \<and>
     drop 10 att = doc_bytes d @ rest \<and> doc_wf d \<and>
     doc_certificates lib d = Some (leaf, root_key) \<and> cose_signed lib leaf payload r s \<and> j = doc_journal d root_key"
proof -
  from main obtain n off1 ts off2 pcrs off3 leaf off4 cs off5 root rk off6 parent u1 off7 key sz data u2 where
    H: "read_header att = Some n" and T: "read_timestamp att = Some (off1, ts)"
    and P: "read_pcrs att off1 = Some (off2, pcrs)" and L: "read_leaf lib att off2 = Some (off3, leaf)"
    and C: "read_chain_size att off3 = Some (off4, cs)"
      "read_root lib att (u64_from_be_bytes ts div 1000) off4 = Some (off5, root, rk)"
      "verify_children lib att (u64_from_be_bytes ts div 1000) (cs - 1) root off5 = Some (off6, parent)"
    and V: "verify_leaf lib att (u64_from_be_bytes ts div 1000) parent (off2 + 15) leaf = Some u1"
    and K: "read_public_key att off6 = Some (off7, key)" and U: "read_user_data att off7 = Some (sz, data)"
    and S: "verify_cose lib att n leaf = Some u2"
    and j: "j = ts @ concat pcrs @ rk @ [of_nat (length key)] @ key @ u16_to_be_bytes sz @ data"
    unfolding guest_main_def Let_def by (auto simp: bind_eq_Some_conv split: prod.splits)
  let ?t = "u64_from_be_bytes ts div 1000"
  from H have n: "n < 65536" and h: "bytes_at att 0 (cose_header @ be16 n)" and len: "length att = 10 + n + 98"
    by (simp_all only: read_header_eq)
  from h have size: "bytes_at att 8 (be16 n)" unfolding bytes_at_append by simp
  from S [unfolded verify_cose_eq [OF n size]] obtain payload r s where
    sig: "length payload = n" "length r = 48" "length s = 48" "bytes_at att 10 (payload @ [0x58, 0x60] @ r @ s)"
      "cose_signed lib leaf payload r s" by blast
  have "bytes_at att 0 (cose_bytes payload r s)"
    using h sig unfolding cose_bytes_def bytes_at_append [of _ _ cose_header] bytes_at_append [of _ _ "be16 _"]
    by simp
  moreover have "length (cose_bytes payload r s) = length att" using sig len by (simp add: cose_bytes_def)
  ultimately have att: "att = cose_bytes payload r s" by (auto simp: bytes_at_iff)
  from T obtain mkey m dkey dg where
    t: "length mkey = 9" "length m < 256" "length dkey = 6" "length dg = 6" "length ts = 8"
      "bytes_at att 10 (ts_bytes mkey m dkey dg ts)" "off1 = 10 + length (ts_bytes mkey m dkey dg ts)"
    unfolding read_timestamp_eq by blast
  from L obtain ld where l: "length ld < 65536" "bytes_at att off2 (leaf_bytes ld)" "off3 = off2 + length (leaf_bytes ld)"
      "cert_from_der lib ld = Some leaf" unfolding read_leaf_eq by blast
  have "off2 \<le> length att" using bytes_at_le [OF l(2)] by simp
  from P [unfolded read_pcrs_eq [OF this]] obtain vs where p: "length vs = 16" "\<forall>v \<in> set vs. length v = 48"
      "bytes_at att off1 (pcrs_bytes 0 vs)" "off2 = off1 + length (pcrs_bytes 0 vs)" "pcrs = take 3 vs" by blast
  have "\<exists>off1 n off2 root par. read_chain_size att off3 = Some (off1, n) \<and>
      read_root lib att ?t off1 = Some (off2, root, rk) \<and>
      verify_children lib att ?t (n - 1) root off2 = Some (off6, par) \<and> par = parent" using C by blast
  from this [unfolded read_chain_eq [OF contract]] obtain ds root' u where
    c: "0 < length ds" "length ds \<le> 16" "\<forall>d \<in> set ds. length d < 65536" "bytes_at att off3 (chain_bytes ds)"
      "off6 = off3 + length (chain_bytes ds)" "cert_from_der lib (hd ds) = Some root'"
      "expect_validity lib ?t root' = Some u"
      "length (cert_public_key lib root') = 97" "hd (cert_public_key lib root') = 0x04"
      "rk = tl (cert_public_key lib root')" "chain_verified lib ?t root' (tl ds) = Some parent" by blast
  from V obtain u3 where v: "expect_validity lib ?t leaf = Some u3"
      and v': "expect_signed lib att (off2 + 15) parent leaf = Some u1"
    by (auto simp: verify_leaf_def bind_eq_Some_conv)
  have "bytes_at att (off2 + 15) ld" using l(2) by (simp add: at_leaf_bytes at_der_bytes add.commute)
  with v' have signed: "signed_by lib parent ld leaf = Some u1" using expect_signed_eq [OF contract l(4)] by blast
  from K have k: "length key < 256" "bytes_at att off6 (key_bytes key)" "off7 = off6 + length (key_bytes key)"
    unfolding read_public_key_eq by blast+
  from U obtain f where f: "field_wf f" "bytes_at att off7 (user_data_bytes f)" "data = field_data f"
      "sz = of_nat (length data)" unfolding read_user_data_eq by blast
  define d where "d = \<lparr>gd_module_key = mkey, gd_module = m, gd_digest_key = dkey, gd_digest = dg, gd_timestamp = ts,
    gd_pcrs = vs, gd_leaf = ld, gd_chain = ds, gd_public_key = key, gd_user_data = f\<rparr>"
  have "bytes_at att 10 (doc_bytes d)"
    unfolding doc_bytes_def d_def guest_doc.simps
    using t(6,7) p(3,4) l(2,3) c(4,5) k(2,3) f(2)
    by (simp only: bytes_at_append [of _ _ "ts_bytes _ _ _ _ _"] bytes_at_append [of _ _ "pcrs_bytes _ _"]
        bytes_at_append [of _ _ "leaf_bytes _"] bytes_at_append [of _ _ "chain_bytes _"]
        bytes_at_append [of _ _ "key_bytes _"] simp_thms)
  then obtain rest where "drop 10 att = doc_bytes d @ rest" by (auto simp: bytes_at_iff)
  moreover have "doc_wf d" using t p l c k f by (simp add: doc_wf_def d_def)
  moreover have "doc_certificates lib d = Some (leaf, rk)"
    using c l v signed by (simp add: doc_certificates_def d_def Let_def expect_def)
  moreover have "j = doc_journal d rk" using j p f by (simp add: doc_journal_def d_def)
  ultimately show ?thesis using att sig n by blast
qed

lemma guest_complete:
  assumes contract: "der_contract lib"
    and att: "att = cose_bytes payload r s" and len: "length payload < 65536" "length r = 48" "length s = 48"
    and doc: "drop 10 att = doc_bytes d @ rest" and wf: "doc_wf d"
    and certs: "doc_certificates lib d = Some (leaf, root_key)" and sig: "cose_signed lib leaf payload r s"
  shows "guest_main lib att = Some (doc_journal d root_key)"
proof -
  let ?t = "u64_from_be_bytes (gd_timestamp d) div 1000"
  have "bytes_at att 0 (cose_bytes payload r s)" by (simp add: att bytes_at_def vslice_def)
  then have h: "bytes_at att 0 (cose_header @ be16 (length payload))" and body: "bytes_at att 8 (be16 (length payload))"
      "bytes_at att 10 (payload @ [0x58, 0x60] @ r @ s)"
    unfolding cose_bytes_def bytes_at_append [of _ _ cose_header] bytes_at_append [of _ _ "be16 _"] by simp_all
  have H: "read_header att = Some (length payload)"
    unfolding read_header_eq using h len by (simp add: att cose_bytes_def)
  have "10 \<le> length att" by (simp add: att cose_bytes_def)
  then have "att = take 10 att @ doc_bytes d @ rest \<and> length (take 10 att) = 10"
    using doc by (metis append_take_drop_id length_take min.absorb2)
  then have "bytes_at att 10 (doc_bytes d)" unfolding bytes_at_iff by blast
  then obtain off1 off2 off3 off6 off7 where
    at: "bytes_at att 10 (ts_bytes (gd_module_key d) (gd_module d) (gd_digest_key d) (gd_digest d) (gd_timestamp d))"
      "off1 = 10 + length (ts_bytes (gd_module_key d) (gd_module d) (gd_digest_key d) (gd_digest d) (gd_timestamp d))"
      "bytes_at att off1 (pcrs_bytes 0 (gd_pcrs d))" "off2 = off1 + length (pcrs_bytes 0 (gd_pcrs d))"
      "bytes_at att off2 (leaf_bytes (gd_leaf d))" "off3 = off2 + length (leaf_bytes (gd_leaf d))"
      "bytes_at att off3 (chain_bytes (gd_chain d))" "off6 = off3 + length (chain_bytes (gd_chain d))"
      "bytes_at att off6 (key_bytes (gd_public_key d))" "off7 = off6 + length (key_bytes (gd_public_key d))"
      "bytes_at att off7 (user_data_bytes (gd_user_data d))"
    unfolding doc_bytes_def bytes_at_append [of _ _ "ts_bytes _ _ _ _ _"] bytes_at_append [of _ _ "pcrs_bytes _ _"]
        bytes_at_append [of _ _ "leaf_bytes _"] bytes_at_append [of _ _ "chain_bytes _"]
        bytes_at_append [of _ _ "key_bytes _"] by blast
  from certs obtain root parent u u' u'' where c: "cert_from_der lib (hd (gd_chain d)) = Some root"
      "expect_validity lib ?t root = Some u" "length (cert_public_key lib root) = 97" "hd (cert_public_key lib root) = 0x04"
      "chain_verified lib ?t root (tl (gd_chain d)) = Some parent"
      "cert_from_der lib (gd_leaf d) = Some leaf" "expect_validity lib ?t leaf = Some u'"
      "signed_by lib parent (gd_leaf d) leaf = Some u''" "root_key = tl (cert_public_key lib root)"
    unfolding doc_certificates_def Let_def by (auto simp: bind_eq_Some_conv expect_eq)
  have T: "read_timestamp att = Some (off1, gd_timestamp d)"
    unfolding read_timestamp_eq using at(1,2) wf unfolding doc_wf_def by blast
  have "off2 \<le> length att" using bytes_at_le [OF at(5)] by simp
  note P = read_pcrs_eq [OF this, THEN iffD2]
  have P: "read_pcrs att off1 = Some (off2, take 3 (gd_pcrs d))"
    by (rule P) (use at(3,4) wf in \<open>auto simp: doc_wf_def\<close>)
  have L: "read_leaf lib att off2 = Some (off3, leaf)"
    unfolding read_leaf_eq using at(5,6) wf c unfolding doc_wf_def by blast
  have "\<exists>off1 n off2 root par. read_chain_size att off3 = Some (off1, n) \<and>
      read_root lib att ?t off1 = Some (off2, root, root_key) \<and>
      verify_children lib att ?t (n - 1) root off2 = Some (off6, par) \<and> par = parent"
    unfolding read_chain_eq [OF contract] using at(7,8) wf c unfolding doc_wf_def by blast
  then obtain off4 n off5 root' where C: "read_chain_size att off3 = Some (off4, n)"
      "read_root lib att ?t off4 = Some (off5, root', root_key)"
      "verify_children lib att ?t (n - 1) root' off5 = Some (off6, parent)" by blast
  have "bytes_at att (off2 + 15) (gd_leaf d)" using at(5) by (simp add: at_leaf_bytes at_der_bytes add.commute)
  then have "expect_signed lib att (off2 + 15) parent leaf = Some u''"
    using expect_signed_eq [OF contract c(6)] c(8) by blast
  then have V: "verify_leaf lib att ?t parent (off2 + 15) leaf = Some ()" using c(7) by (simp add: verify_leaf_def)
  have K: "read_public_key att off6 = Some (off7, gd_public_key d)"
    unfolding read_public_key_eq using at wf unfolding doc_wf_def by blast
  have U: "read_user_data att off7 =
      Some (of_nat (length (field_data (gd_user_data d))), field_data (gd_user_data d))"
    unfolding read_user_data_eq using at wf unfolding doc_wf_def by blast
  have S: "verify_cose lib att (length payload) leaf = Some ()"
    unfolding verify_cose_eq [OF len(1) body(1)] using body sig len by blast
  show ?thesis
    by (simp only: guest_main_def Let_def H T P L C V K U S bind.bind_lunit prod.case doc_journal_def be16_of_nat)
qed

lemma guest_complete_ex:
  assumes "der_contract lib"
    and "\<exists>payload r s d rest leaf root_key.
       att = cose_bytes payload r s \<and> length payload < 65536 \<and> length r = 48 \<and> length s = 48 \<and>
       drop 10 att = doc_bytes d @ rest \<and> doc_wf d \<and>
       doc_certificates lib d = Some (leaf, root_key) \<and> cose_signed lib leaf payload r s \<and>
       j = doc_journal d root_key"
  shows "guest_main lib att = Some j"
  using guest_complete [OF assms(1)] assms(2) by blast

section \<open>What the guest accepts, and what it commits\<close>

text \<open>C4: The guest produces a journal exactly for an attestation that is a COSE structure with the expected header
  and sizes, whose bytes from where the payload begins (offset 10) start with the fields in the expected layout,
  whose certificates are valid at its timestamp and signed each by the one before it down to the leaf, and whose
  signature by the leaf's key covers the payload; the journal is then the timestamp, the first three PCRs, the key
  of the root, the public key and the user data of that layout. Where the fields end is no condition: after them
  may come any rest of the payload, and they may as well run past the payload's end, into bytes that the signature
  does not cover. Of the certificate parser it is assumed that a certificate it accepts is long enough to hold its
  first inner element.\<close>

theorem guest_accepts_iff:
  assumes "der_contract lib"
  shows "guest_main lib att = Some j \<longleftrightarrow>
    (\<exists>payload r s d rest leaf root_key.
       att = cose_bytes payload r s \<and> length payload < 65536 \<and> length r = 48 \<and> length s = 48 \<and>
       drop 10 att = doc_bytes d @ rest \<and> doc_wf d \<and>
       doc_certificates lib d = Some (leaf, root_key) \<and> cose_signed lib leaf payload r s \<and>
       j = doc_journal d root_key)"
  using guest_sound [OF assms] guest_complete [OF assms] by blast

text \<open>A concrete library: the key of a certificate is a byte, and its signature the byte of its signer.\<close>

definition toy_lib :: "(bytes, bytes, bytes) guest_lib" where
  "toy_lib = \<lparr>
     cert_from_der = (\<lambda>d. if length d = 12 \<and> take 8 d = [0x30, 0x82, 0, 8, 0x30, 0x82, 0, 2] then Some d else None),
     cert_not_before = (\<lambda>c. 5), cert_not_after = (\<lambda>c. 50),
     cert_public_key = (\<lambda>c. 0x04 # replicate 96 (c ! 8)), cert_signature = (\<lambda>c. [c ! 10]),
     signature_from_der = Some, signature_from_scalars = (\<lambda>r s. Some (r @ s)),
     key_from_sec1 = Some, key_verify = (\<lambda>k m g. g = [k ! 1]),
     key_verify_prehash = (\<lambda>k h g. hd g = k ! 1), sha384 = (\<lambda>m. m)\<rparr>"

definition toy_cert :: "u8 \<Rightarrow> u8 \<Rightarrow> bytes" where
  "toy_cert key signer = [0x30, 0x82, 0, 8, 0x30, 0x82, 0, 2, key, 0, signer, 0]"

definition toy_doc :: guest_doc where
  "toy_doc = \<lparr>gd_module_key = replicate 9 0x6d, gd_module = [0x69, 0x2d, 0x31], gd_digest_key = replicate 6 0x64,
     gd_digest = replicate 6 0x53, gd_timestamp = [0, 0, 0, 0, 0, 0, 0x27, 0x10], gd_pcrs = replicate 16 (replicate 48 7),
     gd_leaf = toy_cert 3 2, gd_chain = [toy_cert 1 0, toy_cert 2 1], gd_public_key = replicate 64 9,
     gd_user_data = Short_Data [1, 2]\<rparr>"

lemma toy_contract: "der_contract toy_lib"
proof -
  have "d ! 6 = 0 \<and> d ! 7 = 2" if "take 8 d = [0x30, 0x82, 0, 8, 0x30, 0x82, 0, 2]" for d :: bytes
  proof -
    have "d ! 6 = take 8 d ! 6" "d ! 7 = take 8 d ! 7" by simp_all
    with that show ?thesis by simp
  qed
  then show ?thesis by (auto simp: der_contract_def toy_lib_def u16_from_be_bytes_def)
qed

lemma toy_certificates: "doc_certificates toy_lib toy_doc = Some (toy_cert 3 2, replicate 96 1)"
proof -
  have "u64_from_be_bytes [0, 0, 0, 0, 0, 0, 0x27, 0x10] = 10000" by (simp add: u64_from_be_bytes_def)
  moreover have "signed_by toy_lib (toy_cert k g) (toy_cert k' k) (toy_cert k' k) = Some ()" for k g k'
    by (simp add: signed_by_def tbs_of_def expect_bytes_def read_be16_def vslice_def vindex_def expect_def
        toy_lib_def toy_cert_def u16_from_be_bytes_def)
  ultimately show ?thesis
    by (simp add: doc_certificates_def toy_doc_def expect_validity_def expect_def, simp add: toy_lib_def toy_cert_def)
qed

lemma toy_layout:
  "\<exists>payload r s d rest leaf root_key.
     cose_bytes (doc_bytes toy_doc @ [0xf6]) (replicate 48 3) (replicate 48 0) = cose_bytes payload r s \<and>
     length payload < 65536 \<and> length r = 48 \<and> length s = 48 \<and>
     drop 10 (cose_bytes (doc_bytes toy_doc @ [0xf6]) (replicate 48 3) (replicate 48 0)) = doc_bytes d @ rest \<and>
     doc_wf d \<and> doc_certificates toy_lib d = Some (leaf, root_key) \<and> cose_signed toy_lib leaf payload r s \<and>
     doc_journal toy_doc (replicate 96 1) = doc_journal d root_key"
proof -
  let ?p = "doc_bytes toy_doc @ [0xf6]"
  have "length (doc_bytes toy_doc) < 60000"
    by (simp add: doc_bytes_def toy_doc_def length_pcrs_bytes length_timestamp_bytes length_leaf_bytes length_chain_bytes
        length_key_bytes user_data_bytes_def toy_cert_def)
  moreover have "drop 10 (cose_bytes ?p r s) = doc_bytes toy_doc @ [0xf6] @ [0x58, 0x60] @ r @ s" for r s
    by (simp add: cose_bytes_def)
  moreover have "doc_wf toy_doc" by (simp add: doc_wf_def toy_doc_def toy_cert_def)
  moreover have "cose_signed toy_lib (toy_cert 3 2) ?p (replicate 48 3) (replicate 48 0)"
    by (simp add: cose_signed_def toy_lib_def toy_cert_def)
  moreover have "length ?p < 65536" using calculation(1) by (simp only: length_append list.size)
  ultimately show ?thesis
    by (intro exI conjI)
      (rule refl | assumption | rule toy_certificates | simp only: length_replicate)+
qed

theorem guest_accepts_iff_witness:
  "guest_main toy_lib (cose_bytes (doc_bytes toy_doc @ [0xf6]) (replicate 48 3) (replicate 48 0)) =
     Some (doc_journal toy_doc (replicate 96 1))"
  by (rule guest_accepts_iff [OF toy_contract, THEN iffD2, OF toy_layout])

section \<open>The journal\<close>

text \<open>The fields of a journal: timestamp, PCRs, key of the root, public key, user data.\<close>

type_synonym journal = "bytes \<times> bytes list \<times> bytes \<times> bytes \<times> bytes"

fun journal_bytes :: "journal \<Rightarrow> bytes" where
  "journal_bytes (ts, ps, root_key, key, data) =
     ts @ concat ps @ root_key @ [of_nat (length key)] @ key @ be16 (length data) @ data"

fun journal_typed :: "journal \<Rightarrow> bool" where
  "journal_typed (ts, ps, root_key, key, data) \<longleftrightarrow>
     length ts = 8 \<and> length ps = 3 \<and> (\<forall>p \<in> set ps. length p = 48) \<and> length root_key = 96 \<and>
     length key < 256 \<and> length data < 65536"

lemma be16_inj: "m < 65536 \<Longrightarrow> n < 65536 \<Longrightarrow> be16 m = be16 n \<longleftrightarrow> m = n"
  using read_be16_eq [of "be16 m" 0 m] read_be16_eq [of "be16 m" 0 n] by (auto simp: bytes_at_def vslice_def)

lemma byte_inj: "m < 256 \<Longrightarrow> n < 256 \<Longrightarrow> (of_nat m :: u8) = of_nat n \<longleftrightarrow> m = n"
  using unat_byte by metis

lemma three_blocks:
  assumes "length ps = 3" "length qs = 3" "\<forall>p \<in> set ps. length p = 48" "\<forall>q \<in> set qs. length q = 48"
    and "concat ps @ x = concat qs @ y"
  shows "ps = qs \<and> x = y"
proof -
  from assms(1,2) obtain a b c a' b' c' where "ps = [a, b, c]" "qs = [a', b', c']"
    by (auto simp: numeral_3_eq_3 length_Suc_conv)
  with assms show ?thesis by auto
qed

lemma journal_bytes_inj:
  assumes "journal_typed f" "journal_typed g" "journal_bytes f = journal_bytes g"
  shows "f = g"
proof -
  obtain ts ps rk key data where f: "f = (ts, ps, rk, key, data)" by (cases f) auto
  obtain ts' ps' rk' key' data' where g: "g = (ts', ps', rk', key', data')" by (cases g) auto
  from assms have "ts = ts'" and *: "concat ps @ (rk @ [of_nat (length key)] @ key @ be16 (length data) @ data) =
      concat ps' @ (rk' @ [of_nat (length key')] @ key' @ be16 (length data') @ data')" by (auto simp: f g)
  moreover from three_blocks [OF _ _ _ _ *] assms have "ps = ps'"
      and "rk @ [of_nat (length key)] @ key @ be16 (length data) @ data =
        rk' @ [of_nat (length key')] @ key' @ be16 (length data') @ data'" by (auto simp: f g)
  moreover from this(2) assms have "rk = rk'" and l: "(of_nat (length key) :: u8) = of_nat (length key')"
      and "key @ be16 (length data) @ data = key' @ be16 (length data') @ data'" by (auto simp: f g)
  moreover from l assms have "length key = length key'" by (simp add: f g byte_inj)
  ultimately show ?thesis by (simp add: f g)
qed

text \<open>C34: Every journal has the type the contracts decode: eight bytes of timestamp, three PCRs of 48 bytes, a key of
  the root of 96 bytes, a public key with its length in one byte and user data with its length in two; and these
  fields are determined by the bytes of the journal, so that no two readings of a proof exist.\<close>

theorem guest_journal_typed:
  assumes "der_contract lib" and "guest_main lib att = Some j"
  shows "\<exists>!f. journal_typed f \<and> j = journal_bytes f"
proof -
  from guest_sound [OF assms] obtain d leaf root_key where d: "doc_wf d"
      "doc_certificates lib d = Some (leaf, root_key)" "j = doc_journal d root_key" by blast
  from d(2) have "length root_key = 96"
    by (auto simp: doc_certificates_def Let_def bind_eq_Some_conv expect_eq)
  moreover have "length (take 3 (gd_pcrs d)) = 3" "\<forall>p \<in> set (take 3 (gd_pcrs d)). length p = 48"
    using d(1) by (auto simp: doc_wf_def dest: in_set_takeD)
  moreover have "length (field_data (gd_user_data d)) < 65536"
    using d(1) by (cases "gd_user_data d") (auto simp: doc_wf_def)
  ultimately have "journal_typed (gd_timestamp d, take 3 (gd_pcrs d), root_key, gd_public_key d, field_data (gd_user_data d))"
      and "j = journal_bytes (gd_timestamp d, take 3 (gd_pcrs d), root_key, gd_public_key d, field_data (gd_user_data d))"
    using d(1,3) by (simp_all add: doc_wf_def doc_journal_def)
  then show ?thesis using journal_bytes_inj by blast
qed

lemma toy_accepted: "guest_main toy_lib (cose_bytes (doc_bytes toy_doc @ [0xf6]) (replicate 48 3) (replicate 48 0)) =
     Some (doc_journal toy_doc (replicate 96 1))"
  by (rule guest_complete_ex [OF toy_contract toy_layout])

theorem guest_journal_typed_witness:
  "\<exists>!f. journal_typed f \<and> doc_journal toy_doc (replicate 96 1) = journal_bytes f"
  by (rule guest_journal_typed [OF toy_contract toy_accepted])

end
