(* ===== verification/Raw_Proxy.thy ===== *)
theory Raw_Proxy
  imports Oyster_IO
begin

text \<open>
  The raw proxies that tunnel the IP packets of an enclave, from \<open>networking/raw-proxy/src\<close>: the sockets and their
  retries (\<open>lib.rs\<close>), the two programs that take packets off a netfilter queue and write them to a vsock connection
  (\<open>ip_to_vsock_raw_incoming.rs\<close>, \<open>ip_to_vsock_raw_outgoing.rs\<close>), and the two that cut the connection into packets
  again, filter them and send them on a raw socket (\<open>vsock_to_ip_raw_incoming.rs\<close>, \<open>vsock_to_ip_raw_outgoing.rs\<close>).

  The answers of the system are inputs: the packets of the queue, the bytes of each accepted connection up to the
  read error that ends it, and for each send the number of bytes taken or an error. When the answers run out the
  program waits. The main loops open their sockets with retries for ever, so a new socket is there whenever the model
  goes on. The machine is little-endian. Looking for the network interface is not modelled: its address is a
  parameter.
\<close>

section \<open>Sockets\<close>

type_synonym io_error = string

datatype socket_error =
    CreateError io_error
  | BindError string io_error
  | ListenError string io_error
  | AcceptError string io_error
  | ConnectError string io_error
  | ReadError io_error
  | WriteError io_error
  | ShutdownError io_error
  | EofError
  | OpenError io_error
  | VerdictError io_error
  | OptionError string io_error

datatype proxy_error = IpError socket_error | VsockError socket_error | NfqError socket_error

text \<open>The calls of the system that set a socket up; an attempt answers each with an error or not.\<close>

datatype os_call =
    OpenQueue | BindQueue u16
  | CreateVsock | ConnectVsock string | BindVsock string | ListenVsock nat | AcceptVsock
  | ShutdownRead | ShutdownWrite
  | CreateRaw | BindDevice string | HeaderIncluded bool | RecvBuffer nat

type_synonym attempt = "os_call \<Rightarrow> io_error option"

fun run_calls :: "attempt \<Rightarrow> (os_call \<times> (io_error \<Rightarrow> proxy_error)) list \<Rightarrow> proxy_error + unit" where
  "run_calls os [] = Inr ()"
| "run_calls os ((c, err) # cs) = (case os c of Some e \<Rightarrow> Inl (err e) | None \<Rightarrow> run_calls os cs)"

definition new_nfq :: "string \<Rightarrow> u16 \<Rightarrow> attempt \<Rightarrow> proxy_error + unit" where
  "new_nfq addr_text addr os = run_calls os
     [(OpenQueue, NfqError \<circ> OpenError), (BindQueue addr, NfqError \<circ> BindError addr_text)]"

definition new_vsock_socket :: "string \<Rightarrow> attempt \<Rightarrow> proxy_error + unit" where
  "new_vsock_socket addr os = run_calls os
     [(CreateVsock, VsockError \<circ> CreateError), (ConnectVsock addr, VsockError \<circ> ConnectError addr),
      (ShutdownRead, VsockError \<circ> ShutdownError)]"

definition new_vsock_server :: "string \<Rightarrow> attempt \<Rightarrow> proxy_error + unit" where
  "new_vsock_server addr os = run_calls os
     [(CreateVsock, VsockError \<circ> CreateError), (BindVsock addr, VsockError \<circ> BindError addr),
      (ListenVsock 0, VsockError \<circ> ListenError addr)]"

definition accept_vsock_conn :: "string \<Rightarrow> attempt \<Rightarrow> proxy_error + unit" where
  "accept_vsock_conn addr os = run_calls os
     [(AcceptVsock, VsockError \<circ> AcceptError addr), (ShutdownWrite, VsockError \<circ> ShutdownError)]"

definition new_ip_socket :: "string \<Rightarrow> attempt \<Rightarrow> proxy_error + unit" where
  "new_ip_socket device os = run_calls os
     [(CreateRaw, IpError \<circ> CreateError), (BindDevice device, IpError \<circ> BindError device),
      (HeaderIncluded True, IpError \<circ> OptionError ''IP_HDRINCL''), (RecvBuffer 0, IpError \<circ> ShutdownError)]"

text \<open>Attempts until one succeeds: the pauses in seconds, and the value if an attempt of the list succeeds.\<close>

fun backoff_loop :: "('p \<Rightarrow> proxy_error + 'r) \<Rightarrow> u64 \<Rightarrow> u64 \<Rightarrow> 'p list \<Rightarrow> u64 list \<times> 'r option" where
  "backoff_loop f backoff max_backoff [] = ([], None)"
| "backoff_loop f backoff max_backoff (a # as) =
     (case f a of
        Inr r \<Rightarrow> ([], Some r)
      | Inl e \<Rightarrow> (case backoff_loop f (min (max (backoff * 2) 1) max_backoff) max_backoff as of
                  (pauses, r) \<Rightarrow> (backoff # pauses, r)))"

definition run_with_backoff :: "('p \<Rightarrow> proxy_error + 'r) \<Rightarrow> u64 \<Rightarrow> 'p list \<Rightarrow> u64 list \<times> 'r option" where
  "run_with_backoff f max_backoff as = backoff_loop f 1 max_backoff as"

text \<open>The argument parser of vsock addresses; the value is \<open>None\<close> when it is not UTF-8.\<close>

datatype error_kind = InvalidUtf8 | ValueValidation

definition parse_ref :: "string option \<Rightarrow> error_kind + (u32 \<times> u32)" where
  "parse_ref value =
     (case value of None \<Rightarrow> Inl InvalidUtf8
      | Some s \<Rightarrow>
      case split_once CHR '':'' s of None \<Rightarrow> Inl ValueValidation
      | Some (cid, port) \<Rightarrow>
      case parse_u32 cid of None \<Rightarrow> Inl ValueValidation
      | Some c \<Rightarrow>
      case parse_u32 port of None \<Rightarrow> Inl ValueValidation
      | Some p \<Rightarrow> Inr (c, p))"

section \<open>Loops over a socket\<close>

text \<open>How a call of \<open>handle_conn\<close> or a program ends: with an error, with a panic, or waiting for the system.\<close>

datatype outcome = Failed proxy_error | Panicked | Waiting

text \<open>
  The send loop: the bytes not sent yet, the answers of the socket, and the chunks that it took. \<open>None\<close> when all is
  sent.
\<close>

fun send_all ::
  "(io_error \<Rightarrow> proxy_error) \<Rightarrow> (io_error + nat) list \<Rightarrow> bytes \<Rightarrow> outcome option \<times> (io_error + nat) list \<times> bytes list"
where
  "send_all err as [] = (None, as, [])"
| "send_all err [] (b # bs) = (Some Waiting, [], [])"
| "send_all err (Inl e # as) (b # bs) = (Some (Failed (err e)), as, [])"
| "send_all err (Inr n # as) (b # bs) =
     (case send_all err as (drop n (b # bs)) of (r, as', ws) \<Rightarrow> (r, as', take n (b # bs) # ws))"

section \<open>From the queue to the connection\<close>

text \<open>What the queue and the connection answer: packets or errors, sends, verdicts.\<close>

record capture =
  recvs :: "(io_error + bytes) list"
  sends :: "(io_error + nat) list"
  verdicts :: "io_error option list"

text \<open>
  \<open>handle_conn\<close> of the two programs on the host's queue: the outcome, the answers left, the bytes written, and the
  packets written in full.
\<close>

fun capture_loop ::
  "(io_error + bytes) list \<Rightarrow> (io_error + nat) list \<Rightarrow> io_error option list \<Rightarrow> outcome \<times> capture \<times> bytes \<times> bytes list"
where
  "capture_loop [] as vs = (Waiting, \<lparr>recvs = [], sends = as, verdicts = vs\<rparr>, [], [])"
| "capture_loop (Inl e # rs) as vs =
     (Failed (NfqError (ReadError e)), \<lparr>recvs = rs, sends = as, verdicts = vs\<rparr>, [], [])"
| "capture_loop (Inr p # rs) as vs =
     (case send_all (VsockError \<circ> WriteError) as p of
        (Some r, as', ws) \<Rightarrow> (r, \<lparr>recvs = rs, sends = as', verdicts = vs\<rparr>, concat ws, [])
      | (None, as', ws) \<Rightarrow>
      case vs of
        [] \<Rightarrow> (Waiting, \<lparr>recvs = rs, sends = as', verdicts = []\<rparr>, concat ws, [p])
      | Some e # vs' \<Rightarrow>
          (Failed (NfqError (VerdictError e)), \<lparr>recvs = rs, sends = as', verdicts = vs'\<rparr>, concat ws, [p])
      | None # vs' \<Rightarrow>
          (case capture_loop rs as' vs' of (r, st, w, ps) \<Rightarrow> (r, st, concat ws @ w, p # ps)))"

definition capture_conn :: "capture \<Rightarrow> outcome \<times> capture \<times> bytes \<times> bytes list" where
  "capture_conn st = capture_loop (recvs st) (sends st) (verdicts st)"

lemma capture_loop_consumes:
  "capture_loop rs as vs = (Failed e, st, w, ps) \<Longrightarrow> length (recvs st) < length rs"
  by (induction rs as vs arbitrary: e st w ps rule: capture_loop.induct)
     (auto split: prod.splits option.splits list.splits intro: less_SucI)

text \<open>
  The program: it keeps the connection over an error of the queue and opens another one after an error of the
  connection. The streams of the connections in order, the last of them still open.
\<close>

function capture_main :: "capture \<Rightarrow> bytes \<Rightarrow> outcome \<times> bytes list \<times> bytes list" where
  "capture_main st cur =
     (case capture_conn st of
        (Failed (NfqError e), st', w, ps) \<Rightarrow>
          (case capture_main st' (cur @ w) of (r, ss, qs) \<Rightarrow> (r, ss, ps @ qs))
      | (Failed (VsockError e), st', w, ps) \<Rightarrow>
          (case capture_main st' [] of (r, ss, qs) \<Rightarrow> (r, (cur @ w) # ss, ps @ qs))
      | (Failed (IpError e), st', w, ps) \<Rightarrow> (Panicked, [cur @ w], ps)
      | (Panicked, st', w, ps) \<Rightarrow> (Panicked, [cur @ w], ps)
      | (Waiting, st', w, ps) \<Rightarrow> (Waiting, [cur @ w], ps))"
  by pat_completeness auto
termination
  by (relation "measure (\<lambda>(st, cur). length (recvs st))")
     (auto simp: capture_conn_def dest!: sym [of "_ :: outcome \<times> _"] capture_loop_consumes)

declare capture_main.simps [simp del]

section \<open>From the connection to the network\<close>

definition u32_from_be_bytes :: "bytes \<Rightarrow> u32" where
  "u32_from_be_bytes bs = foldl (\<lambda>a b. push_bit 8 a OR ucast b) 0 bs"

definition u32_from_ne_bytes :: "bytes \<Rightarrow> u32" where
  "u32_from_ne_bytes bs = u32_from_be_bytes (rev bs)"

definition eof :: io_error where
  "eof = ''failed to fill whole buffer''"

text \<open>
  A frame is read over the start of the buffer, whose other bytes stay as they are: four bytes, then up to the sz
  length that the packet states. \<open>&mut buf[4..size]\<close> panics when that is less than four.
\<close>

definition read_frame :: "bytes \<Rightarrow> bytes \<Rightarrow> outcome + nat \<times> bytes \<times> bytes" where
  "read_frame buf conn =
     (if length conn < 4 then Inl (Failed (VsockError (ReadError eof)))
      else
        let buf = take 4 conn @ drop 4 buf;
            conn = drop 4 conn;
            sz = unat (u16_from_be_bytes (buf ! 2) (buf ! 3))
        in if sz < 4 then Inl Panicked
           else if length conn < sz - 4 then Inl (Failed (VsockError (ReadError eof)))
           else Inr (sz, take 4 buf @ take (sz - 4) conn @ drop sz buf, drop (sz - 4) conn))"

definition reserved :: "u32 \<Rightarrow> bool" where
  "reserved dst_addr \<longleftrightarrow>
     dst_addr AND 0xff000000 = 0x00000000 \<or>
     dst_addr AND 0xff000000 = 0x0a000000 \<or>
     dst_addr AND 0xffc00000 = 0x64400000 \<or>
     dst_addr AND 0xff000000 = 0x7f000000 \<or>
     dst_addr AND 0xffff0000 = 0xa9fe0000 \<or>
     dst_addr AND 0xfff00000 = 0xac100000 \<or>
     dst_addr AND 0xffffff00 = 0xc0000000 \<or>
     dst_addr AND 0xffffff00 = 0xc0000200 \<or>
     dst_addr AND 0xffffff00 = 0xc0586300 \<or>
     dst_addr AND 0xffff0000 = 0xc0a80000 \<or>
     dst_addr AND 0xfffe0000 = 0xc6120000 \<or>
     dst_addr AND 0xffffff00 = 0xc6336400 \<or>
     dst_addr AND 0xffffff00 = 0xcb007100 \<or>
     dst_addr AND 0xf0000000 = 0xe0000000 \<or>
     dst_addr AND 0xffffff00 = 0xe9fc0000 \<or>
     dst_addr AND 0xf0000000 = 0xf0000000 \<or>
     dst_addr AND 0xffffffff = 0xffffffff"

definition source_addr :: "bytes \<Rightarrow> u32" where
  "source_addr buf = u32_from_ne_bytes (take 4 (drop 12 buf))"

definition target_addr :: "bytes \<Rightarrow> u32" where
  "target_addr buf = u32_from_be_bytes (take 4 (drop 16 buf))"

definition header_size :: "bytes \<Rightarrow> nat" where
  "header_size buf = unat ((buf ! 0 AND 0x0f) * 4)"

definition source_port :: "bytes \<Rightarrow> u16" where
  "source_port buf = u16_from_be_bytes (buf ! header_size buf) (buf ! (header_size buf + 1))"

text \<open>The checks of the outgoing side: interface address, reserved targets, port.\<close>

definition outgoing_passes :: "u32 \<Rightarrow> bytes \<Rightarrow> bool" where
  "outgoing_passes ifaddr buf \<longleftrightarrow>
     source_addr buf = ifaddr \<and> \<not> reserved (target_addr buf) \<and>
     \<not> (source_port buf \<noteq> 80 \<and> source_port buf \<noteq> 443 \<and> (source_port buf < 1024 \<or> source_port buf > 61439))"

text \<open>The check of the incoming side: the target, printed, is the address of the enclave.\<close>

definition print_addr :: "bytes \<Rightarrow> string" where
  "print_addr bs = foldl (\<lambda>acc val. if acc \<noteq> [] then acc @ ''.'' @ dec_of_nat (unat val)
                                     else acc @ dec_of_nat (unat val)) [] bs"

definition incoming_passes :: "string \<Rightarrow> bytes \<Rightarrow> bool" where
  "incoming_passes ip buf \<longleftrightarrow> print_addr (take 4 (drop 16 buf)) = ip"

text \<open>
  The loop of \<open>handle_conn\<close>, with the check and the error of a failed send as parameters: the outcome, the answers
  left, the bytes of the connection not read yet, the chunks sent.
\<close>

lemma read_frame_shorter: "read_frame buf conn = Inr (sz, buf', conn') \<Longrightarrow> length conn' < length conn"
  by (auto simp: read_frame_def Let_def split: if_splits)

function forward_conn ::
  "(bytes \<Rightarrow> bool) \<Rightarrow> (io_error \<Rightarrow> proxy_error) \<Rightarrow> (io_error + nat) list \<Rightarrow> bytes \<Rightarrow> bytes
    \<Rightarrow> outcome \<times> (io_error + nat) list \<times> bytes \<times> bytes list"
where
  "forward_conn passes err as buf conn =
     (case read_frame buf conn of
        Inl r \<Rightarrow> (r, as, [], [])
      | Inr (sz, buf', conn') \<Rightarrow>
          if \<not> passes buf' then forward_conn passes err as buf' conn'
          else
            (case send_all err as (take sz buf') of
               (Some r, as', ws) \<Rightarrow> (r, as', conn', ws)
             | (None, as', ws) \<Rightarrow>
                 (case forward_conn passes err as' buf' conn' of (r, as'', rest, ws') \<Rightarrow> (r, as'', rest, ws @ ws'))))"
  by pat_completeness auto
termination
  by (relation "measure (\<lambda>(passes, err, as, buf, conn). length conn)") (auto dest: read_frame_shorter)

declare forward_conn.simps [simp del]

lemma forward_conn_shorter:
  "forward_conn passes err as buf conn = (Failed (IpError e), as', rest, ws) \<Longrightarrow> length rest < length conn"
proof (induction passes err as buf conn arbitrary: as' ws rule: forward_conn.induct)
  case (1 passes err as buf conn)
  show ?case
  proof (cases "read_frame buf conn")
    case (Inl r)
    with 1(3) show ?thesis
      by (auto simp: forward_conn.simps [of _ _ _ _ conn] read_frame_def Let_def split: if_splits)
  next
    case (Inr x)
    obtain sz buf' conn' where x: "x = (sz, buf', conn')" by (cases x)
    have less: "length conn' < length conn" using read_frame_shorter Inr x by blast
    show ?thesis
    proof (cases "passes buf'")
      case False
      with 1(3) Inr x have "forward_conn passes err as buf' conn' = (Failed (IpError e), as', rest, ws)"
        by (simp add: forward_conn.simps [of _ _ _ _ conn])
      from "1.IH"(1) [OF Inr x [symmetric] refl False this] less show ?thesis by simp
    next
      case True
      obtain r as1 ws1 where s: "send_all err as (take sz buf') = (r, as1, ws1)" by (cases "send_all err as (take sz buf')")
      show ?thesis
      proof (cases r)
        case (Some y)
        with 1(3) Inr x True s less show ?thesis by (auto simp: forward_conn.simps [of _ _ _ _ conn])
      next
        case None
        obtain r2 as2 rest2 ws2 where f: "forward_conn passes err as1 buf' conn' = (r2, as2, rest2, ws2)"
          by (cases "forward_conn passes err as1 buf' conn'")
        with 1(3) Inr x True s None have "r2 = Failed (IpError e)" "rest2 = rest"
          by (auto simp: forward_conn.simps [of _ _ _ _ conn])
        with f have "forward_conn passes err as1 buf' conn' = (Failed (IpError e), as2, rest, ws2)" by simp
        moreover from True have "\<not> \<not> passes buf'" by simp
        ultimately have "length rest < length conn'"
          using "1.IH"(2) [OF Inr x [symmetric] refl _ s [symmetric] None refl] by blast
        with less show ?thesis by simp
      qed
    qed
  qed
qed

text \<open>
  The main loop, the same in both programs: a new raw socket after an error of it, with the connection read on, and
  the next connection after an error of that. Each call of \<open>handle_conn\<close> starts from a buffer of zeros. Any other
  error reaches \<open>unreachable!\<close>.
\<close>

function forward_main ::
  "(bytes \<Rightarrow> bool) \<Rightarrow> (io_error \<Rightarrow> proxy_error) \<Rightarrow> (io_error + nat) list \<Rightarrow> bytes list \<Rightarrow> outcome \<times> bytes list"
where
  "forward_main passes err as [] = (Waiting, [])"
| "forward_main passes err as (c # cs) =
     (case forward_conn passes err as (replicate 65535 0) c of
        (Failed (IpError e), as', rest, ws) \<Rightarrow>
          (case forward_main passes err as' (rest # cs) of (r, ws') \<Rightarrow> (r, ws @ ws'))
      | (Failed (VsockError e), as', rest, ws) \<Rightarrow>
          (case forward_main passes err as' cs of (r, ws') \<Rightarrow> (r, ws @ ws'))
      | (Failed (NfqError e), as', rest, ws) \<Rightarrow> (Panicked, ws)
      | (Panicked, as', rest, ws) \<Rightarrow> (Panicked, ws)
      | (Waiting, as', rest, ws) \<Rightarrow> (Waiting, ws))"
  by pat_completeness auto
termination
  by (relation "measure (\<lambda>(passes, err, as, cs). length cs + length (concat cs))")
     (auto dest!: sym [of "_ :: outcome \<times> _"] forward_conn_shorter)

declare forward_main.simps(2) [simp del]

definition outgoing_main :: "u32 \<Rightarrow> (io_error + nat) list \<Rightarrow> bytes list \<Rightarrow> outcome \<times> bytes list" where
  "outgoing_main ifaddr as cs = forward_main (outgoing_passes ifaddr) (NfqError \<circ> WriteError) as cs"

text \<open>The incoming side parses the address of the enclave first and panics when it is none.\<close>

definition parse_octet :: "string \<Rightarrow> u8 option" where
  "parse_octet s = (case parse_nat s of None \<Rightarrow> None
     | Some n \<Rightarrow> if n < 256 \<and> dec_of_nat n = s then Some (of_nat n) else None)"

definition parse_addr :: "string \<Rightarrow> bytes option" where
  "parse_addr s = (case split_on CHR ''.'' s of
     [a, b, c, d] \<Rightarrow> (case (parse_octet a, parse_octet b, parse_octet c, parse_octet d) of
        (Some w, Some x, Some y, Some z) \<Rightarrow> Some [w, x, y, z] | _ \<Rightarrow> None)
   | _ \<Rightarrow> None)"

definition incoming_main :: "string \<Rightarrow> (io_error + nat) list \<Rightarrow> bytes list \<Rightarrow> outcome \<times> bytes list" where
  "incoming_main ip as cs =
     (case cs of [] \<Rightarrow> (Waiting, [])
      | _ \<Rightarrow> if parse_addr ip = None then (Panicked, [])
             else forward_main (incoming_passes ip) (IpError \<circ> WriteError) as cs)"

section \<open>Reserved blocks\<close>





section \<open>Frames\<close>

text \<open>A packet whose stated length is its length and that holds its header and its ports.\<close>

definition stated_size :: "bytes \<Rightarrow> nat" where
  "stated_size p = unat (u16_from_be_bytes (p ! 2) (p ! 3))"

definition packet_ok :: "bytes \<Rightarrow> bool" where
  "packet_ok p \<longleftrightarrow> 20 \<le> length p \<and> stated_size p = length p \<and> header_size p + 2 \<le> length p"

text \<open>What is left of a packet when its connection breaks.\<close>

definition packet_cut :: "bytes \<Rightarrow> bool" where
  "packet_cut t \<longleftrightarrow> (\<exists>p k. packet_ok p \<and> k < length p \<and> t = take k p)"

text \<open>A check that only looks at the packet.\<close>

definition check_local :: "(bytes \<Rightarrow> bool) \<Rightarrow> bool" where
  "check_local passes \<longleftrightarrow> (\<forall>p rest. packet_ok p \<longrightarrow> passes (p @ rest) = passes p)"

lemma stated_size_less: "stated_size p < 65536"
proof -
  have "stated_size p < 2 ^ LENGTH(16)" unfolding stated_size_def by (rule unsigned_less)
  then show ?thesis by simp
qed

lemma packet_ok_length: "packet_ok p \<Longrightarrow> 20 \<le> length p \<and> length p \<le> 65535"
  using stated_size_less [of p] by (auto simp: packet_ok_def)

lemma packet_cut_Nil: "packet_ok p \<Longrightarrow> packet_cut []"
  using packet_ok_length [of p] by (auto simp: packet_cut_def intro!: exI [of _ p] exI [of _ 0])

lemma read_frame_packet:
  assumes "packet_ok p" and "length buf = 65535"
  shows "read_frame buf (p @ rest) = Inr (length p, p @ drop (length p) buf, rest)"
proof -
  have len: "20 \<le> length p" "length p \<le> 65535" using packet_ok_length [OF assms(1)] by auto
  let ?b = "take 4 p @ drop 4 buf"
  have "?b ! 2 = p ! 2" "?b ! 3 = p ! 3" using len by (simp_all add: nth_append)
  then have sz: "unat (u16_from_be_bytes (?b ! 2) (?b ! 3)) = length p"
    using assms(1) by (simp add: packet_ok_def stated_size_def)
  have "take 4 p @ take (length p - 4) (drop 4 p) = p" using len by (simp add: append_take_drop_id)
  then have "take 4 p @ take (length p - 4) (drop 4 (p @ rest)) @ drop (length p) ?b = p @ drop (length p) buf"
    using len assms(2) by simp
  then show ?thesis using len sz by (simp add: read_frame_def Let_def)
qed

lemma read_frame_cut:
  assumes "packet_cut t" and "length buf = 65535"
  shows "read_frame buf t = Inl (Failed (VsockError (ReadError eof)))"
proof -
  from assms(1) obtain p k where p: "packet_ok p" and t: "t = take k p" "k < length p" by (auto simp: packet_cut_def)
  have len: "20 \<le> length p" "length p \<le> 65535" using packet_ok_length [OF p] by auto
  show ?thesis
  proof (cases "length t < 4")
    case True
    then show ?thesis by (simp add: read_frame_def)
  next
    case False
    let ?b = "take 4 t @ drop 4 buf"
    have "?b ! 2 = p ! 2" "?b ! 3 = p ! 3" using False t by (simp_all add: nth_append)
    then have "unat (u16_from_be_bytes (?b ! 2) (?b ! 3)) = length p"
      using p by (simp add: packet_ok_def stated_size_def)
    with False t len show ?thesis by (simp add: read_frame_def Let_def)
  qed
qed

text \<open>A raw socket that takes every packet whole.\<close>

definition takes_all :: "(io_error + nat) list \<Rightarrow> bool" where
  "takes_all as \<longleftrightarrow> (\<forall>a \<in> set as. \<exists>n \<ge> 65535. a = Inr n)"

lemma send_all_whole:
  assumes "takes_all as" and "as \<noteq> []" and "bs \<noteq> []" and "length bs \<le> 65535"
  shows "send_all err as bs = (None, tl as, [bs])"
proof -
  from assms obtain n as' where as: "as = Inr n # as'" "65535 \<le> n" by (cases as) (auto simp: takes_all_def)
  from assms(3) obtain b bs' where bs: "bs = b # bs'" by (cases bs) auto
  have "drop n (b # bs') = []" "take n (b # bs') = b # bs'" using as assms(4) bs by (simp_all del: drop_Cons' take_Cons')
  then show ?thesis unfolding as bs by (simp del: drop_Cons' take_Cons')
qed

lemma takes_all_drop: "takes_all as \<Longrightarrow> takes_all (drop k as)"
  by (auto simp: takes_all_def dest: in_set_dropD)

lemma forward_conn_frames:
  assumes "check_local passes" and "packet_cut t"
  shows "\<forall>p \<in> set ps. packet_ok p \<Longrightarrow> takes_all as \<Longrightarrow> length (filter passes ps) \<le> length as \<Longrightarrow> length buf = 65535 \<Longrightarrow>
    forward_conn passes err as buf (concat ps @ t) =
      (Failed (VsockError (ReadError eof)), drop (length (filter passes ps)) as, [], filter passes ps)"
proof (induction ps arbitrary: as buf)
  case Nil
  then show ?case by (simp add: forward_conn.simps read_frame_cut [OF assms(2)])
next
  case (Cons p ps)
  have p: "packet_ok p" using Cons.prems by simp
  let ?b = "p @ drop (length p) buf"
  have len: "20 \<le> length p" "length p \<le> 65535" using packet_ok_length [OF p] by auto
  have frame: "read_frame buf (concat (p # ps) @ t) = Inr (length p, ?b, concat ps @ t)"
    using read_frame_packet [OF p Cons.prems(4)] by simp
  have pass: "passes ?b = passes p" using assms(1) p by (simp add: check_local_def)
  have b: "length ?b = 65535" using len Cons.prems(4) by simp
  show ?case
  proof (cases "passes p")
    case False
    then show ?thesis
      using Cons.IH [OF _ Cons.prems(2) _ b] Cons.prems frame pass by (simp add: forward_conn.simps [of _ _ _ buf])
  next
    case True
    with Cons.prems have as: "as \<noteq> []" "length (filter passes ps) \<le> length (tl as)" by auto
    have "p \<noteq> []" using len by auto
    from send_all_whole [OF Cons.prems(2) as(1) this len(2)]
    have send: "send_all err as (take (length p) ?b) = (None, tl as, [p])" by simp
    have "takes_all (tl as)" using Cons.prems(2) takes_all_drop [of as 1] by (simp add: drop_Suc)
    from Cons.IH [OF _ this as(2) b] Cons.prems(1) True frame pass send
    show ?thesis by (simp add: forward_conn.simps [of _ _ _ buf] drop_Suc)
  qed
qed

text \<open>The streams of some connections as packets and what is left of a last one.\<close>

definition frames_ok :: "(bytes list \<times> bytes) list \<Rightarrow> bool" where
  "frames_ok fs \<longleftrightarrow> (\<forall>(ps, t) \<in> set fs. (\<forall>p \<in> set ps. packet_ok p) \<and> packet_cut t)"

definition frame_bytes :: "bytes list \<times> bytes \<Rightarrow> bytes" where
  "frame_bytes f = concat (fst f) @ snd f"

lemma frame_bytes_pair [simp]: "frame_bytes (ps, t) = concat ps @ t"
  by (simp add: frame_bytes_def)

lemma forward_main_frames:
  assumes "check_local passes"
  shows "frames_ok fs \<Longrightarrow> takes_all as \<Longrightarrow> length (filter passes (concat (map fst fs))) \<le> length as \<Longrightarrow>
    forward_main passes err as (map frame_bytes fs) = (Waiting, filter passes (concat (map fst fs)))"
proof (induction fs arbitrary: as)
  case Nil
  then show ?case by simp
next
  case (Cons f fs)
  obtain ps t where f: "f = (ps, t)" by (cases f)
  let ?k = "length (filter passes ps)"
  from Cons.prems f have ok: "\<forall>p \<in> set ps. packet_ok p" "packet_cut t" "frames_ok fs" by (auto simp: frames_ok_def)
  have "forward_conn passes err as (replicate 65535 0) (concat ps @ t) =
      (Failed (VsockError (ReadError eof)), drop ?k as, [], filter passes ps)"
    by (rule forward_conn_frames [OF assms ok(2,1) Cons.prems(2)]) (use Cons.prems f in auto)
  moreover have "forward_main passes err (drop ?k as) (map frame_bytes fs) = (Waiting, filter passes (concat (map fst fs)))"
    using Cons.IH [OF ok(3) takes_all_drop [OF Cons.prems(2)]] Cons.prems(3) f by simp
  ultimately show ?case by (simp add: forward_main.simps(2) f)
qed

section \<open>The capturing side writes frames\<close>

definition received :: "(io_error + bytes) list \<Rightarrow> bytes list" where
  "received rs = concat (map (case_sum (\<lambda>e. []) (\<lambda>p. [p])) rs)"

lemma received_simps [simp]: "received [] = []" "received (Inl e # rs) = received rs" "received (Inr p # rs) = p # received rs"
  by (simp_all add: received_def)

lemma send_all_written:
  "send_all err as bs = (r, as', ws) \<Longrightarrow>
     (\<exists>k \<le> length bs. concat ws = take k bs \<and> (r = None \<longleftrightarrow> k = length bs)) \<and>
     (r = None \<or> r = Some Waiting \<or> (\<exists>e. r = Some (Failed (err e))))"
proof (induction err as bs arbitrary: r as' ws rule: send_all.induct)
  case (4 err n as b bs)
  obtain r1 as1 ws1 where rec: "send_all err as (drop n (b # bs)) = (r1, as1, ws1)"
    by (cases "send_all err as (drop n (b # bs))")
  with 4(2) have r: "r = r1" "ws = take n (b # bs) # ws1" by (simp_all del: take_Cons' drop_Cons')
  from 4(1) [OF rec] obtain k where k: "k \<le> length (drop n (b # bs))" "concat ws1 = take k (drop n (b # bs))"
      "r1 = None \<longleftrightarrow> k = length (drop n (b # bs))"
    and e: "r1 = None \<or> r1 = Some Waiting \<or> (\<exists>e. r1 = Some (Failed (err e)))" by blast
  let ?k = "min n (length (b # bs)) + k"
  have "concat ws = take ?k (b # bs)"
    using k(2) unfolding r by (simp add: take_add min_def del: take_Cons' drop_Cons')
  moreover have "?k \<le> length (b # bs)" using k(1) by (auto simp: min_def simp del: drop_Cons')
  moreover have "r = None \<longleftrightarrow> ?k = length (b # bs)" using k(1,3) r by (auto simp: min_def simp del: drop_Cons')
  ultimately show ?case using e r(1) by blast
qed auto

lemma capture_loop_frames:
  "capture_loop rs as vs = (r, st, w, ps) \<Longrightarrow> \<forall>p \<in> set (received rs). packet_ok p \<Longrightarrow>
     \<exists>t. w = concat ps @ t \<and> (\<forall>p \<in> set ps. packet_ok p) \<and> (t = [] \<or> packet_cut t) \<and>
       ((\<exists>e. r = Failed (NfqError e)) \<longrightarrow> t = []) \<and> (\<forall>e. r \<noteq> Failed (IpError e)) \<and> r \<noteq> Panicked \<and>
       (\<exists>rs1. subseq ps rs1 \<and> received rs = rs1 @ received (recvs st))"
proof (induction rs as vs arbitrary: r st w ps rule: capture_loop.induct)
  case (3 p rs as vs)
  have p: "packet_ok p" and rest: "\<forall>p \<in> set (received rs). packet_ok p" using "3.prems"(2) by auto
  obtain r1 as1 ws where s: "send_all (VsockError \<circ> WriteError) as p = (r1, as1, ws)"
    by (cases "send_all (VsockError \<circ> WriteError) as p")
  from send_all_written [OF s] obtain k where k: "k \<le> length p" "concat ws = take k p" "r1 = None \<longleftrightarrow> k = length p"
    and e: "r1 = None \<or> r1 = Some Waiting \<or> (\<exists>e. r1 = Some (Failed (VsockError (WriteError e))))" by auto
  show ?case
  proof (cases r1)
    case (Some y)
    with "3.prems"(1) s have "r = y" "w = concat ws" "ps = []" "recvs st = rs" by auto
    moreover have "k < length p" using k(1,3) Some by auto
    with p k(2) have "packet_cut (concat ws)" unfolding packet_cut_def by blast
    ultimately show ?thesis using e Some by (auto intro!: exI [of _ "[p]"])
  next
    case None
    with k have ws: "concat ws = p" by simp
    consider "vs = []" | e vs' where "vs = Some e # vs'" | vs' where "vs = None # vs'"
      by (metis neq_Nil_conv option.exhaust)
    then show ?thesis
    proof cases
      case 1
      with "3.prems"(1) s None ws have "r = Waiting" "w = p" "ps = [p]" "recvs st = rs" by auto
      with p show ?thesis by (intro exI [of _ "[]"]) (auto intro!: exI [of _ "[p]"])
    next
      case 2
      with "3.prems"(1) s None ws have "r = Failed (NfqError (VerdictError e))" "w = p" "ps = [p]" "recvs st = rs" by auto
      with p show ?thesis by (intro exI [of _ "[]"]) (auto intro!: exI [of _ "[p]"])
    next
      case 3
      obtain r2 st2 w2 ps2 where rec: "capture_loop rs as1 vs' = (r2, st2, w2, ps2)"
        by (cases "capture_loop rs as1 vs'")
      with "3.prems"(1) s None ws 3 have eq: "r = r2" "st = st2" "w = p @ w2" "ps = p # ps2" by auto
      from "3.IH" [OF s [symmetric] None refl 3 refl rec rest] obtain t rs1 where
        "w2 = concat ps2 @ t" "\<forall>p \<in> set ps2. packet_ok p" "t = [] \<or> packet_cut t"
        "(\<exists>e. r2 = Failed (NfqError e)) \<longrightarrow> t = []" "\<forall>e. r2 \<noteq> Failed (IpError e)" "r2 \<noteq> Panicked"
        "subseq ps2 rs1" "received rs = rs1 @ received (recvs st2)" by blast
      with eq p show ?thesis by (intro exI [of _ t]) (auto intro!: exI [of _ "p # rs1"])
    qed
  qed
qed auto

lemma packet_cut_empty: "packet_cut []"
proof (rule packet_cut_Nil)
  show "packet_ok ([0x45, 0, 0, 22] @ replicate 18 0)"
    by (simp add: packet_ok_def stated_size_def header_size_def u16_from_be_bytes_def)
qed

lemma capture_main_frames:
  "capture_main st cur = (r, ss, qs) \<Longrightarrow> cur = concat ps0 \<Longrightarrow> \<forall>p \<in> set ps0. packet_ok p \<Longrightarrow>
     \<forall>p \<in> set (received (recvs st)). packet_ok p \<Longrightarrow>
     r = Waiting \<and> subseq qs (received (recvs st)) \<and>
     (\<exists>fs. ss = map frame_bytes fs \<and> frames_ok fs \<and> concat (map fst fs) = ps0 @ qs)"
proof (induction st cur arbitrary: r ss qs ps0 rule: capture_main.induct)
  case (1 st cur)
  obtain r1 st1 w ps where c: "capture_conn st = (r1, st1, w, ps)" by (cases "capture_conn st")
  from capture_loop_frames [OF c [unfolded capture_conn_def] "1.prems"(4)] obtain t rs1 where
    w: "w = concat ps @ t" "\<forall>p \<in> set ps. packet_ok p" "t = [] \<or> packet_cut t"
    and r1: "(\<exists>e. r1 = Failed (NfqError e)) \<longrightarrow> t = []" "\<forall>e. r1 \<noteq> Failed (IpError e)" "r1 \<noteq> Panicked"
    and sub: "subseq ps rs1" "received (recvs st) = rs1 @ received (recvs st1)" by blast
  have cut: "packet_cut t" using w(3) packet_cut_empty by blast
  have here: "frames_ok [(ps0 @ ps, t)]" using w cut "1.prems"(3) by (auto simp: frames_ok_def)
  have bytes: "cur @ w = frame_bytes (ps0 @ ps, t)" by (simp add: "1.prems"(2) w(1))
  have rest: "\<forall>p \<in> set (received (recvs st1)). packet_ok p" using "1.prems"(4) sub(2) by simp
  have app: "subseq (ps @ qs') (received (recvs st))" if "subseq qs' (received (recvs st1))" for qs'
    using sub that by (simp add: list_emb_append_mono)
  consider "r1 = Waiting" | e where "r1 = Failed (NfqError e)" | e where "r1 = Failed (VsockError e)"
    using r1 by (metis outcome.exhaust proxy_error.exhaust)
  then show ?case
  proof cases
    case 1
    with c "1.prems"(1) have "r = Waiting" "ss = [cur @ w]" "qs = ps" by (simp_all add: capture_main.simps [of st])
    moreover have "subseq ps (received (recvs st))" using app [of "[]"] by simp
    ultimately show ?thesis using here bytes by (intro conjI exI [of _ "[(ps0 @ ps, t)]"]) auto
  next
    case 2
    obtain r2 ss2 qs2 where m: "capture_main st1 (cur @ w) = (r2, ss2, qs2)" by (cases "capture_main st1 (cur @ w)")
    with c "1.prems"(1) 2 have eq: "r = r2" "ss = ss2" "qs = ps @ qs2" by (simp_all add: capture_main.simps [of st])
    have cur: "cur @ w = concat (ps0 @ ps)" using w(1) r1(1) 2 "1.prems"(2) by simp
    have "\<forall>p \<in> set (ps0 @ ps). packet_ok p" using "1.prems"(3) w(2) by auto
    from "1.IH"(2) [OF c [symmetric] 2 refl refl refl m cur this rest] eq app show ?thesis by auto
  next
    case 3
    obtain r2 ss2 qs2 where m: "capture_main st1 [] = (r2, ss2, qs2)" by (cases "capture_main st1 []")
    with c "1.prems"(1) 3 have eq: "r = r2" "ss = (cur @ w) # ss2" "qs = ps @ qs2"
      by (simp_all add: capture_main.simps [of st])
    from "1.IH"(1) [OF c [symmetric] 3 refl refl refl m, of "[]"] rest obtain fs where
      "r2 = Waiting" "subseq qs2 (received (recvs st1))" "ss2 = map frame_bytes fs" "frames_ok fs"
      "concat (map fst fs) = qs2" by auto
    with eq app here bytes show ?thesis
      by (intro conjI exI [of _ "(ps0 @ ps, t) # fs"]) (auto simp: frames_ok_def)
  qed
qed

text \<open>With sockets that take everything, every packet received is written.\<close>

lemma capture_loop_lossless:
  "capture_loop rs as vs = (r, st, w, ps) \<Longrightarrow> \<forall>p \<in> set (received rs). packet_ok p \<Longrightarrow> takes_all as \<Longrightarrow>
     \<forall>v \<in> set vs. v = None \<Longrightarrow> length (received rs) \<le> length as \<Longrightarrow> length (received rs) \<le> length vs \<Longrightarrow>
     received rs = ps @ received (recvs st) \<and> takes_all (sends st) \<and> (\<forall>v \<in> set (verdicts st). v = None) \<and>
     length (received (recvs st)) \<le> length (sends st) \<and> length (received (recvs st)) \<le> length (verdicts st) \<and>
     (r = Waiting \<and> recvs st = [] \<or> (\<exists>e. r = Failed (NfqError e)))"
proof (induction rs as vs arbitrary: r st w ps rule: capture_loop.induct)
  case (3 p rs as vs)
  have "p \<noteq> []" "length p \<le> 65535" "as \<noteq> []" using "3.prems" packet_ok_length [of p] by auto
  from send_all_whole [OF "3.prems"(3) this(3,1,2)]
  have s: "send_all (VsockError \<circ> WriteError) as p = (None, tl as, [p])" .
  from "3.prems"(4,6) obtain vs' where vs: "vs = None # vs'" by (cases vs) auto
  obtain r2 st2 w2 ps2 where rec: "capture_loop rs (tl as) vs' = (r2, st2, w2, ps2)"
    by (cases "capture_loop rs (tl as) vs'")
  with "3.prems"(1) s vs have eq: "r = r2" "st = st2" "ps = p # ps2" by auto
  have "takes_all (tl as)" using takes_all_drop [OF "3.prems"(3), of 1] by (simp add: drop_Suc)
  from "3.IH" [OF s [symmetric] refl refl vs refl rec _ this] "3.prems" vs eq show ?case by auto
qed auto

lemma capture_main_lossless:
  "capture_main st cur = (r, ss, qs) \<Longrightarrow> \<forall>p \<in> set (received (recvs st)). packet_ok p \<Longrightarrow> takes_all (sends st) \<Longrightarrow>
     \<forall>v \<in> set (verdicts st). v = None \<Longrightarrow> length (received (recvs st)) \<le> length (sends st) \<Longrightarrow>
     length (received (recvs st)) \<le> length (verdicts st) \<Longrightarrow> qs = received (recvs st)"
proof (induction st cur arbitrary: r ss qs rule: capture_main.induct)
  case (1 st cur)
  obtain r1 st1 w ps where c: "capture_conn st = (r1, st1, w, ps)" by (cases "capture_conn st")
  note l = capture_loop_lossless [OF c [unfolded capture_conn_def] "1.prems"(2-6)]
  then consider "r1 = Waiting" "recvs st1 = []" | e where "r1 = Failed (NfqError e)" by blast
  then show ?case
  proof cases
    case 1
    with c "1.prems"(1) have "qs = ps" by (simp add: capture_main.simps [of st])
    with l 1 show ?thesis by simp
  next
    case 2
    obtain r2 ss2 qs2 where m: "capture_main st1 (cur @ w) = (r2, ss2, qs2)" by (cases "capture_main st1 (cur @ w)")
    with c "1.prems"(1) 2 have eq: "qs = ps @ qs2" by (simp add: capture_main.simps [of st])
    have "\<forall>p \<in> set (received (recvs st1)). packet_ok p" using "1.prems"(2) l by auto
    from "1.IH"(2) [OF c [symmetric] 2 refl refl refl m this] l eq show ?thesis by simp
  qed
qed

section \<open>The checks\<close>

lemma take_drop_local: "i + n \<le> length p \<Longrightarrow> take n (drop i (p @ rest)) = take n (drop i p)"
  by simp

lemma header_local:
  assumes "20 \<le> length p"
  shows "source_addr (p @ rest) = source_addr p" "target_addr (p @ rest) = target_addr p"
    "header_size (p @ rest) = header_size p"
proof -
  from assms have "p \<noteq> []" by auto
  then show "source_addr (p @ rest) = source_addr p" "target_addr (p @ rest) = target_addr p"
      "header_size (p @ rest) = header_size p"
    using assms by (simp_all add: source_addr_def target_addr_def header_size_def nth_append)
qed

lemma source_port_local:
  "20 \<le> length p \<Longrightarrow> header_size p + 2 \<le> length p \<Longrightarrow> source_port (p @ rest) = source_port p"
  by (simp add: source_port_def header_local nth_append)

lemma outgoing_local: "check_local (outgoing_passes ifaddr)"
  by (simp add: check_local_def outgoing_passes_def packet_ok_def header_local source_port_local)

lemma incoming_local: "check_local (incoming_passes ip)"
  by (simp add: check_local_def incoming_passes_def packet_ok_def)


lemma print_addr_quad:
  "print_addr [w, x, y, z] = dec_of_nat (unat w) @ ''.'' @ dec_of_nat (unat x) @ ''.'' @ dec_of_nat (unat y) @ ''.'' @
     dec_of_nat (unat z)"
  by (simp add: print_addr_def dec_of_nat_not_Nil)

lemma split_on_join: "\<forall>c \<in> set s. c \<noteq> d \<Longrightarrow> split_on d (s @ d # t) = s # split_on d t"
  by (induction s) (auto split: list.split)

lemma split_on_whole: "\<forall>c \<in> set s. c \<noteq> d \<Longrightarrow> split_on d s = [s]"
  by (induction s) auto

lemma dec_no_dot: "\<forall>c \<in> set (dec_of_nat n). c \<noteq> CHR ''.''"
  using dec_of_nat_digits by fastforce

lemma byte_bound: "unat (b :: u8) < 256"
proof -
  have "unat b < 2 ^ LENGTH(8)" by (rule unsigned_less)
  then show ?thesis by simp
qed

lemma parse_octet_dec: "parse_octet (dec_of_nat (unat b)) = Some b"
  by (simp add: parse_octet_def parse_nat_dec byte_bound)

lemma split_on_concat: "concat (map ((#) d) (split_on d s)) = d # s"
  by (induction s) (auto split: list.split)

lemma split_on_parts: "split_on d s = p # ps \<Longrightarrow> s = p @ concat (map ((#) d) ps)"
  using split_on_concat [of d s] by simp

lemma parse_octet_eq: "parse_octet s = Some b \<longleftrightarrow> s = dec_of_nat (unat b)"
proof
  assume "parse_octet s = Some b"
  then show "s = dec_of_nat (unat b)"
    by (auto simp: parse_octet_def unat_of_nat split: option.splits if_splits)
qed (simp add: parse_octet_dec)

lemma parse_addr_eq: "parse_addr s = Some a \<longleftrightarrow> length a = 4 \<and> print_addr a = s"
proof
  assume p: "parse_addr s = Some a"
  then obtain q1 q2 q3 q4 where parts: "split_on CHR ''.'' s = [q1, q2, q3, q4]"
    by (auto simp: parse_addr_def split: list.splits)
  with p obtain w x y z where "parse_octet q1 = Some w" "parse_octet q2 = Some x" "parse_octet q3 = Some y"
      "parse_octet q4 = Some z" "a = [w, x, y, z]"
    by (auto simp: parse_addr_def split: option.splits)
  with split_on_parts [OF parts] show "length a = 4 \<and> print_addr a = s"
    by (simp add: parse_octet_eq print_addr_quad)
next
  assume a: "length a = 4 \<and> print_addr a = s"
  then obtain w x y z where "a = [w, x, y, z]" by (auto simp: numeral_eq_Suc length_Suc_conv)
  with a show "parse_addr s = Some a"
    by (auto simp: print_addr_quad parse_addr_def split_on_join split_on_whole dec_no_dot parse_octet_dec)
qed

lemma incoming_passes_iff:
  assumes "parse_addr ip = Some a" and "20 \<le> length p"
  shows "incoming_passes ip p \<longleftrightarrow> take 4 (drop 16 p) = a"
proof -
  have "parse_addr (print_addr (take 4 (drop 16 p))) = Some (take 4 (drop 16 p))"
    using assms(2) by (simp add: parse_addr_eq)
  then show ?thesis using assms(1) unfolding incoming_passes_def parse_addr_eq
    by (metis option.inject parse_addr_eq)
qed

section \<open>The tunnel\<close>

text \<open>What the second program does with the connections of the first.\<close>

lemma capture_forward:
  assumes "\<forall>p \<in> set (received (recvs st)). packet_ok p" and "takes_all as" and "length (received (recvs st)) \<le> length as"
    and "capture_main st [] = (r, ss, qs)"
  shows "r = Waiting" and "subseq qs (received (recvs st))"
    and "check_local P \<Longrightarrow> forward_main P err as ss = (Waiting, filter P qs)"
    and "qs \<noteq> [] \<Longrightarrow> ss \<noteq> []" and "p \<in> set qs \<Longrightarrow> packet_ok p"
proof -
  from capture_main_frames [OF assms(4), of "[]"] assms(1) obtain fs where
    run: "r = Waiting" "subseq qs (received (recvs st))" "ss = map frame_bytes fs" "frames_ok fs" "concat (map fst fs) = qs"
    by auto
  have "length (filter P qs) \<le> length as" for P
    using list_emb_length [OF run(2)] assms(3) length_filter_le [of P qs] by linarith
  then show "check_local P \<Longrightarrow> forward_main P err as ss = (Waiting, filter P qs)"
    using forward_main_frames [OF _ run(4) assms(2)] run by auto
  show "r = Waiting" "subseq qs (received (recvs st))" "qs \<noteq> [] \<Longrightarrow> ss \<noteq> []" using run by auto
  show "p \<in> set qs \<Longrightarrow> packet_ok p" using assms(1) list_emb_set [OF run(2)] by fastforce
qed

lemma capture_incoming:
  assumes "\<forall>p \<in> set (received (recvs st)). packet_ok p" and "takes_all as" and "length (received (recvs st)) \<le> length as"
    and "capture_main st [] = (r, ss, qs)" and ip: "parse_addr ip = Some a"
  shows "incoming_main ip as ss = (Waiting, filter (\<lambda>p. take 4 (drop 16 p) = a) qs)"
proof -
  note run = capture_forward [OF assms(1-4)]
  have "filter (incoming_passes ip) qs = filter (\<lambda>p. take 4 (drop 16 p) = a) qs"
    using run(5) packet_ok_length incoming_passes_iff [OF ip] by (intro filter_cong) auto
  then show ?thesis using run(3) [OF incoming_local, of ip] run(4) ip by (cases ss) (auto simp: incoming_main_def)
qed

text \<open>C19: The two programs of a tunnel in a row. Whatever goes wrong on the side of the queue (receiving, verdicts,
  sends that take part of a packet or fail), the connections it opens carry whole packets, in order, and at most
  the cut start of one at their end; the other side sends on exactly those whole packets that pass its check,
  unchanged and in order, and nothing of a cut one. When the connection takes every packet, those are all the packets
  of the queue.\<close>

theorem raw_tunnel_exact:
  assumes "\<forall>p \<in> set (received (recvs st)). packet_ok p" and "takes_all as" and "length (received (recvs st)) \<le> length as"
    and "capture_main st [] = (r, ss, qs)"
  shows "r = Waiting \<and> subseq qs (received (recvs st)) \<and>
    outgoing_main ifaddr as ss = (Waiting, filter (outgoing_passes ifaddr) qs) \<and>
    (parse_addr ip = Some a \<longrightarrow> incoming_main ip as ss = (Waiting, filter (\<lambda>p. take 4 (drop 16 p) = a) qs)) \<and>
    (takes_all (sends st) \<and> (\<forall>v \<in> set (verdicts st). v = None) \<and> length (received (recvs st)) \<le> length (sends st) \<and>
       length (received (recvs st)) \<le> length (verdicts st) \<longrightarrow> qs = received (recvs st))"
proof -
  note run = capture_forward [OF assms]
  have "incoming_main ip as ss = (Waiting, filter (\<lambda>p. take 4 (drop 16 p) = a) qs)" if "parse_addr ip = Some a"
    by (rule capture_incoming [OF assms that])
  moreover have "takes_all (sends st) \<and> (\<forall>v \<in> set (verdicts st). v = None) \<and>
      length (received (recvs st)) \<le> length (sends st) \<and>
      length (received (recvs st)) \<le> length (verdicts st) \<longrightarrow> qs = received (recvs st)"
    using capture_main_lossless [OF assms(4,1)] by blast
  ultimately show ?thesis using run(1,2) run(3) [OF outgoing_local] by (simp add: outgoing_main_def)
qed

definition sample_packet :: "u8 \<Rightarrow> bytes" where
  "sample_packet d = [0x45, 0, 0, 24, 0, 0, 0, 0, 64, 6, 0, 0, 172, 31, 0, 9, d, 8, 8, 8, 0x9c, 0x40, 1, 187]"

definition sample_ifaddr :: u32 where
  "sample_ifaddr = u32_from_ne_bytes [172, 31, 0, 9]"

lemma sample_packet_ok: "packet_ok (sample_packet d)"
  by (simp add: packet_ok_def stated_size_def header_size_def sample_packet_def u16_from_be_bytes_def)

lemma sample_packet_passes:
  "outgoing_passes sample_ifaddr (sample_packet 8)" "\<not> outgoing_passes sample_ifaddr (sample_packet 10)"
  by (simp_all add: outgoing_passes_def sample_packet_def source_addr_def target_addr_def source_port_def header_size_def
      reserved_def sample_ifaddr_def u32_from_ne_bytes_def u32_from_be_bytes_def u16_from_be_bytes_def)

theorem raw_tunnel_exact_witness:
  "\<exists>ss qs. capture_main \<lparr>recvs = [Inr (sample_packet 8), Inl ''ENOBUFS'', Inr (sample_packet 10)],
       sends = [Inr 65535, Inr 65535], verdicts = [None, None]\<rparr> [] = (Waiting, ss, qs) \<and>
     outgoing_main sample_ifaddr [Inr 65535, Inr 65535] ss = (Waiting, [sample_packet 8])"
proof -
  let ?st = "\<lparr>recvs = [Inr (sample_packet 8), Inl ''ENOBUFS'', Inr (sample_packet 10)],
       sends = [Inr 65535, Inr 65535], verdicts = [None, None]\<rparr>"
  obtain r ss qs where run: "capture_main ?st [] = (r, ss, qs)" by (cases "capture_main ?st []")
  have "takes_all [Inr 65535, Inr 65535]" by (simp add: takes_all_def)
  then show ?thesis
    using raw_tunnel_exact [of ?st "[Inr 65535, Inr 65535]" r ss qs sample_ifaddr] run
    by (auto simp: sample_packet_ok sample_packet_passes)
qed

section \<open>Untrusted streams\<close>








text \<open>C40: Errors of the raw socket are not treated alike. The incoming proxy drops the packet, opens the socket anew
  and goes on with the rest of the connection. The outgoing proxy reports the same error as one of the queue, which
  its main loop takes for impossible: a single refused packet ends the program. So does a packet that states a length
  below four, which any enclave can write.\<close>

theorem outgoing_proxy_panics:
  "(packet_ok p \<and> outgoing_passes ifaddr p \<longrightarrow> outgoing_main ifaddr (Inl e # as) ((p @ c) # cs) = (Panicked, [])) \<and>
   (packet_ok p \<and> parse_addr ip = Some (take 4 (drop 16 p)) \<longrightarrow>
      incoming_main ip (Inl e # as) ((p @ c) # cs) = incoming_main ip as (c # cs)) \<and>
   (4 \<le> length c \<and> stated_size c < 4 \<longrightarrow> outgoing_main ifaddr as (c # cs) = (Panicked, []))"
proof (intro conjI impI)
  let ?zeros = "replicate 65535 (0 :: u8)"
  have refused: "forward_conn passes err (Inl e # as) ?zeros (p @ c) = (Failed (err e), as, c, [])"
    if p: "packet_ok p" and "check_local passes" "passes p" for passes err
  proof -
    have "read_frame ?zeros (p @ c) = Inr (length p, p @ drop (length p) ?zeros, c)"
      by (rule read_frame_packet [OF p]) simp
    moreover have "passes (p @ drop (length p) ?zeros)" using that by (simp add: check_local_def)
    moreover obtain b bs where "p = b # bs" using packet_ok_length [OF p] by (cases p) auto
    then have "send_all err (Inl e # as) p = (Some (Failed (err e)), as, [])" by simp
    ultimately show ?thesis by (simp add: forward_conn.simps [of _ _ _ _ "p @ c"])
  qed
  show "outgoing_main ifaddr (Inl e # as) ((p @ c) # cs) = (Panicked, [])"
    if "packet_ok p \<and> outgoing_passes ifaddr p"
    using refused [OF _ outgoing_local, of ifaddr "NfqError \<circ> WriteError"] that
    by (simp add: outgoing_main_def forward_main.simps(2))
  show "incoming_main ip (Inl e # as) ((p @ c) # cs) = incoming_main ip as (c # cs)"
    if "packet_ok p \<and> parse_addr ip = Some (take 4 (drop 16 p))"
  proof -
    have "incoming_passes ip p" using that incoming_passes_iff packet_ok_length by blast
    with refused [OF _ incoming_local, of ip "IpError \<circ> WriteError"] that show ?thesis
      by (simp add: incoming_main_def forward_main.simps(2) [of _ _ "Inl e # as"] split: prod.split)
  qed
  show "outgoing_main ifaddr as (c # cs) = (Panicked, [])" if short: "4 \<le> length c \<and> stated_size c < 4"
  proof -
    let ?b = "take 4 c @ drop 4 ?zeros"
    from short have "?b ! 2 = c ! 2" "?b ! 3 = c ! 3" by (simp_all add: nth_append)
    with short have "read_frame ?zeros c = Inl Panicked"
      by (simp add: read_frame_def Let_def stated_size_def)
    then show ?thesis
      by (simp add: outgoing_main_def forward_main.simps(2) forward_conn.simps [of _ _ _ _ c])
  qed
qed

theorem outgoing_proxy_panics_witness:
  "outgoing_main sample_ifaddr [Inl ''EMSGSIZE''] [sample_packet 8] = (Panicked, []) \<and>
   incoming_main ''8.8.8.8'' [Inl ''EMSGSIZE''] [sample_packet 8] = incoming_main ''8.8.8.8'' [] [[]] \<and>
   outgoing_main sample_ifaddr [] [[0x45, 0, 0, 3]] = (Panicked, [])"
proof -
  have "parse_addr ''8.8.8.8'' = Some [8, 8, 8, 8]"
  proof -
    have "dec_of_nat 8 = ''8''" by code_simp
    then show ?thesis by (simp add: parse_addr_eq print_addr_quad)
  qed
  moreover have "take 4 (drop 16 (sample_packet 8)) = [8, 8, 8, 8]" by (simp add: sample_packet_def)
  moreover have "stated_size [0x45, 0, 0, 3] = 3" by (simp add: stated_size_def u16_from_be_bytes_def)
  ultimately show ?thesis
    using outgoing_proxy_panics [of "sample_packet 8" sample_ifaddr "''EMSGSIZE''" "[]" "[]" "[]" "''8.8.8.8''"]
      outgoing_proxy_panics [of "sample_packet 8" sample_ifaddr "''EMSGSIZE''" "[]" "[0x45, 0, 0, 3]" "[]" "''8.8.8.8''"]
    by (simp add: sample_packet_ok sample_packet_passes)
qed

section \<open>Retries and addresses\<close>

lemma min_mult:
  fixes p :: nat
  assumes "1 \<le> p"
  shows "min (min x m * p) m = min (x * p) m"
proof (cases "x \<le> m")
  case False
  from assms have "m \<le> m * p" by simp
  moreover from False have "m * p \<le> x * p" by simp
  ultimately have "m \<le> x * p" by (rule order_trans)
  then have "min (x * p) m = m" by (rule min_absorb2)
  moreover have "min x m = m" using False by simp
  moreover have "min (m * p) m = m" using \<open>m \<le> m * p\<close> by (rule min_absorb2)
  ultimately show ?thesis by (simp only:)
qed simp

text \<open>The pauses double from one second up to the bound, and stay there.\<close>

lemma backoff_pauses:
  "1 \<le> unat b \<Longrightarrow> unat b \<le> unat m \<Longrightarrow> unat m < 2 ^ 62 \<Longrightarrow> backoff_loop f b m as = (ps, r) \<Longrightarrow> i < length ps \<Longrightarrow>
     unat (ps ! i) = min (unat b * 2 ^ i) (unat m)"
proof (induction as arbitrary: b ps i)
  case (Cons a as)
  show ?case
  proof (cases "f a")
    case (Inr x)
    with Cons.prems show ?thesis by simp
  next
    case (Inl e)
    let ?b = "min (max (b * 2) 1) m"
    from Cons.prems(4) Inl obtain ps' where rec: "backoff_loop f ?b m as = (ps', r)" and ps: "ps = b # ps'"
      by (auto split: prod.splits)
    have "unat (b * 2) = unat b * 2" using Cons.prems by (simp add: unat_word_ariths)
    then have next_b: "unat ?b = min (unat b * 2) (unat m)"
      using Cons.prems by (auto simp: min_def max_def word_le_nat_alt)
    show ?thesis
    proof (cases i)
      case 0
      with ps Cons.prems show ?thesis by simp
    next
      case (Suc k)
      have "unat (ps' ! k) = min (unat ?b * 2 ^ k) (unat m)"
        using Cons.IH [OF _ _ Cons.prems(3) rec] Cons.prems(1,2,5) next_b ps Suc by auto
      moreover have "min (min (unat b * 2) (unat m) * 2 ^ k) (unat m) = min (unat b * 2 ^ Suc k) (unat m)"
        using min_mult [of "2 ^ k" "unat b * 2" "unat m"] by (simp add: mult.assoc)
      ultimately show ?thesis using ps Suc next_b by simp
    qed
  qed
qed simp

lemma run_with_backoff_pauses:
  "1 \<le> unat m \<Longrightarrow> unat m < 2 ^ 62 \<Longrightarrow> run_with_backoff f m as = (ps, r) \<Longrightarrow> i < length ps \<Longrightarrow>
     unat (ps ! i) = min (2 ^ i) (unat m)"
  using backoff_pauses [of 1 m f as ps r i] by (simp add: run_with_backoff_def)

lemma run_with_backoff_result:
  "snd (run_with_backoff f m as) = (case dropWhile (\<lambda>a. isl (f a)) as of [] \<Rightarrow> None | a # _ \<Rightarrow> Some (projr (f a)))"
proof -
  have "snd (backoff_loop f b m as) = (case dropWhile (\<lambda>a. isl (f a)) as of [] \<Rightarrow> None | a # _ \<Rightarrow> Some (projr (f a)))" for b
    by (induction as arbitrary: b) (auto split: sum.split prod.split, metis snd_conv)
  then show ?thesis by (simp add: run_with_backoff_def)
qed

lemma parse_ref_printed: "parse_ref (Some (dec_of_nat (unat cid) @ '':'' @ dec_of_nat (unat port))) = Inr (cid, port)"
proof -
  have "CHR '':'' \<notin> set (dec_of_nat (unat cid))" using dec_of_nat_digits by fastforce
  then have split: "split_once CHR '':'' (dec_of_nat (unat cid) @ '':'' @ dec_of_nat (unat port)) =
      Some (dec_of_nat (unat cid), dec_of_nat (unat port))" by (simp add: split_once_eq)
  have "unat x < 2 ^ LENGTH(32)" for x :: u32 by (rule unsigned_less)
  then have "parse_u32 (dec_of_nat (unat x)) = Some x" for x by (simp add: parse_u32_def parse_nat_dec)
  with split show ?thesis by (simp only: parse_ref_def option.case prod.case)
qed

end
