(* ===== verification/Tcp_Proxy.thy ===== *)
theory Tcp_Proxy
  imports Oyster_IO
begin

text \<open>
  The TCP proxies between the network and an enclave, from \<open>networking/tcp-proxy/src\<close>: the original destination of a
  redirected connection (\<open>addr_info.rs\<close>), vsock addresses (\<open>lib.rs\<close>), and the four programs (\<open>ip_to_vsock.rs\<close>,
  \<open>vsock_to_ip.rs\<close>, and the transparent \<open>ip_to_vsock_transparent.rs\<close>, \<open>vsock_to_ip_transparent.rs\<close> and
  \<open>port_to_vsock_transparent.rs\<close>).

  A connection is given by what the system answers: the addresses, the connect, the writes of the header, and the
  history of the two copies in the order in which they are polled. A chunk is read and written in one event; a copy
  that breaks may have written a part of its last chunk. The structures of libc are bytes in memory on a
  little-endian machine.
\<close>

type_synonym io_error = string

section \<open>Addresses\<close>

datatype socket_addr =
    V4 (v4_ip: bytes) (v4_port: u16)
  | V6 (v6_ip: "u16 list") (v6_port: u16) (v6_flowinfo: u32) (v6_scope: u32)

fun addr_port :: "socket_addr \<Rightarrow> u16" where
  "addr_port (V4 ip port) = port"
| "addr_port (V6 ip port flow scope) = port"

text \<open>Integers in memory and their byte order: \<open>from_be\<close> swaps the bytes of a native integer.\<close>

definition u16_native :: "bytes \<Rightarrow> u16" where
  "u16_native bs = u16_from_be_bytes (bs ! 1) (bs ! 0)"

definition u32_of_bytes :: "u8 \<Rightarrow> u8 \<Rightarrow> u8 \<Rightarrow> u8 \<Rightarrow> u32" where
  "u32_of_bytes a b c d = push_bit 24 (ucast a) OR push_bit 16 (ucast b) OR push_bit 8 (ucast c) OR ucast d"

definition u32_native :: "bytes \<Rightarrow> u32" where
  "u32_native bs = u32_of_bytes (bs ! 3) (bs ! 2) (bs ! 1) (bs ! 0)"

definition ntoh16 :: "u16 \<Rightarrow> u16" where
  "ntoh16 i = u16_from_be_bytes (ucast i) (ucast (drop_bit 8 i))"

definition ntoh32 :: "u32 \<Rightarrow> u32" where
  "ntoh32 i = u32_of_bytes (ucast i) (ucast (drop_bit 8 i)) (ucast (drop_bit 16 i)) (ucast (drop_bit 24 i))"

text \<open>
  \<open>mk_addr\<close>, over a \<open>sockaddr_storage\<close>: the family in its first two bytes, then a \<open>sockaddr_in\<close> (port, address) or a
  \<open>sockaddr_in6\<close> (port, flow, address, scope). A length below that of the structure fails an assertion.
\<close>

definition field :: "bytes \<Rightarrow> nat \<Rightarrow> nat \<Rightarrow> bytes" where
  "field storage i n = take n (drop i storage)"

definition mk_addr :: "bytes \<Rightarrow> nat \<Rightarrow> (io_error + socket_addr) option" where
  "mk_addr storage len =
     (let family = u16_native (field storage 0 2) in
      if family = 2 then
        (if len < 16 then None
         else
           let bits = ntoh32 (u32_native (field storage 4 4));
               ip = [ucast (drop_bit 24 bits), ucast (drop_bit 16 bits), ucast (drop_bit 8 bits), ucast bits]
           in Some (Inr (V4 ip (ntoh16 (u16_native (field storage 2 2))))))
      else if family = 10 then
        (if len < 28 then None
         else
           let arr = field storage 8 16;
               segment = (\<lambda>i. push_bit 8 (ucast (arr ! (2 * i))) OR ucast (arr ! (2 * i + 1)))
           in Some (Inr (V6 (map segment [0, 1, 2, 3, 4, 5, 6, 7]) (ntoh16 (u16_native (field storage 2 2)))
                (u32_native (field storage 4 4)) (u32_native (field storage 24 4)))))
      else Some (Inl ''invalid argument''))"

text \<open>\<open>so_original_dst\<close> on the answer of \<open>getsockopt\<close>: an error, or what it wrote and its length.\<close>

definition so_original_dst :: "io_error + bytes \<times> nat \<Rightarrow> (io_error + socket_addr) option" where
  "so_original_dst answer = (case answer of Inl e \<Rightarrow> Some (Inl e) | Inr (storage, len) \<Rightarrow> mk_addr storage len)"

definition get_original_dst :: "io_error + bytes \<times> nat \<Rightarrow> socket_addr option option" where
  "get_original_dst answer =
     (case so_original_dst answer of None \<Rightarrow> None | Some (Inl e) \<Rightarrow> Some None | Some (Inr a) \<Rightarrow> Some (Some a))"

datatype vsock_addr_parse_error = SplitError | CidParseError | PortParseError

definition split_vsock :: "string \<Rightarrow> vsock_addr_parse_error + (u32 \<times> u32)" where
  "split_vsock addr =
     (case split_once CHR '':'' addr of None \<Rightarrow> Inl SplitError
      | Some (cid, port) \<Rightarrow>
      case parse_u32 cid of None \<Rightarrow> Inl CidParseError
      | Some c \<Rightarrow>
      case parse_u32 port of None \<Rightarrow> Inl PortParseError
      | Some p \<Rightarrow> Inr (c, p))"

section \<open>The two copies\<close>

text \<open>
  \<open>client_to_server\<close> is \<open>Up\<close>, \<open>server_to_client\<close> is \<open>Down\<close>. At the end of its input a copy shuts the other side
  down for writing. \<open>try_join!\<close> ends with the first error, which drops the other copy, or when both are done.
\<close>

datatype side = Up | Down

datatype relay_event =
    Data side bytes
  | Eof side
  | ShutdownFailed side io_error
  | Broken side bytes io_error

record relay =
  sent :: "side \<Rightarrow> bytes"
  closed :: "side \<Rightarrow> bool"

definition relay_new :: relay where
  "relay_new = \<lparr>sent = (\<lambda>s. []), closed = (\<lambda>s. False)\<rparr>"

fun event_side :: "relay_event \<Rightarrow> side" where
  "event_side (Data s bs) = s"
| "event_side (Eof s) = s"
| "event_side (ShutdownFailed s e) = s"
| "event_side (Broken s bs e) = s"

definition push :: "side \<Rightarrow> bytes \<Rightarrow> relay \<Rightarrow> relay" where
  "push s bs r = r\<lparr>sent := (sent r)(s := sent r s @ bs)\<rparr>"

definition shut :: "side \<Rightarrow> relay \<Rightarrow> relay" where
  "shut s r = r\<lparr>closed := (closed r)(s := True)\<rparr>"

fun try_join :: "relay \<Rightarrow> relay_event list \<Rightarrow> (io_error + unit) option \<times> relay" where
  "try_join r es =
     (if closed r Up \<and> closed r Down then (Some (Inr ()), r)
      else (case es of
          [] \<Rightarrow> (None, r)
        | e # es' \<Rightarrow>
            if closed r (event_side e) then try_join r es'
            else (case e of
                Data s bs \<Rightarrow> try_join (push s bs r) es'
              | Eof s \<Rightarrow> try_join (shut s r) es'
              | ShutdownFailed s err \<Rightarrow> (Some (Inl err), r)
              | Broken s bs err \<Rightarrow> (Some (Inl err), push s bs r))))"

declare try_join.simps [simp del]

section \<open>The transfers\<close>

text \<open>What the system answers on a connection, and what becomes of it.\<close>

record connection =
  own_addr :: "io_error + string"
  original :: "io_error + bytes \<times> nat"
  connect_answer :: "io_error option"
  write_ip :: "io_error option"
  write_port :: "io_error option"
  first_bytes :: bytes
  history :: "relay_event list"

record 'a transfer =
  target :: "'a option"
  written :: bytes
  copies :: relay

datatype status = Pending | Panics | Fails string | Ends

definition nothing :: "'a transfer" where
  "nothing = \<lparr>target = None, written = [], copies = relay_new\<rparr>"

definition copy_both :: "string \<Rightarrow> relay_event list \<Rightarrow> 'a transfer \<Rightarrow> status \<times> 'a transfer" where
  "copy_both context es t =
     (case try_join (copies t) es of (res, r) \<Rightarrow>
        ((case res of None \<Rightarrow> Pending | Some (Inl e) \<Rightarrow> Fails context | Some (Inr u) \<Rightarrow> Ends), t\<lparr>copies := r\<rparr>))"

definition transfer_ip_to_vsock :: "'a \<Rightarrow> connection \<Rightarrow> status \<times> 'a transfer" where
  "transfer_ip_to_vsock proxy_addr c =
     (case own_addr c of Inl e \<Rightarrow> (Fails ''could not fetch inbound addr'', nothing)
      | Inr a \<Rightarrow>
      case connect_answer c of Some e \<Rightarrow> (Fails ''failed to connect vsock'', nothing)
      | None \<Rightarrow> copy_both ''error in connection'' (history c) (nothing\<lparr>target := Some proxy_addr\<rparr>))"

definition transfer_vsock_to_ip :: "'a \<Rightarrow> connection \<Rightarrow> status \<times> 'a transfer" where
  "transfer_vsock_to_ip proxy_addr c =
     (case connect_answer c of Some e \<Rightarrow> (Fails ''failed to connect to endpoint'', nothing)
      | None \<Rightarrow>
      case own_addr c of Inl e \<Rightarrow> (Fails ''could not fetch inbound addr'', nothing\<lparr>target := Some proxy_addr\<rparr>)
      | Inr a \<Rightarrow> copy_both ''error in connection'' (history c) (nothing\<lparr>target := Some proxy_addr\<rparr>))"

definition transfer_port_to_vsock :: "u32 \<Rightarrow> connection \<Rightarrow> status \<times> (u32 \<times> u32) transfer" where
  "transfer_port_to_vsock cid c =
     (case own_addr c of Inl e \<Rightarrow> (Fails ''could not fetch inbound addr'', nothing)
      | Inr a \<Rightarrow>
      case get_original_dst (original c) of None \<Rightarrow> (Panics, nothing)
      | Some None \<Rightarrow> (Fails ''Failed to retrieve original destination'', nothing)
      | Some (Some orig_dst) \<Rightarrow>
      case connect_answer c of Some e \<Rightarrow> (Fails ''failed to connect vsock'', nothing)
      | None \<Rightarrow> copy_both ''error in connection'' (history c)
                 (nothing\<lparr>target := Some (cid, ucast (addr_port orig_dst))\<rparr>))"

text \<open>The transparent pair: the address and the port of the destination, little-endian, before the data.\<close>

definition u32_le_bytes :: "u32 \<Rightarrow> bytes" where
  "u32_le_bytes x = [ucast x, ucast (drop_bit 8 x), ucast (drop_bit 16 x), ucast (drop_bit 24 x)]"

definition u16_le_bytes :: "u16 \<Rightarrow> bytes" where
  "u16_le_bytes x = [ucast x, ucast (drop_bit 8 x)]"

definition ipv4_to_u32 :: "bytes \<Rightarrow> u32" where
  "ipv4_to_u32 ip = u32_of_bytes (ip ! 0) (ip ! 1) (ip ! 2) (ip ! 3)"

definition ipv4_from_u32 :: "u32 \<Rightarrow> bytes" where
  "ipv4_from_u32 x = [ucast (drop_bit 24 x), ucast (drop_bit 16 x), ucast (drop_bit 8 x), ucast x]"

definition transfer_ip_to_vsock_transparent :: "u32 \<times> u32 \<Rightarrow> connection \<Rightarrow> status \<times> (u32 \<times> u32) transfer" where
  "transfer_ip_to_vsock_transparent proxy_addr c =
     (case own_addr c of Inl e \<Rightarrow> (Fails ''could not fetch inbound addr'', nothing)
      | Inr a \<Rightarrow>
      case get_original_dst (original c) of None \<Rightarrow> (Panics, nothing)
      | Some None \<Rightarrow> (Fails ''Failed to retrieve original destination'', nothing)
      | Some (Some orig_dst) \<Rightarrow>
      case connect_answer c of Some e \<Rightarrow> (Fails ''failed to connect to endpoint'', nothing)
      | None \<Rightarrow>
      let t = nothing\<lparr>target := Some proxy_addr\<rparr> in
      case orig_dst of V6 ip port flow scope \<Rightarrow> (Fails ''Received ipv6 address'', t)
      | V4 ip port \<Rightarrow>
      case write_ip c of Some e \<Rightarrow> (Fails e, t)
      | None \<Rightarrow>
      let t = t\<lparr>written := u32_le_bytes (ipv4_to_u32 ip)\<rparr> in
      case write_port c of Some e \<Rightarrow> (Fails e, t)
      | None \<Rightarrow>
      copy_both ''error in connection'' (history c) (t\<lparr>written := written t @ u16_le_bytes (addr_port orig_dst)\<rparr>))"

text \<open>\<open>first_bytes\<close> is what arrives of the six bytes of the header before the stream ends.\<close>

definition transfer_vsock_to_ip_transparent :: "connection \<Rightarrow> status \<times> socket_addr transfer" where
  "transfer_vsock_to_ip_transparent c =
     (case own_addr c of Inl e \<Rightarrow> (Fails ''could not fetch inbound addr'', nothing)
      | Inr a \<Rightarrow>
      if length (first_bytes c) < 6 then (Fails ''early eof'', nothing)
      else
        let proxy_addr = V4 (ipv4_from_u32 (u32_native (field (first_bytes c) 0 4))) (u16_native (field (first_bytes c) 4 2)) in
        case connect_answer c of Some e \<Rightarrow> (Fails ''failed to connect to endpoint'', nothing)
        | None \<Rightarrow> copy_both ''error in connection'' (history c) (nothing\<lparr>target := Some proxy_addr\<rparr>))"

text \<open>
  The accept loop of every program: each connection is handed to a task of its own; the first error of \<open>accept\<close>
  leaves the loop, and the program returns without an error.
\<close>

fun proxy :: "(io_error + 'c) list \<Rightarrow> 'c list \<times> bool" where
  "proxy [] = ([], False)"
| "proxy (Inl e # as) = ([], True)"
| "proxy (Inr c # as) = (case proxy as of (cs, ended) \<Rightarrow> (c # cs, ended))"

lemma proxy_serves: "proxy as = (map projr (takeWhile (\<lambda>a. \<not> isl a) as), \<exists>a \<in> set as. isl a)"
  by (induction as rule: proxy.induct) auto

section \<open>What the copies carry\<close>

text \<open>The bytes that arrive on a side until it ends.\<close>

fun arriving :: "side \<Rightarrow> relay_event list \<Rightarrow> bytes" where
  "arriving s [] = []"
| "arriving s (Data s' bs # es) = (if s' = s then bs @ arriving s es else arriving s es)"
| "arriving s (Eof s' # es) = (if s' = s then [] else arriving s es)"
| "arriving s (ShutdownFailed s' e # es) = (if s' = s then [] else arriving s es)"
| "arriving s (Broken s' bs e # es) = (if s' = s then bs else arriving s es)"

lemma push_simps [simp]:
  "sent (push s bs r) s' = (if s' = s then sent r s @ bs else sent r s')" "closed (push s bs r) = closed r"
  by (simp_all add: push_def)

lemma shut_simps [simp]: "sent (shut s r) = sent r" "closed (shut s r) s' = (s' = s \<or> closed r s')"
  by (simp_all add: shut_def)

text \<open>Each side gets a prefix of what arrives for it, all of it unless a copy fails, and is closed only after all of
  it.\<close>

lemma try_join_closed: "try_join r es = (res, r') \<Longrightarrow> closed r s \<Longrightarrow> sent r' s = sent r s \<and> closed r' s"
proof (induction r es arbitrary: res r' rule: try_join.induct)
  case (1 r es)
  show ?case
  proof (cases "closed r Up \<and> closed r Down")
    case True
    with 1(4,5) show ?thesis by (cases s) (auto simp: try_join.simps [of r])
  next
    case live: False
    show ?thesis
    proof (cases es)
      case Nil
      with 1(4,5) live show ?thesis by (simp add: try_join.simps [of r])
    next
      case (Cons e es')
      show ?thesis
      proof (cases "closed r (event_side e)")
        case True
        with 1(4) live Cons have "try_join r es' = (res, r')" by (simp add: try_join.simps [of r "_ # es'"])
        from 1(1) [OF live Cons True this 1(5)] show ?thesis .
      next
        case False
        then show ?thesis
        proof (cases e)
          case (Data s' bs)
          with 1(4) live Cons False have "try_join (push s' bs r) es' = (res, r')" by (simp add: try_join.simps [of r "_ # es'"])
          from 1(2) [OF live Cons False Data this] 1(5) False Data show ?thesis by (auto split: if_splits)
        next
          case (Eof s')
          with 1(4) live Cons False have "try_join (shut s' r) es' = (res, r')" by (simp add: try_join.simps [of r "_ # es'"])
          from 1(3) [OF live Cons False Eof this] 1(5) False Eof show ?thesis by auto
        qed (use 1(4,5) live Cons False in \<open>auto simp: try_join.simps [of r "_ # es'"]\<close>)
      qed
    qed
  qed
qed

lemma try_join_sent:
  "try_join r es = (res, r') \<Longrightarrow> \<not> closed r s \<Longrightarrow>
     \<exists>bs. sent r' s = sent r s @ bs \<and> prefix bs (arriving s es) \<and>
       ((\<forall>e. res \<noteq> Some (Inl e)) \<or> closed r' s \<longrightarrow> bs = arriving s es)"
proof (induction r es arbitrary: res r' rule: try_join.induct)
  case (1 r es)
  from 1(5) have live: "\<not> (closed r Up \<and> closed r Down)" by (cases s) auto
  show ?case
  proof (cases es)
    case Nil
    with 1(4,5) live show ?thesis by (simp add: try_join.simps [of r])
  next
    case (Cons e es')
    show ?thesis
    proof (cases "closed r (event_side e)")
      case True
      with 1(4) live Cons have "try_join r es' = (res, r')" by (simp add: try_join.simps [of r "_ # es'"])
      from 1(1) [OF live Cons True this 1(5)] True 1(5) Cons show ?thesis by (cases e) (auto split: if_splits)
    next
      case False
      then show ?thesis
      proof (cases e)
        case (Data s' bs)
        with 1(4) live Cons False have "try_join (push s' bs r) es' = (res, r')" by (simp add: try_join.simps [of r "_ # es'"])
        from 1(2) [OF live Cons False Data this] 1(5) Data Cons show ?thesis by (auto split: if_splits)
      next
        case (Eof s')
        with 1(4) live Cons False have run: "try_join (shut s' r) es' = (res, r')" by (simp add: try_join.simps [of r "_ # es'"])
        show ?thesis
        proof (cases "s' = s")
          case True
          with try_join_closed [OF run, of s] Eof Cons show ?thesis by auto
        next
          case False
          with 1(3) [OF live Cons \<open>\<not> closed r (event_side e)\<close> Eof run] 1(5) Eof Cons show ?thesis by auto
        qed
      qed (use 1(4,5) live Cons False in \<open>auto simp: try_join.simps [of r "_ # es'"]\<close>)
    qed
  qed
qed

lemma try_join_new:
  assumes "try_join relay_new es = (res, r)"
  shows "prefix (sent r s) (arriving s es)" and "(\<forall>e. res \<noteq> Some (Inl e)) \<or> closed r s \<Longrightarrow> sent r s = arriving s es"
  using try_join_sent [OF assms, of s] by (auto simp: relay_new_def)

section \<open>The header and the original destination\<close>

lemma u16_le_roundtrip: "u16_native (u16_le_bytes x) = x"
  by (simp add: u16_native_def u16_le_bytes_def u16_be_roundtrip)

lemma u16_be_memory: "ntoh16 (u16_native (u16_to_be_bytes x)) = x"
  unfolding ntoh16_def u16_native_def u16_to_be_bytes_def u16_from_be_bytes_def
  by (rule bit_word_eqI) (auto simp: bit_simps dest: bit_imp_le_length)

lemma u32_of_bytes_parts:
  "ucast (drop_bit 24 (u32_of_bytes a b c d)) = a" "ucast (drop_bit 16 (u32_of_bytes a b c d)) = b"
  "ucast (drop_bit 8 (u32_of_bytes a b c d)) = c" "ucast (u32_of_bytes a b c d) = d"
  unfolding u32_of_bytes_def
  by (rule bit_word_eqI; auto simp: bit_simps dest: bit_imp_le_length)+

lemma u32_of_bytes_whole:
  fixes x :: u32
  shows "u32_of_bytes (ucast (drop_bit 24 x)) (ucast (drop_bit 16 x)) (ucast (drop_bit 8 x)) (ucast x) = x"
  unfolding u32_of_bytes_def
proof (rule bit_word_eqI)
  fix n
  assume "n < LENGTH(32)"
  consider "n < 8" | "8 \<le> n" "n < 16" | "16 \<le> n" "n < 24" | "24 \<le> n" by linarith
  then show "bit (push_bit 24 (ucast (ucast (drop_bit 24 x) :: u8)) OR push_bit 16 (ucast (ucast (drop_bit 16 x) :: u8)) OR
      push_bit 8 (ucast (ucast (drop_bit 8 x) :: u8)) OR ucast (ucast x :: u8) :: u32) n = bit x n"
    by cases (use \<open>n < LENGTH(32)\<close> in \<open>auto simp: bit_simps\<close>)
qed

lemma u32_le_roundtrip: "u32_native (u32_le_bytes x) = x"
  by (simp add: u32_native_def u32_le_bytes_def u32_of_bytes_whole)

lemma ipv4_roundtrip: "length ip = 4 \<Longrightarrow> ipv4_from_u32 (ipv4_to_u32 ip) = ip"
proof -
  assume "length ip = 4"
  then obtain a b c d where ip: "ip = [a, b, c, d]" by (auto simp: numeral_eq_Suc length_Suc_conv)
  show ?thesis by (simp add: ip ipv4_from_u32_def ipv4_to_u32_def u32_of_bytes_parts)
qed

lemma mk_addr_v4:
  assumes "length ip = 4" and "16 \<le> len"
  shows "mk_addr ([2, 0] @ u16_to_be_bytes port @ ip @ rest) len = Some (Inr (V4 ip port))"
proof -
  from assms(1) obtain a b c d where ip: "ip = [a, b, c, d]" by (auto simp: numeral_eq_Suc length_Suc_conv)
  let ?s = "[2, 0] @ u16_to_be_bytes port @ ip @ rest"
  have "u16_native (field ?s 0 2) = 2" by (simp add: field_def u16_native_def u16_from_be_bytes_def)
  moreover have "field ?s 2 2 = u16_to_be_bytes port" by (simp add: field_def)
  moreover have "field ?s 4 4 = [a, b, c, d]" by (simp add: field_def u16_to_be_bytes_def ip)
  moreover have "ntoh32 (u32_native [a, b, c, d]) = u32_of_bytes a b c d"
    by (simp add: ntoh32_def u32_native_def u32_of_bytes_parts)
  ultimately show ?thesis using assms(2)
    by (simp add: mk_addr_def Let_def u16_be_memory u32_of_bytes_parts ip)
qed

section \<open>The transparent pair\<close>

text \<open>C32: A connection that netfilter redirected to the first transparent proxy reaches its original destination
  through the second: whatever the vsock connection has delivered so far, the second proxy connects to the address
  and port that the kernel reports, the server gets a prefix of what the client sent and the client a prefix of what
  the server sent; when both transfers end without an error and all is delivered, both get everything.\<close>

theorem transparent_tunnel_exact:
  assumes redirected: "original c1 = Inr ([2, 0] @ u16_to_be_bytes port @ ip @ rest, len)" "length ip = 4" "16 \<le> len"
    and first_end: "own_addr c1 = Inr a1" "connect_answer c1 = None" "write_ip c1 = None" "write_port c1 = None"
    and second_end: "own_addr c2 = Inr a2" "connect_answer c2 = None" "length (first_bytes c2) = 6"
    and run1: "transfer_ip_to_vsock_transparent vsock c1 = (s1, t1)"
    and run2: "transfer_vsock_to_ip_transparent c2 = (s2, t2)"
    and there: "prefix (first_bytes c2 @ arriving Up (history c2)) (written t1 @ sent (copies t1) Up)"
    and homeward: "prefix (arriving Down (history c1)) (sent (copies t2) Down)"
  shows "target t1 = Some vsock \<and> target t2 = Some (V4 ip port) \<and>
    prefix (sent (copies t2) Up) (arriving Up (history c1)) \<and>
    prefix (sent (copies t1) Down) (arriving Down (history c2)) \<and>
    (s1 = Ends \<and> s2 = Ends \<and> first_bytes c2 @ arriving Up (history c2) = written t1 @ sent (copies t1) Up \<and>
       arriving Down (history c1) = sent (copies t2) Down \<longrightarrow>
     sent (copies t2) Up = arriving Up (history c1) \<and> sent (copies t1) Down = arriving Down (history c2))"
proof -
  let ?h = "u32_le_bytes (ipv4_to_u32 ip) @ u16_le_bytes port"
  obtain r1 q1 where j1: "try_join relay_new (history c1) = (r1, q1)" by (cases "try_join relay_new (history c1)")
  obtain r2 q2 where j2: "try_join relay_new (history c2) = (r2, q2)" by (cases "try_join relay_new (history c2)")
  from run1 have t1: "target t1 = Some vsock" "written t1 = ?h" "copies t1 = q1" "s1 = Ends \<Longrightarrow> \<forall>e. r1 \<noteq> Some (Inl e)"
    using redirected first_end mk_addr_v4 [OF redirected(2,3), of port rest] j1
    by (auto simp: transfer_ip_to_vsock_transparent_def get_original_dst_def so_original_dst_def copy_both_def nothing_def
        Let_def)
  from run2 have t2: "copies t2 = q2" "s2 = Ends \<Longrightarrow> \<forall>e. r2 \<noteq> Some (Inl e)"
      "target t2 = Some (V4 (ipv4_from_u32 (u32_native (field (first_bytes c2) 0 4))) (u16_native (field (first_bytes c2) 4 2)))"
    using second_end j2 by (auto simp: transfer_vsock_to_ip_transparent_def copy_both_def nothing_def Let_def)
  have len: "length ?h = 6" by (simp add: u32_le_bytes_def u16_le_bytes_def)
  from there t1(2) obtain z where z: "?h @ sent (copies t1) Up = (first_bytes c2 @ arriving Up (history c2)) @ z"
    by (auto simp: prefix_def)
  then have "?h = first_bytes c2 \<and> sent (copies t1) Up = arriving Up (history c2) @ z"
    using len second_end(3) by (intro append_eq_append_conv [THEN iffD1]) (simp_all only: append_assoc simp_thms)
  then have header: "first_bytes c2 = ?h" and up: "prefix (arriving Up (history c2)) (sent q1 Up)"
    using t1(3) by (simp_all add: prefix_def)
  have "field ?h 0 4 = u32_le_bytes (ipv4_to_u32 ip)" "field ?h 4 2 = u16_le_bytes port"
    by (simp_all add: field_def u32_le_bytes_def u16_le_bytes_def)
  with t2(3) header have target: "target t2 = Some (V4 ip port)"
    by (simp add: u32_le_roundtrip u16_le_roundtrip ipv4_roundtrip redirected(2))
  note p1 = try_join_new [OF j1] and p2 = try_join_new [OF j2]
  have "prefix (sent q2 Up) (arriving Up (history c1))"
    using p2(1) [of Up] up p1(1) [of Up] by (meson prefix_order.order_trans)
  moreover have "prefix (sent q1 Down) (arriving Down (history c2))"
    using p1(1) [of Down] homeward t2(1) p2(1) [of Down] by (metis prefix_order.order_trans)
  moreover have "sent q2 Up = arriving Up (history c1) \<and> sent q1 Down = arriving Down (history c2)"
    if "s1 = Ends \<and> s2 = Ends \<and> first_bytes c2 @ arriving Up (history c2) = written t1 @ sent (copies t1) Up \<and>
       arriving Down (history c1) = sent (copies t2) Down"
    using that p1(2) p2(2) t1 t2(1,2) header by auto
  ultimately show ?thesis using t1(1,3) t2(1) target by simp
qed

definition sample_client :: connection where
  "sample_client = \<lparr>own_addr = Inr ''10.0.0.2:5000'', original = Inr ([2, 0, 1, 187, 93, 184, 216, 34] @ replicate 8 0, 16),
     connect_answer = None, write_ip = None, write_port = None, first_bytes = [],
     history = [Data Up [1, 2], Data Down [7], Eof Down, Data Up [3], Eof Up]\<rparr>"

definition sample_server :: connection where
  "sample_server = \<lparr>own_addr = Inr ''vsock'', original = Inl ''none'',
     connect_answer = None, write_ip = None, write_port = None, first_bytes = [34, 216, 184, 93, 187, 1],
     history = [Data Down [7], Data Up [1], Eof Down, Data Up [2, 3], Eof Up]\<rparr>"

theorem transparent_tunnel_exact_witness:
  "\<exists>s1 t1 s2 t2. transfer_ip_to_vsock_transparent (3, 1200) sample_client = (s1, t1) \<and>
     transfer_vsock_to_ip_transparent sample_server = (s2, t2) \<and>
     target t2 = Some (V4 [93, 184, 216, 34] 443) \<and> sent (copies t2) Up = [1, 2, 3] \<and> sent (copies t1) Down = [7]"
proof -
  let ?ip = "[93, 184, 216, 34] :: bytes"
  have orig: "original sample_client = Inr ([2, 0] @ u16_to_be_bytes 443 @ ?ip @ replicate 8 0, 16)"
    by (simp add: sample_client_def u16_to_be_bytes_def)
  obtain s1 t1 where run1: "transfer_ip_to_vsock_transparent (3, 1200) sample_client = (s1, t1)"
    by (cases "transfer_ip_to_vsock_transparent (3, 1200) sample_client")
  obtain s2 t2 where run2: "transfer_vsock_to_ip_transparent sample_server = (s2, t2)"
    by (cases "transfer_vsock_to_ip_transparent sample_server")
  have fields: "own_addr sample_client = Inr ''10.0.0.2:5000''" "connect_answer sample_client = None"
      "write_ip sample_client = None" "write_port sample_client = None"
      "history sample_client = [Data Up [1, 2], Data Down [7], Eof Down, Data Up [3], Eof Up]"
    by (simp_all add: sample_client_def)
  have "get_original_dst (original sample_client) = Some (Some (V4 ?ip 443))"
    unfolding get_original_dst_def so_original_dst_def orig
    by (subst sum.case, subst prod.case, subst mk_addr_v4) simp_all
  with run1 fields have one: "s1 = Ends" "written t1 = [34, 216, 184, 93, 187, 1]" "sent (copies t1) Up = [1, 2, 3]"
    by (auto simp: transfer_ip_to_vsock_transparent_def copy_both_def nothing_def try_join.simps relay_new_def
        u32_le_bytes_def u16_le_bytes_def ipv4_to_u32_def u32_of_bytes_parts Let_def)
  have two: "s2 = Ends" "sent (copies t2) Down = [7]"
    using run2 by (auto simp: transfer_vsock_to_ip_transparent_def sample_server_def copy_both_def nothing_def
        try_join.simps relay_new_def Let_def)
  have "arriving Up (history sample_server) = [1, 2, 3]" "arriving Down (history sample_client) = [7]"
      "arriving Up (history sample_client) = [1, 2, 3]" "arriving Down (history sample_server) = [7]"
      "first_bytes sample_server = [34, 216, 184, 93, 187, 1]"
    by (simp_all add: sample_server_def sample_client_def)
  with transparent_tunnel_exact [OF orig _ _ _ _ _ _ _ _ _ run1 run2] run1 run2 one two show ?thesis
    by (simp add: sample_client_def sample_server_def)
qed

end
