(* ===== verification/CP_Startup.thy ===== *)
theory CP_Startup
  imports CP_Ssh
begin

text \<open>
  The start of the control plane: the SSH key pair of the operator and its import into every region
  (\<open>operator/control-plane/src/aws.rs\<close>: \<open>Aws::new\<close>, \<open>generate_key_pair\<close>, \<open>key_setup\<close>), the files of settings and
  \<open>run\<close> (\<open>main.rs\<close>), and the end points of the metadata server (\<open>server.rs\<close>).

  The host is the files by path, the key pairs of each region, and what happens next: a fault for each fallible call,
  in order (none left means that the call works). A write that fails leaves a prefix of its data in the file. The
  key formats and the random generator are parameters.
\<close>

section \<open>The host\<close>

datatype fault = Works | Breaks nat

record host =
  files :: "string \<Rightarrow> string option"
  key_pairs :: "string \<Rightarrow> (string \<times> string) list"
  faults :: "fault list"

definition next_fault :: "host \<Rightarrow> fault \<times> host" where
  "next_fault w = (case faults w of [] \<Rightarrow> (Works, w) | f # fs \<Rightarrow> (f, w\<lparr>faults := fs\<rparr>))"

definition read_file :: "string \<Rightarrow> (host, string) io" where
  "read_file path w =
     (case next_fault w of
        (Breaks n, w) \<Rightarrow> (Inl ''io error'', w)
      | (Works, w) \<Rightarrow> (case files w path of None \<Rightarrow> (Inl ''not found'', w) | Some s \<Rightarrow> (Inr s, w)))"

definition write_file :: "string \<Rightarrow> string \<Rightarrow> (host, unit) io" where
  "write_file path s w =
     (case next_fault w of
        (Breaks 0, w) \<Rightarrow> (Inl ''io error'', w)
      | (Breaks (Suc n), w) \<Rightarrow> (Inl ''io error'', w\<lparr>files := (files w)(path \<mapsto> take n s)\<rparr>)
      | (Works, w) \<Rightarrow> (Inr (), w\<lparr>files := (files w)(path \<mapsto> s)\<rparr>))"

section \<open>The key pair\<close>

record 'k key_lib =
  parse_private :: "string \<Rightarrow> 'k option"
  print_private :: "'k \<Rightarrow> string"
  print_public :: "'k \<Rightarrow> string"
  random_key :: "host \<Rightarrow> 'k option"

record aws =
  clients :: "string list"
  aws_cfg :: aws_config
  key_location :: string
  pub_key_location :: string

definition aws_new :: "string \<Rightarrow> string list \<Rightarrow> string \<Rightarrow> string list option \<Rightarrow> string list option \<Rightarrow> aws" where
  "aws_new user regions name whitelist blacklist =
     \<lparr>clients = regions,
      aws_cfg = \<lparr>key_name = name, eif_whitelist = whitelist, eif_blacklist = blacklist\<rparr>,
      key_location = ''/home/'' @ user @ ''/.ssh/'' @ name @ ''.pem'',
      pub_key_location = ''/home/'' @ user @ ''/.ssh/'' @ name @ ''.pub''\<rparr>"

definition read_private :: "'k key_lib \<Rightarrow> string \<Rightarrow> (host, 'k) io" where
  "read_private lib path = io_bind (read_file path) (\<lambda>s. io_ok_or ''bad key'' (parse_private lib s))"

definition generate_key_pair :: "'k key_lib \<Rightarrow> aws \<Rightarrow> (host, unit) io" where
  "generate_key_pair lib aws w =
     (let priv_check = (files w (key_location aws) \<noteq> None);
          pub_check = (files w (pub_key_location aws) \<noteq> None)
      in if priv_check \<and> pub_check then io_ok () w
         else if priv_check then
           io_bind (io_context ''Failed to read private key file'' (read_private lib (key_location aws)))
             (\<lambda>private_key. io_context ''Failed to write public key file''
                (write_file (pub_key_location aws) (print_public lib private_key))) w
         else if pub_check then
           io_err ''Found public key file without corresponding private key file, exiting to prevent overwriting it'' w
         else
           io_bind (io_context ''Failed to generate private key'' (io_ok_or ''no random'' (random_key lib w)))
             (\<lambda>private_key.
           io_then (io_context ''Failed to write private key file''
              (write_file (key_location aws) (print_private lib private_key)))
           (io_context ''Failed to write public key file''
              (write_file (pub_key_location aws) (print_public lib private_key)))) w)"

text \<open>The calls of EC2 in a region; a region without a client panics.\<close>

definition in_region :: "aws \<Rightarrow> string \<Rightarrow> (host, 'a) io \<Rightarrow> host \<Rightarrow> ('a rust_result \<times> host) option" where
  "in_region aws rg m w = (if rg \<in> set (clients aws) then Some (m w) else None)"

definition check_key_pair :: "aws \<Rightarrow> string \<Rightarrow> (host, bool) io" where
  "check_key_pair aws rg w =
     (case next_fault w of
        (Breaks n, w) \<Rightarrow> (Inl ''failed to query key pairs'', w)
      | (Works, w) \<Rightarrow> (Inr (filter (\<lambda>p. fst p = key_name (aws_cfg aws)) (key_pairs w rg) \<noteq> []), w))"

definition import_key_pair :: "aws \<Rightarrow> string \<Rightarrow> (host, unit) io" where
  "import_key_pair aws rg =
     io_bind (io_context ''Failed to open pub key file'' (read_file (pub_key_location aws))) (\<lambda>buffer w.
     case next_fault w of
       (Breaks n, w) \<Rightarrow> (Inl ''Failed to import key pair'', w)
     | (Works, w) \<Rightarrow>
         (Inr (), w\<lparr>key_pairs := (key_pairs w)(rg := key_pairs w rg @ [(key_name (aws_cfg aws), buffer)])\<rparr>))"

definition key_setup :: "aws \<Rightarrow> string \<Rightarrow> host \<Rightarrow> (unit rust_result \<times> host) option" where
  "key_setup aws rg w =
     in_region aws rg
       (io_bind (io_context ''failed to check key pair'' (check_key_pair aws rg)) (\<lambda>key_check.
        if \<not> key_check then io_context (''Failed to import key pair in '' @ rg) (import_key_pair aws rg)
        else io_ok ())) w"

fun key_setup_all :: "aws \<Rightarrow> string list \<Rightarrow> host \<Rightarrow> (unit rust_result \<times> host) option" where
  "key_setup_all aws [] w = Some (io_ok () w)"
| "key_setup_all aws (rg # regions) w =
     (case key_setup aws rg w of None \<Rightarrow> None
      | Some (Inl e, w) \<Rightarrow> Some (Inl (''Failed to setup key pair in '' @ rg), w)
      | Some (Inr u, w) \<Rightarrow> key_setup_all aws regions w)"

section \<open>Settings and start\<close>

text \<open>\<open>str::lines\<close>: lines end in a newline, with or without a carriage return; the last may lack it.\<close>

definition strip_cr :: "string \<Rightarrow> string" where
  "strip_cr l = (if l \<noteq> [] \<and> last l = CHR 0x0D then butlast l else l)"

definition str_lines :: "string \<Rightarrow> string list" where
  "str_lines s =
     (let ls = split_on CHR 0x0A s
      in map strip_cr (if last ls = [] then butlast ls else butlast ls) @
         (if last ls = [] then [] else [last ls]))"

definition parse_file :: "string \<Rightarrow> (host, string list) io" where
  "parse_file filepath =
     (if filepath = [] then io_ok []
      else io_bind (io_context ''Error reading file'' (read_file filepath)) (\<lambda>contents. io_ok (str_lines contents)))"

definition parse_rates_file :: "(string \<Rightarrow> 'r list option) \<Rightarrow> string \<Rightarrow> (host, 'r list) io" where
  "parse_rates_file from_str filepath =
     (if filepath = [] then io_ok []
      else io_bind (io_context ''Error reading file'' (read_file filepath)) (\<lambda>contents.
           io_ok_or ''failed to parse rates file'' (from_str contents)))"

definition parse_list :: "string \<Rightarrow> string \<Rightarrow> (host, string list option) io" where
  "parse_list msg filepath =
     (if filepath \<noteq> [] then io_bind (io_context msg (parse_file filepath)) (\<lambda>l. io_ok (Some l)) else io_ok None)"

record cli =
  cli_key_name :: string
  cli_regions :: string
  cli_rates :: string
  cli_bandwidth :: string
  cli_contract :: string
  cli_provider :: string
  cli_whitelist :: string
  cli_blacklist :: string
  cli_address_whitelist :: string
  cli_address_blacklist :: string

record ('r, 'g) settings =
  se_aws :: aws
  se_regions :: "string list"
  se_compute_rates :: "'r list"
  se_bandwidth_rates :: "'g list"
  se_address_whitelist :: "string list"
  se_address_blacklist :: "string list"
  se_job_id :: job_id

text \<open>What is outside: the user, the parsers of the rates, the chain id the RPC gives, the parser of addresses.\<close>

record ('r, 'g) outside =
  out_user :: string
  out_rates :: "string \<Rightarrow> 'r list option"
  out_bandwidth :: "string \<Rightarrow> 'g list option"
  out_chain :: "string option"
  out_address :: "string \<Rightarrow> bool"

definition zero_job :: string where
  "zero_job = ''0x'' @ replicate 64 CHR ''0''"

text \<open>\<open>run\<close> up to the point where the market loop starts, with what it hands over. \<open>None\<close> is a panic.\<close>

definition lift_some :: "(host, 'a) io \<Rightarrow> host \<Rightarrow> ('a rust_result \<times> host) option" where
  "lift_some m w = Some (m w)"

definition then_some ::
  "(host \<Rightarrow> ('a rust_result \<times> host) option) \<Rightarrow> ('a \<Rightarrow> host \<Rightarrow> ('b rust_result \<times> host) option)
    \<Rightarrow> host \<Rightarrow> ('b rust_result \<times> host) option"
where
  "then_some m f w = (case m w of None \<Rightarrow> None | Some (Inl e, w) \<Rightarrow> Some (Inl e, w) | Some (Inr x, w) \<Rightarrow> f x w)"

definition run_start ::
  "'k key_lib \<Rightarrow> ('r, 'g) outside \<Rightarrow> cli \<Rightarrow> host \<Rightarrow> (('r, 'g) settings rust_result \<times> host) option"
where
  "run_start lib out cli =
     (let regions = split_on CHR '','' (cli_regions cli) in
      then_some (lift_some (parse_list ''Failed to parse eif whitelist'' (cli_whitelist cli))) (\<lambda>whitelist.
      then_some (lift_some (parse_list ''Failed to parse eif blacklist'' (cli_blacklist cli))) (\<lambda>blacklist.
      let aws = aws_new (out_user out) regions (cli_key_name cli) whitelist blacklist in
      then_some (lift_some (io_context ''Failed to generate key pair'' (generate_key_pair lib aws))) (\<lambda>_.
      then_some (key_setup_all aws regions) (\<lambda>_.
      then_some (lift_some (io_context ''failed to parse computes rates file''
          (parse_rates_file (out_rates out) (cli_rates cli)))) (\<lambda>compute_rates.
      then_some (lift_some (io_context ''failed to parse bandwidth rates file''
          (parse_rates_file (out_bandwidth out) (cli_bandwidth cli)))) (\<lambda>bandwidth_rates.
      then_some (lift_some (io_context ''Failed to parse address whitelist''
          (parse_file (cli_address_whitelist cli)))) (\<lambda>address_whitelist.
      then_some (lift_some (io_context ''Failed to parse address blacklist''
          (parse_file (cli_address_blacklist cli)))) (\<lambda>address_blacklist.
      then_some (lift_some (io_ok_or ''Failed to fetch chain_id'' (out_chain out))) (\<lambda>chain.
      then_some (lift_some (io_ensure (out_address out (cli_contract cli)) ''failed to parse contract address'')) (\<lambda>_.
      then_some (lift_some (io_ensure (out_address out (cli_provider cli)) ''failed to parse provider address'')) (\<lambda>_.
      lift_some (io_ok
        \<lparr>se_aws = aws, se_regions = regions, se_compute_rates = compute_rates, se_bandwidth_rates = bandwidth_rates,
         se_address_whitelist = address_whitelist, se_address_blacklist = address_blacklist,
         se_job_id = \<lparr>jid_id = zero_job, jid_operator = cli_provider cli, jid_contract = cli_contract cli,
           jid_chain = chain\<rparr>\<rparr>)))))))))))))"

section \<open>The metadata server\<close>

datatype 'a http_answer = Answer 'a | Bad_Request

text \<open>The query of an address: both parameters are needed; the job is one of this operator.\<close>

definition handle_ip_request ::
  "(job_id \<Rightarrow> string \<Rightarrow> ('w, string) io) \<Rightarrow> job_id \<Rightarrow> string option \<Rightarrow> string option \<Rightarrow> 'w \<Rightarrow> string http_answer \<times> 'w"
where
  "handle_ip_request get_ip own qid qregion w =
     (case (qid, qregion) of
        (Some i, Some rg) \<Rightarrow>
          (case get_ip (own\<lparr>jid_id := i\<rparr>) rg w of
             (Inl e, w) \<Rightarrow> (Bad_Request, w) | (Inr ip, w) \<Rightarrow> (Answer ip, w))
      | _ \<Rightarrow> (Bad_Request, w))"

definition handle_spec_request :: "('r, 'g) settings \<Rightarrow> (string list \<times> 'r list) http_answer" where
  "handle_spec_request s = Answer (se_regions s, se_compute_rates s)"

definition handle_bandwidth_request :: "('r, 'g) settings \<Rightarrow> 'g list http_answer" where
  "handle_bandwidth_request s = Answer (se_bandwidth_rates s)"

section \<open>What the start leaves alone\<close>

text \<open>Files keep their content, and the key pairs of a region stay where they are.\<close>

definition grows :: "host \<Rightarrow> host \<Rightarrow> bool" where
  "grows w w' \<longleftrightarrow> files w \<subseteq>\<^sub>m files w' \<and> (\<forall>rg. prefix (key_pairs w rg) (key_pairs w' rg))"

interpretation start: io_relation grows
  by unfold_locales (auto simp: grows_def intro: map_le_trans prefix_order.order_trans)

lemma next_fault_same: "next_fault w = (f, w1) \<Longrightarrow> files w1 = files w \<and> key_pairs w1 = key_pairs w"
  by (auto simp: next_fault_def split: list.splits)

lemma grows_read_file: "io_keeps grows (read_file path)"
  by (auto simp: io_keeps_def read_file_def grows_def dest: next_fault_same split: prod.splits fault.splits option.splits)

lemma grows_read_private: "io_keeps grows (read_private lib path)"
  unfolding read_private_def by (intro start.keeps grows_read_file)

lemma write_file_new:
  assumes "files w path = None" and "write_file path s w = (r, w')"
  shows "grows w w' \<and> (r = Inr () \<longrightarrow> files w' = (files w)(path \<mapsto> s)) \<and> (\<forall>p. p \<noteq> path \<longrightarrow> files w' p = files w p)"
proof -
  obtain f w1 where n: "next_fault w = (f, w1)" by (cases "next_fault w")
  from next_fault_same [OF n] have same: "files w1 = files w" "key_pairs w1 = key_pairs w" by auto
  from assms n same show ?thesis
    by (auto simp: write_file_def grows_def map_le_def split: fault.splits nat.splits)
qed

lemma grows_check_key_pair: "io_keeps grows (check_key_pair aws rg)"
  by (auto simp: io_keeps_def check_key_pair_def grows_def dest: next_fault_same split: prod.splits fault.splits)

lemma grows_import_key_pair: "io_keeps grows (import_key_pair aws rg)"
  unfolding import_key_pair_def
  by (intro start.keeps grows_read_file)
    (auto simp: io_keeps_def grows_def dest: next_fault_same split: prod.splits fault.splits)

lemma grows_parse_file: "io_keeps grows (parse_file path)"
  unfolding parse_file_def by (intro start.keeps grows_read_file)

lemma grows_parse_list: "io_keeps grows (parse_list msg path)"
  unfolding parse_list_def by (intro start.keeps grows_parse_file)

lemma grows_parse_rates: "io_keeps grows (parse_rates_file f path)"
  unfolding parse_rates_file_def by (intro start.keeps grows_read_file)

definition keeps_some :: "(host \<Rightarrow> ('a rust_result \<times> host) option) \<Rightarrow> bool" where
  "keeps_some m \<longleftrightarrow> (\<forall>w r w'. m w = Some (r, w') \<longrightarrow> grows w w')"

lemma keeps_some_lift: "io_keeps grows m \<Longrightarrow> keeps_some (lift_some m)"
  by (auto simp: keeps_some_def lift_some_def io_keeps_def) (metis snd_conv)

lemma keeps_some_then:
  assumes "keeps_some m" and "\<And>x. keeps_some (f x)"
  shows "keeps_some (then_some m f)"
  using assms unfolding keeps_some_def then_some_def
  by (auto split: option.splits prod.splits sum.splits) (metis start.trans)+

lemma then_some_Inr:
  "then_some m f w = Some (Inr y, w') \<longleftrightarrow> (\<exists>x w1. m w = Some (Inr x, w1) \<and> f x w1 = Some (Inr y, w'))"
  by (auto simp: then_some_def split: option.splits prod.splits sum.splits)

lemma then_some_defined: "m w \<noteq> None \<Longrightarrow> (\<And>x w. f x w \<noteq> None) \<Longrightarrow> then_some m f w \<noteq> None"
  by (auto simp: then_some_def split: option.splits prod.splits sum.splits)

lemma lift_some_Inr [simp]: "lift_some m w = Some (Inr y, w') \<longleftrightarrow> m w = (Inr y, w')"
  and lift_some_defined [simp]: "lift_some m w \<noteq> None"
  by (simp_all add: lift_some_def)

text \<open>The key files.\<close>

definition key_files_ok :: "'k key_lib \<Rightarrow> aws \<Rightarrow> host \<Rightarrow> bool" where
  "key_files_ok lib aws w \<longleftrightarrow> (\<exists>s k. files w (key_location aws) = Some s \<and> parse_private lib s = Some k \<and>
     files w (pub_key_location aws) = Some (print_public lib k))"

lemma key_files_grow: "key_files_ok lib aws w \<Longrightarrow> grows w w' \<Longrightarrow> key_files_ok lib aws w'"
  unfolding key_files_ok_def grows_def map_le_def by (metis domI)

lemma read_private_Inr:
  "read_private lib path w = (Inr k, w') \<Longrightarrow>
     files w' = files w \<and> (\<exists>s. files w path = Some s \<and> parse_private lib s = Some k)"
  by (auto simp: read_private_def io_bind_def read_file_def io_ok_or_def io_ok_def io_err_def
      dest: next_fault_same split: prod.splits fault.splits option.splits sum.splits)

lemma generate_key_pair_spec:
  assumes parse: "\<forall>k. parse_private lib (print_private lib k) = Some k"
    and paths: "key_location aws \<noteq> pub_key_location aws"
    and run: "generate_key_pair lib aws w = (r, w')"
  shows "grows w w' \<and> (r = Inr () \<longrightarrow> files w' (key_location aws) \<noteq> None \<and> files w' (pub_key_location aws) \<noteq> None \<and>
    (files w (pub_key_location aws) = None \<longrightarrow> key_files_ok lib aws w'))"
proof -
  let ?k = "key_location aws" and ?p = "pub_key_location aws"
  consider (both) "files w ?k \<noteq> None" "files w ?p \<noteq> None" | (priv) "files w ?k \<noteq> None" "files w ?p = None"
    | (pub) "files w ?k = None" "files w ?p \<noteq> None" | (neither) "files w ?k = None" "files w ?p = None" by blast
  then show ?thesis
  proof cases
    case both
    with run show ?thesis by (auto simp: generate_key_pair_def io_ok_def start.refl)
  next
    case pub
    with run show ?thesis by (auto simp: generate_key_pair_def io_err_def start.refl)
  next
    case priv
    obtain r1 w1 where read: "read_private lib ?k w = (r1, w1)" by (cases "read_private lib ?k w")
    have g1: "grows w w1" using io_keepsD [OF grows_read_private read] .
    show ?thesis
    proof (cases r1)
      case (Inl e)
      with run priv read g1 show ?thesis
        by (auto simp: generate_key_pair_def io_bind_def io_context_def)
    next
      case (Inr k)
      from read_private_Inr [OF read [unfolded Inr]] obtain s where
        same: "files w1 = files w" and s: "files w ?k = Some s" "parse_private lib s = Some k" by blast
      obtain r2 w2 where wr: "write_file ?p (print_public lib k) w1 = (r2, w2)" by (cases "write_file ?p (print_public lib k) w1")
      with run priv read Inr have fin: "w' = w2" "r = Inr () \<longleftrightarrow> r2 = Inr ()"
        by (auto simp: generate_key_pair_def io_bind_def io_context_def split: sum.splits)
      from write_file_new [OF _ wr] priv same have g2: "grows w1 w2"
        and new: "r2 = Inr () \<longrightarrow> files w2 = (files w)(?p \<mapsto> print_public lib k)" by auto
      from start.trans [OF g1 g2] fin new s paths show ?thesis by (auto simp: key_files_ok_def)
    qed
  next
    case neither
    show ?thesis
    proof (cases "random_key lib w")
      case None
      with run neither show ?thesis
        by (auto simp: generate_key_pair_def io_bind_def io_context_def io_ok_or_def io_err_def start.refl)
    next
      case (Some k)
      obtain r1 w1 where wr1: "write_file ?k (print_private lib k) w = (r1, w1)" by (cases "write_file ?k (print_private lib k) w")
      from write_file_new [OF neither(1) wr1] have g1: "grows w w1"
        and new1: "r1 = Inr () \<longrightarrow> files w1 = (files w)(?k \<mapsto> print_private lib k)" by auto
      show ?thesis
      proof (cases r1)
        case (Inl e)
        with run neither Some wr1 g1 show ?thesis
          by (auto simp: generate_key_pair_def io_bind_def io_then_def io_context_def io_ok_or_def io_ok_def)
      next
        case (Inr u)
        obtain r2 w2 where wr2: "write_file ?p (print_public lib k) w1 = (r2, w2)" by (cases "write_file ?p (print_public lib k) w1")
        with run neither Some wr1 Inr have fin: "w' = w2" "r = Inr () \<longleftrightarrow> r2 = Inr ()"
          by (auto simp: generate_key_pair_def io_bind_def io_then_def io_context_def io_ok_or_def io_ok_def split: sum.splits)
        have "files w1 ?p = None" using new1 Inr neither paths by auto
        from write_file_new [OF this wr2] have g2: "grows w1 w2"
          and new2: "r2 = Inr () \<longrightarrow> files w2 = (files w1)(?p \<mapsto> print_public lib k)" by auto
        from start.trans [OF g1 g2] fin new1 new2 Inr paths parse show ?thesis by (auto simp: key_files_ok_def)
      qed
    qed
  qed
qed

text \<open>The key pairs of the regions.\<close>

definition has_key :: "aws \<Rightarrow> host \<Rightarrow> string \<Rightarrow> bool" where
  "has_key aws w rg \<longleftrightarrow> (\<exists>m. (key_name (aws_cfg aws), m) \<in> set (key_pairs w rg))"

lemma has_key_grows: "has_key aws w rg \<Longrightarrow> grows w w' \<Longrightarrow> has_key aws w' rg"
  unfolding has_key_def grows_def by (meson set_mono_prefix subsetD)

lemma keeps_key_setup: "keeps_some (key_setup aws rg)"
proof -
  have "io_keeps grows (io_bind (io_context ''failed to check key pair'' (check_key_pair aws rg)) (\<lambda>key_check.
        if \<not> key_check then io_context (''Failed to import key pair in '' @ rg) (import_key_pair aws rg)
        else io_ok ()))"
    by (intro start.keeps_bind start.keeps_context start.keeps_if start.keeps_pure grows_check_key_pair
        grows_import_key_pair)
  then show ?thesis
    by (auto simp: keeps_some_def key_setup_def in_region_def split: if_splits dest: io_keepsD)
qed

lemma check_key_pair_Inr: "check_key_pair aws rg w = (Inr b, w') \<Longrightarrow> b \<longleftrightarrow> has_key aws w' rg"
  by (force simp: check_key_pair_def has_key_def filter_empty_conv split: prod.splits fault.splits)

lemma import_key_pair_Inr: "import_key_pair aws rg w = (Inr u, w') \<Longrightarrow> has_key aws w' rg"
proof -
  assume "import_key_pair aws rg w = (Inr u, w')"
  then obtain x w1 where rest: "(case next_fault w1 of (Breaks n, w) \<Rightarrow> (Inl ''Failed to import key pair'', w)
     | (Works, w) \<Rightarrow>
         (Inr (), w\<lparr>key_pairs := (key_pairs w)(rg := key_pairs w rg @ [(key_name (aws_cfg aws), x)])\<rparr>)) = (Inr u, w')"
    unfolding import_key_pair_def io_bind_Inr by blast
  obtain f w2 where "next_fault w1 = (f, w2)" by (cases "next_fault w1")
  with rest show ?thesis by (cases f) (auto simp: has_key_def)
qed

lemma key_setup_has_key: "key_setup aws rg w = Some (Inr u, w') \<Longrightarrow> has_key aws w' rg"
proof -
  assume "key_setup aws rg w = Some (Inr u, w')"
  then obtain b w1 where check: "check_key_pair aws rg w = (Inr b, w1)"
    and rest: "(if \<not> b then io_context (''Failed to import key pair in '' @ rg) (import_key_pair aws rg) else io_ok ()) w1
       = (Inr u, w')"
    by (auto simp: key_setup_def in_region_def io_bind_Inr split: if_splits)
  show ?thesis
  proof (cases b)
    case True
    with check_key_pair_Inr [OF check] rest show ?thesis by simp
  next
    case False
    with rest import_key_pair_Inr show ?thesis by simp
  qed
qed

lemma key_setup_all_spec:
  "set regions \<subseteq> set (clients aws) \<Longrightarrow> key_setup_all aws regions w \<noteq> None \<and>
     (key_setup_all aws regions w = Some (r, w') \<longrightarrow> grows w w' \<and> (r = Inr () \<longrightarrow> (\<forall>rg \<in> set regions. has_key aws w' rg)))"
proof (induction regions arbitrary: w)
  case Nil
  then show ?case by (auto simp: io_ok_def start.refl)
next
  case (Cons rg regions)
  from Cons.prems obtain r1 w1 where k: "key_setup aws rg w = Some (r1, w1)"
    by (cases "key_setup aws rg w") (auto simp: key_setup_def in_region_def)
  with keeps_key_setup have g: "grows w w1" unfolding keeps_some_def by blast
  show ?case
  proof (cases r1)
    case (Inl e)
    with k g show ?thesis by auto
  next
    case (Inr u)
    from key_setup_has_key [OF k [unfolded Inr]] have "has_key aws w1 rg" .
    with Cons.IH [of w1] Cons.prems k g Inr show ?thesis
      by (auto dest: start.trans has_key_grows)
  qed
qed

lemma keeps_key_setup_all: "set regions \<subseteq> set (clients aws) \<Longrightarrow> keeps_some (key_setup_all aws regions)"
  using key_setup_all_spec unfolding keeps_some_def by blast

lemma key_paths_differ: "key_location (aws_new user regions name wl bl) \<noteq> pub_key_location (aws_new user regions name wl bl)"
  by (simp add: aws_new_def)

text \<open>Reading the settings after the keys, in the order of \<open>run\<close>.\<close>

lemma grows_generate:
  assumes "\<forall>k. parse_private lib (print_private lib k) = Some k" and "key_location aws \<noteq> pub_key_location aws"
  shows "io_keeps grows (generate_key_pair lib aws)"
  using generate_key_pair_spec [OF assms] unfolding io_keeps_def by (metis prod.collapse)

lemmas run_keeps = keeps_some_then keeps_some_lift start.keeps_context start.keeps_pure grows_parse_list grows_parse_file
  grows_parse_rates grows_generate keeps_key_setup_all

lemma run_start_keeps:
  assumes "\<forall>k. parse_private lib (print_private lib k) = Some k"
  shows "keeps_some (run_start lib out cli)"
  unfolding run_start_def Let_def
  by (intro run_keeps assms key_paths_differ) (simp add: aws_new_def)

lemma run_start_defined: "run_start lib out cli w \<noteq> None"
proof -
  have "key_setup_all (aws_new u regions n wl bl) regions w \<noteq> None" for u regions n wl bl w
    using key_setup_all_spec [of regions "aws_new u regions n wl bl"] by (simp add: aws_new_def)
  then show ?thesis
    unfolding run_start_def Let_def by (intro then_some_defined lift_some_defined)
qed

text \<open>C36: Starting the control plane is safe to repeat and leaves what it finds: whatever calls fail and wherever it
  stops, no file that existed is changed and no key pair of any region is removed or replaced, and no region lacks
  a client. When it gets to the market loop, both key files exist, the public one belongs to the private one if the
  start wrote it, and every configured region has a key pair of the configured name.\<close>

theorem start_sets_keys_up:
  assumes "\<forall>k. parse_private lib (print_private lib k) = Some k"
  shows "\<exists>r w'. run_start lib out cli w = Some (r, w') \<and> grows w w' \<and>
    (\<forall>s. r = Inr s \<longrightarrow>
       files w' (key_location (se_aws s)) \<noteq> None \<and> files w' (pub_key_location (se_aws s)) \<noteq> None \<and>
       (files w (pub_key_location (se_aws s)) = None \<longrightarrow> key_files_ok lib (se_aws s) w') \<and>
       se_regions s = split_on CHR '','' (cli_regions cli) \<and> (\<forall>rg \<in> set (se_regions s). has_key (se_aws s) w' rg))"
proof -
  obtain r w' where run: "run_start lib out cli w = Some (r, w')"
    using run_start_defined [of lib out cli w] by (cases "run_start lib out cli w") auto
  have g: "grows w w'" using run_start_keeps [OF assms] run unfolding keeps_some_def by blast
  have "files w' (key_location (se_aws s)) \<noteq> None \<and> files w' (pub_key_location (se_aws s)) \<noteq> None \<and>
       (files w (pub_key_location (se_aws s)) = None \<longrightarrow> key_files_ok lib (se_aws s) w') \<and>
       se_regions s = split_on CHR '','' (cli_regions cli) \<and> (\<forall>rg \<in> set (se_regions s). has_key (se_aws s) w' rg)"
    if s: "r = Inr s" for s
  proof -
    let ?rgs = "split_on CHR '','' (cli_regions cli)"
    from run [unfolded s run_start_def Let_def] obtain wl bl w1 w2 w3 w4 where
      lists: "parse_list ''Failed to parse eif whitelist'' (cli_whitelist cli) w = (Inr wl, w1)"
        "parse_list ''Failed to parse eif blacklist'' (cli_blacklist cli) w1 = (Inr bl, w2)"
      and gen: "generate_key_pair lib (aws_new (out_user out) ?rgs (cli_key_name cli) wl bl) w2 = (Inr (), w3)"
      and keys: "key_setup_all (aws_new (out_user out) ?rgs (cli_key_name cli) wl bl) ?rgs w3 = Some (Inr (), w4)"
      and rest: "then_some (lift_some (io_context ''failed to parse computes rates file''
          (parse_rates_file (out_rates out) (cli_rates cli)))) (\<lambda>compute_rates.
      then_some (lift_some (io_context ''failed to parse bandwidth rates file''
          (parse_rates_file (out_bandwidth out) (cli_bandwidth cli)))) (\<lambda>bandwidth_rates.
      then_some (lift_some (io_context ''Failed to parse address whitelist''
          (parse_file (cli_address_whitelist cli)))) (\<lambda>address_whitelist.
      then_some (lift_some (io_context ''Failed to parse address blacklist''
          (parse_file (cli_address_blacklist cli)))) (\<lambda>address_blacklist.
      then_some (lift_some (io_ok_or ''Failed to fetch chain_id'' (out_chain out))) (\<lambda>chain.
      then_some (lift_some (io_ensure (out_address out (cli_contract cli)) ''failed to parse contract address'')) (\<lambda>_.
      then_some (lift_some (io_ensure (out_address out (cli_provider cli)) ''failed to parse provider address'')) (\<lambda>_.
      lift_some (io_ok
        \<lparr>se_aws = aws_new (out_user out) ?rgs (cli_key_name cli) wl bl, se_regions = ?rgs,
         se_compute_rates = compute_rates, se_bandwidth_rates = bandwidth_rates,
         se_address_whitelist = address_whitelist, se_address_blacklist = address_blacklist,
         se_job_id = \<lparr>jid_id = zero_job, jid_operator = cli_provider cli, jid_contract = cli_contract cli,
           jid_chain = chain\<rparr>\<rparr>)))))))) w4 = Some (Inr s, w')" (is "?rest w4 = _")
      unfolding then_some_Inr lift_some_Inr io_context_Inr by (metis (full_types) old.unit.exhaust)
    let ?aws = "aws_new (out_user out) ?rgs (cli_key_name cli) wl bl"
    from rest have fields: "se_aws s = ?aws" "se_regions s = ?rgs" unfolding then_some_Inr by auto
    have "keeps_some ?rest" by (intro run_keeps)
    with rest have g4: "grows w4 w'" unfolding keeps_some_def by blast
    have sub: "set ?rgs \<subseteq> set (clients ?aws)" by (simp add: aws_new_def)
    from key_setup_all_spec [OF sub] keys have k: "grows w3 w4" "\<forall>rg \<in> set ?rgs. has_key ?aws w4 rg" by blast+
    from generate_key_pair_spec [OF assms key_paths_differ gen]
    have spec: "files w3 (key_location ?aws) \<noteq> None" "files w3 (pub_key_location ?aws) \<noteq> None"
        "files w2 (pub_key_location ?aws) = None \<longrightarrow> key_files_ok lib ?aws w3" by auto
    have g3: "grows w3 w'" using k(1) g4 by (rule start.trans)
    have same: "files w2 = files w"
      using lists by (auto simp: parse_list_def parse_file_def io_bind_Inr read_file_def
          dest!: next_fault_same split: if_splits prod.splits fault.splits option.splits)
    from g3 spec(1,2) have "files w' (key_location ?aws) \<noteq> None" "files w' (pub_key_location ?aws) \<noteq> None"
      unfolding grows_def map_le_def by (metis domIff)+
    moreover have "files w (pub_key_location ?aws) = None \<longrightarrow> key_files_ok lib ?aws w'"
      using spec(3) key_files_grow [OF _ g3] unfolding same by blast
    moreover have "\<forall>rg \<in> set ?rgs. has_key ?aws w' rg" using k(2) has_key_grows [OF _ g4] by blast
    ultimately show ?thesis using fields by simp
  qed
  with run g show ?thesis by blast
qed

definition sample_keys :: "string key_lib" where
  "sample_keys = \<lparr>parse_private = (\<lambda>s. case s of c # k \<Rightarrow> if c = CHR ''s'' then Some k else None | [] \<Rightarrow> None),
     print_private = (\<lambda>k. CHR ''s'' # k), print_public = (\<lambda>k. CHR ''p'' # k), random_key = (\<lambda>w. Some ''rnd'')\<rparr>"

definition sample_cli :: cli where
  "sample_cli = \<lparr>cli_key_name = ''oyster'', cli_regions = ''us-east-1,ap-south-1'', cli_rates = [], cli_bandwidth = [],
     cli_contract = ''0x1'', cli_provider = ''0x2'', cli_whitelist = [], cli_blacklist = [],
     cli_address_whitelist = [], cli_address_blacklist = []\<rparr>"

definition sample_outside :: "(unit, unit) outside" where
  "sample_outside = \<lparr>out_user = ''op'', out_rates = (\<lambda>s. None), out_bandwidth = (\<lambda>s. None), out_chain = Some ''42161'',
     out_address = (\<lambda>s. True)\<rparr>"

definition sample_host :: host where
  "sample_host = \<lparr>files = (\<lambda>p. None), key_pairs = (\<lambda>rg. if rg = ''ap-south-1'' then [(''oyster'', ''old'')] else []),
     faults = []\<rparr>"

lemma sample_start:
  "case run_start sample_keys sample_outside sample_cli sample_host of
     Some (Inr s, w') \<Rightarrow> se_regions s = [''us-east-1'', ''ap-south-1''] | _ \<Rightarrow> False"
  by code_simp

theorem start_sets_keys_up_witness:
  "\<exists>s w'. run_start sample_keys sample_outside sample_cli sample_host = Some (Inr s, w') \<and>
     key_files_ok sample_keys (se_aws s) w' \<and> has_key (se_aws s) w' ''us-east-1'' \<and>
     prefix [(''oyster'', ''old'')] (key_pairs w' ''ap-south-1'')"
proof -
  have "\<forall>k. parse_private sample_keys (print_private sample_keys k) = Some k" by (simp add: sample_keys_def)
  from start_sets_keys_up [OF this, of sample_outside sample_cli sample_host] sample_start
  obtain s w' where run: "run_start sample_keys sample_outside sample_cli sample_host = Some (Inr s, w')"
    and g: "grows sample_host w'" and rgs: "se_regions s = [''us-east-1'', ''ap-south-1'']"
    and keys: "files sample_host (pub_key_location (se_aws s)) = None \<longrightarrow> key_files_ok sample_keys (se_aws s) w'"
      "\<forall>rg \<in> set (se_regions s). has_key (se_aws s) w' rg"
    by (auto split: option.splits prod.splits sum.splits)
  from g have "prefix (key_pairs sample_host ''ap-south-1'') (key_pairs w' ''ap-south-1'')" by (simp add: grows_def)
  with run rgs keys show ?thesis by (auto simp: sample_host_def)
qed

end
