(* ===== verification/OP_Quota.thy ===== *)
theory OP_Quota
  imports Oyster_IO
begin

text \<open>
  The quota monitor of the operator (\<open>operator/quota-monitor-aws/src\<close>): the use and the limit of a quota in a region,
  and the status of the requests to raise it. The answers of AWS are inputs, with the fields that may be missing;
  the core counts are \<open>i32\<close>, widened with their sign by \<open>as usize\<close> and multiplied and added with wrap-around; the \<open>f64\<close>
  numbers of a quota are given here as the \<open>usize\<close> that \<open>as usize\<close> makes of them. Times are seconds.
  \<open>scheduled_tasks.rs\<close> is commented out in the source.
\<close>

section \<open>Quotas\<close>

datatype quota = Vcpu | Eip

definition quota_from_name :: "string \<Rightarrow> quota rust_result" where
  "quota_from_name name =
     (if name = ''vcpus'' then Inr Vcpu else if name = ''eips'' then Inr Eip
      else Inl ''invalid quota, should be vcpus or eips'')"

fun to_code :: "quota \<Rightarrow> string" where
  "to_code Vcpu = ''L-1216C47A''"
| "to_code Eip = ''L-0263D0A3''"

fun display_quota :: "quota \<Rightarrow> string" where
  "display_quota Vcpu = ''vcpus''"
| "display_quota Eip = ''eips''"

text \<open>Results, with the error of a missing field.\<close>

definition res_bind :: "'a rust_result \<Rightarrow> ('a \<Rightarrow> 'b rust_result) \<Rightarrow> 'b rust_result" where
  "res_bind m f = (case m of Inl e \<Rightarrow> Inl e | Inr x \<Rightarrow> f x)"

definition res_context :: "string \<Rightarrow> 'a rust_result \<Rightarrow> 'a rust_result" where
  "res_context msg m = (case m of Inl e \<Rightarrow> Inl msg | Inr x \<Rightarrow> Inr x)"

definition ok_or :: "string \<Rightarrow> 'a option \<Rightarrow> 'a rust_result" where
  "ok_or msg x = (case x of None \<Rightarrow> Inl msg | Some y \<Rightarrow> Inr y)"

section \<open>Use and limit\<close>

record cpu_options =
  core_count :: "i32 option"
  threads_per_core :: "i32 option"

text \<open>The answers of a region: reservations of instances with their CPU options, addresses, limit, requests.\<close>

datatype request_state = Approved_State | Case_Closed | Case_Opened | Denied | Pending_State | Other_State

record quota_request =
  rq_id :: "string option"
  rq_created :: "int option"
  rq_desired :: "u64 option"
  rq_status :: "request_state option"

record region_answers =
  ra_reservations :: "cpu_options option list option list option rust_result"
  ra_addresses :: "u64 option rust_result"
  ra_limit :: "string \<Rightarrow> u64 option option rust_result"
  ra_requests :: "string \<Rightarrow> quota_request list option rust_result"

definition as_usize :: "i32 \<Rightarrow> u64" where
  "as_usize i = word_of_int (sint i)"

definition instance_vcpus :: "cpu_options option \<Rightarrow> u64 rust_result" where
  "instance_vcpus i =
     res_bind (ok_or ''Could not parse cpu options from instance'' i) (\<lambda>opts.
     res_bind (ok_or ''Could not parse core count from cpu options'' (core_count opts)) (\<lambda>c.
     res_bind (ok_or ''Could not parse threads per core from cpu options'' (threads_per_core opts)) (\<lambda>t.
     Inr (as_usize c * as_usize t))))"

fun sum_vcpus :: "u64 \<Rightarrow> cpu_options option list \<Rightarrow> u64 rust_result" where
  "sum_vcpus n [] = Inr n"
| "sum_vcpus n (i # is) = res_bind (instance_vcpus i) (\<lambda>k. sum_vcpus (n + k) is)"

fun sum_reservations :: "u64 \<Rightarrow> cpu_options option list option list \<Rightarrow> u64 rust_result" where
  "sum_reservations n [] = Inr n"
| "sum_reservations n (r # rs) =
     res_bind (ok_or ''Could not parse instances from reservation'' r) (\<lambda>is.
     res_bind (sum_vcpus n is) (\<lambda>n. sum_reservations n rs))"

definition get_no_of_vcpus :: "region_answers \<Rightarrow> u64 rust_result" where
  "get_no_of_vcpus a =
     res_bind (res_context ''Error occurred while describing instances from AWS client'' (ra_reservations a)) (\<lambda>res.
     res_bind (ok_or ''Could not parse reservations from AWS response'' res) (sum_reservations 0))"

definition get_no_of_elastic_ips :: "region_answers \<Rightarrow> u64 rust_result" where
  "get_no_of_elastic_ips a =
     res_bind (res_context ''Error occurred while describing addresses from AWS client'' (ra_addresses a))
       (ok_or ''Could not parse addresses from AWS response'')"

fun get_current_usage :: "region_answers \<Rightarrow> quota \<Rightarrow> u64 rust_result" where
  "get_current_usage a Vcpu = get_no_of_vcpus a"
| "get_current_usage a Eip = get_no_of_elastic_ips a"

definition get_service_quota_limit :: "region_answers \<Rightarrow> quota \<Rightarrow> u64 rust_result" where
  "get_service_quota_limit a q =
     res_bind (res_context ''Error getting service quota from AWS client'' (ra_limit a (to_code q))) (\<lambda>r.
     res_bind (ok_or ''Could not parse service quota from AWS response'' r) (\<lambda>v.
     ok_or ''Could not parse service quota value'' v))"

definition get_quota_status :: "region_answers \<Rightarrow> quota \<Rightarrow> string \<Rightarrow> (u64 \<times> u64) rust_result" where
  "get_quota_status a q rg =
     res_bind (res_context (''failed to get current usage of '' @ display_quota q @ '' in '' @ rg) (get_current_usage a q))
       (\<lambda>current_usage.
     res_bind (res_context (''failed to get quota limit of '' @ display_quota q @ '' in '' @ rg)
         (get_service_quota_limit a q)) (\<lambda>quota_limit.
     Inr (current_usage, quota_limit)))"

section \<open>Requests\<close>

text \<open>\<open>min_by_key\<close> on the time of creation: the first of the least; \<open>None\<close> is below every time.\<close>

definition created_less :: "int option \<Rightarrow> int option \<Rightarrow> bool" where
  "created_less x y = (case (x, y) of (_, None) \<Rightarrow> False | (None, Some b) \<Rightarrow> True | (Some a, Some b) \<Rightarrow> a < b)"

fun min_by_created :: "quota_request list \<Rightarrow> quota_request option" where
  "min_by_created [] = None"
| "min_by_created (r # rs) =
     (case min_by_created rs of None \<Rightarrow> Some r
      | Some m \<Rightarrow> if created_less (rq_created m) (rq_created r) then Some m else Some r)"

definition last_request :: "region_answers \<Rightarrow> quota \<Rightarrow> quota_request option rust_result" where
  "last_request a q =
     res_bind (res_context ''Error getting service quota from AWS client'' (ra_requests a (to_code q))) (\<lambda>r.
     res_bind (ok_or ''Could not parse requested quotas from AWS response'' r) (\<lambda>rs. Inr (min_by_created rs)))"

datatype request_status = No_Request | Unnecessary | Open | Stuck | Approved | Rejected

definition request_missing :: "string \<Rightarrow> quota_request \<Rightarrow> quota \<Rightarrow> string \<Rightarrow> string" where
  "request_missing what req q rg =
     ''failed to get '' @ what @ '' of request '' @ (case rq_id req of Some i \<Rightarrow> i | None \<Rightarrow> ''unknown id'') @
     '' while processing '' @ display_quota q @ '' in '' @ rg"

definition get_request_status :: "region_answers \<Rightarrow> int \<Rightarrow> quota \<Rightarrow> string \<Rightarrow> request_status rust_result" where
  "get_request_status a now q rg =
     res_bind (res_context (''failed to get last request of '' @ display_quota q @ '' in '' @ rg) (last_request a q)) (\<lambda>l.
     case l of None \<Rightarrow> Inr No_Request
     | Some req \<Rightarrow>
     res_bind (res_context (''failed to get quota limit of '' @ display_quota q @ '' in '' @ rg)
         (get_service_quota_limit a q)) (\<lambda>quota_limit.
     res_bind (ok_or (request_missing ''creation time'' req q rg) (rq_created req)) (\<lambda>created.
     let too_old = created < now - 86400 in
     res_bind (ok_or (request_missing ''desired value'' req q rg) (rq_desired req)) (\<lambda>desired.
     let is_needed = desired > quota_limit in
     res_bind (ok_or (request_missing ''status'' req q rg) (rq_status req)) (\<lambda>status.
     let is_open = (status = Case_Opened \<or> status = Pending_State) in
     Inr (case (is_needed, is_open) of
            (True, True) \<Rightarrow> if too_old then Stuck else Open
          | (True, False) \<Rightarrow> Rejected
          | (False, True) \<Rightarrow> Unnecessary
          | (False, False) \<Rightarrow> Approved))))))"

section \<open>The command line\<close>

fun debug_status :: "request_status \<Rightarrow> string" where
  "debug_status No_Request = ''None''"
| "debug_status Unnecessary = ''Unnecessary''"
| "debug_status Open = ''Open''"
| "debug_status Stuck = ''Stuck''"
| "debug_status Approved = ''Approved''"
| "debug_status Rejected = ''Rejected''"

definition quota_status_line :: "region_answers \<Rightarrow> quota \<Rightarrow> string \<Rightarrow> string rust_result" where
  "quota_status_line a q rg =
     res_bind (get_quota_status a q rg) (\<lambda>(current_usage, quota_limit).
     Inr (rg @ '':'' @ [CHR 0x09] @ display_quota q @ '':'' @ [CHR 0x09] @ dec_of_nat (unat current_usage) @ ''/'' @ dec_of_nat (unat quota_limit)))"

definition request_status_line :: "region_answers \<Rightarrow> int \<Rightarrow> quota \<Rightarrow> string \<Rightarrow> string rust_result" where
  "request_status_line a now q rg =
     res_bind (get_request_status a now q rg) (\<lambda>status.
     Inr (rg @ '':'' @ [CHR 0x09] @ display_quota q @ '':'' @ [CHR 0x09] @ debug_status status))"

datatype command = Usage "quota list" "string list" | Requests "quota list" "string list"

text \<open>The lines printed, and the error that ends the run: the loops over the regions and the quotas leave at the first.\<close>

fun print_quotas :: "(quota \<Rightarrow> string rust_result) \<Rightarrow> quota list \<Rightarrow> string list \<times> string option" where
  "print_quotas f [] = ([], None)"
| "print_quotas f (q # qs) =
     (case f q of Inl e \<Rightarrow> ([], Some e)
      | Inr l \<Rightarrow> (case print_quotas f qs of (ls, r) \<Rightarrow> (l # ls, r)))"

fun print_regions :: "(string \<Rightarrow> quota \<Rightarrow> string rust_result) \<Rightarrow> quota list \<Rightarrow> string list \<Rightarrow> string list \<times> string option" where
  "print_regions f qs [] = ([], None)"
| "print_regions f qs (r # rs) =
     (case print_quotas (f r) qs of
        (ls, Some e) \<Rightarrow> (ls, Some e)
      | (ls, None) \<Rightarrow> (case print_regions f qs rs of (ls', e) \<Rightarrow> (ls @ ls', e)))"

fun run_command :: "(string \<Rightarrow> region_answers) \<Rightarrow> int \<Rightarrow> command \<Rightarrow> string list \<times> string option" where
  "run_command answers now (Usage qs rs) = print_regions (\<lambda>r q. quota_status_line (answers r) q r) qs rs"
| "run_command answers now (Requests qs rs) = print_regions (\<lambda>r q. request_status_line (answers r) now q r) qs rs"

section \<open>Lemmas\<close>

lemma quota_names: "quota_from_name n = Inr q \<longleftrightarrow> n = display_quota q"
  by (cases q) (auto simp: quota_from_name_def)

lemma to_code_inj: "to_code p = to_code q \<longleftrightarrow> p = q"
  by (cases p; cases q) simp_all

text \<open>The vCPUs of a region are counted over all its reservations, and any missing field is an error.\<close>

definition vcpus :: "cpu_options option \<Rightarrow> u64 option" where
  "vcpus i = (case i of None \<Rightarrow> None | Some opts \<Rightarrow>
     (case (core_count opts, threads_per_core opts) of (Some c, Some t) \<Rightarrow> Some (as_usize c * as_usize t) | _ \<Rightarrow> None))"

lemma instance_vcpus_Inr: "instance_vcpus i = Inr k \<longleftrightarrow> vcpus i = Some k"
  by (auto simp: instance_vcpus_def vcpus_def res_bind_def ok_or_def split: option.splits)

lemma sum_vcpus_Inr: "sum_vcpus n is = Inr k \<longleftrightarrow> list_all (\<lambda>i. vcpus i \<noteq> None) is \<and> k = n + sum_list (map (\<lambda>i. the (vcpus i)) is)"
proof (induction "is" arbitrary: n)
  case (Cons i "is")
  show ?case
  proof (cases "instance_vcpus i")
    case (Inl e)
    then have "vcpus i = None" using instance_vcpus_Inr [of i] by (cases "vcpus i") auto
    with Inl show ?thesis by (simp add: res_bind_def)
  next
    case (Inr j)
    then have "vcpus i = Some j" by (simp add: instance_vcpus_Inr)
    with Inr show ?thesis by (simp add: res_bind_def Cons.IH add.assoc)
  qed
qed auto

lemma sum_vcpus_Inl: "sum_vcpus n is = Inl e \<Longrightarrow> \<not> list_all (\<lambda>i. vcpus i \<noteq> None) is"
  using sum_vcpus_Inr [of n "is"] by auto

lemma sum_reservations_Inr:
  "sum_reservations n rs = Inr k \<longleftrightarrow>
     list_all (\<lambda>r. r \<noteq> None \<and> list_all (\<lambda>i. vcpus i \<noteq> None) (the r)) rs \<and>
     k = n + sum_list (map (\<lambda>i. the (vcpus i)) (concat (map the rs)))"
proof (induction rs arbitrary: n)
  case (Cons r rs)
  show ?case
  proof (cases r)
    case None
    then show ?thesis by (simp add: res_bind_def ok_or_def)
  next
    case (Some "is")
    show ?thesis
    proof (cases "sum_vcpus n is")
      case (Inl e)
      with Some sum_vcpus_Inl [OF Inl] show ?thesis by (simp add: res_bind_def ok_or_def)
    next
      case (Inr m)
      then have "list_all (\<lambda>i. vcpus i \<noteq> None) is" and m: "m = n + sum_list (map (\<lambda>i. the (vcpus i)) is)"
        by (simp_all only: sum_vcpus_Inr)
      with Some Inr Cons.IH [of m] show ?thesis by (simp add: res_bind_def ok_or_def add.assoc)
    qed
  qed
qed auto

text \<open>What \<open>last_request\<close> returns is the oldest request.\<close>

lemma min_by_created_oldest:
  "min_by_created rs = Some m \<Longrightarrow> m \<in> set rs \<and> (\<forall>r \<in> set rs. \<not> created_less (rq_created r) (rq_created m))"
proof (induction rs arbitrary: m)
  case (Cons r rs)
  have trans: "created_less a b \<Longrightarrow> \<not> created_less c b \<Longrightarrow> \<not> created_less c a" for a b c
    by (auto simp: created_less_def split: option.splits)
  have asym: "created_less a b \<Longrightarrow> \<not> created_less b a" and irrefl: "\<not> created_less a a" for a b
    by (auto simp: created_less_def split: option.splits)
  have total: "\<not> created_less a b \<Longrightarrow> \<not> created_less c a \<Longrightarrow> \<not> created_less c b" for a b c
    by (auto simp: created_less_def split: option.splits)
  show ?case
  proof (cases "min_by_created rs")
    case None
    then have "rs = []" by (cases rs) (auto split: option.splits if_splits)
    with Cons.prems show ?thesis by (auto simp: irrefl)
  next
    case (Some l)
    note IH = Cons.IH [OF Some]
    show ?thesis
    proof (cases "created_less (rq_created l) (rq_created r)")
      case True
      with Some Cons.prems have "m = l" by simp
      with IH True asym show ?thesis by auto
    next
      case False
      with Some Cons.prems have "m = r" by simp
      with IH False total irrefl show ?thesis by (metis insert_iff list.set(2))
    qed
  qed
qed simp

text \<open>A run that ends well has printed the line of every quota of every region, in order.\<close>

lemma print_quotas_complete:
  "print_quotas f qs = (ls, None) \<longleftrightarrow> map Inr ls = map f qs"
proof (induction qs arbitrary: ls)
  case Nil
  show ?case by (cases ls) simp_all
next
  case (Cons q qs)
  obtain ls' r where pq: "print_quotas f qs = (ls', r)" by (cases "print_quotas f qs")
  show ?case
  proof (cases "f q")
    case (Inr l)
    with pq Cons.IH [of ls'] Cons.IH [of "tl ls"] show ?thesis by (cases ls) auto
  qed auto
qed

lemma print_regions_complete:
  "print_regions f qs rs = (ls, None) \<Longrightarrow> map Inr ls = [f r q. r \<leftarrow> rs, q \<leftarrow> qs]"
proof (induction rs arbitrary: ls)
  case (Cons r rs)
  then show ?case
    by (auto simp: print_quotas_complete split: prod.splits option.splits)
qed simp

end
