(* ===== verification/Mock_Attestation.thy ===== *)
theory Mock_Attestation
  imports Guest_Verifier
begin

text \<open>
  The attestation servers: \<open>attestation/server\<close> and \<open>attestation/server-custom\<close>, which ask the security module for a
  document, and \<open>attestation/server-custom-mock\<close>, which builds one byte by byte and signs it with its own key.

  The buffer of the mock is a list of bytes; an index or a slice out of range, or a \<open>copy_from_slice\<close> of another
  length, is a panic: \<open>None\<close>. The key parser, ECDSA and SHA-384 are parameters, and so are the security module and
  the hexadecimal codec; the certificates and the key of the mock are the bytes of the files it includes. The
  documents of the mock are then read by the guest of \<open>Guest_Verifier\<close>.
\<close>

section \<open>Writing into a buffer\<close>

definition set_byte :: "nat \<Rightarrow> u8 \<Rightarrow> bytes \<Rightarrow> bytes option" where
  "set_byte i x buf = (if i < length buf then Some (buf[i := x]) else None)"

text \<open>\<open>buf[a..b].copy_from_slice(x)\<close>\<close>

definition copy_into :: "nat \<Rightarrow> nat \<Rightarrow> bytes \<Rightarrow> bytes \<Rightarrow> bytes option" where
  "copy_into a b x buf =
     (if a \<le> b \<and> b \<le> length buf \<and> length x = b - a then Some (take a buf @ x @ drop b buf) else None)"

definition u64_to_be_bytes :: "u64 \<Rightarrow> bytes" where
  "u64_to_be_bytes x = map (\<lambda>i. ucast (drop_bit (8 * i) x)) [7, 6, 5, 4, 3, 2, 1, 0]"

section \<open>The mock\<close>

definition root_cert :: bytes where
  "root_cert = [
    48, 130, 1, 144, 48, 130, 1, 23, 160, 3, 2, 1, 2, 2, 1, 1, 48, 10, 6, 8, 42, 134, 72, 206, 61, 4, 3, 3, 48, 15,
    49, 13, 48, 11, 6, 3, 85, 4, 3, 19, 4, 114, 111, 111, 116, 48, 32, 23, 13, 55, 48, 48, 49, 48, 49, 48, 48, 48,
    48, 48, 48, 90, 24, 15, 50, 48, 53, 52, 49, 50, 48, 54, 48, 55, 53, 53, 50, 54, 90, 48, 15, 49, 13, 48, 11, 6, 3,
    85, 4, 3, 19, 4, 114, 111, 111, 116, 48, 118, 48, 16, 6, 7, 42, 134, 72, 206, 61, 2, 1, 6, 5, 43, 129, 4, 0, 34,
    3, 98, 0, 4, 108, 121, 65, 30, 186, 174, 116, 137, 164, 232, 53, 85, 69, 192, 52, 103, 132, 179, 29, 245, 208,
    140, 177, 247, 192, 9, 120, 54, 168, 47, 103, 36, 15, 42, 114, 1, 134, 40, 128, 161, 208, 154, 11, 179, 38, 99,
    113, 136, 251, 186, 250, 180, 122, 16, 171, 227, 99, 15, 207, 140, 24, 211, 93, 150, 83, 33, 132, 152, 94, 88,
    44, 13, 206, 61, 172, 232, 68, 31, 55, 185, 204, 146, 17, 223, 249, 53, 186, 174, 105, 228, 135, 44, 195, 73, 68,
    16, 163, 69, 48, 67, 48, 14, 6, 3, 85, 29, 15, 1, 1, 255, 4, 4, 3, 2, 1, 6, 48, 18, 6, 3, 85, 29, 19, 1, 1, 255,
    4, 8, 48, 6, 1, 1, 255, 2, 1, 0, 48, 29, 6, 3, 85, 29, 14, 4, 22, 4, 20, 3, 218, 248, 20, 232, 42, 119, 108, 85,
    112, 101, 21, 28, 8, 183, 13, 126, 23, 250, 1, 48, 10, 6, 8, 42, 134, 72, 206, 61, 4, 3, 3, 3, 103, 0, 48, 100,
    2, 48, 52, 214, 186, 31, 196, 86, 136, 81, 15, 146, 97, 43, 219, 127, 177, 176, 34, 136, 114, 232, 167, 132, 133,
    236, 226, 71, 26, 57, 14, 1, 133, 171, 35, 92, 39, 137, 45, 76, 53, 169, 82, 220, 179, 229, 198, 65, 218, 191, 2,
    48, 34, 182, 212, 199, 102, 128, 11, 125, 63, 156, 192, 18, 159, 192, 139, 246, 135, 248, 104, 123, 136, 161, 7,
    234, 203, 173, 122, 123, 73, 246, 190, 31, 115, 248, 1, 221, 105, 248, 88, 55, 99, 83, 214, 15, 52, 67, 218, 157]"

definition leaf_cert :: bytes where
  "leaf_cert = [
    48, 130, 1, 206, 48, 130, 1, 83, 160, 3, 2, 1, 2, 2, 17, 0, 153, 53, 249, 148, 45, 40, 90, 163, 8, 40, 202, 190,
    182, 23, 128, 111, 48, 10, 6, 8, 42, 134, 72, 206, 61, 4, 3, 3, 48, 15, 49, 13, 48, 11, 6, 3, 85, 4, 3, 19, 4,
    114, 111, 111, 116, 48, 32, 23, 13, 55, 48, 48, 49, 48, 49, 48, 48, 48, 48, 48, 48, 90, 24, 15, 50, 48, 53, 52,
    49, 50, 48, 54, 48, 55, 53, 53, 50, 53, 90, 48, 15, 49, 13, 48, 11, 6, 3, 85, 4, 3, 19, 4, 108, 101, 97, 102, 48,
    118, 48, 16, 6, 7, 42, 134, 72, 206, 61, 2, 1, 6, 5, 43, 129, 4, 0, 34, 3, 98, 0, 4, 134, 146, 130, 150, 139, 6,
    207, 97, 185, 195, 12, 59, 191, 161, 118, 114, 92, 174, 6, 52, 232, 192, 82, 83, 111, 26, 172, 255, 82, 243, 112,
    48, 135, 241, 168, 36, 111, 112, 54, 177, 191, 226, 99, 121, 163, 80, 67, 79, 59, 64, 144, 144, 191, 239, 110,
    149, 28, 209, 206, 65, 130, 137, 84, 191, 75, 91, 12, 198, 38, 110, 60, 8, 99, 240, 21, 56, 66, 114, 217, 144,
    255, 74, 24, 175, 53, 63, 136, 69, 0, 164, 173, 179, 127, 28, 196, 17, 163, 113, 48, 111, 48, 14, 6, 3, 85, 29,
    15, 1, 1, 255, 4, 4, 3, 2, 3, 184, 48, 29, 6, 3, 85, 29, 37, 4, 22, 48, 20, 6, 8, 43, 6, 1, 5, 5, 7, 3, 1, 6, 8,
    43, 6, 1, 5, 5, 7, 3, 2, 48, 29, 6, 3, 85, 29, 14, 4, 22, 4, 20, 154, 246, 193, 124, 154, 227, 216, 7, 179, 89,
    107, 11, 5, 219, 123, 48, 118, 74, 225, 27, 48, 31, 6, 3, 85, 29, 35, 4, 24, 48, 22, 128, 20, 3, 218, 248, 20,
    232, 42, 119, 108, 85, 112, 101, 21, 28, 8, 183, 13, 126, 23, 250, 1, 48, 10, 6, 8, 42, 134, 72, 206, 61, 4, 3,
    3, 3, 105, 0, 48, 102, 2, 49, 0, 177, 234, 198, 186, 93, 98, 7, 228, 207, 195, 131, 54, 190, 42, 135, 96, 164,
    21, 76, 86, 147, 178, 70, 137, 236, 88, 82, 145, 87, 63, 236, 218, 178, 217, 203, 53, 77, 232, 136, 149, 194, 90,
    71, 9, 37, 200, 56, 217, 2, 49, 0, 240, 192, 236, 58, 68, 7, 206, 129, 118, 140, 7, 217, 40, 133, 133, 188, 248,
    79, 38, 245, 87, 85, 90, 139, 231, 232, 237, 180, 130, 106, 78, 208, 242, 88, 112, 139, 66, 80, 168, 76, 181,
    250, 180, 255, 114, 20, 9, 142]"

definition leaf_key :: bytes where
  "leaf_key = [
    48, 129, 164, 2, 1, 1, 4, 48, 157, 170, 58, 13, 245, 140, 201, 215, 193, 103, 65, 41, 5, 76, 92, 238, 184, 14,
    27, 220, 172, 39, 96, 136, 213, 210, 41, 115, 179, 228, 234, 190, 30, 145, 161, 186, 226, 27, 228, 204, 102, 170,
    5, 151, 181, 202, 209, 27, 160, 7, 6, 5, 43, 129, 4, 0, 34, 161, 100, 3, 98, 0, 4, 134, 146, 130, 150, 139, 6,
    207, 97, 185, 195, 12, 59, 191, 161, 118, 114, 92, 174, 6, 52, 232, 192, 82, 83, 111, 26, 172, 255, 82, 243, 112,
    48, 135, 241, 168, 36, 111, 112, 54, 177, 191, 226, 99, 121, 163, 80, 67, 79, 59, 64, 144, 144, 191, 239, 110,
    149, 28, 209, 206, 65, 130, 137, 84, 191, 75, 91, 12, 198, 38, 110, 60, 8, 99, 240, 21, 56, 66, 114, 217, 144,
    255, 74, 24, 175, 53, 63, 136, 69, 0, 164, 173, 179, 127, 28, 196, 17]"

record 'k mock_lib =
  mk_from_sec1_der :: "bytes \<Rightarrow> 'k rust_result"
  mk_sign_prehash :: "'k \<Rightarrow> bytes \<Rightarrow> bytes rust_result"
  mk_sha384 :: "bytes \<Rightarrow> bytes"

definition encoded_len :: "nat \<Rightarrow> nat" where
  "encoded_len payload = (if payload < 24 then 1 + payload else if payload < 256 then 2 + payload else 3 + payload)"

definition field_len :: "bytes option \<Rightarrow> nat" where
  "field_len x = (case x of None \<Rightarrow> 1 | Some x \<Rightarrow> encoded_len (length x))"

definition payload_size :: "bytes option \<Rightarrow> bytes option \<Rightarrow> bytes option \<Rightarrow> nat" where
  "payload_size public_key user_data nonce = 1832 + field_len public_key + field_len user_data + field_len nonce"

definition too_long :: "bytes option \<Rightarrow> bool" where
  "too_long x = ((case x of None \<Rightarrow> 0 | Some x \<Rightarrow> length x) > 65535)"

text \<open>The fields before the PCRs, the PCRs, the certificates.\<close>

definition module_id :: bytes where
  "module_id = ascii ''i-0d69bec447a037a2a-enc01939aab191aadd2''"

definition fill_head :: "u64 \<Rightarrow> bytes \<Rightarrow> bytes option" where
  "fill_head timestamp_ms att = do {
     att \<leftarrow> set_byte 10 0xa9 att;
     att \<leftarrow> set_byte 11 0x69 att;
     att \<leftarrow> copy_into 12 21 (ascii ''module_id'') att;
     att \<leftarrow> copy_into 21 62 ([0x78, 0x27] @ module_id) att;
     att \<leftarrow> copy_into 62 69 ([0x66] @ ascii ''digest'') att;
     att \<leftarrow> copy_into 69 76 ([0x66] @ ascii ''SHA384'') att;
     att \<leftarrow> copy_into 76 86 ([0x69] @ ascii ''timestamp'') att;
     att \<leftarrow> set_byte 86 0x1b att;
     att \<leftarrow> copy_into 87 95 (u64_to_be_bytes timestamp_ms) att;
     att \<leftarrow> copy_into 95 100 ([0x64] @ ascii ''pcrs'') att;
     set_byte 100 0xb0 att }"

fun fill_pcrs :: "nat list \<Rightarrow> bytes \<Rightarrow> bytes option" where
  "fill_pcrs [] att = Some att"
| "fill_pcrs (i # is) att = do {
     att \<leftarrow> set_byte (101 + i * 51) (of_nat i) att;
     att \<leftarrow> set_byte (102 + i * 51) 0x58 att;
     att \<leftarrow> set_byte (103 + i * 51) 0x30 att;
     att \<leftarrow> copy_into (104 + i * 51) (152 + i * 51) (replicate 48 (of_nat i)) att;
     fill_pcrs is att }"

definition fill_certs :: "bytes \<Rightarrow> bytes option" where
  "fill_certs att = do {
     att \<leftarrow> copy_into 917 929 ([0x6b] @ ascii ''certificate'') att;
     att \<leftarrow> set_byte 929 0x59 att;
     att \<leftarrow> copy_into 930 932 (be16 (length leaf_cert)) att;
     att \<leftarrow> copy_into 932 1398 leaf_cert att;
     att \<leftarrow> copy_into 1398 1407 ([0x68] @ ascii ''cabundle'') att;
     att \<leftarrow> set_byte 1407 0x81 att;
     att \<leftarrow> set_byte 1408 0x59 att;
     att \<leftarrow> copy_into 1409 1411 (be16 (length root_cert)) att;
     copy_into 1411 1815 root_cert att }"

text \<open>A byte string, or null, from \<open>offset\<close> on; the number of bytes it takes.\<close>

definition encode_field :: "nat \<Rightarrow> bytes option \<Rightarrow> bytes \<Rightarrow> (nat \<times> bytes) option" where
  "encode_field offset payload att = do {
     expect (offset \<le> length att);
     (case payload of
        None \<Rightarrow> do { att \<leftarrow> set_byte offset 0xf6 att; Some (1, att) }
      | Some p \<Rightarrow>
          if length p < 24 then do {
            att \<leftarrow> set_byte offset (0x40 + of_nat (length p)) att;
            att \<leftarrow> copy_into (offset + 1) (offset + 1 + length p) p att;
            Some (1 + length p, att) }
          else if length p < 256 then do {
            att \<leftarrow> set_byte offset 0x58 att;
            att \<leftarrow> set_byte (offset + 1) (of_nat (length p)) att;
            att \<leftarrow> copy_into (offset + 2) (offset + 2 + length p) p att;
            Some (2 + length p, att) }
          else do {
            att \<leftarrow> set_byte offset 0x59 att;
            att \<leftarrow> copy_into (offset + 1) (offset + 3) (be16 (length p)) att;
            att \<leftarrow> copy_into (offset + 3) (offset + 3 + length p) p att;
            Some (3 + length p, att) }) }"

definition fill_fields ::
  "bytes option \<Rightarrow> bytes option \<Rightarrow> bytes option \<Rightarrow> bytes \<Rightarrow> (nat \<times> bytes) option"
where
  "fill_fields public_key user_data nonce att = do {
     let offset = 1815;
     att \<leftarrow> copy_into offset (offset + 11) ([0x6a] @ ascii ''public_key'') att;
     let offset = offset + 11;
     (n, att) \<leftarrow> encode_field offset public_key att;
     let offset = offset + n;
     att \<leftarrow> copy_into offset (offset + 10) ([0x69] @ ascii ''user_data'') att;
     let offset = offset + 10;
     (n, att) \<leftarrow> encode_field offset user_data att;
     let offset = offset + n;
     att \<leftarrow> copy_into offset (offset + 6) ([0x65] @ ascii ''nonce'') att;
     let offset = offset + 6;
     (n, att) \<leftarrow> encode_field offset nonce att;
     Some (offset + n, att) }"

definition fill_cose :: "nat \<Rightarrow> nat \<Rightarrow> bytes \<Rightarrow> bytes option" where
  "fill_cose psize offset att = do {
     att \<leftarrow> copy_into 0 8 [0x84, 0x44, 0xa1, 0x01, 0x38, 0x22, 0xa0, 0x59] att;
     att \<leftarrow> copy_into 8 10 (be16 psize) att;
     att \<leftarrow> set_byte offset 0x58 att;
     set_byte (offset + 1) 0x60 att }"

text \<open>What is hashed and signed.\<close>

definition prehash :: "'k mock_lib \<Rightarrow> nat \<Rightarrow> bytes \<Rightarrow> bytes option" where
  "prehash lib psize att = do {
     h \<leftarrow> vindex att 8;
     l \<leftarrow> vindex att 9;
     payload \<leftarrow> vslice att 10 (10 + psize);
     Some (mk_sha384 lib ([0x84] @ [0x6a] @ ascii ''Signature1'' @ [0x44, 0xa1, 0x01, 0x38, 0x22] @ [0x40] @
        [0x59, h, l] @ payload)) }"

definition sign_document :: "'k mock_lib \<Rightarrow> nat \<Rightarrow> bytes \<Rightarrow> bytes \<Rightarrow> bytes rust_result option" where
  "sign_document lib offset hash att =
     (case mk_from_sec1_der lib leaf_key of
        Inl e \<Rightarrow> Some (Inl (''failed to parse signer: '' @ e))
      | Inr signer \<Rightarrow>
          (case mk_sign_prehash lib signer hash of
             Inl e \<Rightarrow> Some (Inl (''failed to sign attestation: '' @ e))
           | Inr signature \<Rightarrow> do { att \<leftarrow> copy_into (offset + 2) (offset + 98) signature att; Some (Inr att) }))"

text \<open>\<open>now\<close> is the time since the epoch in milliseconds, if the clock is after the epoch.\<close>

definition mock_attestation_doc ::
  "'k mock_lib \<Rightarrow> u128 option \<Rightarrow> bytes option \<Rightarrow> bytes option \<Rightarrow> bytes option \<Rightarrow> bytes rust_result option"
where
  "mock_attestation_doc lib now public_key user_data nonce =
     (if too_long public_key then Some (Inl ''public key is too long, maximum of 65535'')
      else if too_long user_data then Some (Inl ''user_data is too long, maximum of 65535'')
      else if too_long nonce then Some (Inl ''nonce is too long, maximum of 65535'')
      else do {
        timestamp_ms \<leftarrow> now;
        let psize = payload_size public_key user_data nonce;
        let total_size = psize + 108;
        (if total_size > 65535 then Some (Inl ''Payload too big'')
         else do {
           let att = replicate total_size 0;
           att \<leftarrow> fill_head (ucast timestamp_ms) att;
           att \<leftarrow> fill_pcrs [0..<16] att;
           att \<leftarrow> fill_certs att;
           (offset, att) \<leftarrow> fill_fields public_key user_data nonce att;
           att \<leftarrow> fill_cose psize offset att;
           hash \<leftarrow> prehash lib psize att;
           sign_document lib offset hash att }) })"

section \<open>The servers\<close>

datatype nsm_request = Attestation_Request "bytes option" "bytes option" "bytes option"
datatype nsm_response = Attestation_Response bytes | Other_Response string

text \<open>\<open>attestation/server\<close>: a document with a public key; any other answer of the module is a panic.\<close>

definition server_attestation_doc :: "(nsm_request \<Rightarrow> nsm_response) \<Rightarrow> bytes \<Rightarrow> bytes option" where
  "server_attestation_doc nsm pub_key =
     (case nsm (Attestation_Request (Some pub_key) None None) of
        Attestation_Response document \<Rightarrow> Some document | Other_Response r \<Rightarrow> None)"

text \<open>\<open>attestation/server-custom\<close>: the three fields are given, and the other answers are errors.\<close>

definition custom_attestation_doc ::
  "(nsm_request \<Rightarrow> nsm_response) \<Rightarrow> bytes option \<Rightarrow> bytes option \<Rightarrow> bytes option \<Rightarrow> bytes rust_result"
where
  "custom_attestation_doc nsm public_key user_data nonce =
     (case nsm (Attestation_Request public_key user_data nonce) of
        Attestation_Response document \<Rightarrow> Inr document
      | Other_Response r \<Rightarrow> Inl (''nsm driver returned invalid response: '' @ r))"

record hex_lib =
  hex_decode :: "string \<Rightarrow> bytes rust_result"
  hex_encode :: "bytes \<Rightarrow> string"
  debug_string :: "string \<Rightarrow> string"

datatype 'a served = Served 'a | Bad_Query string | Server_Error string

definition extract_param :: "hex_lib \<Rightarrow> (string \<Rightarrow> string option) \<Rightarrow> string \<Rightarrow> bytes option rust_result" where
  "extract_param lib query key =
     (case query key of None \<Rightarrow> Inr None
      | Some x \<Rightarrow> (case hex_decode lib x of
          Inl e \<Rightarrow> Inl (''Failed to decode '' @ key @ '': '' @ e) | Inr b \<Rightarrow> Inr (Some b)))"

text \<open>The handlers of both custom servers, over the function that gives a document.\<close>

definition handle_raw ::
  "hex_lib \<Rightarrow> (bytes option \<Rightarrow> bytes option \<Rightarrow> bytes option \<Rightarrow> bytes rust_result option)
    \<Rightarrow> (string \<Rightarrow> string option) \<Rightarrow> bytes served option"
where
  "handle_raw lib get_doc query =
     (case extract_param lib query ''public_key'' of Inl e \<Rightarrow> Some (Bad_Query e)
      | Inr public_key \<Rightarrow>
     (case extract_param lib query ''user_data'' of Inl e \<Rightarrow> Some (Bad_Query e)
      | Inr user_data \<Rightarrow>
     (case extract_param lib query ''nonce'' of Inl e \<Rightarrow> Some (Bad_Query e)
      | Inr nonce \<Rightarrow> do {
          r \<leftarrow> get_doc public_key user_data nonce;
          Some (case r of
             Inl e \<Rightarrow> Server_Error (''Failed to generate attestation doc: '' @ debug_string lib e)
           | Inr doc \<Rightarrow> Served doc) })))"

definition handle_hex ::
  "hex_lib \<Rightarrow> (bytes option \<Rightarrow> bytes option \<Rightarrow> bytes option \<Rightarrow> bytes rust_result option)
    \<Rightarrow> (string \<Rightarrow> string option) \<Rightarrow> string served option"
where
  "handle_hex lib get_doc query =
     (case extract_param lib query ''public_key'' of Inl e \<Rightarrow> Some (Bad_Query e)
      | Inr public_key \<Rightarrow>
     (case extract_param lib query ''user_data'' of Inl e \<Rightarrow> Some (Bad_Query e)
      | Inr user_data \<Rightarrow>
     (case extract_param lib query ''nonce'' of Inl e \<Rightarrow> Some (Bad_Query e)
      | Inr nonce \<Rightarrow> do {
          r \<leftarrow> get_doc public_key user_data nonce;
          Some (case r of
             Inl e \<Rightarrow> Server_Error (''Failed to generate attestation doc: '' @ debug_string lib e)
           | Inr doc \<Rightarrow> Served (hex_encode lib doc)) })))"

text \<open>The end points: of the server with one key, of the custom server, and of the mock at a time.\<close>

definition server_hex_attestation_doc :: "hex_lib \<Rightarrow> (nsm_request \<Rightarrow> nsm_response) \<Rightarrow> bytes \<Rightarrow> string option" where
  "server_hex_attestation_doc lib nsm pub_key = map_option (hex_encode lib) (server_attestation_doc nsm pub_key)"

definition custom_raw :: "hex_lib \<Rightarrow> (nsm_request \<Rightarrow> nsm_response) \<Rightarrow> (string \<Rightarrow> string option) \<Rightarrow> bytes served option" where
  "custom_raw lib nsm = handle_raw lib (\<lambda>pk ud nonce. Some (custom_attestation_doc nsm pk ud nonce))"

definition custom_hex :: "hex_lib \<Rightarrow> (nsm_request \<Rightarrow> nsm_response) \<Rightarrow> (string \<Rightarrow> string option) \<Rightarrow> string served option" where
  "custom_hex lib nsm = handle_hex lib (\<lambda>pk ud nonce. Some (custom_attestation_doc nsm pk ud nonce))"

definition mock_raw :: "hex_lib \<Rightarrow> 'k mock_lib \<Rightarrow> u128 option \<Rightarrow> (string \<Rightarrow> string option) \<Rightarrow> bytes served option" where
  "mock_raw lib mock now = handle_raw lib (mock_attestation_doc mock now)"

definition mock_hex :: "hex_lib \<Rightarrow> 'k mock_lib \<Rightarrow> u128 option \<Rightarrow> (string \<Rightarrow> string option) \<Rightarrow> string served option" where
  "mock_hex lib mock now = handle_hex lib (mock_attestation_doc mock now)"

text \<open>The hexadecimal end point answers as the raw one, encoded.\<close>

lemma handle_hex_raw:
  "handle_hex lib get_doc query = map_option (map_served (hex_encode lib)) (handle_raw lib get_doc query)"
  by (auto simp: handle_hex_def handle_raw_def map_option_case split: sum.split option.split bind_split)

text \<open>The custom server never panics, and gives the document of the security module for exactly the fields asked for.\<close>

lemma custom_raw_served:
  "custom_raw lib nsm query = Some (Served doc) \<longleftrightarrow>
     (\<exists>pk ud nonce. extract_param lib query ''public_key'' = Inr pk \<and> extract_param lib query ''user_data'' = Inr ud \<and>
        extract_param lib query ''nonce'' = Inr nonce \<and> nsm (Attestation_Request pk ud nonce) = Attestation_Response doc)"
  by (auto simp: custom_raw_def handle_raw_def custom_attestation_doc_def split: sum.splits nsm_response.splits)

section \<open>What the writes make\<close>

text \<open>\<open>writes i x m\<close>: \<open>m\<close> writes the bytes \<open>x\<close> over a buffer from \<open>i\<close> on, if it has room for them.\<close>

definition writes :: "nat \<Rightarrow> bytes \<Rightarrow> (bytes \<Rightarrow> bytes option) \<Rightarrow> bool" where
  "writes i x m \<longleftrightarrow> (\<forall>buf. i + length x \<le> length buf \<longrightarrow> m buf = Some (take i buf @ x @ drop (i + length x) buf))"

named_theorems writes_intros \<open>what a sequence of writes leaves in the buffer\<close>

lemma writes_set [writes_intros]: "j = i \<Longrightarrow> writes i [x] (set_byte j x)"
  by (auto simp: writes_def set_byte_def upd_conv_take_nth_drop)

lemma writes_copy [writes_intros]: "a = i \<Longrightarrow> b = i + length x \<Longrightarrow> writes i x (copy_into a b x)"
  by (auto simp: writes_def copy_into_def)

lemma writes_Nil: "writes i [] Some"
  by (simp add: writes_def)

lemma writes_then:
  assumes "writes i x m" and "writes (i + length x) y f"
  shows "writes i (x @ y) (\<lambda>buf. m buf \<bind> f)"
  unfolding writes_def
proof (intro allI impI)
  fix buf :: bytes
  assume len: "i + length (x @ y) \<le> length buf"
  let ?b = "take i buf @ x @ drop (i + length x) buf"
  from assms(1) len have m: "m buf = Some ?b" by (simp add: writes_def)
  from len have "i + length x + length y \<le> length ?b" by simp
  with assms(2) have "f ?b = Some (take (i + length x) ?b @ y @ drop (i + length x + length y) ?b)"
    by (simp only: writes_def)
  also have "take (i + length x) ?b = take i buf @ x" using len by simp
  also have "drop (i + length x + length y) ?b = drop (i + length (x @ y)) buf" using len by (simp add: add.assoc add.commute add.left_commute)
  finally show "m buf \<bind> f = Some (take i buf @ (x @ y) @ drop (i + length (x @ y)) buf)" by (simp add: m)
qed

text \<open>The same with a result.\<close>

definition writes_give :: "nat \<Rightarrow> bytes \<Rightarrow> 'r \<Rightarrow> (bytes \<Rightarrow> ('r \<times> bytes) option) \<Rightarrow> bool" where
  "writes_give i x r m \<longleftrightarrow>
     (\<forall>buf. i + length x \<le> length buf \<longrightarrow> m buf = Some (r, take i buf @ x @ drop (i + length x) buf))"

lemma writes_give_alt: "writes_give i x r m \<longleftrightarrow> writes i x (\<lambda>buf. map_option snd (m buf)) \<and>
    (\<forall>buf. i + length x \<le> length buf \<longrightarrow> map_option fst (m buf) = Some r)"
proof -
  have "m buf = Some (r, y) \<longleftrightarrow> map_option snd (m buf) = Some y \<and> map_option fst (m buf) = Some r" for buf y
    by (cases "m buf") auto
  then show ?thesis unfolding writes_give_def writes_def by blast
qed

lemma writes_return: "r' = r \<Longrightarrow> writes_give i [] r (\<lambda>buf. Some (r', buf))"
  by (simp add: writes_give_def)

lemma writes_then_give:
  assumes "writes i x m" and "writes_give (i + length x) y r f"
  shows "writes_give i (x @ y) r (\<lambda>buf. m buf \<bind> f)"
proof -
  have "writes i (x @ y) (\<lambda>buf. m buf \<bind> (\<lambda>buf. map_option snd (f buf)))"
    using assms by (intro writes_then) (simp_all add: writes_give_alt)
  moreover have "map_option snd (m buf \<bind> f) = m buf \<bind> (\<lambda>buf. map_option snd (f buf))" for buf
    by (cases "m buf") simp_all
  moreover have "map_option fst (m buf \<bind> f) = Some r" if "i + length (x @ y) \<le> length buf" for buf
    using assms that by (simp add: writes_def writes_give_def)
  ultimately show ?thesis by (simp add: writes_give_alt)
qed

lemma writes_give_then:
  assumes "writes_give i x n m" and "writes_give (i + length x) y r (f n)"
  shows "writes_give i (x @ y) r (\<lambda>buf. m buf \<bind> (\<lambda>(n, buf). f n buf))"
proof -
  have "writes i x (\<lambda>buf. map_option snd (m buf))" using assms(1) by (simp add: writes_give_alt)
  from writes_then_give [OF this assms(2)]
  have *: "writes_give i (x @ y) r (\<lambda>buf. map_option snd (m buf) \<bind> f n)" .
  have "m buf \<bind> (\<lambda>(n, buf). f n buf) = map_option snd (m buf) \<bind> f n" if "i + length (x @ y) \<le> length buf" for buf
    using assms(1) that by (simp add: writes_give_def)
  with * show ?thesis by (simp add: writes_give_def)
qed

subsection \<open>The parts of the document\<close>

lemma length_u64_to_be_bytes [simp]: "length (u64_to_be_bytes x) = 8"
  by (simp add: u64_to_be_bytes_def)

lemma length_certs [simp]: "length root_cert = 404" "length leaf_cert = 466"
  by (simp_all add: root_cert_def leaf_cert_def)

lemma length_module_id [simp]: "length module_id = 39"
  by (simp add: module_id_def)

definition head_bytes :: "u64 \<Rightarrow> bytes" where
  "head_bytes ms =
     ts_bytes (ascii ''module_id'') module_id (ascii ''digest'') (ascii ''SHA384'') (u64_to_be_bytes ms)"

lemma writes_head: "writes 10 (head_bytes ms) (fill_head ms)"
proof -
  have "head_bytes ms = [0xa9] @ [0x69] @ ascii ''module_id'' @ ([0x78, 0x27] @ module_id) @ ([0x66] @ ascii ''digest'') @
      ([0x66] @ ascii ''SHA384'') @ ([0x69] @ ascii ''timestamp'') @ [0x1b] @ u64_to_be_bytes ms @
      ([0x64] @ ascii ''pcrs'') @ [0xb0]"
    by (simp add: head_bytes_def ts_bytes_def)
  then show ?thesis
    unfolding fill_head_def [abs_def] by (simp only:) (intro writes_then writes_set writes_copy; simp)
qed

definition mock_pcrs :: "bytes list" where
  "mock_pcrs = map (\<lambda>i. replicate 48 (of_nat i)) [0..<16]"

lemma writes_pcrs:
  "writes (101 + 51 * i) (pcrs_bytes (of_nat i) (map (\<lambda>i. replicate 48 (of_nat i)) [i ..< i + n])) (fill_pcrs [i ..< i + n])"
proof (induction n arbitrary: i)
  case 0
  then show ?case by (simp add: writes_def)
next
  case (Suc n)
  have range: "[i ..< i + Suc n] = i # [Suc i ..< Suc i + n]"
    using upt_rec [of i "i + Suc n"] by simp
  let ?rest = "pcrs_bytes (of_nat (Suc i)) (map (\<lambda>i. replicate 48 (of_nat i)) [Suc i ..< Suc i + n])"
  have "writes (101 + 51 * i) ([of_nat i] @ [0x58] @ [0x30] @ replicate 48 (of_nat i) @ ?rest) (fill_pcrs (i # [Suc i ..< Suc i + n]))"
    unfolding fill_pcrs.simps [abs_def]
    by (intro writes_then writes_set writes_copy) (use Suc.IH [of "Suc i"] in \<open>simp_all add: algebra_simps\<close>)
  moreover have "of_nat (Suc i) = of_nat i + (1 :: u8)" by simp
  ultimately show ?case
    by (simp only: range list.map pcrs_bytes.simps pcr_bytes_def append.simps append_assoc)
qed

lemma writes_certs: "writes 917 (leaf_bytes leaf_cert @ chain_bytes [root_cert]) fill_certs"
proof -
  have "leaf_bytes leaf_cert @ chain_bytes [root_cert] =
      ([0x6b] @ ascii ''certificate'') @ [0x59] @ be16 (length leaf_cert) @ leaf_cert @
      ([0x68] @ ascii ''cabundle'') @ [0x81] @ [0x59] @ be16 (length root_cert) @ root_cert"
    by (simp add: leaf_bytes_def der_bytes_def chain_bytes_def)
  then show ?thesis
    unfolding fill_certs_def [abs_def] by (simp only:) (intro writes_then writes_set writes_copy; simp)
qed

text \<open>The encoding of a field.\<close>

definition cbor_field :: "bytes option \<Rightarrow> bytes" where
  "cbor_field x = (case x of
     None \<Rightarrow> [0xf6]
   | Some p \<Rightarrow> if length p < 24 then [0x40 + of_nat (length p)] @ p
               else if length p < 256 then [0x58] @ [of_nat (length p)] @ p
               else [0x59] @ be16 (length p) @ p)"

lemma length_cbor_field: "length (cbor_field x) = field_len x"
  by (simp add: cbor_field_def field_len_def encoded_len_def split: option.split)

lemma writes_field: "writes_give i (cbor_field x) (field_len x) (encode_field i x)"
proof -
  have "writes_give i (cbor_field x) (field_len x) (\<lambda>att. case x of
        None \<Rightarrow> do { att \<leftarrow> set_byte i 0xf6 att; Some (1, att) }
      | Some p \<Rightarrow>
          if length p < 24 then do {
            att \<leftarrow> set_byte i (0x40 + of_nat (length p)) att;
            att \<leftarrow> copy_into (i + 1) (i + 1 + length p) p att;
            Some (1 + length p, att) }
          else if length p < 256 then do {
            att \<leftarrow> set_byte i 0x58 att;
            att \<leftarrow> set_byte (i + 1) (of_nat (length p)) att;
            att \<leftarrow> copy_into (i + 2) (i + 2 + length p) p att;
            Some (2 + length p, att) }
          else do {
            att \<leftarrow> set_byte i 0x59 att;
            att \<leftarrow> copy_into (i + 1) (i + 3) (be16 (length p)) att;
            att \<leftarrow> copy_into (i + 3) (i + 3 + length p) p att;
            Some (3 + length p, att) })"
  proof (cases x)
    case None
    have "writes_give i ([0xf6] @ []) 1 (\<lambda>att. set_byte i 0xf6 att \<bind> (\<lambda>att. Some (1, att)))"
      by (intro writes_then_give writes_set writes_return) simp_all
    with None show ?thesis by (simp add: cbor_field_def field_len_def del: One_nat_def)
  next
    case (Some p)
    have "writes_give i ([0x40 + of_nat (length p)] @ p @ []) (1 + length p)
        (\<lambda>att. do { att \<leftarrow> set_byte i (0x40 + of_nat (length p)) att;
            att \<leftarrow> copy_into (i + 1) (i + 1 + length p) p att; Some (1 + length p, att) })"
      by (intro writes_then_give writes_set writes_copy writes_return) simp_all
    moreover have "writes_give i ([0x58] @ [of_nat (length p)] @ p @ []) (2 + length p)
        (\<lambda>att. do { att \<leftarrow> set_byte i 0x58 att; att \<leftarrow> set_byte (i + 1) (of_nat (length p)) att;
            att \<leftarrow> copy_into (i + 2) (i + 2 + length p) p att; Some (2 + length p, att) })"
      by (intro writes_then_give writes_set writes_copy writes_return) simp_all
    moreover have "writes_give i ([0x59] @ be16 (length p) @ p @ []) (3 + length p)
        (\<lambda>att. do { att \<leftarrow> set_byte i 0x59 att; att \<leftarrow> copy_into (i + 1) (i + 3) (be16 (length p)) att;
            att \<leftarrow> copy_into (i + 3) (i + 3 + length p) p att; Some (3 + length p, att) })"
      by (intro writes_then_give writes_set writes_copy writes_return) simp_all
    ultimately show ?thesis using Some by (simp add: cbor_field_def field_len_def encoded_len_def del: One_nat_def)
  qed
  then show ?thesis
    by (simp add: writes_give_def encode_field_def expect_def)
qed

lemma writes_field_at: "j = i \<Longrightarrow> writes_give i (cbor_field x) (field_len x) (encode_field j x)"
  by (simp add: writes_field)

lemma length_cbor_field_pos: "0 < length (cbor_field x)"
  by (auto simp: cbor_field_def split: option.split)

definition fields_bytes :: "bytes option \<Rightarrow> bytes option \<Rightarrow> bytes option \<Rightarrow> bytes" where
  "fields_bytes public_key user_data nonce =
     ([0x6a] @ ascii ''public_key'') @ cbor_field public_key @ ([0x69] @ ascii ''user_data'') @ cbor_field user_data @
     ([0x65] @ ascii ''nonce'') @ cbor_field nonce"

lemma writes_fields:
  "writes_give 1815 (fields_bytes pk ud nonce) (1842 + field_len pk + field_len ud + field_len nonce) (fill_fields pk ud nonce)"
proof -
  have "writes_give 1815 (([0x6a] @ ascii ''public_key'') @ cbor_field pk @ ([0x69] @ ascii ''user_data'') @ cbor_field ud @
     ([0x65] @ ascii ''nonce'') @ cbor_field nonce @ []) (1842 + field_len pk + field_len ud + field_len nonce)
     (fill_fields pk ud nonce)"
    unfolding fill_fields_def [abs_def] Let_def
    by (rule writes_then_give writes_give_then writes_copy writes_field_at writes_return |
        simp add: length_cbor_field; fail)+
  then show ?thesis by (simp add: fields_bytes_def)
qed

subsection \<open>The document\<close>

definition mock_payload :: "u64 \<Rightarrow> bytes option \<Rightarrow> bytes option \<Rightarrow> bytes option \<Rightarrow> bytes" where
  "mock_payload ms pk ud nonce =
     head_bytes ms @ pcrs_bytes 0 mock_pcrs @ (leaf_bytes leaf_cert @ chain_bytes [root_cert]) @ fields_bytes pk ud nonce"

lemma length_mock_pcrs: "length mock_pcrs = 16" "\<forall>v \<in> set mock_pcrs. length v = 48"
  by (simp_all add: mock_pcrs_def)

lemma length_parts:
  "length (head_bytes ms) = 91" "length (pcrs_bytes 0 mock_pcrs) = 816"
  "length (leaf_bytes leaf_cert @ chain_bytes [root_cert]) = 898"
  "length (fields_bytes pk ud nonce) = 27 + field_len pk + field_len ud + field_len nonce"
proof -
  show "length (head_bytes ms) = 91" by (simp add: head_bytes_def length_timestamp_bytes)
  show "length (pcrs_bytes 0 mock_pcrs) = 816" by (simp add: length_pcrs_bytes length_mock_pcrs)
  show "length (leaf_bytes leaf_cert @ chain_bytes [root_cert]) = 898"
    by (simp add: leaf_bytes_def length_chain_bytes)
  show "length (fields_bytes pk ud nonce) = 27 + field_len pk + field_len ud + field_len nonce"
    by (simp add: fields_bytes_def length_cbor_field)
qed

lemma length_mock_payload: "length (mock_payload ms pk ud nonce) = payload_size pk ud nonce"
  by (simp only: mock_payload_def length_append [of "head_bytes _"] length_append [of "pcrs_bytes _ _"]
      length_append [of "leaf_bytes _ @ chain_bytes _" "fields_bytes _ _ _"] length_parts payload_size_def)

lemma writes_payload:
  "writes_give 10 (mock_payload ms pk ud nonce) (10 + payload_size pk ud nonce)
     (\<lambda>att. fill_head ms att \<bind> (\<lambda>att. fill_pcrs [0..<16] att \<bind> (\<lambda>att. fill_certs att \<bind> fill_fields pk ud nonce)))"
  unfolding mock_payload_def
proof (intro writes_then_give)
  show "writes 10 (head_bytes ms) (fill_head ms)" by (rule writes_head)
  have "writes (101 + 51 * 0) (pcrs_bytes (of_nat 0) mock_pcrs) (fill_pcrs [0..<0 + 16])"
    unfolding mock_pcrs_def using writes_pcrs [of 0 16] by (simp only: add_0)
  then show "writes (10 + length (head_bytes ms)) (pcrs_bytes 0 mock_pcrs) (fill_pcrs [0..<16])"
    by (simp only: length_parts of_nat_0 add_0 mult_0_right add_0_right) simp
  show "writes (10 + length (head_bytes ms) + length (pcrs_bytes 0 mock_pcrs))
      (leaf_bytes leaf_cert @ chain_bytes [root_cert]) fill_certs"
    using writes_certs by (simp only: length_parts) simp
  show "writes_give (10 + length (head_bytes ms) + length (pcrs_bytes 0 mock_pcrs) +
      length (leaf_bytes leaf_cert @ chain_bytes [root_cert])) (fields_bytes pk ud nonce)
      (10 + payload_size pk ud nonce) (fill_fields pk ud nonce)"
    using writes_fields [of pk ud nonce] by (simp only: length_parts payload_size_def) (simp add: add.assoc)
qed

lemma fill_cose_result:
  assumes "length payload = n"
  shows "fill_cose n (10 + n) (replicate 10 0 @ payload @ replicate 98 0) =
    Some (cose_header @ be16 n @ payload @ [0x58, 0x60] @ replicate 96 0)"
proof -
  have "writes 0 (cose_header @ be16 n) (\<lambda>att. copy_into 0 8 cose_header att \<bind> copy_into 8 10 (be16 n))"
    by (intro writes_then writes_copy) simp_all
  then have a: "copy_into 0 8 cose_header (replicate 10 0 @ payload @ replicate 98 0) \<bind> copy_into 8 10 (be16 n) =
      Some ((cose_header @ be16 n) @ payload @ replicate 98 0)"
    by (simp add: writes_def)
  have "writes (10 + n) ([0x58] @ [0x60]) (\<lambda>att. set_byte (10 + n) 0x58 att \<bind> set_byte (10 + n + 1) 0x60)"
    by (intro writes_then writes_set) simp_all
  then have b: "set_byte (10 + n) 0x58 ((cose_header @ be16 n) @ payload @ replicate 98 0) \<bind> set_byte (10 + n + 1) 0x60 =
      Some (cose_header @ be16 n @ payload @ [0x58, 0x60] @ replicate 96 0)"
    using assms by (simp add: writes_def)
  have "fill_cose n (10 + n) att = (copy_into 0 8 cose_header att \<bind> copy_into 8 10 (be16 n)) \<bind>
      (\<lambda>att. set_byte (10 + n) 0x58 att \<bind> set_byte (10 + n + 1) 0x60)" for att
    by (simp add: fill_cose_def cose_header_def)
  with a b show ?thesis by (simp only: bind.bind_lunit)
qed

text \<open>The structure that is signed.\<close>

definition sig_structure :: "bytes \<Rightarrow> bytes" where
  "sig_structure payload = [0x84, 0x6a] @ ascii ''Signature1'' @ [0x44, 0xa1, 0x01, 0x38, 0x22, 0x40, 0x59] @
     be16 (length payload) @ payload"

lemma prehash_result:
  assumes "length payload = n"
  shows "prehash lib n (cose_header @ be16 n @ payload @ rest) = Some (mk_sha384 lib (sig_structure payload))"
proof -
  define h l where "h = (ucast (drop_bit 8 (of_nat n :: u16)) :: u8)" and "l = (ucast (of_nat n :: u16) :: u8)"
  have be: "be16 n = [h, l]" by (simp add: be16_def u16_to_be_bytes_def h_def l_def)
  show ?thesis
    using assms by (simp add: prehash_def be cose_header_def vindex_def vslice_def sig_structure_def eval_nat_numeral)
qed

lemma sign_document_result:
  assumes "length payload = n"
  shows "sign_document lib (10 + n) hash (cose_header @ be16 n @ payload @ [0x58, 0x60] @ replicate 96 0) =
    (case mk_from_sec1_der lib leaf_key of
       Inl e \<Rightarrow> Some (Inl (''failed to parse signer: '' @ e))
     | Inr signer \<Rightarrow>
         (case mk_sign_prehash lib signer hash of
            Inl e \<Rightarrow> Some (Inl (''failed to sign attestation: '' @ e))
          | Inr sig \<Rightarrow> if length sig = 96 then Some (Inr (cose_header @ be16 n @ payload @ [0x58, 0x60] @ sig)) else None))"
  using assms by (simp add: sign_document_def copy_into_def split: sum.split)

text \<open>The whole function, on inputs that fit: nothing panics but a missing clock or a signature of another size.\<close>

lemma mock_attestation_doc_result:
  assumes "payload_size pk ud nonce + 108 \<le> 65535" and "\<not> too_long pk" "\<not> too_long ud" "\<not> too_long nonce"
  shows "mock_attestation_doc lib (Some now) pk ud nonce =
    (let payload = mock_payload (ucast now) pk ud nonce in
     case mk_from_sec1_der lib leaf_key of
       Inl e \<Rightarrow> Some (Inl (''failed to parse signer: '' @ e))
     | Inr signer \<Rightarrow>
         (case mk_sign_prehash lib signer (mk_sha384 lib (sig_structure payload)) of
            Inl e \<Rightarrow> Some (Inl (''failed to sign attestation: '' @ e))
          | Inr sig \<Rightarrow> if length sig = 96
              then Some (Inr (cose_header @ be16 (length payload) @ payload @ [0x58, 0x60] @ sig)) else None))"
proof -
  let ?n = "payload_size pk ud nonce" and ?p = "mock_payload (ucast now) pk ud nonce"
  let ?b = "replicate (?n + 108) (0 :: u8)"
  have len: "length ?p = ?n" by (rule length_mock_payload)
  have buf: "take 10 ?b @ ?p @ drop (10 + length ?p) ?b = replicate 10 0 @ ?p @ replicate 98 0"
    by (simp add: len)
  have "fill_head (ucast now) ?b \<bind> (\<lambda>att. fill_pcrs [0..<16] att \<bind> (\<lambda>att. fill_certs att \<bind> fill_fields pk ud nonce)) =
      Some (10 + ?n, replicate 10 0 @ ?p @ replicate 98 0)"
    using writes_payload [of "ucast now" pk ud nonce] len unfolding writes_give_def buf [symmetric] by simp
  then obtain b1 b2 b3 where steps: "fill_head (ucast now) ?b = Some b1" "fill_pcrs [0..<16] b1 = Some b2"
      "fill_certs b2 = Some b3" "fill_fields pk ud nonce b3 = Some (10 + ?n, replicate 10 0 @ ?p @ replicate 98 0)"
    unfolding bind_eq_Some_conv by blast
  have "mock_attestation_doc lib (Some now) pk ud nonce =
      sign_document lib (10 + ?n) (mk_sha384 lib (sig_structure ?p)) (cose_header @ be16 ?n @ ?p @ [0x58, 0x60] @ replicate 96 0)"
    using assms unfolding mock_attestation_doc_def Let_def
    by (simp only: if_False not_less bind.bind_lunit steps prod.case fill_cose_result [OF len] prehash_result [OF len]
        linorder_not_less [THEN iffD2])
  then show ?thesis by (simp only: sign_document_result [OF len] len Let_def)
qed

section \<open>The guest on the documents of the mock\<close>

lemma first_byte: "bytes_at att i (x # xs) \<Longrightarrow> bytes_at att i [y] \<Longrightarrow> x = y"
  using bytes_at_append [of att i "[x]" xs] vindex_eq [of att i x] vindex_eq [of att i y] by simp

lemma first_byte_at: "bytes_at att i (x # xs) \<Longrightarrow> bytes_at att i [x]"
  using bytes_at_append [of att i "[x]" xs] by simp

lemma short_tag_ne:
  assumes "n < 24" and "88 \<le> unat (x :: u8)"
  shows "0x40 + of_nat n \<noteq> x"
proof
  assume "0x40 + of_nat n = x"
  moreover have "unat (of_nat n :: u8) = n" using assms(1) by (simp add: unat_byte)
  moreover from this have "unat (0x40 + of_nat n :: u8) = unat (0x40 :: u8) + unat (of_nat n :: u8)"
    using assms(1) by (subst unat_add_lem [symmetric]) simp
  ultimately have "unat x = 64 + n" by simp
  with assms show False by simp
qed

lemma short_tag:
  assumes "n < 24"
  shows "0x40 + of_nat n \<noteq> (0xf6 :: u8)" "0x40 + of_nat n \<noteq> (0x58 :: u8)" "0x40 + of_nat n \<noteq> (0x59 :: u8)"
  by (rule short_tag_ne [OF assms]; simp)+

text \<open>The key and the user data of a document, as the guest reads them.\<close>

definition guest_key :: "bytes option \<Rightarrow> bytes option" where
  "guest_key pk = (case pk of None \<Rightarrow> None | Some k \<Rightarrow> if 24 \<le> length k \<and> length k < 256 then Some k else None)"

definition guest_data :: "bytes option \<Rightarrow> bytes option" where
  "guest_data ud = (case ud of None \<Rightarrow> Some [] | Some d \<Rightarrow> if 24 \<le> length d then Some d else None)"

lemma read_mock_key:
  assumes "bytes_at att i (([0x6a] @ ascii ''public_key'') @ cbor_field pk)"
  shows "read_public_key att i = map_option (\<lambda>k. (i + 11 + field_len pk, k)) (guest_key pk)"
proof (cases "guest_key pk")
  case (Some k)
  then have pk: "pk = Some k" "24 \<le> length k" "length k < 256"
    by (auto simp: guest_key_def split: option.splits if_splits)
  with assms have "bytes_at att i (key_bytes k)" by (simp add: cbor_field_def key_bytes_def)
  with pk have "read_public_key att i = Some (i + 11 + field_len pk, k)"
    unfolding read_public_key_eq by (simp add: length_key_bytes field_len_def encoded_len_def)
  with Some show ?thesis by simp
next
  case None
  have field: "bytes_at att (i + 11) (cbor_field pk)"
    using assms unfolding bytes_at_append [of _ _ "[0x6a] @ _"] by (simp add: eval_nat_numeral)
  have "read_public_key att i \<noteq> Some (j, k)" for j k
  proof
    assume "read_public_key att i = Some (j, k)"
    then have "bytes_at att (i + 11) [0x58]" unfolding read_public_key_eq at_key_bytes by blast
    with field None show False
      by (auto simp: cbor_field_def guest_key_def short_tag dest: first_byte split: option.splits if_splits)
  qed
  then show ?thesis using None by (cases "read_public_key att i") auto
qed

lemma read_mock_data:
  assumes at: "bytes_at att i (([0x69] @ ascii ''user_data'') @ cbor_field ud)" and fits: "\<not> too_long ud"
  shows "read_user_data att i = map_option (\<lambda>d. (of_nat (length d), d)) (guest_data ud)"
proof (cases "guest_data ud")
  case (Some d)
  then have "\<exists>f. field_wf f \<and> field_data f = d \<and> field_bytes f = cbor_field ud"
    using fits unfolding guest_data_def cbor_field_def too_long_def
    by (cases ud) (auto split: if_splits intro: exI [of _ No_Data] exI [of _ "Short_Data d"] exI [of _ "Long_Data d"])
  then obtain f where f: "field_wf f" "field_data f = d" "field_bytes f = cbor_field ud" by blast
  from at f(3) have "bytes_at att i (user_data_bytes f)" by (simp add: user_data_bytes_def)
  with f have "read_user_data att i = Some (of_nat (length d), d)" unfolding read_user_data_eq by blast
  with Some show ?thesis by simp
next
  case None
  have field: "bytes_at att (i + 10) (cbor_field ud)"
    using at unfolding bytes_at_append [of _ _ "[0x69] @ _"] by (simp add: eval_nat_numeral)
  from None obtain e where ud: "ud = Some e" "length e < 24"
    by (auto simp: guest_data_def split: option.splits if_splits)
  have "read_user_data att i \<noteq> Some (j, k)" for j k
  proof
    assume "read_user_data att i = Some (j, k)"
    then obtain f where "bytes_at att (i + 10) (field_bytes f)"
      unfolding read_user_data_eq at_user_data_bytes by blast
    then have "\<exists>b \<in> {0xf6, 0x58, 0x59}. bytes_at att (i + 10) [b]"
      by (cases f) (auto dest: first_byte_at)
    with field ud show False
      by (auto simp: cbor_field_def short_tag dest: first_byte)
  qed
  then show ?thesis using None by (cases "read_user_data att i") auto
qed

text \<open>
  The libraries agree with the files of the mock: both certificates are read, are valid at \<open>t\<close>, the root has an
  uncompressed key and has signed the leaf, and the key of the mock signs for the leaf.
\<close>

definition mock_trusted :: "('x, 'v, 'g) guest_lib \<Rightarrow> 'k mock_lib \<Rightarrow> u64 \<Rightarrow> 'x \<Rightarrow> 'x \<Rightarrow> bool" where
  "mock_trusted lib mock t root leaf \<longleftrightarrow>
     cert_from_der lib root_cert = Some root \<and> cert_from_der lib leaf_cert = Some leaf \<and>
     (\<forall>c \<in> {root, leaf}. cert_not_before lib c < t \<and> t < cert_not_after lib c) \<and>
     length (cert_public_key lib root) = 97 \<and> hd (cert_public_key lib root) = 0x04 \<and>
     signed_by lib root leaf_cert leaf = Some () \<and> mk_sha384 mock = sha384 lib \<and>
     (\<exists>key vkey. mk_from_sec1_der mock leaf_key = Inr key \<and> key_from_sec1 lib (cert_public_key lib leaf) = Some vkey \<and>
        (\<forall>h. \<exists>r s g. mk_sign_prehash mock key h = Inr (r @ s) \<and> length r = 48 \<and> length s = 48 \<and>
           signature_from_scalars lib r s = Some g \<and> key_verify_prehash lib vkey h g))"

lemma be_digit: "push_bit 8 (drop_bit (k + 8) x) OR ucast (ucast (drop_bit k x) :: u8) = drop_bit k (x :: u64)"
proof (rule bit_word_eqI)
  fix n
  assume "n < LENGTH(64)"
  then show "bit (push_bit 8 (drop_bit (k + 8) x) OR ucast (ucast (drop_bit k x) :: u8)) n = bit (drop_bit k x) n"
    by (cases "n < 8") (auto simp: bit_simps not_less add.commute dest: bit_imp_le_length)
qed

lemma be_first: "push_bit 8 0 OR ucast (ucast (drop_bit 56 x) :: u8) = drop_bit 56 (x :: u64)"
  by (rule bit_word_eqI) (auto simp: bit_simps dest: bit_imp_le_length)

lemma u64_be_roundtrip: "u64_from_be_bytes (u64_to_be_bytes x) = x"
  using be_digit [of 0 x] be_digit [of 8 x] be_digit [of 16 x] be_digit [of 24 x] be_digit [of 32 x] be_digit [of 40 x]
    be_digit [of 48 x] be_first [of x]
  by (simp add: u64_from_be_bytes_def u64_to_be_bytes_def)

definition mock_journal :: "u64 \<Rightarrow> bytes \<Rightarrow> bytes \<Rightarrow> bytes \<Rightarrow> bytes" where
  "mock_journal ms root_key key data =
     u64_to_be_bytes ms @ concat (take 3 mock_pcrs) @ root_key @ [of_nat (length key)] @ key @
     be16 (length data) @ data"

lemma guest_on_mock:
  assumes contract: "der_contract lib" and trusted: "mock_trusted lib mock (ms div 1000) root leaf"
    and payload: "payload = mock_payload ms pk ud nonce" and len: "length payload < 65536" "length r = 48" "length s = 48"
    and ud: "\<not> too_long ud" and sig: "cose_signed lib leaf payload r s"
  shows "guest_main lib (cose_bytes payload r s) =
    (case (guest_key pk, guest_data ud) of
       (Some key, Some data) \<Rightarrow> Some (mock_journal ms (tl (cert_public_key lib root)) key data)
     | _ \<Rightarrow> None)"
proof -
  let ?att = "cose_bytes payload r s" and ?t = "u64_from_be_bytes (u64_to_be_bytes ms) div 1000"
  let ?rk = "tl (cert_public_key lib root)"
  note tr = trusted [unfolded mock_trusted_def]
  have "bytes_at ?att 0 ?att" by (simp add: bytes_at_def vslice_def)
  then have h: "bytes_at ?att 0 (cose_header @ be16 (length payload))" and body: "bytes_at ?att 8 (be16 (length payload))"
      "bytes_at ?att 10 (payload @ [0x58, 0x60] @ r @ s)" and pay: "bytes_at ?att 10 payload"
    unfolding cose_bytes_def bytes_at_append [of _ _ cose_header] bytes_at_append [of _ _ "be16 _"]
      bytes_at_append [of _ _ payload] by simp_all
  have H: "read_header ?att = Some (length payload)"
    unfolding read_header_eq using h len by (simp add: cose_bytes_def)
  have parts: "bytes_at ?att 10 (head_bytes ms)" "bytes_at ?att 101 (pcrs_bytes 0 mock_pcrs)"
      "bytes_at ?att 917 (leaf_bytes leaf_cert)" "bytes_at ?att 1398 (chain_bytes [root_cert])"
      "bytes_at ?att 1815 (fields_bytes pk ud nonce)"
    using pay length_parts unfolding payload mock_payload_def bytes_at_append [of _ _ "head_bytes _"]
      bytes_at_append [of _ _ "pcrs_bytes _ _"] bytes_at_append [of _ _ "leaf_bytes _ @ chain_bytes _"]
      bytes_at_append [of _ _ "leaf_bytes _"] by (simp_all add: leaf_bytes_def length_chain_bytes)
  have T: "read_timestamp ?att = Some (101, u64_to_be_bytes ms)"
    unfolding read_timestamp_eq using parts(1) length_parts(1) [of ms] unfolding head_bytes_def
    by (intro exI [of _ "ascii ''module_id''"] exI [of _ module_id] exI [of _ "ascii ''digest''"]
        exI [of _ "ascii ''SHA384''"]) simp
  have "917 \<le> length ?att" using bytes_at_le [OF parts(3)] by simp
  note P = read_pcrs_eq [OF this, THEN iffD2]
  have P: "read_pcrs ?att 101 = Some (917, take 3 mock_pcrs)"
    by (rule P) (use parts(2) length_parts(2) length_mock_pcrs in auto)
  have L: "read_leaf lib ?att 917 = Some (1398, leaf)"
    unfolding read_leaf_eq using parts(3) tr by (intro exI [of _ leaf_cert]) (simp add: leaf_bytes_def)
  have valid: "expect_validity lib ?t c = Some ()" if "c \<in> {root, leaf}" for c
    using tr that by (auto simp: expect_validity_eq u64_be_roundtrip)
  have "\<exists>off1 n off2 root' par. read_chain_size ?att 1398 = Some (off1, n) \<and>
      read_root lib ?att ?t off1 = Some (off2, root', ?rk) \<and>
      verify_children lib ?att ?t (n - 1) root' off2 = Some (1815, par) \<and> par = root"
    unfolding read_chain_eq [OF contract] using parts(4) tr valid
    by (intro exI [of _ "[root_cert]"] exI [of _ root]) (auto simp: length_chain_bytes)
  then obtain off4 n off5 root' where C: "read_chain_size ?att 1398 = Some (off4, n)"
      "read_root lib ?att ?t off4 = Some (off5, root', ?rk)"
      "verify_children lib ?att ?t (n - 1) root' off5 = Some (1815, root)" by blast
  have "bytes_at ?att (917 + 15) leaf_cert" using parts(3) unfolding at_leaf_bytes at_der_bytes by simp
  then have "expect_signed lib ?att (917 + 15) root leaf = Some ()"
    using expect_signed_eq [OF contract, of leaf_cert leaf] tr by blast
  then have V: "verify_leaf lib ?att ?t root (917 + 15) leaf = Some ()" using valid by (simp add: verify_leaf_def)
  have fields: "bytes_at ?att 1815 (([0x6a] @ ascii ''public_key'') @ cbor_field pk)"
      "bytes_at ?att (1815 + 11 + field_len pk) (([0x69] @ ascii ''user_data'') @ cbor_field ud)"
    using parts(5) unfolding fields_bytes_def bytes_at_append [of _ _ "[0x6a] @ _"] bytes_at_append [of _ _ "[0x69] @ _"]
      bytes_at_append [of _ _ "cbor_field _"] by (simp_all add: length_cbor_field add.assoc)
  note K = read_mock_key [OF fields(1)] and U = read_mock_data [OF fields(2) ud]
  have S: "verify_cose lib ?att (length payload) leaf = Some ()"
    unfolding verify_cose_eq [OF len(1) body(1)] using body sig len by blast
  have "guest_main lib ?att = do {
      (offset, key) \<leftarrow> read_public_key ?att 1815;
      (size, data) \<leftarrow> read_user_data ?att offset;
      Some (u64_to_be_bytes ms @ concat (take 3 mock_pcrs) @ ?rk @ [of_nat (length key)] @ key @ u16_to_be_bytes size @ data) }"
    by (simp only: guest_main_def Let_def H T P L C V S bind.bind_lunit prod.case)
  also have "\<dots> = (case (guest_key pk, guest_data ud) of
       (Some key, Some data) \<Rightarrow> Some (mock_journal ms ?rk key data) | _ \<Rightarrow> None)"
    by (cases "guest_key pk"; cases "guest_data ud") (use U in \<open>simp_all add: K mock_journal_def\<close>)
  finally show ?thesis .
qed

lemma fits_not_too_long:
  "payload_size pk ud nonce + 108 \<le> 65535 \<Longrightarrow> \<not> too_long pk \<and> \<not> too_long ud \<and> \<not> too_long nonce"
  by (auto simp: payload_size_def field_len_def encoded_len_def too_long_def split: option.splits if_splits)

text \<open>C5: The documents of the mock and the zero-knowledge verifier agree byte for byte. At every clock, in
  milliseconds, at which both certificates of the mock are valid in whole seconds (and with libraries for which the
  files of the mock are what they should be), and for every public key, user data and nonce that fit into 65535 bytes,
  the mock answers with a document (no write is out of range) and the guest, run on it, either commits exactly the
  timestamp, the PCRs, the root key, the public key and the user data that were asked for, or has no proof at all.
  At such a clock it has none precisely when the public key is missing, shorter than 24 bytes or longer than 255,
  or the user data is given with fewer than 24 bytes: such fields have another tag in CBOR, which the guest does
  not read.\<close>

theorem mock_document_proved:
  assumes "der_contract lib" and "mock_trusted lib mock (ucast now div 1000) root leaf"
    and "payload_size pk ud nonce + 108 \<le> 65535"
  shows "\<exists>att. mock_attestation_doc mock (Some now) pk ud nonce = Some (Inr att) \<and>
    guest_main lib att =
      (case (guest_key pk, guest_data ud) of
         (Some key, Some data) \<Rightarrow> Some (mock_journal (ucast now) (tl (cert_public_key lib root)) key data)
       | _ \<Rightarrow> None)"
proof -
  let ?p = "mock_payload (ucast now) pk ud nonce"
  obtain key vkey where key: "mk_from_sec1_der mock leaf_key = Inr key" "key_from_sec1 lib (cert_public_key lib leaf) = Some vkey"
    and signs: "\<And>h. \<exists>r s g. mk_sign_prehash mock key h = Inr (r @ s) \<and> length r = 48 \<and> length s = 48 \<and>
           signature_from_scalars lib r s = Some g \<and> key_verify_prehash lib vkey h g"
    using assms(2) unfolding mock_trusted_def by blast
  from signs obtain r s g where rs: "mk_sign_prehash mock key (mk_sha384 mock (sig_structure ?p)) = Inr (r @ s)"
      "length r = 48" "length s = 48" "signature_from_scalars lib r s = Some g"
      "key_verify_prehash lib vkey (mk_sha384 mock (sig_structure ?p)) g" by blast
  have "mk_sha384 mock = sha384 lib" using assms(2) by (simp add: mock_trusted_def)
  with key rs have signed: "cose_signed lib leaf ?p r s" by (simp add: cose_signed_def sig_structure_def)
  have len: "length ?p < 65536" using assms(3) by (simp add: length_mock_payload)
  have fits: "\<not> too_long pk" "\<not> too_long ud" "\<not> too_long nonce"
    using fits_not_too_long [OF assms(3)] by blast+
  have "mock_attestation_doc mock (Some now) pk ud nonce = Some (Inr (cose_bytes ?p r s))"
    by (simp add: mock_attestation_doc_result [OF assms(3) fits] key rs cose_bytes_def Let_def)
  with guest_on_mock [OF assms(1,2) refl len rs(2,3) _ signed] fits show ?thesis by blast
qed

text \<open>Libraries for the files of the mock: a certificate is its DER, a signature repeats the second byte of its key.\<close>

definition toy_mock_guest :: "(bytes, bytes, bytes) guest_lib" where
  "toy_mock_guest = \<lparr>
     cert_from_der = (\<lambda>d. if d = root_cert \<or> d = leaf_cert then Some d else None),
     cert_not_before = (\<lambda>c. 0), cert_not_after = (\<lambda>c. 2680156526),
     cert_public_key = (\<lambda>c. 0x04 # replicate 96 (if c = root_cert then 1 else 2)), cert_signature = (\<lambda>c. [1]),
     signature_from_der = Some, signature_from_scalars = (\<lambda>r s. Some (r @ s)),
     key_from_sec1 = Some, key_verify = (\<lambda>k m g. g = [k ! 1]),
     key_verify_prehash = (\<lambda>k h g. g = replicate 48 (k ! 1) @ take 48 (h @ replicate 48 0)), sha384 = (\<lambda>m. take 48 (drop 20 m @ replicate 48 0))\<rparr>"

definition toy_mock :: "unit mock_lib" where
  "toy_mock = \<lparr>mk_from_sec1_der = (\<lambda>d. Inr ()), mk_sign_prehash = (\<lambda>k h. Inr (replicate 48 2 @ take 48 (h @ replicate 48 0))),
     mk_sha384 = (\<lambda>m. take 48 (drop 20 m @ replicate 48 0))\<rparr>"

lemma certs_differ: "leaf_cert \<noteq> root_cert"
proof
  assume "leaf_cert = root_cert"
  then have "length leaf_cert = length root_cert" by simp
  then show False by simp
qed

lemma cert_headers:
  "take 8 root_cert = [0x30, 0x82, 1, 0x90, 0x30, 0x82, 1, 0x17]"
  "take 8 leaf_cert = [0x30, 0x82, 1, 0xce, 0x30, 0x82, 1, 0x53]"
  by (simp_all add: root_cert_def leaf_cert_def)

lemma cert_byte: "i < 8 \<Longrightarrow> root_cert ! i = take 8 root_cert ! i" "i < 8 \<Longrightarrow> leaf_cert ! i = take 8 leaf_cert ! i"
  by simp_all

lemma toy_mock_contract: "der_contract toy_mock_guest"
  unfolding der_contract_def
  using cert_headers by (auto simp: toy_mock_guest_def cert_byte u16_from_be_bytes_def split: if_splits)

lemma leaf_signed: "signed_by toy_mock_guest root_cert leaf_cert leaf_cert = Some ()"
proof -
  have size: "be16 339 = [1, 0x53]" by code_simp
  have "bytes_at leaf_cert 0 (take 8 leaf_cert)" by (simp add: bytes_at_def vslice_def)
  then have "bytes_at leaf_cert 0 ([0x30, 0x82] @ [1, 0xce] @ [0x30, 0x82] @ be16 339)"
    by (simp add: cert_headers size)
  then have "bytes_at leaf_cert 0 [0x30, 0x82]" "bytes_at leaf_cert 4 [0x30, 0x82]" "bytes_at leaf_cert 6 (be16 339)"
    unfolding bytes_at_append [of _ _ "[_, _]"] by (simp_all add: eval_nat_numeral)
  moreover have "vslice leaf_cert 4 347 = Some (take 343 (drop 4 leaf_cert))" by (simp add: vslice_def)
  ultimately have "tbs_of leaf_cert = Some (take 343 (drop 4 leaf_cert))"
    by (simp add: tbs_of_def run_simps)
  then show ?thesis by (simp add: signed_by_def expect_def toy_mock_guest_def)
qed

lemma toy_mock_signs:
  "\<exists>r s g. mk_sign_prehash toy_mock () h = Inr (r @ s) \<and> length r = 48 \<and> length s = 48 \<and>
     signature_from_scalars toy_mock_guest r s = Some g \<and>
     key_verify_prehash toy_mock_guest (cert_public_key toy_mock_guest leaf_cert) h g"
  by (intro exI [of _ "replicate 48 2"] exI [of _ "take 48 (h @ replicate 48 0)"]
      exI [of _ "replicate 48 2 @ take 48 (h @ replicate 48 0)"])
    (simp add: toy_mock_def toy_mock_guest_def certs_differ)

lemma toy_mock_trusted: "mock_trusted toy_mock_guest toy_mock 5 root_cert leaf_cert"
proof -
  have "mk_from_sec1_der toy_mock leaf_key = Inr ()"
      "key_from_sec1 toy_mock_guest (cert_public_key toy_mock_guest leaf_cert) = Some (cert_public_key toy_mock_guest leaf_cert)"
    by (simp_all add: toy_mock_def toy_mock_guest_def)
  with toy_mock_signs have key: "\<exists>key vkey. mk_from_sec1_der toy_mock leaf_key = Inr key \<and>
      key_from_sec1 toy_mock_guest (cert_public_key toy_mock_guest leaf_cert) = Some vkey \<and>
      (\<forall>h. \<exists>r s g. mk_sign_prehash toy_mock key h = Inr (r @ s) \<and> length r = 48 \<and> length s = 48 \<and>
         signature_from_scalars toy_mock_guest r s = Some g \<and> key_verify_prehash toy_mock_guest vkey h g)" by blast
  have "cert_from_der toy_mock_guest root_cert = Some root_cert" "cert_from_der toy_mock_guest leaf_cert = Some leaf_cert"
      "\<forall>c \<in> {root_cert, leaf_cert}. cert_not_before toy_mock_guest c < 5 \<and> 5 < cert_not_after toy_mock_guest c"
      "length (cert_public_key toy_mock_guest root_cert) = 97" "hd (cert_public_key toy_mock_guest root_cert) = 0x04"
      "mk_sha384 toy_mock = sha384 toy_mock_guest"
    by (simp_all add: toy_mock_def toy_mock_guest_def)
  with key leaf_signed show ?thesis unfolding mock_trusted_def by blast
qed

theorem mock_document_proved_witness:
  "\<exists>att. mock_attestation_doc toy_mock (Some 5000) (Some (replicate 64 9)) (Some (replicate 30 7)) None = Some (Inr att) \<and>
     guest_main toy_mock_guest att = Some (mock_journal 5000 (replicate 96 1) (replicate 64 9) (replicate 30 7))"
proof -
  have "mock_trusted toy_mock_guest toy_mock (ucast (5000 :: u128) div 1000) root_cert leaf_cert"
    using toy_mock_trusted by simp
  from mock_document_proved [OF toy_mock_contract this, of "Some (replicate 64 9)" "Some (replicate 30 7)" None]
  show ?thesis
    by (simp add: payload_size_def field_len_def encoded_len_def guest_key_def guest_data_def)
      (simp add: toy_mock_guest_def)
qed

end
