(* ===== verification/EX_Listener.thy ===== *)
theory EX_Listener
  imports EX_Lifecycle
begin

text \<open>
  The listener of the serverless executor (\<open>events_listener\<close> and \<open>handle_event_logs\<close> of \<open>event_handler.rs\<close>) as the
  loop it is: it connects, waits for the registration of the enclave if there is none, subscribes to three streams
  of logs from the last block it has seen, and handles them until they end, when it starts over, or until the enclave
  is deregistered, when it returns.

  A turn of the loop is given what the network answers and the events in the order \<open>select!\<close> takes them, with the
  steps of the other tasks in between; the handlers are those of \<open>EX_Jobs\<close>.
\<close>

section \<open>Subscriptions\<close>

record log_filter =
  lf_address :: address
  lf_topic0 :: bytes
  lf_topic1 :: "u256 option"
  lf_topic2 :: "u256 option"
  lf_from_block :: u64

record listener_config =
  lc_executors_contract :: address
  lc_jobs_contract :: address
  lc_enclave :: address
  lc_owner :: address
  lc_starting_block :: u64

definition register_executor_filter :: "eth_lib \<Rightarrow> listener_config \<Rightarrow> log_filter" where
  "register_executor_filter lib lc = \<lparr>lf_address = lc_executors_contract lc,
     lf_topic0 = keccak_str lib ''ExecutorRegistered(address,address,uint256,uint8)'',
     lf_topic1 = Some (ucast (lc_enclave lc)), lf_topic2 = Some (ucast (lc_owner lc)),
     lf_from_block = lc_starting_block lc\<rparr>"

definition jobs_created_filter :: "eth_lib \<Rightarrow> listener_config \<Rightarrow> u64 \<Rightarrow> log_filter" where
  "jobs_created_filter lib lc block = \<lparr>lf_address = lc_jobs_contract lc,
     lf_topic0 = keccak_str lib ''JobCreated(uint256,uint8,address,bytes32,bytes,uint256,address[])'',
     lf_topic1 = None, lf_topic2 = Some 1, lf_from_block = block\<rparr>"

definition jobs_responded_filter :: "eth_lib \<Rightarrow> listener_config \<Rightarrow> u64 \<Rightarrow> log_filter" where
  "jobs_responded_filter lib lc block = \<lparr>lf_address = lc_jobs_contract lc,
     lf_topic0 = keccak_str lib ''JobResponded(uint256,address,bytes,uint256,uint8,uint8)'',
     lf_topic1 = None, lf_topic2 = None, lf_from_block = block\<rparr>"

definition executor_deregistered_filter :: "eth_lib \<Rightarrow> listener_config \<Rightarrow> u64 \<Rightarrow> log_filter" where
  "executor_deregistered_filter lib lc block = \<lparr>lf_address = lc_executors_contract lc,
     lf_topic0 = keccak_str lib ''ExecutorDeregistered(address)'',
     lf_topic1 = Some (ucast (lc_enclave lc)), lf_topic2 = None, lf_from_block = block\<rparr>"

section \<open>The loop\<close>

text \<open>What ends a turn: the next one, a return, or a panic of a handler.\<close>

datatype turn_end = Next_turn | Returned | Listener_panicked

record 'j turn =
  tn_before :: "'j executor_event list"
  tn_connected :: bool
  tn_registrations :: "event_log list option"
  tn_created :: bool
  tn_responded :: bool
  tn_deregistered :: bool
  tn_events :: "'j executor_event list"

fun background :: "'j executor_event \<Rightarrow> bool" where
  "background (Job i inp ck) = True"
| "background (Timer k now) = True"
| "background (Timer_sent k channel_open) = True"
| "background (Timer_unmarks k) = True"
| "background _ = False"

fun of_stream :: "'j executor_event \<Rightarrow> bool" where
  "of_stream (Created l now) = True"
| "of_stream (Responded l) = True"
| "of_stream (Deregistered l) = True"
| "of_stream _ = False"

definition run_background :: "'j executor_config \<Rightarrow> executor \<Rightarrow> 'j executor_event list \<Rightarrow> executor option" where
  "run_background cfg x evs = (if list_all background evs then executor_run cfg x evs else None)"

text \<open>The stream of registrations: the first log that is not removed, or the end of the stream.\<close>

fun wait_registered :: "u64 \<Rightarrow> event_log list \<Rightarrow> executor \<Rightarrow> executor" where
  "wait_registered starting_block [] x = x"
| "wait_registered starting_block (l # ls) x =
     (if el_removed l \<noteq> Some False then wait_registered starting_block ls x
      else handle_registered l starting_block x)"

text \<open>A handler that stops listening returned from a deregistration, or panicked.\<close>

fun handle_event_logs :: "'j executor_config \<Rightarrow> executor \<Rightarrow> 'j executor_event list \<Rightarrow> (turn_end \<times> executor) option" where
  "handle_event_logs cfg x [] = Some (Next_turn, x)"
| "handle_event_logs cfg x (e # evs) =
     (if \<not> of_stream e \<and> \<not> background e then None
      else case executor_step cfg x e of None \<Rightarrow> None
      | Some y \<Rightarrow>
          if listening y then handle_event_logs cfg y evs
          else if enclave_registered y then Some (Listener_panicked, y)
          else Some (Returned, y))"

definition listener_turn ::
  "'j executor_config \<Rightarrow> listener_config \<Rightarrow> 'j turn \<Rightarrow> executor \<Rightarrow> (turn_end \<times> log_filter list \<times> executor) option"
where
  "listener_turn cfg lc t x =
     (case run_background cfg x (tn_before t) of None \<Rightarrow> None
      | Some x \<Rightarrow>
      if \<not> tn_connected t then Some (Next_turn, [], x)
      else
      let lib = ec_eth cfg;
          fs = (if enclave_registered x then [] else [register_executor_filter lib lc]);
          x = (if enclave_registered x then x
               else case tn_registrations t of None \<Rightarrow> x | Some logs \<Rightarrow> wait_registered (lc_starting_block lc) logs x)
      in
      if \<not> enclave_registered x then Some (Next_turn, fs, x)
      else
      let fs = fs @ [jobs_created_filter lib lc (last_block_seen x)] in
      if \<not> tn_created t then Some (Next_turn, fs, x)
      else
      let fs = fs @ [jobs_responded_filter lib lc (last_block_seen x)] in
      if \<not> tn_responded t then Some (Next_turn, fs, x)
      else
      let fs = fs @ [executor_deregistered_filter lib lc (last_block_seen x)] in
      if \<not> tn_deregistered t then Some (Next_turn, fs, x)
      else
      case handle_event_logs cfg (x\<lparr>listening := True\<rparr>) (tn_events t) of None \<Rightarrow> None
      | Some (r, y) \<Rightarrow> Some (r, fs, y))"

fun events_listener ::
  "'j executor_config \<Rightarrow> listener_config \<Rightarrow> 'j turn list \<Rightarrow> executor \<Rightarrow> (turn_end \<times> log_filter list \<times> executor) option"
where
  "events_listener cfg lc [] x = Some (Next_turn, [], x)"
| "events_listener cfg lc (t # ts) x =
     (case listener_turn cfg lc t x of None \<Rightarrow> None
      | Some (Next_turn, fs, y) \<Rightarrow>
          (case events_listener cfg lc ts y of None \<Rightarrow> None | Some (r, gs, z) \<Rightarrow> Some (r, fs @ gs, z))
      | Some (r, fs, y) \<Rightarrow> Some (r, fs, y))"

section \<open>What a handler changes\<close>

lemma observe_block_later: "observe_block l x = Some y \<Longrightarrow> last_block_seen x \<le> last_block_seen y \<and>
    enclave_registered y = enclave_registered x \<and> listening y = listening x"
  by (auto simp: observe_block_def split: if_splits option.splits)

definition deregisters :: "'j executor_event \<Rightarrow> bool" where
  "deregisters e \<longleftrightarrow> (\<exists>l. e = Deregistered l \<and> el_removed l = Some False)"

lemma spawn_frame [simp]:
  "last_block_seen (spawn_job j d x) = last_block_seen x" "enclave_registered (spawn_job j d x) = enclave_registered x"
  "listening (spawn_job j d x) = listening x"
  "last_block_seen (spawn_timer cfg j d now x) = last_block_seen x"
  "enclave_registered (spawn_timer cfg j d now x) = enclave_registered x"
  "listening (spawn_timer cfg j d now x) = listening x"
  by (simp_all add: spawn_job_def spawn_timer_def)

lemma stream_step_frame:
  assumes "executor_step cfg x e = Some y" and "of_stream e"
  shows "last_block_seen x \<le> last_block_seen y"
    and "enclave_registered y = (enclave_registered x \<and> \<not> deregisters e)"
    and "deregisters e \<Longrightarrow> \<not> listening y"
proof -
  consider l now where "e = Created l now" | l where "e = Responded l" | l where "e = Deregistered l"
    using assms(2) by (cases e) auto
  then have "last_block_seen x \<le> last_block_seen y \<and> enclave_registered y = (enclave_registered x \<and> \<not> deregisters e) \<and>
      (deregisters e \<longrightarrow> \<not> listening y)"
  proof cases
    case 1
    with assms(1) show ?thesis
      by (auto simp: handle_created_def deregisters_def Let_def split: if_splits option.splits dest: observe_block_later)
  next
    case 2
    with assms(1) show ?thesis
      by (auto simp: handle_responded_def deregisters_def split: if_splits option.splits dest: observe_block_later)
  next
    case 3
    with assms(1) show ?thesis by (auto simp: handle_deregistered_def deregisters_def split: if_splits)
  qed
  then show "last_block_seen x \<le> last_block_seen y"
    and "enclave_registered y = (enclave_registered x \<and> \<not> deregisters e)"
    and "deregisters e \<Longrightarrow> \<not> listening y" by blast+
qed

lemma background_step_frame:
  assumes "executor_step cfg x e = Some y" and "background e"
  shows "last_block_seen y = last_block_seen x" "enclave_registered y = enclave_registered x" "listening y = listening x"
    "\<not> deregisters e"
proof -
  show "last_block_seen y = last_block_seen x" "enclave_registered y = enclave_registered x" "listening y = listening x"
    using assms
    by (cases e; auto simp: job_step_def handle_timeout_def timeout_sent_def timeout_unmarks_def set_timer_def Let_def
        split: if_splits option.splits outcome.splits timer_stage.splits dest: execute_job_frame(5-7))+
  show "\<not> deregisters e" using assms(2) by (auto simp: deregisters_def)
qed

lemma background_run_frame:
  assumes "executor_run cfg x evs = Some y" and "list_all background evs"
  shows "last_block_seen y = last_block_seen x \<and> enclave_registered y = enclave_registered x \<and> listening y = listening x"
  using assms
proof (induction evs arbitrary: x)
  case Nil
  then show ?case by (simp add: executor_run_def)
next
  case (Cons e evs)
  from Cons.prems obtain z where z: "executor_step cfg x e = Some z" "executor_run cfg z evs = Some y"
    by (auto simp: executor_run_def split: option.splits)
  from Cons.IH [OF z(2)] Cons.prems background_step_frame [OF z(1)] show ?case by simp
qed

lemma executor_run_Cons:
  "executor_step cfg x e = Some y \<Longrightarrow> executor_run cfg y evs = Some z \<Longrightarrow> executor_run cfg x (e # evs) = Some z"
  by (simp add: executor_run_def)

lemma executor_run_append:
  "executor_run cfg x es = Some y \<Longrightarrow> executor_run cfg y fs = Some z \<Longrightarrow> executor_run cfg x (es @ fs) = Some z"
  by (simp add: executor_run_def run_steps_append)

section \<open>The loop refines the steps of the executor\<close>

lemma handle_event_logs_run:
  assumes "handle_event_logs cfg x evs = Some (r, y)" and "listening x" and "enclave_registered x"
  shows "\<exists>pre. executor_run cfg x pre = Some y \<and> last_block_seen x \<le> last_block_seen y \<and>
    (r = Returned \<longrightarrow> \<not> enclave_registered y \<and> pre \<noteq> [] \<and> deregisters (last pre)) \<and>
    (r \<noteq> Returned \<longrightarrow> enclave_registered y)"
  using assms
proof (induction evs arbitrary: x)
  case Nil
  then show ?case by (intro exI [of _ "[]"]) (simp add: executor_run_def)
next
  case (Cons e evs)
  from Cons.prems(1) obtain z where kind: "of_stream e \<or> background e" and z: "executor_step cfg x e = Some z"
    by (auto split: if_splits option.splits)
  have later: "last_block_seen x \<le> last_block_seen z" and reg: "enclave_registered z = (\<not> deregisters e)"
      and stop: "deregisters e \<Longrightarrow> \<not> listening z"
    using kind stream_step_frame [OF z] background_step_frame [OF z] Cons.prems(3) by auto
  have one: "executor_run cfg x [e] = Some z" using z by (simp add: executor_run_def)
  show ?case
  proof (cases "listening z")
    case True
    with stop reg have registered: "enclave_registered z" by blast
    from True Cons.prems(1) kind z have "handle_event_logs cfg z evs = Some (r, y)" by auto
    from Cons.IH [OF this True registered] obtain pre where pre: "executor_run cfg z pre = Some y"
        "last_block_seen z \<le> last_block_seen y" "r = Returned \<longrightarrow> \<not> enclave_registered y \<and> pre \<noteq> [] \<and> deregisters (last pre)"
        "r \<noteq> Returned \<longrightarrow> enclave_registered y" by blast
    then show ?thesis
      using later executor_run_Cons [OF z pre(1)] by (intro exI [of _ "e # pre"]) auto
  next
    case False
    with Cons.prems(1) kind z have "y = z" "r = (if enclave_registered z then Listener_panicked else Returned)"
      by (auto split: if_splits)
    with one later reg show ?thesis by (intro exI [of _ "[e]"]) auto
  qed
qed

lemma wait_registered_run:
  assumes "\<not> enclave_registered x" and "\<not> listening x"
  shows "\<exists>evs. executor_run cfg x evs = Some (wait_registered b logs x)"
  using assms
proof (induction logs)
  case Nil
  then show ?case by (intro exI [of _ "[]"]) (simp add: executor_run_def)
next
  case (Cons l ls)
  show ?case
  proof (cases "el_removed l = Some False")
    case True
    with Cons.prems have "executor_run cfg x [Registered l b] = Some (handle_registered l b x)"
      by (simp add: executor_run_def)
    with True show ?thesis by (intro exI [of _ "[Registered l b]"]) simp
  next
    case False
    with Cons show ?thesis by auto
  qed
qed

lemma wait_registered_listening: "\<not> listening x \<Longrightarrow> listening (wait_registered b logs x) \<Longrightarrow> enclave_registered (wait_registered b logs x)"
  by (induction logs) (auto simp: handle_registered_def)

lemma start_listening_run:
  "enclave_registered x \<Longrightarrow> \<exists>evs. executor_run cfg x evs = Some (x\<lparr>listening := True\<rparr>)"
proof (cases "listening x")
  case True
  then have "x\<lparr>listening := True\<rparr> = x" by simp
  then show ?thesis by (intro exI [of _ "[]"]) (simp add: executor_run_def)
next
  case False
  moreover assume "enclave_registered x"
  ultimately show ?thesis by (intro exI [of _ "[Relistened]"]) (simp add: executor_run_def)
qed

definition subscriptions_from :: "eth_lib \<Rightarrow> listener_config \<Rightarrow> u64 \<Rightarrow> log_filter list \<Rightarrow> bool" where
  "subscriptions_from lib lc b fs \<longleftrightarrow> (\<forall>f \<in> set fs. f = register_executor_filter lib lc \<or> lf_from_block f \<le> b)"

lemma subscriptions_later: "subscriptions_from lib lc b fs \<Longrightarrow> b \<le> c \<Longrightarrow> subscriptions_from lib lc c fs"
  by (auto simp: subscriptions_from_def)

text \<open>The part of a turn up to the subscriptions.\<close>

lemma turn_registered:
  assumes "run_background cfg x evs = Some z" and "listening x \<longrightarrow> enclave_registered x"
    and "w = (if enclave_registered z then z
               else case regs of None \<Rightarrow> z | Some logs \<Rightarrow> wait_registered b logs z)"
  shows "\<exists>evs. executor_run cfg x evs = Some w \<and> (enclave_registered x \<longrightarrow> w = z \<and> last_block_seen w = last_block_seen x \<and> enclave_registered w) \<and>
    (listening w \<longrightarrow> enclave_registered w)"
proof -
  from assms(1) have bg: "executor_run cfg x evs = Some z" "list_all background evs"
    by (auto simp: run_background_def split: if_splits)
  note same = background_run_frame [OF bg]
  show ?thesis
  proof (cases "enclave_registered z \<or> regs = None")
    case True
    with assms(3) have "w = z" by auto
    with bg(1) same assms(2) show ?thesis by auto
  next
    case False
    then obtain logs where w: "w = wait_registered b logs z" "\<not> enclave_registered z" using assms(3) by auto
    with same assms(2) have idle: "\<not> listening z" "\<not> enclave_registered x" by auto
    from wait_registered_run [OF w(2) idle(1)] obtain evs' where "executor_run cfg z evs' = Some w"
      unfolding w(1) by blast
    from executor_run_append [OF bg(1) this] show ?thesis
      using idle wait_registered_listening [OF idle(1)] unfolding w(1) by blast
  qed
qed

lemma listener_turn_run:
  assumes turn: "listener_turn cfg lc t x = Some (r, fs, y)" and ok: "listening x \<longrightarrow> enclave_registered x"
  shows "\<exists>evs. executor_run cfg x evs = Some y \<and>
    (r = Returned \<longrightarrow> \<not> enclave_registered y \<and> evs \<noteq> [] \<and> deregisters (last evs)) \<and>
    (r = Next_turn \<longrightarrow> (listening y \<longrightarrow> enclave_registered y)) \<and>
    (enclave_registered x \<longrightarrow> last_block_seen x \<le> last_block_seen y \<and> (r \<noteq> Returned \<longrightarrow> enclave_registered y)) \<and>
    subscriptions_from (ec_eth cfg) lc (last_block_seen y) fs \<and>
    (r = Next_turn \<and> \<not> enclave_registered y \<longrightarrow> set fs \<subseteq> {register_executor_filter (ec_eth cfg) lc})"
proof -
  from turn obtain z where z: "run_background cfg x (tn_before t) = Some z"
    by (auto simp: listener_turn_def split: option.splits)
  define w where "w = (if \<not> tn_connected t \<or> enclave_registered z then z
               else case tn_registrations t of None \<Rightarrow> z | Some logs \<Rightarrow> wait_registered (lc_starting_block lc) logs z)"
  have "\<exists>evs. executor_run cfg x evs = Some w \<and> (enclave_registered x \<longrightarrow> w = z \<and> last_block_seen w = last_block_seen x \<and> enclave_registered w) \<and>
    (listening w \<longrightarrow> enclave_registered w)"
    by (rule turn_registered [OF z ok, where regs = "if tn_connected t then tn_registrations t else None"])
      (auto simp: w_def)
  then obtain evs where evs: "executor_run cfg x evs = Some w"
      "enclave_registered x \<longrightarrow> last_block_seen w = last_block_seen x \<and> enclave_registered w"
      "listening w \<longrightarrow> enclave_registered w" by blast
  show ?thesis
  proof (cases "tn_connected t \<and> enclave_registered w \<and> tn_created t \<and> tn_responded t \<and> tn_deregistered t")
    case False
    with turn z have "r = Next_turn" "y = w" "subscriptions_from (ec_eth cfg) lc (last_block_seen w) fs"
        "\<not> enclave_registered w \<longrightarrow> set fs \<subseteq> {register_executor_filter (ec_eth cfg) lc}"
      by (auto simp: listener_turn_def w_def Let_def subscriptions_from_def jobs_created_filter_def
          jobs_responded_filter_def executor_deregistered_filter_def split: if_splits option.splits)
    with evs show ?thesis by auto
  next
    case True
    with turn z obtain logs where logs: "handle_event_logs cfg (w\<lparr>listening := True\<rparr>) (tn_events t) = Some (r, y)"
      and fs: "subscriptions_from (ec_eth cfg) lc (last_block_seen w) fs"
      by (auto simp: listener_turn_def w_def Let_def subscriptions_from_def jobs_created_filter_def
          jobs_responded_filter_def executor_deregistered_filter_def split: if_splits option.splits)
    from handle_event_logs_run [OF logs] True obtain pre where
      pre: "executor_run cfg (w\<lparr>listening := True\<rparr>) pre = Some y" "last_block_seen w \<le> last_block_seen y"
        "r = Returned \<longrightarrow> \<not> enclave_registered y \<and> pre \<noteq> [] \<and> deregisters (last pre)"
        "r \<noteq> Returned \<longrightarrow> enclave_registered y" by auto
    from start_listening_run True obtain es where "executor_run cfg w es = Some (w\<lparr>listening := True\<rparr>)" by blast
    from executor_run_append [OF evs(1) executor_run_append [OF this pre(1)]]
    have "executor_run cfg x (evs @ es @ pre) = Some y" .
    with pre(2-4) evs(2) subscriptions_later [OF fs pre(2)] show ?thesis
      by (intro exI [of _ "evs @ es @ pre"]) auto
  qed
qed

text \<open>C11: The listener, over any number of turns, any failures of the network and any interleaving with the tasks,
  only makes steps of the executor as they are modelled, so that what holds of every run of the executor holds of the
  program. It returns only for a log that deregisters the enclave, a registered enclave stays registered as long as
  it does not, and after every reconnection it subscribes from a block that is not after the last one it has seen, so
  that no later log is left out.\<close>

theorem listener_refines:
  assumes "events_listener cfg lc ts x = Some (r, fs, y)" and "listening x \<longrightarrow> enclave_registered x"
  shows "\<exists>evs. executor_run cfg x evs = Some y \<and>
    (r = Returned \<longrightarrow> \<not> enclave_registered y \<and> evs \<noteq> [] \<and> deregisters (last evs)) \<and>
    (enclave_registered x \<and> r \<noteq> Returned \<longrightarrow> enclave_registered y) \<and>
    (\<forall>f \<in> set fs. f = register_executor_filter (ec_eth cfg) lc \<or> lf_from_block f \<le> last_block_seen y)"
proof -
  have "\<exists>evs. executor_run cfg x evs = Some y \<and>
    (r = Returned \<longrightarrow> \<not> enclave_registered y \<and> evs \<noteq> [] \<and> deregisters (last evs)) \<and>
    (enclave_registered x \<longrightarrow> last_block_seen x \<le> last_block_seen y \<and> (r \<noteq> Returned \<longrightarrow> enclave_registered y)) \<and>
    subscriptions_from (ec_eth cfg) lc (last_block_seen y) fs"
    using assms
  proof (induction ts arbitrary: x fs)
    case Nil
    then show ?case by (intro exI [of _ "[]"]) (simp add: executor_run_def subscriptions_from_def)
  next
    case (Cons t ts)
    from Cons.prems(1) obtain r1 fs1 z where turn: "listener_turn cfg lc t x = Some (r1, fs1, z)"
      by (auto split: option.splits)
    from listener_turn_run [OF turn Cons.prems(2)] obtain evs where
      run: "executor_run cfg x evs = Some z"
      and ret: "r1 = Returned \<longrightarrow> \<not> enclave_registered z \<and> evs \<noteq> [] \<and> deregisters (last evs)"
      and ok: "r1 = Next_turn \<longrightarrow> (listening z \<longrightarrow> enclave_registered z)"
      and reg: "enclave_registered x \<longrightarrow> last_block_seen x \<le> last_block_seen z \<and> (r1 \<noteq> Returned \<longrightarrow> enclave_registered z)"
      and subs: "subscriptions_from (ec_eth cfg) lc (last_block_seen z) fs1"
      and none: "r1 = Next_turn \<and> \<not> enclave_registered z \<longrightarrow> set fs1 \<subseteq> {register_executor_filter (ec_eth cfg) lc}" by blast
    show ?case
    proof (cases "r1 = Next_turn")
      case False
      with Cons.prems(1) turn have "r1 = r" "fs1 = fs" "z = y" by (auto split: turn_end.splits)
      with run ret reg subs show ?thesis by (intro exI [of _ evs]) auto
    next
      case True
      with Cons.prems(1) turn obtain gs where rest: "events_listener cfg lc ts z = Some (r, gs, y)" and fs: "fs = fs1 @ gs"
        by (auto split: option.splits)
      from Cons.IH [OF rest] ok True obtain es where es: "executor_run cfg z es = Some y"
          "r = Returned \<longrightarrow> \<not> enclave_registered y \<and> es \<noteq> [] \<and> deregisters (last es)"
          "enclave_registered z \<longrightarrow> last_block_seen z \<le> last_block_seen y \<and> (r \<noteq> Returned \<longrightarrow> enclave_registered y)"
          "subscriptions_from (ec_eth cfg) lc (last_block_seen y) gs" by blast
      have "subscriptions_from (ec_eth cfg) lc (last_block_seen y) fs"
      proof (cases "enclave_registered z")
        case True
        with es(3,4) subscriptions_later [OF subs] show ?thesis by (auto simp: fs subscriptions_from_def)
      next
        case False
        with none \<open>r1 = Next_turn\<close> es(4) show ?thesis by (auto simp: fs subscriptions_from_def)
      qed
      moreover have "executor_run cfg x (evs @ es) = Some y" using run es(1) by (rule executor_run_append)
      ultimately show ?thesis using es(2,3) reg True by (intro exI [of _ "evs @ es"]) auto
    qed
  qed
  then show ?thesis unfolding subscriptions_from_def by blast
qed

definition sample_turn :: "sample_json turn" where
  "sample_turn = \<lparr>tn_before = [], tn_connected = True, tn_registrations = Some [registered_log], tn_created = True,
     tn_responded = True, tn_deregistered = True,
     tn_events = [Deregistered \<lparr>el_removed = Some False, el_block = Some 9, el_topics = [], el_data = []\<rparr>]\<rparr>"

definition sample_listener :: listener_config where
  "sample_listener = \<lparr>lc_executors_contract = 1, lc_jobs_contract = 2, lc_enclave = 3, lc_owner = 4, lc_starting_block = 0\<rparr>"

lemma sample_listens:
  "events_listener sample_config sample_listener [sample_turn\<lparr>tn_connected := False\<rparr>, sample_turn] sample_start =
     Some (Returned,
       [register_executor_filter sample_eth sample_listener, jobs_created_filter sample_eth sample_listener 4,
        jobs_responded_filter sample_eth sample_listener 4, executor_deregistered_filter sample_eth sample_listener 4],
       sample_listening\<lparr>enclave_registered := False, listening := False\<rparr>)"
proof -
  have removed: "el_removed registered_log = Some False" by (simp add: registered_log_def)
  have start: "run_background sample_config sample_start [] = Some sample_start" "\<not> enclave_registered sample_start"
      "enclave_registered sample_listening" "last_block_seen sample_listening = 4" "listening sample_listening"
      "sample_listening\<lparr>listening := True\<rparr> = sample_listening" "ec_eth sample_config = sample_eth"
      "lc_starting_block sample_listener = 0"
    by (simp_all add: run_background_def executor_run_def sample_start_def initial_executor_def sample_listening_def
        sample_config_def sample_listener_def)
  have "listener_turn sample_config sample_listener sample_turn sample_start =
     Some (Returned,
       [register_executor_filter sample_eth sample_listener, jobs_created_filter sample_eth sample_listener 4,
        jobs_responded_filter sample_eth sample_listener 4, executor_deregistered_filter sample_eth sample_listener 4],
       sample_listening\<lparr>enclave_registered := False, listening := False\<rparr>)"
    by (simp add: listener_turn_def sample_turn_def start removed sample_registered Let_def handle_deregistered_def)
  moreover have "listener_turn sample_config sample_listener (sample_turn\<lparr>tn_connected := False\<rparr>) sample_start =
      Some (Next_turn, [], sample_start)"
    by (simp add: listener_turn_def sample_turn_def start)
  ultimately show ?thesis by simp
qed

theorem listener_refines_witness:
  "\<exists>evs. executor_run sample_config sample_start evs =
       Some (sample_listening\<lparr>enclave_registered := False, listening := False\<rparr>) \<and> deregisters (last evs)"
proof -
  have "listening sample_start \<longrightarrow> enclave_registered sample_start"
    by (simp add: sample_start_def initial_executor_def)
  from listener_refines [OF sample_listens this] show ?thesis by blast
qed

end
