(* ===== verification/EX_Runtime.thy ===== *)
theory EX_Runtime
  imports EX_Lifecycle
begin

text \<open>
  The files and requests of a job of the serverless executor (\<open>workerd.rs\<close>: the files of the code and of the
  configuration, their retries and their removal, the request to the worker), and what \<open>handle_job\<close> of
  \<open>job_handler.rs\<close> does with them.

  The disk is the files by path and what happens next: a fault for each operation on a file, in order (none left means
  that it works). A write that fails leaves a prefix of its data. \<open>Retry::spawn\<close> with three delays makes up to four
  attempts. The random slug and the answers of the network are inputs; delays are left out.
\<close>

section \<open>Files\<close>

datatype disk_fault = Disk_works | Disk_breaks nat

record disk =
  disk_files :: "string \<Rightarrow> bytes option"
  disk_faults :: "disk_fault list"

definition next_disk_fault :: "disk \<Rightarrow> disk_fault \<times> disk" where
  "next_disk_fault d = (case disk_faults d of [] \<Rightarrow> (Disk_works, d) | f # fs \<Rightarrow> (f, d\<lparr>disk_faults := fs\<rparr>))"

text \<open>\<open>File::create\<close> truncates the file, \<open>write_all\<close> fills it.\<close>

definition create_and_populate_file :: "string \<Rightarrow> bytes \<Rightarrow> (disk, unit) io" where
  "create_and_populate_file path data d =
     (case next_disk_fault d of
        (Disk_breaks 0, d) \<Rightarrow> (Inl ''Failed to create the file'', d)
      | (Disk_breaks (Suc n), d) \<Rightarrow>
          (Inl ''Failed to write to the file'', d\<lparr>disk_files := (disk_files d)(path \<mapsto> take n data)\<rparr>)
      | (Disk_works, d) \<Rightarrow> (Inr (), d\<lparr>disk_files := (disk_files d)(path \<mapsto> data)\<rparr>))"

definition remove_file :: "string \<Rightarrow> (disk, unit) io" where
  "remove_file path d =
     (case next_disk_fault d of
        (Disk_breaks n, d) \<Rightarrow> (Inl ''io error'', d)
      | (Disk_works, d) \<Rightarrow>
          (case disk_files d path of None \<Rightarrow> (Inl ''not found'', d)
           | Some _ \<Rightarrow> (Inr (), d\<lparr>disk_files := (disk_files d)(path := None)\<rparr>)))"

text \<open>The first attempt, then one for each delay that is left while the attempts fail.\<close>

fun retry_spawn :: "nat \<Rightarrow> ('w, 'a) io \<Rightarrow> ('w, 'a) io" where
  "retry_spawn 0 m w = m w"
| "retry_spawn (Suc n) m w = (case m w of (Inl e, w) \<Rightarrow> retry_spawn n m w | (Inr x, w) \<Rightarrow> (Inr x, w))"

text \<open>The same over answers that are given.\<close>

fun retry_answers :: "nat \<Rightarrow> (unit + 'a) list \<Rightarrow> (unit + 'a) option" where
  "retry_answers n [] = None"
| "retry_answers 0 (a # as) = Some a"
| "retry_answers (Suc n) (a # as) = (case a of Inl _ \<Rightarrow> retry_answers n as | Inr x \<Rightarrow> Some (Inr x))"

definition write_code_file :: "string \<Rightarrow> string \<Rightarrow> string \<Rightarrow> bytes \<Rightarrow> disk \<Rightarrow> bool \<times> disk" where
  "write_code_file tx_hash slug workerd_runtime_path data d =
     (case retry_spawn 3 (create_and_populate_file (code_path tx_hash slug workerd_runtime_path) data) d of
        (r, d) \<Rightarrow> (\<not> isl r, d))"

text \<open>\<open>create_code_file\<close> with its request, which is retried, and its file: what is not an error before the file is
  written is the data, whatever happens to the file.\<close>

definition create_code_file_on ::
  "'j json_lib \<Rightarrow> (unit + 'j) list \<Rightarrow> string \<Rightarrow> string \<Rightarrow> string \<Rightarrow> string \<Rightarrow> disk
     \<Rightarrow> ((serverless_error + bytes) option \<times> disk) option"
where
  "create_code_file_on lib answers contract tx_hash slug workerd_runtime_path d =
     (case retry_answers 3 answers of None \<Rightarrow> None
      | Some answer \<Rightarrow>
          (case create_code_file lib answer contract True of
             Some (Inr data) \<Rightarrow>
               (case write_code_file tx_hash slug workerd_runtime_path data d of
                  (written, d) \<Rightarrow> Some (create_code_file lib answer contract written, d))
           | r \<Rightarrow> Some (r, d)))"

definition create_config_file :: "string \<Rightarrow> string \<Rightarrow> string \<Rightarrow> u16 \<Rightarrow> disk \<Rightarrow> (serverless_error + unit) \<times> disk" where
  "create_config_file tx_hash slug workerd_runtime_path free_port d =
     (case retry_spawn 3 (create_and_populate_file (config_path tx_hash slug workerd_runtime_path)
             (str_bytes (capnp_data tx_hash slug free_port))) d of
        (Inl _, d) \<Rightarrow> (Inl ConfigFileCreate, d) | (Inr _, d) \<Rightarrow> (Inr (), d))"

definition cleanup_code_file :: "string \<Rightarrow> string \<Rightarrow> string \<Rightarrow> disk \<Rightarrow> (serverless_error + unit) \<times> disk" where
  "cleanup_code_file tx_hash slug workerd_runtime_path d =
     (case retry_spawn 3 (remove_file (code_path tx_hash slug workerd_runtime_path)) d of
        (Inl _, d) \<Rightarrow> (Inl CodeFileDelete, d) | (Inr _, d) \<Rightarrow> (Inr (), d))"

definition cleanup_config_file :: "string \<Rightarrow> string \<Rightarrow> string \<Rightarrow> disk \<Rightarrow> (serverless_error + unit) \<times> disk" where
  "cleanup_config_file tx_hash slug workerd_runtime_path d =
     (case retry_spawn 3 (remove_file (config_path tx_hash slug workerd_runtime_path)) d of
        (Inl _, d) \<Rightarrow> (Inl ConfigFileDelete, d) | (Inr _, d) \<Rightarrow> (Inr (), d))"

text \<open>\<open>get_workerd_response\<close>: the client may not be built; the request is retried as a whole.\<close>

definition get_workerd_response :: "bool \<Rightarrow> (unit + bytes) list \<Rightarrow> (serverless_error + bytes) option" where
  "get_workerd_response built answers =
     (if \<not> built then Some (Inl WorkerRequestError)
      else map_option (\<lambda>r. case r of Inl _ \<Rightarrow> Inl WorkerRequestError | Inr b \<Rightarrow> Inr b) (retry_answers 3 answers))"

text \<open>
  What a job does to the disk, in \<open>handle_job\<close>: the code file if the request gave code, the configuration if the job
  got that far, each cut off by the deadline or not; then both removals, whose results are dropped. A write that the
  deadline cuts off has done some of its attempts, and the attempt that was cut is one that fails part way. The
  operation on the file that was under way is taken to be over when the removals begin: \<open>tokio::fs\<close> runs it on a
  thread for blocking calls, and the drop of its future does not stop it there.
\<close>

record job_files =
  jf_code :: "bytes option"
  jf_code_retries :: nat
  jf_port :: "u16 option"
  jf_config_retries :: nat

definition job_writes :: "string \<Rightarrow> string \<Rightarrow> string \<Rightarrow> job_files \<Rightarrow> disk \<Rightarrow> disk" where
  "job_writes tx_hash slug workerd_runtime_path j d =
     (let d1 = (case jf_code j of None \<Rightarrow> d
                | Some data \<Rightarrow> snd (retry_spawn (min 3 (jf_code_retries j))
                    (create_and_populate_file (code_path tx_hash slug workerd_runtime_path) data) d))
      in case jf_port j of None \<Rightarrow> d1
         | Some free_port \<Rightarrow> snd (retry_spawn (min 3 (jf_config_retries j))
             (create_and_populate_file (config_path tx_hash slug workerd_runtime_path)
                (str_bytes (capnp_data tx_hash slug free_port))) d1))"

definition handle_job_files :: "string \<Rightarrow> string \<Rightarrow> string \<Rightarrow> job_files \<Rightarrow> disk \<Rightarrow> disk" where
  "handle_job_files tx_hash slug workerd_runtime_path j d =
     (let d1 = job_writes tx_hash slug workerd_runtime_path j d;
          d2 = snd (cleanup_config_file tx_hash slug workerd_runtime_path d1)
      in snd (cleanup_code_file tx_hash slug workerd_runtime_path d2))"

section \<open>The files of a job\<close>

text \<open>An operation on one path leaves the others alone.\<close>

definition same_but :: "string set \<Rightarrow> disk \<Rightarrow> disk \<Rightarrow> bool" where
  "same_but ps d d' \<longleftrightarrow> (\<forall>p. p \<notin> ps \<longrightarrow> disk_files d' p = disk_files d p) \<and>
     (\<exists>n. disk_faults d' = drop n (disk_faults d))"

interpretation disk: io_relation "same_but ps"
proof
  show "same_but ps d d" for d by (auto simp: same_but_def intro: exI [of _ 0])
  show "same_but ps d d''" if "same_but ps d d'" "same_but ps d' d''" for d d' d''
    using that unfolding same_but_def by (metis drop_drop)
qed

lemma same_butD: "same_but ps d d' \<Longrightarrow> p \<notin> ps \<Longrightarrow> disk_files d' p = disk_files d p"
  by (simp add: same_but_def)

lemma next_disk_fault_frame: "next_disk_fault d = (f, d1) \<Longrightarrow> disk_files d1 = disk_files d \<and>
    disk_faults d1 = drop 1 (disk_faults d)"
  by (auto simp: next_disk_fault_def split: list.splits)

lemma same_but_create: "path \<in> ps \<Longrightarrow> io_keeps (same_but ps) (create_and_populate_file path data)"
  by (auto simp: io_keeps_def create_and_populate_file_def same_but_def split: prod.splits disk_fault.splits nat.splits
      dest!: next_disk_fault_frame)

lemma same_but_remove: "path \<in> ps \<Longrightarrow> io_keeps (same_but ps) (remove_file path)"
  by (auto simp: io_keeps_def remove_file_def same_but_def split: prod.splits disk_fault.splits option.splits
      dest!: next_disk_fault_frame)

lemma keeps_retry:
  assumes "io_keeps (same_but ps) m"
  shows "io_keeps (same_but ps) (retry_spawn n m)"
proof (induction n)
  case 0
  from assms show ?case by (simp add: io_keeps_def)
next
  case (Suc n)
  have "same_but ps w (snd (retry_spawn (Suc n) m w))" for w
  proof -
    obtain r w1 where m: "m w = (r, w1)" by fastforce
    with assms have "same_but ps w w1" by (rule io_keepsD)
    moreover have "same_but ps w1 (snd (retry_spawn n m w1))" using Suc.IH by (simp add: io_keeps_def)
    ultimately show ?thesis using m by (auto split: sum.split intro: disk.trans)
  qed
  then show ?case by (simp add: io_keeps_def)
qed

lemma paths_differ: "code_path tx_hash slug path \<noteq> config_path tx_hash slug path"
proof -
  have "last (code_path tx_hash slug path) = CHR ''s''" "last (config_path tx_hash slug path) = CHR ''p''"
    by (simp_all add: code_path_def config_path_def)
  then show ?thesis by auto
qed

text \<open>A removal with its retries leaves no file, unless all of its attempts fail.\<close>

definition faults_in_a_row :: "nat \<Rightarrow> disk \<Rightarrow> bool" where
  "faults_in_a_row n d \<longleftrightarrow> (\<exists>pre mid post. disk_faults d = pre @ mid @ post \<and> length mid = n \<and> Disk_works \<notin> set mid)"

lemma faults_in_a_row_later: "same_but ps d d' \<Longrightarrow> faults_in_a_row n d' \<Longrightarrow> faults_in_a_row n d"
  unfolding same_but_def faults_in_a_row_def by (metis append_take_drop_id append.assoc)

lemma remove_absent:
  "disk_files d path = None \<Longrightarrow> disk_files (snd (retry_spawn n (remove_file path) d)) path = None"
proof (induction n arbitrary: d)
  case 0
  then show ?case
    by (auto simp: remove_file_def split: prod.splits disk_fault.splits dest!: next_disk_fault_frame)
next
  case (Suc n)
  obtain r d1 where m: "remove_file path d = (r, d1)" by fastforce
  with Suc.prems have "disk_files d1 path = None"
    by (auto simp: remove_file_def split: prod.splits disk_fault.splits dest!: next_disk_fault_frame)
  with Suc.IH m show ?case by (auto split: sum.split)
qed

lemma remove_retried:
  "disk_files (snd (retry_spawn n (remove_file path) d)) path = None \<or>
   (\<exists>mid post. disk_faults d = mid @ post \<and> length mid = Suc n \<and> Disk_works \<notin> set mid)"
proof (induction n arbitrary: d)
  case 0
  show ?case
  proof (cases "disk_faults d")
    case Nil
    then show ?thesis by (auto simp: remove_file_def next_disk_fault_def split: option.split)
  next
    case (Cons f fs)
    then show ?thesis
      by (cases f) (auto simp: remove_file_def next_disk_fault_def split: option.split intro: exI [of _ "[f]"])
  qed
next
  case (Suc n)
  show ?case
  proof (cases "\<exists>k fs. disk_faults d = Disk_breaks k # fs")
    case True
    then obtain k fs where f: "disk_faults d = Disk_breaks k # fs" by blast
    then have step: "retry_spawn (Suc n) (remove_file path) d = retry_spawn n (remove_file path) (d\<lparr>disk_faults := fs\<rparr>)"
      by (simp add: remove_file_def next_disk_fault_def)
    from Suc.IH [of "d\<lparr>disk_faults := fs\<rparr>"] show ?thesis
    proof
      assume "\<exists>mid post. disk_faults (d\<lparr>disk_faults := fs\<rparr>) = mid @ post \<and> length mid = Suc n \<and> Disk_works \<notin> set mid"
      then obtain mid post where "fs = mid @ post" "length mid = Suc n" "Disk_works \<notin> set mid" by auto
      with f have "disk_faults d = (Disk_breaks k # mid) @ post" "length (Disk_breaks k # mid) = Suc (Suc n)"
          "Disk_works \<notin> set (Disk_breaks k # mid)" by auto
      then show ?thesis by blast
    qed (simp only: step simp_thms)
  next
    case False
    obtain d1 where d1: "next_disk_fault d = (Disk_works, d1)"
      using False by (cases "disk_faults d"; cases "hd (disk_faults d)") (auto simp: next_disk_fault_def)
    then have files: "disk_files d1 = disk_files d" using next_disk_fault_frame by blast
    show ?thesis
    proof (cases "disk_files d path")
      case None
      then show ?thesis using remove_absent by blast
    next
      case (Some data)
      then show ?thesis using d1 files by (simp add: remove_file_def)
    qed
  qed
qed

lemma removed_or_faults:
  "faults_in_a_row 4 d \<or> disk_files (snd (retry_spawn 3 (remove_file path) d)) path = None"
  using remove_retried [of 3 path d]
proof
  assume "\<exists>mid post. disk_faults d = mid @ post \<and> length mid = Suc 3 \<and> Disk_works \<notin> set mid"
  then obtain mid post where "disk_faults d = [] @ mid @ post" "length mid = 4" "Disk_works \<notin> set mid" by auto
  then show ?thesis unfolding faults_in_a_row_def by blast
qed simp

lemma cleanup_eq:
  "snd (cleanup_code_file tx_hash slug path d) = snd (retry_spawn 3 (remove_file (code_path tx_hash slug path)) d)"
  "snd (cleanup_config_file tx_hash slug path d) = snd (retry_spawn 3 (remove_file (config_path tx_hash slug path)) d)"
  by (auto simp: cleanup_code_file_def cleanup_config_file_def split: prod.split sum.split)

lemma job_writes_frame:
  "same_but {code_path tx_hash slug path, config_path tx_hash slug path} d (job_writes tx_hash slug path j d)"
proof -
  have k: "same_but {code_path tx_hash slug path, config_path tx_hash slug path} d
      (snd (retry_spawn n (create_and_populate_file p data) d))"
    if "p \<in> {code_path tx_hash slug path, config_path tx_hash slug path}" for n p data d
    using keeps_retry [OF same_but_create [OF that]] by (simp add: io_keeps_def)
  then show ?thesis
    unfolding job_writes_def Let_def
    by (auto split: option.split intro: disk.refl k) (rule disk.trans [OF k k]; simp)
qed

text \<open>C35: Whatever of a job is cut off by its deadline and whatever operations on the disk fail, a job changes no file
  but its own code and configuration, and both are gone at its end, unless four operations in a row fail. The
  operation under way at the deadline is taken to be over before the removals begin.\<close>

theorem job_files_removed:
  assumes "d' = handle_job_files tx_hash slug path j d"
  shows "(\<forall>p. p \<noteq> code_path tx_hash slug path \<and> p \<noteq> config_path tx_hash slug path \<longrightarrow> disk_files d' p = disk_files d p) \<and>
    (faults_in_a_row 4 d \<or>
     disk_files d' (code_path tx_hash slug path) = None \<and> disk_files d' (config_path tx_hash slug path) = None)"
proof -
  let ?code = "code_path tx_hash slug path" and ?config = "config_path tx_hash slug path"
  define d1 where "d1 = job_writes tx_hash slug path j d"
  define d2 where "d2 = snd (retry_spawn 3 (remove_file ?config) d1)"
  have d': "d' = snd (retry_spawn 3 (remove_file ?code) d2)"
    by (simp add: assms handle_job_files_def Let_def cleanup_eq d1_def d2_def)
  have s1: "same_but {?code, ?config} d d1" unfolding d1_def by (rule job_writes_frame)
  have s2: "same_but {?config} d1 d2"
    unfolding d2_def by (rule io_keepsD [OF keeps_retry [OF same_but_remove]]) (rule insertI1, rule prod.collapse [symmetric])
  have s3: "same_but {?code} d2 d'"
    unfolding d' by (rule io_keepsD [OF keeps_retry [OF same_but_remove]]) (rule insertI1, rule prod.collapse [symmetric])
  have others: "\<forall>p. p \<noteq> ?code \<and> p \<noteq> ?config \<longrightarrow> disk_files d' p = disk_files d p"
    by (simp add: same_butD [OF s1] same_butD [OF s2] same_butD [OF s3])
  have "faults_in_a_row 4 d2 \<or> disk_files d' ?code = None"
    unfolding d' by (rule removed_or_faults)
  moreover have "faults_in_a_row 4 d1 \<or> disk_files d2 ?config = None"
    unfolding d2_def by (rule removed_or_faults)
  moreover have "disk_files d' ?config = disk_files d2 ?config" using paths_differ by (metis same_butD [OF s3] singletonD)
  ultimately show ?thesis
    using others faults_in_a_row_later [OF s1] faults_in_a_row_later [OF s2] by auto
qed

definition sample_disk :: disk where
  "sample_disk = \<lparr>disk_files = [''w/other'' \<mapsto> [1, 2, 3]], disk_faults = [Disk_works, Disk_breaks 2, Disk_breaks 0]\<rparr>"

definition sample_job_files :: job_files where
  "sample_job_files = \<lparr>jf_code = Some [65, 66], jf_code_retries = 3, jf_port = Some 11001, jf_config_retries = 1\<rparr>"

theorem job_files_removed_witness:
  "disk_files (handle_job_files ''0x1'' ''s'' ''w'' sample_job_files sample_disk) ''w/other'' = Some [1, 2, 3] \<and>
   disk_files (handle_job_files ''0x1'' ''s'' ''w'' sample_job_files sample_disk) ''w/0x1-s.js'' = None"
proof -
  have paths: "code_path ''0x1'' ''s'' ''w'' = ''w/0x1-s.js''" "config_path ''0x1'' ''s'' ''w'' = ''w/0x1-s.capnp''"
    by (simp_all add: code_path_def config_path_def)
  have "\<not> faults_in_a_row 4 sample_disk"
    by (auto simp: faults_in_a_row_def sample_disk_def dest: arg_cong [of _ _ length])
  with job_files_removed [OF refl, of "''0x1''" "''s''" "''w''" sample_job_files sample_disk] show ?thesis
    by (simp add: paths) (simp add: sample_disk_def)
qed

text \<open>A code file that was written holds the code that \<open>create_code_file\<close> found, whatever it held before.\<close>

lemma retried_write:
  "retry_spawn n (create_and_populate_file path data) d = (Inr u, d') \<Longrightarrow> disk_files d' path = Some data"
proof (induction n arbitrary: d)
  case 0
  then show ?case
    by (auto simp: create_and_populate_file_def split: prod.splits disk_fault.splits nat.splits)
next
  case (Suc n)
  obtain r d1 where m: "create_and_populate_file path data d = (r, d1)" by fastforce
  show ?case
  proof (cases r)
    case (Inl e)
    with m Suc show ?thesis by simp
  next
    case (Inr v)
    with m Suc.prems show ?thesis
      by (auto simp: create_and_populate_file_def split: prod.splits disk_fault.splits nat.splits)
  qed
qed

lemma create_code_file_written:
  "create_code_file lib answer contract True = Some (Inr data) \<Longrightarrow>
   create_code_file lib answer contract False = Some (Inl CodeFileCreate)"
  by (auto simp: create_code_file_def split: sum.splits option.splits if_splits json_view.splits)

lemma code_on_disk:
  assumes "create_code_file_on lib answers contract tx_hash slug path d = Some (Some (Inr data), d')"
  shows "disk_files d' (code_path tx_hash slug path) = Some data"
proof -
  from assms obtain answer where answer: "retry_answers 3 answers = Some answer"
    by (auto simp: create_code_file_on_def split: option.splits)
  with assms obtain code where code: "create_code_file lib answer contract True = Some (Inr code)"
    by (auto simp: create_code_file_on_def split: option.splits sum.splits)
  obtain r d1 where w: "retry_spawn 3 (create_and_populate_file (code_path tx_hash slug path) code) d = (r, d1)" by fastforce
  show ?thesis
  proof (cases r)
    case (Inl e)
    with assms answer code w create_code_file_written [OF code] show ?thesis
      by (simp add: create_code_file_on_def write_code_file_def)
  next
    case (Inr u)
    with assms answer code w have "data = code" "d' = d1"
      by (simp_all add: create_code_file_on_def write_code_file_def)
    with retried_write [OF w [unfolded Inr]] show ?thesis by simp
  qed
qed

text \<open>What the task of \<open>EX_Jobs\<close> takes as its input is what the request and the disk gave.\<close>

lemma create_code_file_input:
  assumes "create_code_file_on lib answers contract tx_hash slug path d = Some (r, d')"
  shows "\<exists>answer written. retry_answers 3 answers = Some answer \<and> r = create_code_file lib answer contract written"
  using assms by (auto simp: create_code_file_on_def split: option.splits sum.splits prod.splits
      intro: exI [of _ True] sym)

end
