(* ===== verification/Enclave_Setup.thy ===== *)
theory Enclave_Setup
  imports EX_Runtime Raw_Proxy Sdk_Attestation
begin

text \<open>
  What happens before the programs of an enclave can work. The host looks for its network interface
  (\<open>get_eth_interface\<close> of \<open>initialization/init-server\<close> and of \<open>networking/raw-proxy\<close>) and serves its address
  and the job over vsock (\<open>init-server\<close>); the enclave asks for them with \<open>initialization/vet\<close>, whose output is the file
  the incoming proxy reads. In the enclave, \<open>initialization/keygen\<close> writes the key pairs, with which the
  attestation verifier (\<open>attestation/verifier/src/main.rs\<close>) and the executor start.

  Files are those of the disk of \<open>EX_Runtime\<close>. The list of interfaces, the URI parser, the connections, the
  random keys and the formats of secp256k1 keys are parameters. A null pointer that is read is \<open>None\<close>. The machine is
  little-endian.
\<close>

section \<open>The interface of the host\<close>

text \<open>An entry of \<open>getifaddrs\<close>: its name, and the family and the first address bytes when the address is not null.\<close>

record ifaddrs =
  ifa_name :: bytes
  ifa_addr :: "(u16 \<times> bytes) option"

definition AF_INET :: u16 where
  "AF_INET = 2"

text \<open>\<open>str::from_utf8\<close>: the well-formed sequences of the Unicode standard.\<close>

definition follows :: "u8 \<Rightarrow> u8 \<Rightarrow> u8 \<Rightarrow> bool" where
  "follows lo hi b \<longleftrightarrow> lo \<le> b \<and> b \<le> hi"

fun utf8_valid :: "bytes \<Rightarrow> bool" where
  "utf8_valid [] = True"
| "utf8_valid (a # bs) =
     (if a < 0x80 then utf8_valid bs
      else if follows 0xC2 0xDF a then
        (case bs of b # bs \<Rightarrow> follows 0x80 0xBF b \<and> utf8_valid bs | _ \<Rightarrow> False)
      else if follows 0xE0 0xEF a then
        (case bs of b # c # bs \<Rightarrow>
             follows (if a = 0xE0 then 0xA0 else 0x80) (if a = 0xED then 0x9F else 0xBF) b \<and>
             follows 0x80 0xBF c \<and> utf8_valid bs
         | _ \<Rightarrow> False)
      else if follows 0xF0 0xF4 a then
        (case bs of b # c # d # bs \<Rightarrow>
             follows (if a = 0xF0 then 0x90 else 0x80) (if a = 0xF4 then 0x8F else 0xBF) b \<and>
             follows 0x80 0xBF c \<and> follows 0x80 0xBF d \<and> utf8_valid bs
         | _ \<Rightarrow> False)
      else False)"

definition from_utf8 :: "bytes \<Rightarrow> string option" where
  "from_utf8 bs = (if utf8_valid bs then Some (map (\<lambda>b. char_of (unat b)) bs) else None)"

definition eth_name :: "bytes \<Rightarrow> bool" where
  "eth_name name \<longleftrightarrow> take 3 name = str_bytes ''eth'' \<or> take 3 name = str_bytes ''ens''"

text \<open>The search; the address of an interface is read as soon as its name matches.\<close>

fun search_interfaces :: "ifaddrs list \<Rightarrow> (string \<times> u32) rust_result option" where
  "search_interfaces [] = Some (Inl ''no matching interface found'')"
| "search_interfaces (i # rest) =
     (if \<not> eth_name (ifa_name i) then search_interfaces rest
      else case ifa_addr i of None \<Rightarrow> None
      | Some (sa_family, s_addr) \<Rightarrow>
          if sa_family \<noteq> AF_INET then search_interfaces rest
          else case from_utf8 (ifa_name i) of None \<Rightarrow> Some (Inl ''non utf8 interface'')
          | Some ifname \<Rightarrow> Some (Inr (ifname, u32_from_ne_bytes s_addr)))"

definition get_eth_interface :: "ifaddrs list rust_result \<Rightarrow> (string \<times> u32) rust_result option" where
  "get_eth_interface ifap =
     (case ifap of Inl _ \<Rightarrow> Some (Inl ''failed to query interfaces'') | Inr entries \<Rightarrow> search_interfaces entries)"

text \<open>The proxy of outgoing packets, from its start.\<close>

definition outgoing_program ::
  "ifaddrs list rust_result \<Rightarrow> (io_error + nat) list \<Rightarrow> bytes list \<Rightarrow> (outcome \<times> bytes list) rust_result option"
where
  "outgoing_program ifap as cs =
     (case get_eth_interface ifap of None \<Rightarrow> None
      | Some (Inl _) \<Rightarrow> Some (Inl ''could not get ethernet interface'')
      | Some (Inr (ifname, ifaddr)) \<Rightarrow> Some (Inr (outgoing_main ifaddr as cs)))"

section \<open>The server of the host\<close>

definition u32_to_ne_bytes :: "u32 \<Rightarrow> bytes" where
  "u32_to_ne_bytes x = map (\<lambda>i. ucast (drop_bit (8 * i) x)) [0, 1, 2, 3]"

definition u32_to_be :: "u32 \<Rightarrow> u32" where
  "u32_to_be x = u32_from_be_bytes (u32_to_ne_bytes x)"

definition octets :: "u32 \<Rightarrow> bytes" where
  "octets ip = rev (u32_to_ne_bytes ip)"

definition ipv4_to_string :: "u32 \<Rightarrow> string" where
  "ipv4_to_string ip =
     (case map (\<lambda>b. dec_of_nat (unat b)) (octets ip) of
        [a, b, c, d] \<Rightarrow> a @ ''.'' @ b @ ''.'' @ c @ ''.'' @ d
      | _ \<Rightarrow> '''')"

definition get_host_interface :: "ifaddrs list rust_result \<Rightarrow> (string \<times> u32) rust_result option" where
  "get_host_interface ifap =
     map_option (map_sum id (\<lambda>(ifname, ifaddr). (ifname, u32_to_be ifaddr))) (get_eth_interface ifap)"

record init_server =
  is_job_id :: string
  is_ip :: string

definition init_server_start :: "ifaddrs list rust_result \<Rightarrow> string \<Rightarrow> unit rust_result \<Rightarrow> init_server rust_result option" where
  "init_server_start ifap job_id bound =
     (case get_host_interface ifap of None \<Rightarrow> None
      | Some (Inl _) \<Rightarrow> Some (Inl ''failed to get ethernet ip'')
      | Some (Inr (_, ip)) \<Rightarrow>
          (case bound of Inl _ \<Rightarrow> Some (Inl ''failed to create vsock listener'')
           | Inr _ \<Rightarrow> Some (Inr \<lparr>is_job_id = job_id, is_ip = ipv4_to_string ip\<rparr>)))"

text \<open>The routes, with the status of the answer: \<open>get\<close> also answers \<open>HEAD\<close>, without the body.\<close>

definition init_server_answer :: "init_server \<Rightarrow> string \<Rightarrow> string \<Rightarrow> nat \<times> string" where
  "init_server_answer s meth path =
     (case (if path = ''/oyster/job'' then Some (is_job_id s)
            else if path = ''/instance/ip'' then Some (is_ip s) else None) of
        None \<Rightarrow> (404, '''')
      | Some body \<Rightarrow>
          if meth = ''GET'' then (200, body) else if meth = ''HEAD'' then (200, '''') else (405, ''''))"

section \<open>The client in the enclave\<close>

text \<open>A parsed URI: its authority is a host and, if it is a number of 16 bits, a port.\<close>

record uri =
  uri_scheme :: "string option"
  uri_authority :: "(string \<times> u16 option) option"
  uri_path :: string

text \<open>Schemes are compared without case.\<close>

definition vsock_connector :: "(u32 \<times> u32 \<Rightarrow> unit rust_result) \<Rightarrow> uri \<Rightarrow> (u32 \<times> u32) rust_result" where
  "vsock_connector connect dst =
     (case uri_scheme dst of None \<Rightarrow> Inl ''uri should have a scheme''
      | Some scheme \<Rightarrow>
      if map ascii_lower scheme \<noteq> ''vsock'' then Inl ''only vsock uris supported''
      else case uri_authority dst of None \<Rightarrow> Inl ''uri should have an authority''
      | Some (hostname, port_u16) \<Rightarrow>
      case parse_u32 hostname of None \<Rightarrow> Inl ''uri should have a u32 host''
      | Some cid \<Rightarrow>
      case port_u16 of None \<Rightarrow> Inl ''uri should have a u16 port''
      | Some port \<Rightarrow>
      case connect (cid, ucast port) of Inl e \<Rightarrow> Inl e
      | Inr _ \<Rightarrow> Inr (cid, ucast port))"

text \<open>The network: what connecting to an address gives, and what a request for a path gives over that connection, a
  status and a body. The output is the text with the new line of \<open>println!\<close>.\<close>

record network =
  connects :: "u32 \<times> u32 \<Rightarrow> unit rust_result"
  answers :: "u32 \<times> u32 \<Rightarrow> string \<Rightarrow> (nat \<times> bytes) rust_result"

definition vet :: "(string \<Rightarrow> uri option) \<Rightarrow> network \<Rightarrow> string \<Rightarrow> string rust_result" where
  "vet parse_uri net url =
     (case parse_uri url of None \<Rightarrow> Inl ''invalid uri''
      | Some dst \<Rightarrow>
      case vsock_connector (connects net) dst of Inl e \<Rightarrow> Inl e
      | Inr peer \<Rightarrow>
      case answers net peer (uri_path dst) of Inl e \<Rightarrow> Inl e
      | Inr (status, body) \<Rightarrow>
      case from_utf8 body of None \<Rightarrow> Inl ''invalid utf-8''
      | Some res \<Rightarrow> Inr (res @ [char_of (10 :: nat)]))"

text \<open>The proxy of incoming packets, from its start, with what reading \<open>/app/ip.txt\<close> gives.\<close>

definition incoming_program ::
  "string rust_result \<Rightarrow> (io_error + nat) list \<Rightarrow> bytes list \<Rightarrow> (outcome \<times> bytes list) rust_result"
where
  "incoming_program ip_txt as cs =
     (case ip_txt of Inl e \<Rightarrow> Inl e | Inr s \<Rightarrow> Inr (incoming_main (trim s) as cs))"

section \<open>Keys\<close>

record ('sk, 'pk) secp_lib =
  secret_bytes :: "'sk \<Rightarrow> bytes"
  secret_from_slice :: "bytes \<Rightarrow> 'sk option"
  serialize_uncompressed :: "'pk \<Rightarrow> bytes"
  public_of :: "'sk \<Rightarrow> 'pk"

definition keygen_secp256k1 ::
  "('sk, 'pk) secp_lib \<Rightarrow> string \<Rightarrow> string \<Rightarrow> 'sk \<Rightarrow> (disk, unit) io"
where
  "keygen_secp256k1 lib secret_file public_file secret =
     io_then (create_and_populate_file secret_file (secret_bytes lib secret))
       (create_and_populate_file public_file (drop 1 (serialize_uncompressed lib (public_of lib secret))))"

text \<open>The results of \<open>sodium_init\<close> and of \<open>crypto_sign_keypair\<close>, which fills the two arrays.\<close>

definition keygen_ed25519 :: "int \<Rightarrow> int \<times> bytes \<times> bytes \<Rightarrow> string \<Rightarrow> string \<Rightarrow> (disk, unit) io" where
  "keygen_ed25519 sodium_init keypair secret_file public_file =
     (if sodium_init < 0 then io_err ''failed to init libsodium''
      else case keypair of (res, secret, public) \<Rightarrow>
        if res \<noteq> 0 then io_err ''failed to generate keypair''
        else io_then (create_and_populate_file secret_file secret) (create_and_populate_file public_file public))"

definition fs_read :: "string \<Rightarrow> (disk, bytes) io" where
  "fs_read path d =
     (case next_disk_fault d of
        (Disk_breaks n, d) \<Rightarrow> (Inl ''io error'', d)
      | (Disk_works, d) \<Rightarrow> (case disk_files d path of None \<Rightarrow> (Inl ''not found'', d) | Some data \<Rightarrow> (Inr data, d)))"

text \<open>The start of the verifier: the keys of its state. The end points serve until the server fails.\<close>

definition verifier_start ::
  "('sk, 'pk) secp_lib \<Rightarrow> string \<Rightarrow> string \<Rightarrow> unit rust_result \<Rightarrow> (disk, 'sk \<times> bytes) io"
where
  "verifier_start lib secret_file public_file bound =
     io_bind (io_context ''Failed to read secp256k1_secret'' (fs_read secret_file)) (\<lambda>secret.
     io_bind (io_ok_or ''unable to decode secp256k1_secret key from slice'' (secret_from_slice lib secret)) (\<lambda>secret.
     io_bind (io_context ''Failed to read secp256k1_public'' (fs_read public_file)) (\<lambda>public.
     io_then (io_ensure (length public = 64) ''invalid public key length'')
       (case bound of Inl _ \<Rightarrow> io_err ''unable to start the server'' | Inr _ \<Rightarrow> io_ok (secret, public)))))"

text \<open>\<open>cli_attestation_verifier\<close>: the document of a file, as hexadecimal text, against the measurements and the time
  that it states itself.\<close>

definition cli_attestation_verifier ::
  "('c, 'x, 'k) attestation_lib \<Rightarrow> (nat \<Rightarrow> int rust_result) \<Rightarrow> bytes \<Rightarrow> (string \<Rightarrow> bytes rust_result) \<Rightarrow> string
     \<Rightarrow> (disk, attestation_decoded) io"
where
  "cli_attestation_verifier lib now root decode_hex path =
     io_bind (io_context ''Failed to read attestation hex string'' (fs_read path)) (\<lambda>bs.
     io_bind (io_ok_or ''Failed to read attestation hex string'' (from_utf8 bs)) (\<lambda>text.
     case decode_hex text of Inl _ \<Rightarrow> io_err ''Failed to decode attestation hex string''
     | Inr attestation \<Rightarrow>
     case decode_attestation lib attestation of Inl _ \<Rightarrow> io_err ''Failed to decode the attestation doc''
     | Inr parsed \<Rightarrow>
     case verify_with_timestamp lib now root attestation (pcrs parsed) (timestamp parsed) of
       Inl _ \<Rightarrow> io_err ''Failed to verify the attestation doc''
     | Inr _ \<Rightarrow> io_ok parsed))"

section \<open>The address of the enclave\<close>

lemma u32_ne_roundtrip: "length b = 4 \<Longrightarrow> u32_to_ne_bytes (u32_from_ne_bytes b) = b"
proof -
  assume "length b = 4"
  then obtain w x y z where b: "b = [w, x, y, z]"
    by (auto simp: length_Suc_conv numeral_eq_Suc)
  have out: "\<not> bit (v :: u8) (8 + n)" "\<not> bit v (16 + n)" "\<not> bit v (24 + n)" for v n
    by (auto dest: bit_imp_le_length)
  have "ucast (push_bit 8 (push_bit 8 (push_bit 8 (ucast z) OR ucast y) OR ucast x) OR ucast w :: u32) = w"
      "ucast (drop_bit 8 (push_bit 8 (push_bit 8 (push_bit 8 (ucast z) OR ucast y) OR ucast x) OR ucast w :: u32)) = x"
      "ucast (drop_bit 16 (push_bit 8 (push_bit 8 (push_bit 8 (ucast z) OR ucast y) OR ucast x) OR ucast w :: u32)) = y"
      "ucast (drop_bit 24 (push_bit 8 (push_bit 8 (push_bit 8 (ucast z) OR ucast y) OR ucast x) OR ucast w :: u32)) = z"
    for w x y z :: u8
    by (auto intro!: bit_word_eqI simp: bit_simps out)
  then show ?thesis by (simp add: b u32_to_ne_bytes_def u32_from_ne_bytes_def u32_from_be_bytes_def)
qed

lemma u32_ne_inject: "length a = 4 \<Longrightarrow> length b = 4 \<Longrightarrow> u32_from_ne_bytes a = u32_from_ne_bytes b \<longleftrightarrow> a = b"
  by (metis u32_ne_roundtrip)

text \<open>The server prints the address that the proxy compares.\<close>

lemma octets_to_be:
  assumes "length b = 4"
  shows "octets (u32_to_be (u32_from_ne_bytes b)) = b"
proof -
  have "u32_to_be (u32_from_ne_bytes b) = u32_from_be_bytes b"
    using assms by (simp add: u32_to_be_def u32_ne_roundtrip)
  then have "u32_to_be (u32_from_ne_bytes b) = u32_from_ne_bytes (rev b)" by (simp add: u32_from_ne_bytes_def)
  then show ?thesis using assms by (simp add: octets_def u32_ne_roundtrip)
qed

lemma ipv4_to_string_octets: "length (octets ip) = 4 \<Longrightarrow> ipv4_to_string ip = print_addr (octets ip)"
  by (auto simp: ipv4_to_string_def print_addr_quad length_Suc_conv numeral_eq_Suc)

lemma server_prints: "length b = 4 \<Longrightarrow> ipv4_to_string (u32_to_be (u32_from_ne_bytes b)) = print_addr b"
  by (simp add: ipv4_to_string_octets octets_to_be)

lemma init_server_started:
  "init_server_start (Inr entries) job_id bound = Some (Inr s) \<Longrightarrow>
     \<exists>ifname ifaddr. search_interfaces entries = Some (Inr (ifname, ifaddr)) \<and> is_job_id s = job_id \<and>
       is_ip s = ipv4_to_string (u32_to_be ifaddr)"
  by (cases "search_interfaces entries"; cases "the (search_interfaces entries)")
    (auto simp: init_server_start_def get_host_interface_def get_eth_interface_def split: sum.splits)

definition entries_ok :: "ifaddrs list \<Rightarrow> bool" where
  "entries_ok entries \<longleftrightarrow> (\<forall>i \<in> set entries. \<forall>addr. ifa_addr i = Some (AF_INET, addr) \<longrightarrow> length addr = 4)"

lemma search_interfaces_found:
  "search_interfaces entries = Some (Inr (ifname, ifaddr)) \<Longrightarrow> entries_ok entries \<Longrightarrow>
     \<exists>addr. length addr = 4 \<and> ifaddr = u32_from_ne_bytes addr"
  by (induction entries) (auto simp: entries_ok_def split: if_splits option.splits)

text \<open>The search reads a null pointer exactly when an interface without an address, but with a matching name, comes
  before the one that is looked for.\<close>

lemma search_interfaces_undefined:
  "search_interfaces entries = None \<longleftrightarrow>
     (\<exists>pre i post. entries = pre @ i # post \<and> eth_name (ifa_name i) \<and> ifa_addr i = None \<and>
        (\<forall>j \<in> set pre. eth_name (ifa_name j) \<longrightarrow> (\<exists>fam addr. ifa_addr j = Some (fam, addr) \<and> fam \<noteq> AF_INET)))"
proof (induction entries)
  case (Cons i rest)
  show ?case (is "?l \<longleftrightarrow> (\<exists>pre. ?r pre)")
  proof
    assume ?l
    then consider "eth_name (ifa_name i)" "ifa_addr i = None"
      | "search_interfaces rest = None" "eth_name (ifa_name i) \<longrightarrow> (\<exists>fam addr. ifa_addr i = Some (fam, addr) \<and> fam \<noteq> AF_INET)"
      by (auto split: if_splits option.splits)
    then show "\<exists>pre. ?r pre"
    proof cases
      case 1
      then show ?thesis by (intro exI [of _ "[]"]) auto
    next
      case 2
      with Cons.IH obtain pre where "\<exists>j post. rest = pre @ j # post \<and> eth_name (ifa_name j) \<and> ifa_addr j = None"
          "\<forall>j \<in> set pre. eth_name (ifa_name j) \<longrightarrow> (\<exists>fam addr. ifa_addr j = Some (fam, addr) \<and> fam \<noteq> AF_INET)" by blast
      with 2 show ?thesis by (intro exI [of _ "i # pre"]) auto
    qed
  next
    assume "\<exists>pre. ?r pre"
    then obtain pre where "?r pre" ..
    then show ?l by (cases pre) (use Cons.IH in \<open>auto split: option.split\<close>)
  qed
qed simp

lemma utf8_ascii: "\<forall>b \<in> set bs. b < 0x80 \<Longrightarrow> utf8_valid bs"
  by (induction bs) auto

lemma char_of_byte: "char_of (unat (of_char c :: u8)) = c"
proof -
  have "unat (of_nat (of_char c) :: u8) = of_char c"
    by (simp only: unat_of_nat) (simp add: take_bit_eq_mod)
  then show ?thesis by (simp only: of_nat_of_char) simp
qed

lemma from_utf8_str: "utf8_valid (str_bytes s) \<Longrightarrow> from_utf8 (str_bytes s) = Some s"
  by (simp add: from_utf8_def str_bytes_def comp_def char_of_byte)

lemma trim_line: "\<forall>c \<in> set s. \<not> is_space c \<Longrightarrow> trim (s @ [char_of (10 :: nat)]) = s"
proof -
  assume s: "\<forall>c \<in> set s. \<not> is_space c"
  have stay: "dropWhile is_space t = t" if "\<forall>c \<in> set t. \<not> is_space c" for t
    using that by (cases t) auto
  have "is_space (char_of (10 :: nat))" by (simp add: is_space_def)
  then have "rev (dropWhile is_space (s @ [char_of (10 :: nat)])) = (if s = [] then [] else char_of (10 :: nat) # rev s)"
    using s by (cases s) auto
  then show ?thesis using stay [of "rev s"] s \<open>is_space (char_of (10 :: nat))\<close> by (simp add: trim_def)
qed

lemma print_addr_chars:
  assumes "length a = 4" and "c \<in> set (print_addr a)"
  shows "46 \<le> (of_char c :: nat) \<and> (of_char c :: nat) \<le> 57"
proof -
  from assms have "(\<exists>n. c \<in> set (dec_of_nat n)) \<or> c = CHR ''.''"
    by (auto simp: print_addr_quad length_Suc_conv numeral_eq_Suc)
  then obtain n :: nat where "c \<in> set (dec_of_nat n) \<or> c = CHR ''.''" by blast
  then show ?thesis using dec_of_nat_digits [of c n] by auto
qed

text \<open>So the address goes through the server, the client and the file unchanged.\<close>

lemma address_transfer:
  assumes "length a = 4"
  shows "from_utf8 (str_bytes (print_addr a)) = Some (print_addr a)"
    and "trim (print_addr a @ [char_of (10 :: nat)]) = print_addr a"
proof -
  have "(of_char c :: u8) < 0x80" if "c \<in> set (print_addr a)" for c
  proof -
    have "unat (of_nat (of_char c) :: u8) < 128"
      using print_addr_chars [OF assms that] by (simp only: unat_of_nat) (simp add: take_bit_eq_mod)
    then show ?thesis by (simp only: of_nat_of_char) (simp add: word_less_nat_alt)
  qed
  then have "utf8_valid (str_bytes (print_addr a))" by (intro utf8_ascii) (auto simp: str_bytes_def)
  then show "from_utf8 (str_bytes (print_addr a)) = Some (print_addr a)" by (rule from_utf8_str)
  have "\<not> is_space c" if "c \<in> set (print_addr a)" for c
    using print_addr_chars [OF assms that] by (auto simp: is_space_def)
  then show "trim (print_addr a @ [char_of (10 :: nat)]) = print_addr a" by (intro trim_line) simp
qed

definition vsock_uri :: "u32 \<Rightarrow> u16 \<Rightarrow> string \<Rightarrow> uri" where
  "vsock_uri cid port path =
     \<lparr>uri_scheme = Some ''vsock'', uri_authority = Some (dec_of_nat (unat cid), Some port), uri_path = path\<rparr>"

lemma vsock_connector_uri:
  "vsock_connector connect (vsock_uri cid port path) = map_sum id (\<lambda>_. (cid, ucast port)) (connect (cid, ucast port))"
proof -
  have "unat cid < 2 ^ LENGTH(32)" by (rule unsigned_less)
  then have "parse_u32 (dec_of_nat (unat cid)) = Some cid" by (simp add: parse_u32_def parse_nat_dec)
  then show ?thesis by (simp add: vsock_connector_def vsock_uri_def ascii_lower_def split: sum.split)
qed

definition runs_server :: "network \<Rightarrow> u32 \<Rightarrow> u16 \<Rightarrow> init_server \<Rightarrow> bool" where
  "runs_server net cid port s \<longleftrightarrow> connects net (cid, ucast port) = Inr () \<and>
     (\<forall>path. answers net (cid, ucast port) path = Inr (apsnd str_bytes (init_server_answer s ''GET'' path)))"

lemma vet_served:
  assumes "runs_server net cid port s" and "parse_uri url = Some (vsock_uri cid port path)"
  shows "vet parse_uri net url =
    (case from_utf8 (str_bytes (snd (init_server_answer s ''GET'' path))) of None \<Rightarrow> Inl ''invalid utf-8''
     | Some res \<Rightarrow> Inr (res @ [char_of (10 :: nat)]))"
  using assms by (simp add: vet_def runs_server_def vsock_connector_uri) (simp add: vsock_uri_def apsnd_def map_prod_def split_beta)

text \<open>Like the address, the job goes through unchanged; a path that is not served prints an empty line.\<close>

lemma vet_job:
  assumes "runs_server net cid port s" and "parse_uri url = Some (vsock_uri cid port ''/oyster/job'')"
    and "utf8_valid (str_bytes (is_job_id s))"
  shows "vet parse_uri net url = Inr (is_job_id s @ [char_of (10 :: nat)])"
  using vet_served [OF assms(1), where parse_uri = parse_uri and url = url] assms(2) from_utf8_str [OF assms(3)] by (simp add: init_server_answer_def)

lemma vet_unknown:
  assumes "runs_server net cid port s" and "parse_uri url = Some (vsock_uri cid port path)"
    and "path \<noteq> ''/oyster/job''" and "path \<noteq> ''/instance/ip''"
  shows "vet parse_uri net url = Inr [char_of (10 :: nat)]"
  using vet_served [OF assms(1), where parse_uri = parse_uri and url = url and path = path] assms(2-4) by (simp add: init_server_answer_def from_utf8_def str_bytes_def)

text \<open>C13: The programs of the two sides agree on one address. The host's server and its proxy read the address of the
  same interface, one to print it and one to compare numbers; the enclave asks the server, stores the text in a file
  and its proxy compares texts. Then packets for that address, and no others, reach the enclave, and only packets
  from that address that pass the other checks leave it, whole and in order.\<close>

theorem enclave_address_agrees:
  assumes "entries_ok entries" and "init_server_start (Inr entries) job_id (Inr ()) = Some (Inr s)"
    and "runs_server net cid port s" and "parse_uri url = Some (vsock_uri cid port ''/instance/ip'')"
    and "\<forall>p \<in> set (received (recvs st)). packet_ok p" and "takes_all as"
    and "length (received (recvs st)) \<le> length as" and "capture_main st [] = (r, ss, qs)"
  shows "\<exists>ifname addr out. get_eth_interface (Inr entries) = Some (Inr (ifname, u32_from_ne_bytes addr)) \<and>
    length addr = 4 \<and> vet parse_uri net url = Inr out \<and>
    incoming_program (Inr out) as ss = Inr (Waiting, filter (\<lambda>p. take 4 (drop 16 p) = addr) qs) \<and>
    outgoing_program (Inr entries) as ss =
      Some (Inr (Waiting, filter (\<lambda>p. take 4 (drop 12 p) = addr \<and> outgoing_passes (source_addr p) p) qs))"
proof -
  from init_server_started [OF assms(2)] obtain ifname ifaddr where eth: "search_interfaces entries = Some (Inr (ifname, ifaddr))"
    and s: "is_ip s = ipv4_to_string (u32_to_be ifaddr)" by blast
  from search_interfaces_found [OF eth assms(1)] obtain addr where addr: "length addr = 4" "ifaddr = u32_from_ne_bytes addr"
    by blast
  note s = s [unfolded addr(2) server_prints [OF addr(1)]]
  have out: "vet parse_uri net url = Inr (print_addr addr @ [char_of (10 :: nat)])"
    using vet_served [OF assms(3), where parse_uri = parse_uri and url = url] assms(4) s address_transfer(1) [OF addr(1)]
    by (simp add: init_server_answer_def)
  have parse: "parse_addr (print_addr addr) = Some addr" using addr by (simp add: parse_addr_eq)
  have "incoming_program (Inr (print_addr addr @ [char_of (10 :: nat)])) as ss =
      Inr (Waiting, filter (\<lambda>p. take 4 (drop 16 p) = addr) qs)"
    using capture_incoming [OF assms(5-8) parse] address_transfer(2) [OF addr(1)] by (simp add: incoming_program_def)
  moreover have "outgoing_passes (u32_from_ne_bytes addr) p \<longleftrightarrow>
      take 4 (drop 12 p) = addr \<and> outgoing_passes (source_addr p) p" if "p \<in> set qs" for p
  proof -
    have "20 \<le> length p" using capture_forward(5) [OF assms(5-8) that] packet_ok_length by blast
    then have "source_addr p = u32_from_ne_bytes addr \<longleftrightarrow> take 4 (drop 12 p) = addr"
      using addr(1) unfolding source_addr_def by (intro u32_ne_inject) simp_all
    then show ?thesis by (cases "source_addr p = u32_from_ne_bytes addr") (simp_all add: outgoing_passes_def)
  qed
  then have "filter (outgoing_passes (u32_from_ne_bytes addr)) qs =
      filter (\<lambda>p. take 4 (drop 12 p) = addr \<and> outgoing_passes (source_addr p) p) qs" by (intro filter_cong) auto
  then have "outgoing_program (Inr entries) as ss =
      Some (Inr (Waiting, filter (\<lambda>p. take 4 (drop 12 p) = addr \<and> outgoing_passes (source_addr p) p) qs))"
    using eth addr(2) capture_forward(3) [OF assms(5-8) outgoing_local]
    by (simp add: outgoing_program_def get_eth_interface_def outgoing_main_def)
  moreover have "get_eth_interface (Inr entries) = Some (Inr (ifname, u32_from_ne_bytes addr))"
    using eth addr(2) by (simp add: get_eth_interface_def)
  ultimately show ?thesis using addr(1) out by blast
qed

definition sample_entries :: "ifaddrs list" where
  "sample_entries =
     [\<lparr>ifa_name = str_bytes ''lo'', ifa_addr = Some (2, [127, 0, 0, 1])\<rparr>,
      \<lparr>ifa_name = str_bytes ''eth0'', ifa_addr = Some (10, replicate 4 0)\<rparr>,
      \<lparr>ifa_name = str_bytes ''eth0'', ifa_addr = Some (2, [172, 31, 0, 9])\<rparr>]"

definition sample_reply :: bytes where
  "sample_reply = take 12 (sample_packet 8) @ [8, 8, 8, 8, 172, 31, 0, 9] @ drop 20 (sample_packet 8)"

definition sample_init_server :: init_server where
  "sample_init_server = \<lparr>is_job_id = ''0x01'', is_ip = ''172.31.0.9''\<rparr>"

definition sample_network :: network where
  "sample_network = \<lparr>connects = (\<lambda>_. Inr ()),
     answers = (\<lambda>_ path. Inr (apsnd str_bytes (init_server_answer sample_init_server ''GET'' path)))\<rparr>"

lemma sample_init_server_starts: "init_server_start (Inr sample_entries) ''0x01'' (Inr ()) = Some (Inr sample_init_server)"
proof -
  have "ipv4_to_string (u32_to_be (u32_from_ne_bytes [172, 31, 0, 9])) = ''172.31.0.9''"
    by (subst server_prints) (simp_all add: print_addr_quad dec_of_nat.simps char_of_def bit_0)
  then show ?thesis
    by (simp add: init_server_start_def get_host_interface_def get_eth_interface_def sample_entries_def eth_name_def
        str_bytes_def AF_INET_def from_utf8_def sample_init_server_def)
qed

theorem enclave_address_agrees_witness:
  "\<exists>ss qs out. capture_main \<lparr>recvs = [Inr (sample_packet 8), Inr sample_reply], sends = [Inr 65535, Inr 65535],
       verdicts = [None, None]\<rparr> [] = (Waiting, ss, qs) \<and>
     vet (\<lambda>_. Some (vsock_uri 3 1300 ''/instance/ip'')) sample_network ''vsock://3:1300/instance/ip'' = Inr out \<and>
     outgoing_program (Inr sample_entries) [Inr 65535, Inr 65535] ss = Some (Inr (Waiting, [sample_packet 8])) \<and>
     incoming_program (Inr out) [Inr 65535, Inr 65535] ss = Inr (Waiting, [sample_reply])"
proof -
  let ?st = "\<lparr>recvs = [Inr (sample_packet 8), Inr sample_reply], sends = [Inr 65535, Inr 65535],
       verdicts = [None, None]\<rparr>"
  let ?as = "[Inr 65535, Inr 65535]"
  obtain r ss qs where run: "capture_main ?st [] = (r, ss, qs)" by (cases "capture_main ?st []")
  have ok: "\<forall>p \<in> set (received (recvs ?st)). packet_ok p"
    by (simp add: sample_packet_ok)
      (simp add: packet_ok_def stated_size_def header_size_def sample_reply_def sample_packet_def u16_from_be_bytes_def)
  have takes: "takes_all ?as" "length (received (recvs ?st)) \<le> length ?as" by (simp_all add: takes_all_def)
  have served: "runs_server sample_network 3 1300 sample_init_server" by (simp add: runs_server_def sample_network_def)
  have "entries_ok sample_entries" by (simp add: entries_ok_def sample_entries_def AF_INET_def)
  then obtain ifname addr out where found: "get_eth_interface (Inr sample_entries) = Some (Inr (ifname, u32_from_ne_bytes addr))"
      "length addr = 4" and all: "vet (\<lambda>_. Some (vsock_uri 3 1300 ''/instance/ip'')) sample_network ''vsock://3:1300/instance/ip'' = Inr out"
      "incoming_program (Inr out) ?as ss = Inr (Waiting, filter (\<lambda>p. take 4 (drop 16 p) = addr) qs)"
      "outgoing_program (Inr sample_entries) ?as ss =
         Some (Inr (Waiting, filter (\<lambda>p. take 4 (drop 12 p) = addr \<and> outgoing_passes (source_addr p) p) qs))"
    using enclave_address_agrees [OF _ sample_init_server_starts served _ ok takes run,
        of "\<lambda>_. Some (vsock_uri 3 1300 ''/instance/ip'')" "''vsock://3:1300/instance/ip''"] by blast
  have "u32_from_ne_bytes addr = sample_ifaddr"
    using found(1) by (simp add: get_eth_interface_def sample_entries_def eth_name_def str_bytes_def AF_INET_def
        from_utf8_def sample_ifaddr_def)
  then have "addr = [172, 31, 0, 9]" using u32_ne_inject [OF found(2)] by (simp add: sample_ifaddr_def)
  moreover have "qs = [sample_packet 8, sample_reply]" using capture_main_lossless [OF run ok] takes(1) by simp
  moreover have "take 4 (drop 12 sample_reply) = [8, 8, 8, 8]" "take 4 (drop 16 sample_reply) = [172, 31, 0, 9]"
    by (simp_all add: sample_reply_def sample_packet_def)
  moreover have "take 4 (drop 12 (sample_packet 8)) = [172, 31, 0, 9]" "take 4 (drop 16 (sample_packet 8)) = [8, 8, 8, 8]"
    by (simp_all add: sample_packet_def)
  moreover have "outgoing_passes (source_addr (sample_packet 8)) (sample_packet 8)"
    using sample_packet_passes(1) by (simp add: outgoing_passes_def)
  moreover have "r = Waiting" by (rule capture_forward(1) [OF ok takes run])
  ultimately show ?thesis using all run by (intro exI [of _ ss] exI [of _ qs] exI [of _ out]) simp
qed

section \<open>The keys of the enclave\<close>

definition secp_laws :: "('sk, 'pk) secp_lib \<Rightarrow> bool" where
  "secp_laws lib \<longleftrightarrow> (\<forall>k. secret_from_slice lib (secret_bytes lib k) = Some k) \<and>
     (\<forall>b k. secret_from_slice lib b = Some k \<longrightarrow> length b = 32) \<and>
     (\<forall>p. length (serialize_uncompressed lib p) = 65)"

lemma written_whole:
  "create_and_populate_file path data d = (Inr u, d') \<Longrightarrow> disk_files d' = (disk_files d)(path \<mapsto> data)"
  by (cases "next_disk_fault d")
    (auto simp: create_and_populate_file_def dest: next_disk_fault_frame split: disk_fault.splits nat.splits)

lemma fs_read_quiet: "disk_faults d = [] \<Longrightarrow>
    fs_read path d = (case disk_files d path of None \<Rightarrow> (Inl ''not found'', d) | Some data \<Rightarrow> (Inr data, d))"
  by (simp add: fs_read_def next_disk_fault_def split: option.split)

lemma keygen_files:
  assumes "keygen_secp256k1 lib secret_file public_file sk d = (Inr (), d')"
  shows "disk_files d' = (disk_files d)(secret_file \<mapsto> secret_bytes lib sk,
      public_file \<mapsto> drop 1 (serialize_uncompressed lib (public_of lib sk)))"
  using assms by (auto simp: keygen_secp256k1_def io_then_def io_bind_Inr dest!: written_whole)

text \<open>A key generation that fails leaves no file of another path changed, and at worst a prefix of the key.\<close>

lemma keygen_same_but:
  "io_keeps (same_but {secret_file, public_file}) (keygen_secp256k1 lib secret_file public_file sk)"
  "io_keeps (same_but {secret_file, public_file}) (keygen_ed25519 init keypair secret_file public_file)"
  by (auto simp: keygen_secp256k1_def keygen_ed25519_def intro!: disk.keeps same_but_create split: prod.split)

text \<open>The executor reads the same file.\<close>

lemma executor_key_loads:
  assumes "secp_laws lib" and "keygen_secp256k1 lib secret_file public_file sk d = (Inr (), d')"
    and "disk_faults d' = []" and "secret_file \<noteq> public_file"
  shows "\<exists>b. fs_read secret_file d' = (Inr b, d') \<and> secret_from_slice lib b = Some sk"
  using assms(1,3,4) keygen_files [OF assms(2)] by (simp add: fs_read_quiet secp_laws_def)

lemma verify_raw_answer:
  "verify_raw vl lib now root secret public att = Inr resp \<Longrightarrow>
     \<exists>d. decode_attestation lib att = Inr d \<and> resp = attested_response vl secret public d"
  by (auto simp: verify_raw_def verifier_verify_def attested_response_def Let_def split: sum.splits prod.splits if_splits)

text \<open>C14: The keys that are generated are those that the verifier works with. If the generation succeeds and the files
  can be read, the verifier starts with the secret key and with the 64 bytes of its public key, so whatever response
  it gives, the key that recovers from the signature over the fields of the response is the key in the response. With
  one path for both files the verifier does not start.\<close>

theorem enclave_keys_load:
  assumes "secp_laws lib" and "keygen_secp256k1 lib secret_file public_file sk d = (Inr (), d')" and "disk_faults d' = []"
    and "\<forall>h. recover h (sign_recoverable vl sk h) = Some (public_of lib sk)"
  shows "(secret_file = public_file \<longrightarrow> isl (fst (verifier_start lib secret_file public_file (Inr ()) d'))) \<and>
    (secret_file \<noteq> public_file \<longrightarrow>
      verifier_start lib secret_file public_file (Inr ()) d' =
        (Inr (sk, drop 1 (serialize_uncompressed lib (public_of lib sk))), d') \<and>
        (\<forall>resp. verify_raw vl alib now root sk (drop 1 (serialize_uncompressed lib (public_of lib sk))) att = Inr resp \<longrightarrow>
          (\<exists>parsed rs v. decode_attestation alib att = Inr parsed \<and>
             signature resp = hex_encode vl rs @ hex_encode vl [of_int v + 27] \<and>
             map_option (\<lambda>pk. hex_encode vl (drop 1 (serialize_uncompressed lib pk)))
               (recover (compute_digest vl (public_key parsed) (pcrs parsed) (timestamp parsed)) (v, rs)) =
             Some (verifier_secp256k1_public resp))))"
proof -
  let ?pub = "drop 1 (serialize_uncompressed lib (public_of lib sk))"
  have pub: "length ?pub = 64" using assms(1) by (simp add: secp_laws_def)
  note files = keygen_files [OF assms(2)] and law = assms(1) [unfolded secp_laws_def]
  have "secret_from_slice lib ?pub = None"
    using pub law by (cases "secret_from_slice lib ?pub") (metis numeral_eq_iff num.distinct num.inject)+
  then have same: "isl (fst (verifier_start lib secret_file public_file (Inr ()) d'))" if "secret_file = public_file"
    using that files assms(3) by (simp add: verifier_start_def fs_read_quiet io_bind_def io_context_def io_ok_or_def io_err_def)
  have start: "verifier_start lib secret_file public_file (Inr ()) d' = (Inr (sk, ?pub), d')" if "secret_file \<noteq> public_file"
    using that files assms(3) law pub
    by (simp add: verifier_start_def fs_read_quiet io_bind_def io_context_def io_ok_or_def io_then_def io_ensure_def io_ok_def)
  have "\<exists>parsed rs v. decode_attestation alib att = Inr parsed \<and>
       signature resp = hex_encode vl rs @ hex_encode vl [of_int v + 27] \<and>
       map_option (\<lambda>pk. hex_encode vl (drop 1 (serialize_uncompressed lib pk)))
         (recover (compute_digest vl (public_key parsed) (pcrs parsed) (timestamp parsed)) (v, rs)) =
       Some (verifier_secp256k1_public resp)"
    if "verify_raw vl alib now root sk ?pub att = Inr resp" for resp
  proof -
    from verify_raw_answer [OF that] obtain parsed where p: "decode_attestation alib att = Inr parsed"
        "resp = attested_response vl sk ?pub parsed" by blast
    obtain v rs where "sign_recoverable vl sk (compute_digest vl (public_key parsed) (pcrs parsed) (timestamp parsed)) = (v, rs)"
      by fastforce
    with p assms(4) show ?thesis by (intro exI [of _ parsed] exI [of _ rs] exI [of _ v])
      (auto simp: attested_response_def split: prod.splits dest: spec [of _ "compute_digest vl (public_key parsed) (pcrs parsed) (timestamp parsed)"])
  qed
  with same start show ?thesis by blast
qed

definition sample_secp :: "(unit, unit) secp_lib" where
  "sample_secp = \<lparr>secret_bytes = (\<lambda>_. replicate 32 1),
     secret_from_slice = (\<lambda>b. if b = replicate 32 1 then Some () else None),
     serialize_uncompressed = (\<lambda>_. replicate 65 4), public_of = id\<rparr>"

theorem enclave_keys_load_witness:
  "\<exists>d. keygen_secp256k1 sample_secp ''sec'' ''pub'' () \<lparr>disk_files = Map.empty, disk_faults = []\<rparr> = (Inr (), d) \<and>
     verifier_start sample_secp ''sec'' ''pub'' (Inr ()) d = (Inr ((), replicate 64 4), d)"
proof -
  let ?run = "keygen_secp256k1 sample_secp ''sec'' ''pub'' () \<lparr>disk_files = Map.empty, disk_faults = []\<rparr>"
  obtain d where run: "?run = (Inr (), d)" and quiet: "disk_faults d = []"
    by (simp add: keygen_secp256k1_def io_then_def io_bind_def create_and_populate_file_def next_disk_fault_def)
  have laws: "secp_laws sample_secp" by (simp add: secp_laws_def sample_secp_def)
  have recover: "\<forall>h. (\<lambda>_ _. Some ()) h (sign_recoverable sample_verifier () h) = Some (public_of sample_secp ())" by simp
  have "verifier_start sample_secp ''sec'' ''pub'' (Inr ()) d =
      (Inr ((), drop 1 (serialize_uncompressed sample_secp (public_of sample_secp ()))), d)"
    using enclave_keys_load [where vl = sample_verifier and alib = sample_lib and recover = "\<lambda>_ _. Some ()",
        OF laws run quiet recover] by blast
  then have "verifier_start sample_secp ''sec'' ''pub'' (Inr ()) d = (Inr ((), replicate 64 4), d)"
    by (simp add: sample_secp_def)
  with run show ?thesis by blast
qed

text \<open>The tool for one document agrees with the library: it prints what the document states exactly when the document
  is authentic.\<close>

lemma cli_verifies:
  assumes "disk_faults d = []" and "disk_files d path = Some (str_bytes text)" and "utf8_valid (str_bytes text)"
    and "decode_hex text = Inr att"
  shows "fst (cli_attestation_verifier lib now root decode_hex path d) = Inr parsed \<longleftrightarrow>
    verify_and_decode_attestation lib now root att = Inr parsed"
proof (cases "decode_attestation lib att")
  case (Inl e)
  with assms verified_decoded [of lib now root att parsed] show ?thesis
    by (auto simp: cli_attestation_verifier_def fs_read_quiet io_bind_def io_context_def io_ok_or_def io_ok_def io_err_def
        from_utf8_str)
next
  case (Inr x)
  have "(\<exists>k. verify_with_timestamp lib now root att (pcrs x) (timestamp x) = Inr k) \<longleftrightarrow>
      verify_and_decode_attestation lib now root att = Inr x" by (simp add: verify_own_fields [OF Inr])
  moreover have "verify_and_decode_attestation lib now root att = Inr parsed \<Longrightarrow> parsed = x"
    using verified_decoded [of lib now root att parsed] Inr by simp
  ultimately show ?thesis using assms Inr
    by (cases "verify_with_timestamp lib now root att (pcrs x) (timestamp x)")
      (auto simp: cli_attestation_verifier_def fs_read_quiet io_bind_def io_context_def io_ok_or_def io_ok_def io_err_def
        from_utf8_str)
qed

end
