(* ===== verification/Program_Starts.thy ===== *)
theory Program_Starts
  imports CP_Aws CP_Startup Indexer EX_Node Enclave_Setup Mock_Attestation
begin

text \<open>
  The programs that start the components, and small tools around them: the indexer
  (\<open>contracts/indexer/src/main.rs\<close> with the provider \<open>AlloyProvider\<close> of \<open>lib.rs\<close>), the executor
  (\<open>serverless/executor/src/main.rs\<close>), the image table and the single deployment of the control plane (\<open>ami.rs\<close>,
  \<open>enclaver.rs\<close>), the client of the SDK (\<open>sdks/rs/src/main.rs\<close>) and the host of the zero-knowledge verifier
  (\<open>attestation/verifier-risczero/host\<close>). Arguments are parameters and so are the database driver, the RPC and the
  prover. A panic is \<open>None\<close>, that of the indexer \<open>Panicked\<close>.
\<close>

section \<open>The indexer\<close>

record alloy_filter =
  from_block :: u64
  to_block :: u64
  filter_address :: address

definition alloy_latest_block :: "unit rust_result \<Rightarrow> u64 rust_result \<Rightarrow> u64 rust_result" where
  "alloy_latest_block runtime block_number = (case runtime of Inl e \<Rightarrow> Inl e | Inr _ \<Rightarrow> block_number)"

definition alloy_logs ::
  "unit rust_result \<Rightarrow> (alloy_filter \<Rightarrow> ix_log list rust_result) \<Rightarrow> address \<Rightarrow> logs_provider"
where
  "alloy_logs runtime node_logs contract start_block end_block =
     (case runtime of Inl e \<Rightarrow> Inl e
      | Inr _ \<Rightarrow> node_logs \<lparr>from_block = start_block, to_block = end_block, filter_address = contract\<rparr>)"

text \<open>What the surroundings of the indexer answer: the environment, the database driver, the parsers of its arguments,
  and the RPC.\<close>

record indexer_outside =
  database_url :: "string option"
  establish :: "string \<Rightarrow> unit rust_result"
  run_migrations :: "database \<Rightarrow> database rust_result"
  parse_rpc :: "string \<Rightarrow> bool"
  parse_contract :: "string \<Rightarrow> address option"
  async_runtime :: "unit rust_result"
  rpc_get_logs :: "alloy_filter \<Rightarrow> ix_log list rust_result"
  rpc_latest :: "u64 rust_result list"

definition indexer_run ::
  "ix_lib \<Rightarrow> indexer_outside \<Rightarrow> string \<Rightarrow> string \<Rightarrow> u64 \<Rightarrow> u64 \<Rightarrow> database \<Rightarrow> loop_end \<times> database"
where
  "indexer_run lib os rpc contract start_block range_size d =
     (case database_url os of None \<Rightarrow> (loop_end.Panicked, d)
      | Some db_url \<Rightarrow>
      case establish os db_url of Inl _ \<Rightarrow> (loop_end.Panicked, d)
      | Inr _ \<Rightarrow>
      case run_migrations os d of Inl _ \<Rightarrow> (loop_end.Panicked, d)
      | Inr d1 \<Rightarrow>
      if \<not> parse_rpc os rpc then (Returned ''invalid url'', d1)
      else case parse_contract os contract of None \<Rightarrow> (Returned ''invalid address'', d1)
      | Some addr \<Rightarrow>
      case start_from start_block d1 of (is_start_set, d2) \<Rightarrow>
        event_loop lib (alloy_logs (async_runtime os) (rpc_get_logs os) addr) range_size
          (map (alloy_latest_block (async_runtime os)) (rpc_latest os)) d2)"

text \<open>\<open>main\<close>: the filter of the environment may not parse; the error of \<open>run\<close> is logged and dropped, so the process
  succeeds whenever it ends without a panic. No result means that it still runs.\<close>

definition indexer_main ::
  "ix_lib \<Rightarrow> indexer_outside \<Rightarrow> unit rust_result \<Rightarrow> string \<Rightarrow> string \<Rightarrow> u64 \<Rightarrow> u64 \<Rightarrow> database
     \<Rightarrow> unit rust_result option option"
where
  "indexer_main lib os rust_log rpc contract start_block range_size d =
     (case rust_log of Inl e \<Rightarrow> Some (Some (Inl e))
      | Inr _ \<Rightarrow>
      case fst (indexer_run lib os rpc contract start_block range_size d) of
        Running _ \<Rightarrow> None | loop_end.Panicked \<Rightarrow> Some None | Returned e \<Rightarrow> Some (Some (Inr ())))"

section \<open>The executor\<close>

text \<open>The state that the server starts with: the key of the enclave, the number of jobs it takes at a time, the state
  of the tasks and that of the end points.\<close>

record 'sk started_executor =
  se_signer :: 'sk
  se_capacity :: nat
  se_executor :: executor
  se_node :: node

definition executor_main ::
  "('sk, 'pk) secp_lib \<Rightarrow> string rust_result \<Rightarrow> string option list rust_result \<Rightarrow> unit rust_result \<Rightarrow> unit rust_result
     \<Rightarrow> disk \<Rightarrow> ('sk started_executor rust_result \<times> disk) option"
where
  "executor_main lib config dir abi bound d =
     (case config of Inl _ \<Rightarrow> None
      | Inr enclave_signer_file \<Rightarrow> Some (
     (case cgroups_new dir of Inl _ \<Rightarrow> io_err ''Failed to retrieve cgroups''
      | Inr cgroups \<Rightarrow>
      if free cgroups = [] then io_err ''No cgroups found''
      else
     io_bind (io_context ''Failed to read the enclave signer key'' (fs_read enclave_signer_file)) (\<lambda>key.
     io_bind (io_ok_or ''Invalid enclave signer key'' (secret_from_slice lib key)) (\<lambda>enclave_signer_key.
     case abi of Inl e \<Rightarrow> io_err e
     | Inr _ \<Rightarrow>
     case bound of Inl _ \<Rightarrow> io_err ''could not bind to port''
     | Inr _ \<Rightarrow> io_ok \<lparr>se_signer = enclave_signer_key, se_capacity = length (free cgroups),
         se_executor = initial_executor (free cgroups), se_node = initial_node\<rparr>))) d))"

section \<open>Tools\<close>

text \<open>The four images printed; the client of the region is there since it was made for it.\<close>

definition ami_main :: "'w aws_api \<Rightarrow> string \<Rightarrow> string \<Rightarrow> ('w, string list) io" where
  "ami_main api rg fam =
     io_bind (io_context ''failed to fetch amd64 community ami'' (get_community_amis api rg fam ''amd64'')) (\<lambda>a.
     io_bind (io_context ''failed to fetch arm64 community ami'' (get_community_amis api rg fam ''arm64'')) (\<lambda>b.
     io_bind (io_context ''failed to fetch amd64 resolved ami'' (get_amis api rg fam ''amd64'')) (\<lambda>c.
     io_bind (io_context ''failed to fetch arm64 resolved ami'' (get_amis api rg fam ''arm64'')) (\<lambda>d.
     io_ok [a, b, c, d]))))"

definition enclaver_main :: "'w aws_api \<Rightarrow> string \<Rightarrow> string \<Rightarrow> string \<Rightarrow> string \<Rightarrow> string \<Rightarrow> string \<Rightarrow> ('w, unit) io" where
  "enclaver_main api user key inst_id rg fam image_url =
     io_context ''could not deploy enclave''
       (run_enclave_impl api (aws_cfg (aws_new user [rg] key None None)) ''0x01020304'' fam inst_id rg image_url
          2 4096 32 False)"

text \<open>The client of the SDK: the measurements are hexadecimal text of 48 bytes each.\<close>

definition parse_measurement :: "(string \<Rightarrow> bytes rust_result) \<Rightarrow> string \<Rightarrow> bytes rust_result" where
  "parse_measurement decode_hex s =
     (case decode_hex s of Inl e \<Rightarrow> Inl e
      | Inr b \<Rightarrow> if length b = 48 then Inr b else Inl ''could not convert slice to array'')"

definition sdk_main ::
  "('c, 'x, 'k) attestation_lib \<Rightarrow> (nat \<Rightarrow> int rust_result) \<Rightarrow> bytes \<Rightarrow> u64 \<Rightarrow> (string \<Rightarrow> bytes rust_result)
     \<Rightarrow> string \<Rightarrow> string \<Rightarrow> string \<Rightarrow> bytes rust_result \<Rightarrow> u64 \<Rightarrow> string \<Rightarrow> (disk, unit) io"
where
  "sdk_main lib now root now_millis decode_hex pcr0 pcr1 pcr2 fetched max_age public_file =
     (case parse_measurement decode_hex pcr0 of Inl e \<Rightarrow> io_err e | Inr p0 \<Rightarrow>
      case parse_measurement decode_hex pcr1 of Inl e \<Rightarrow> io_err e | Inr p1 \<Rightarrow>
      case parse_measurement decode_hex pcr2 of Inl e \<Rightarrow> io_err e | Inr p2 \<Rightarrow>
      case fetched of Inl e \<Rightarrow> io_err e | Inr attestation_doc \<Rightarrow>
      case verify lib now root now_millis attestation_doc [p0, p1, p2] max_age of
        Inl _ \<Rightarrow> io_err ''verification failed''
      | Inr pub_key \<Rightarrow> create_and_populate_file public_file pub_key)"

text \<open>The host of the zero-knowledge verifier: what the document server answers, and a prover that gives a receipt for
  the input or fails.\<close>

definition prover_host :: "bytes rust_result \<Rightarrow> (bytes \<Rightarrow> 'r rust_result) \<Rightarrow> 'r option" where
  "prover_host fetched prove =
     (case fetched of Inl _ \<Rightarrow> None
      | Inr attestation \<Rightarrow> (case prove attestation of Inl _ \<Rightarrow> None | Inr receipt \<Rightarrow> Some receipt))"

section \<open>What the indexer indexes\<close>

text \<open>A node that filters one chain of logs, each with the address that logged it.\<close>

definition filters_chain :: "(alloy_filter \<Rightarrow> ix_log list rust_result) \<Rightarrow> (nat \<Rightarrow> (address \<times> ix_log) list) \<Rightarrow> bool" where
  "filters_chain node_logs chain \<longleftrightarrow> (\<forall>f logs. node_logs f = Inr logs \<longrightarrow>
     logs = map snd (filter (\<lambda>(a, _). a = filter_address f)
       (concat (map chain [unat (from_block f)..<Suc (unat (to_block f))]))))"

definition contract_chain :: "(nat \<Rightarrow> (address \<times> ix_log) list) \<Rightarrow> address \<Rightarrow> nat \<Rightarrow> ix_log list" where
  "contract_chain chain contract b = map snd (filter (\<lambda>(a, _). a = contract) (chain b))"

lemma alloy_serves:
  assumes "filters_chain node_logs chain"
  shows "serves (alloy_logs runtime node_logs contract) (contract_chain chain contract)"
proof -
  have "map snd (filter P (concat (map chain bs))) = concat (map (\<lambda>b. map snd (filter P (chain b))) bs)" for P bs
    by (induction bs) auto
  note parts = this
  have "logs = block_logs (contract_chain chain contract) (unat a) (Suc (unat b))"
    if "alloy_logs runtime node_logs contract a b = Inr logs" for a b logs
  proof -
    from that have "node_logs \<lparr>from_block = a, to_block = b, filter_address = contract\<rparr> = Inr logs"
      by (auto simp: alloy_logs_def split: sum.splits)
    with assms show ?thesis
      by (fastforce simp: filters_chain_def parts block_logs_def contract_chain_def [abs_def] simp del: upt_Suc)
  qed
  then show ?thesis by (simp add: serves_def)
qed

lemma alloy_latest_known:
  "Inr n \<in> set (map (alloy_latest_block runtime) ls) \<Longrightarrow> Inr n \<in> set ls"
  by (auto simp: alloy_latest_block_def split: sum.splits)

text \<open>From an empty database, the tables are those of the logs of the contract from the start block on.\<close>

lemma indexer_run_exact:
  assumes "filters_chain (rpc_get_logs os) chain" and "range_size \<noteq> 0"
    and "\<forall>n. Inr n \<in> set (rpc_latest os) \<longrightarrow> unat n + unat range_size < 2 ^ 64"
    and "run_migrations os d = Inr initial_database" and "0 < sint start_block"
    and "parse_contract os contract = Some addr" and "database_url os = Some db_url" and "establish os db_url = Inr ()"
    and "parse_rpc os rpc" and "indexer_run lib os rpc contract start_block range_size d = (r, d')"
  shows "caught_up lib (contract_chain chain addr) initial_db (start_block - 1) d' \<and>
    (\<forall>x. r = Running x \<longrightarrow> sync d' = Some x)"
proof -
  have "sint (start_block - 1) = sint start_block - 1"
    using assms(5) sint_greater_eq [of start_block] sint_less [of start_block]
    by (simp add: signed_take_bit_int_eq_self_iff sint_word_ariths)
  then have start: "start_from start_block initial_database = (True, initial_database\<lparr>sync := Some (start_block - 1)\<rparr>)"
    using assms(5) by (simp add: start_from_def initial_database_def)
  have "index_turns lib (alloy_logs (async_runtime os) (rpc_get_logs os) addr) range_size
      (map (alloy_latest_block (async_runtime os)) (rpc_latest os)) (start_block - 1)
      (initial_database\<lparr>sync := Some (start_block - 1)\<rparr>) = (r, d')"
    using assms(4,6-10) start by (simp add: indexer_run_def event_loop_def)
  with index_turns_caught_up [OF alloy_serves [OF assms(1)] assms(2) _ _ this] show ?thesis
    using assms(3) alloy_latest_known by (auto simp: initial_database_def)
qed

text \<open>An indexer that returns an error ends as a success.\<close>

lemma indexer_main_hides_error:
  "indexer_main lib os (Inr ()) rpc contract start_block range_size d \<noteq> Some (Some (Inl e))"
  by (simp add: indexer_main_def split: loop_end.split)

section \<open>What the executor starts with\<close>

text \<open>The executor starts with the groups of the directory, and keeps them whatever happens.\<close>

lemma executor_main_started:
  assumes "executor_main lib config (Inr dir) abi bound d = Some (Inr s, d')" and "distinct (List.map_filter id dir)"
  shows "se_capacity s = length (free (pool (se_executor s)))" and "free (pool (se_executor s)) \<noteq> []"
    and "se_node s = initial_node"
    and "executor_run cfg (se_executor s) evs = Some x \<Longrightarrow>
      resources_inv (filter (prefix ''workerd_'') (List.map_filter id dir)) x"
proof -
  let ?names = "filter (prefix ''workerd_'') (List.map_filter id dir)"
  have "abi = Inr () \<or> (\<exists>e. abi = Inl e)" "bound = Inr () \<or> (\<exists>e. bound = Inl e)"
    by (cases abi; simp) (cases bound; simp)
  with assms(1) have s: "?names \<noteq> []" "se_capacity s = length ?names" "se_executor s = initial_executor ?names"
      "se_node s = initial_node"
    by (auto simp: executor_main_def cgroups_new_def get_cgroups_def io_bind_Inr io_err_def split: sum.splits if_splits)
  then show "se_capacity s = length (free (pool (se_executor s)))" "free (pool (se_executor s)) \<noteq> []"
      "se_node s = initial_node" by (simp_all add: initial_executor_def)
  have "resources_inv ?names (initial_executor ?names)"
    using assms(2) by (simp add: resources_inv_def initial_executor_def gathered_def)
  then show "executor_run cfg (se_executor s) evs = Some x \<Longrightarrow> resources_inv ?names x"
    unfolding s(3) executor_run_def by (rule executor.run_inv)
qed

section \<open>What the tools change\<close>

context ec2_service
begin

lemma tools_quiet:
  "io_keeps (\<lambda>w w'. insts w' = insts w) (ami_main api rg fam)"
  "io_keeps (\<lambda>w w'. insts w' = insts w) (enclaver_main api user key i rg fam image_url)"
  unfolding ami_main_def enclaver_main_def get_community_amis_def
  by (intro quiet_intros quiet_queries quiet_enclave)+

end

text \<open>The file of the client is written only with the key of an accepted document; otherwise the disk stays.\<close>

lemma sdk_main_verifies:
  assumes "sdk_main lib now root now_millis decode_hex pcr0 pcr1 pcr2 fetched max_age public_file d = (r, d')"
  shows "d' = d \<or> (\<exists>att p0 p1 p2 key. fetched = Inr att \<and> decode_hex pcr0 = Inr p0 \<and> decode_hex pcr1 = Inr p1 \<and>
    decode_hex pcr2 = Inr p2 \<and> verify lib now root now_millis att [p0, p1, p2] max_age = Inr key \<and>
    create_and_populate_file public_file key d = (r, d'))"
  using assms by (auto simp: sdk_main_def parse_measurement_def io_err_def split: sum.splits if_splits)

text \<open>With a prover that gives receipts for runs of the guest, the host ends with a receipt exactly for a document that
  the guest accepts.\<close>

lemma prover_host_receipt:
  assumes "\<And>b j. (\<exists>r. prove b = Inr r \<and> journal r = j) \<longleftrightarrow> guest_main lib b = Some j"
  shows "(\<exists>r. prover_host (Inr att) prove = Some r \<and> journal r = j) \<longleftrightarrow> guest_main lib att = Some j"
  unfolding assms [symmetric] by (auto simp: prover_host_def split: sum.split)

end
