(* ===== verification/CP_Regions.thy ===== *)
theory CP_Regions
  imports CP_Lifecycle CP_Startup
begin

text \<open>
  The regions of the control plane. \<open>Aws::client\<close> (\<open>operator/control-plane/src/aws.rs\<close>) indexes the map of clients by
  the region of a call, which panics for a region that was not given at the start. The provider of \<open>CP_Aws\<close> leaves
  that out; here it is put around any provider, and the manager of a job is shown not to reach it. The metadata server
  passes on the region of a request, so that there it is reached.
\<close>

section \<open>A provider with clients\<close>

text \<open>The world is \<open>None\<close> once a call has panicked.\<close>

definition client_call :: "string list \<Rightarrow> string \<Rightarrow> ('w, 'a) io \<Rightarrow> ('w option, 'a) io" where
  "client_call cs rg m w =
     (case w of None \<Rightarrow> (Inl ''panicked'', None)
      | Some v \<Rightarrow> if rg \<in> set cs then map_prod id Some (m v) else (Inl ''panicked'', None))"

definition with_clients :: "string list \<Rightarrow> 'w infra_provider \<Rightarrow> 'w option infra_provider" where
  "with_clients cs infra =
     \<lparr>spin_up = (\<lambda>job ty fam rg mem cpu bw. client_call cs rg (spin_up infra job ty fam rg mem cpu bw)),
      spin_down = (\<lambda>i job rg. client_call cs rg (spin_down infra i job rg)),
      get_job_instance = (\<lambda>job rg. client_call cs rg (get_job_instance infra job rg)),
      get_job_ip = (\<lambda>job rg. client_call cs rg (get_job_ip infra job rg)),
      check_instance_running = (\<lambda>i rg. client_call cs rg (check_instance_running infra i rg)),
      check_enclave_running = (\<lambda>i rg. client_call cs rg (check_enclave_running infra i rg)),
      run_enclave = (\<lambda>job i fam rg url cpu mem bw dbg.
        client_call cs rg (run_enclave infra job i fam rg url cpu mem bw dbg)),
      update_enclave_image = (\<lambda>i rg url cpu mem. client_call cs rg (update_enclave_image infra i rg url cpu mem))\<rparr>"

lemma client_call_known: "rg \<in> set cs \<Longrightarrow> client_call cs rg m (Some v) = map_prod id Some (m v)"
  by (simp add: client_call_def)

section \<open>Changes of the infrastructure\<close>

abbreviation some_world :: "'a \<times> 'b \<times> 'w \<Rightarrow> 'a \<times> 'b \<times> 'w option" where
  "some_world \<equiv> map_prod id (map_prod id Some)"

lemma launch_new_clients:
  "region st \<in> set cs \<Longrightarrow> launch_new (with_clients cs infra) st (Some w) = some_world (launch_new infra st w)"
  by (auto simp: launch_new_def with_clients_def client_call_known split: prod.split sum.split)

lemma adopt_instance_clients:
  "region st \<in> set cs \<Longrightarrow>
     adopt_instance (with_clients cs infra) inst st (Some w) = some_world (adopt_instance infra inst st w)"
  by (auto simp: adopt_instance_def with_clients_def client_call_known Let_def split: prod.split sum.split)

lemma change_infra_clients:
  assumes "region st \<in> set cs"
  shows "change_infra (with_clients cs infra) now st (Some w) = some_world (change_infra infra now st w)"
proof -
  have "change_infra_impl (with_clients cs infra) st (Some w) = some_world (change_infra_impl infra st w)"
    unfolding change_infra_impl_def launch_new_clients [OF assms] adopt_instance_clients [OF assms]
    by (auto simp: with_clients_def client_call_known assms launch_new_clients [OF assms, unfolded with_clients_def]
        adopt_instance_clients [OF assms, unfolded with_clients_def] split: prod.split sum.split)
  then show ?thesis by (auto simp: change_infra_def split: prod.split)
qed

lemma heartbeat_clients:
  "region st \<in> set cs \<Longrightarrow>
     heartbeat_check (with_clients cs infra) now st (Some w) = map_prod id Some (heartbeat_check infra now st w)"
  by (auto simp: heartbeat_check_def with_clients_def client_call_known split: prod.split sum.split)

section \<open>The region of a job\<close>

definition region_known :: "job_state \<Rightarrow> bool" where
  "region_known st \<longleftrightarrow> region st \<in> set (allowed_regions st)"

definition same_region :: "job_state \<Rightarrow> job_state \<Rightarrow> bool" where
  "same_region st st' \<longleftrightarrow> region st' = region st \<and> allowed_regions st' = allowed_regions st"

lemma same_region_refl: "same_region st st"
  by (simp add: same_region_def)

lemma opened_metadata_region:
  "opened_metadata v st = Inr st' \<Longrightarrow> region st' \<in> set (allowed_regions st) \<and> allowed_regions st' = allowed_regions st"
  using opened_metadata_frame(8,9) [of v st st'] by blast

lemma process_opened_region:
  "process_opened lib now rates gbs wl bl l st = Some (c, st') \<Longrightarrow> c \<noteq> -2 \<Longrightarrow>
     region_known st' \<and> allowed_regions st' = allowed_regions st"
  by (auto simp: process_opened_def Let_def region_known_def schedule_defs
      dest!: opened_metadata_region opened_bandwidth_frame split: option.splits sum.splits prod.splits if_splits)

lemma simple_region:
  "process_settled lib l st = (c, st') \<Longrightarrow> same_region st st'" "process_closed now st = (c, st') \<Longrightarrow> same_region st st'"
  "process_deposited lib l st = (c, st') \<Longrightarrow> same_region st st'" "process_withdrew lib l st = (c, st') \<Longrightarrow> same_region st st'"
  "process_revise_initiated lib now l st = (c, st') \<Longrightarrow> same_region st st'"
  "process_revise_cancelled st = (c, st') \<Longrightarrow> same_region st st'"
  "process_revise_finalized lib l st = (c, st') \<Longrightarrow> same_region st st'"
  "process_metadata_updated lib now l st = (c, st') \<Longrightarrow> same_region st st'"
  by (auto simp: process_simple_defs same_region_def schedule_defs Let_def split: option.splits if_splits prod.splits)

lemma process_log_cases:
  assumes "process_log lib now rates gbs wl bl ol st = Some (c, st')"
  shows "same_region st st' \<or> (\<exists>l. process_opened lib now rates gbs wl bl l st = Some (c, st'))"
proof (cases "\<exists>l. ol = Some l \<and> vindex (log_topics l) 0 = Some (keccak256 lib sig_opened)")
  case True
  with assms show ?thesis by (auto simp: process_log_def)
next
  case False
  with assms have "same_region st st'"
    by (auto simp: process_log_def intro: simple_region same_region_refl split: option.splits if_splits)
  then show ?thesis ..
qed

lemma process_log_region:
  "process_log lib now rates gbs wl bl ol st = Some (c, st') \<Longrightarrow> c \<noteq> -2 \<Longrightarrow>
     same_region st st' \<or> region_known st' \<and> allowed_regions st' = allowed_regions st"
  using process_log_cases process_opened_region by blast

lemma launch_new_region: "same_region st (fst (snd (launch_new infra st w)))"
  by (simp add: launch_new_def same_region_def Let_def split: sum.split prod.split)

lemma adopt_instance_region: "same_region st (fst (snd (adopt_instance infra inst st w)))"
  by (simp add: adopt_instance_def same_region_def Let_def split: sum.split prod.split)

lemma change_infra_impl_region: "same_region st (fst (snd (change_infra_impl infra st w)))"
  unfolding change_infra_impl_def
  by (simp add: launch_new_region adopt_instance_region same_region_refl split: sum.split prod.split)

lemma change_infra_region: "change_infra infra now st w = (b, st', w') \<Longrightarrow> same_region st st'"
  using change_infra_impl_region [of st infra w]
  by (auto simp: change_infra_def same_region_def split: prod.splits if_splits)

lemma heartbeat_region: "heartbeat_check infra now st w = (st', w') \<Longrightarrow> same_region st st'"
  by (auto simp: heartbeat_check_def same_region_def schedule_defs split: prod.splits sum.splits if_splits)

lemma same_region_known: "same_region st st' \<Longrightarrow> region_known st' = region_known st"
  by (simp add: same_region_def region_known_def)

lemma manager_step_region:
  assumes "manager_step cfg infra st w i = Some (Continue st' w')" and "region_known st"
  shows "region_known st' \<and> allowed_regions st' = allowed_regions st"
proof (cases "select_branch st i")
  case (Some b)
  show ?thesis
  proof (cases b)
    case (LogReady ol)
    from assms(1) obtain c where "process_log (mc_lib cfg) (li_now i) (mc_rates cfg) (mc_gb_rates cfg)
        (mc_whitelist cfg) (mc_blacklist cfg) ol st = Some (c, st')" "c \<noteq> -2"
      unfolding manager_step_def Some LogReady option.case branch.case
      by (cases "process_log (mc_lib cfg) (li_now i) (mc_rates cfg) (mc_gb_rates cfg) (mc_whitelist cfg)
        (mc_blacklist cfg) ol st") (auto split: if_splits)
    from process_log_region [OF this] assms(2) show ?thesis by (auto simp: same_region_def region_known_def)
  qed (use assms Some in \<open>auto simp: manager_step_def handle_insolvency_def schedule_defs region_known_def same_region_def
      split: prod.splits if_splits dest!: heartbeat_region change_infra_region\<close>)
qed (use assms in \<open>auto simp: manager_step_def\<close>)

section \<open>The manager reaches no region without a client\<close>

lemma manager_step_clients:
  assumes "region st \<in> set cs"
  shows "manager_step cfg (with_clients cs infra) st (Some w) i = map_option (map_loop_result Some) (manager_step cfg infra st w i)"
  by (auto simp: manager_step_def change_infra_clients [OF assms] heartbeat_clients [OF assms]
      split: option.split branch.split prod.split)

lemma manager_run_clients:
  "region_known st \<Longrightarrow> allowed_regions st = cs \<Longrightarrow>
     manager_run cfg (with_clients cs infra) st (Some w) is = map_option (map_loop_result Some) (manager_run cfg infra st w is)"
proof (induction "is" arbitrary: st w)
  case (Cons i rest)
  have step: "manager_step cfg (with_clients cs infra) st (Some w) i =
      map_option (map_loop_result Some) (manager_step cfg infra st w i)"
    using Cons.prems by (intro manager_step_clients) (simp add: region_known_def)
  show ?case
  proof (cases "manager_step cfg infra st w i")
    case (Some r)
    with step Cons.IH manager_step_region [of cfg infra st w i] Cons.prems show ?thesis by (cases r) auto
  qed (simp add: step)
qed simp

definition opens_first :: "chain_lib \<Rightarrow> loop_input list \<Rightarrow> bool" where
  "opens_first lib is \<longleftrightarrow> (case is of [] \<Rightarrow> True
     | i # _ \<Rightarrow> (case li_log i of Some (Some l) \<Rightarrow> topic0 l = Some (keccak256 lib sig_opened) | _ \<Rightarrow> False))"

lemma job_manager_once_clients:
  assumes "opens_first (mc_lib cfg) is"
  shows "job_manager_once cfg (with_clients (mc_regions cfg) infra) job now_ts now (Some w) is =
    map_option (map_loop_result Some) (job_manager_once cfg infra job now_ts now w is)"
proof (cases "is")
  case (Cons i rest)
  let ?st = "job_state_new now_ts now job (mc_delay cfg) (mc_regions cfg)"
  from assms Cons obtain l where l: "li_log i = Some (Some l)" "topic0 l = Some (keccak256 (mc_lib cfg) sig_opened)"
    by (auto simp: opens_first_def split: option.splits)
  have branch: "select_branch ?st i = Some (LogReady (Some l))" using l(1) by (simp add: select_branch_def Let_def)
  have log: "process_log (mc_lib cfg) (li_now i) (mc_rates cfg) (mc_gb_rates cfg) (mc_whitelist cfg) (mc_blacklist cfg)
      (Some l) st = process_opened (mc_lib cfg) (li_now i) (mc_rates cfg) (mc_gb_rates cfg) (mc_whitelist cfg)
      (mc_blacklist cfg) l st" for st
    using l(2) by (simp add: process_log_def topic0_def)
  show ?thesis
  proof (cases "process_opened (mc_lib cfg) (li_now i) (mc_rates cfg) (mc_gb_rates cfg) (mc_whitelist cfg)
      (mc_blacklist cfg) l ?st")
    case (Some r)
    obtain c st where r: "r = (c, st)" by fastforce
    have "c \<noteq> -2 \<Longrightarrow> region_known st \<and> allowed_regions st = mc_regions cfg"
      using process_opened_region [OF Some [unfolded r]] by (simp add: job_state_new_def)
    then show ?thesis
      using manager_run_clients [of st "mc_regions cfg" cfg infra w rest]
      by (simp add: job_manager_once_def Cons manager_step_def branch log Some r)
  qed (simp add: job_manager_once_def Cons manager_step_def branch log)
qed (simp add: job_manager_once_def)

text \<open>An opening whose metadata name a region that the operator does not serve.\<close>

definition opens_elsewhere :: "market_config \<Rightarrow> loop_input \<Rightarrow> bool" where
  "opens_elsewhere cfg i \<longleftrightarrow> (\<exists>l metadata r b t v rg. li_log i = Some (Some l)
     \<and> topic0 l = Some (keccak256 (mc_lib cfg) sig_opened)
     \<and> decode_opened (mc_lib cfg) (log_data l) = Some (metadata, r, b, t)
     \<and> parse_json (mc_lib cfg) metadata = Some v
     \<and> as_str (json_get v ''region'') = Some rg \<and> rg \<notin> set (mc_regions cfg))"

lemma opened_elsewhere:
  assumes "as_str (json_get v ''region'') = Some rg" and "rg \<notin> set (allowed_regions st)"
  shows "\<exists>st'. opened_metadata v st = Inl st'"
  using assms by (auto simp: opened_metadata_def Let_def split: option.split)

lemma job_manager_elsewhere:
  assumes "opens_elsewhere cfg i"
  shows "job_manager cfg infra job backoff w (Session ts now (i # rest) # as) = Some ([], w, True)"
proof -
  let ?st = "job_state_new ts now job (mc_delay cfg) (mc_regions cfg)"
  from assms obtain l metadata r b t v rg where l: "li_log i = Some (Some l)"
      "topic0 l = Some (keccak256 (mc_lib cfg) sig_opened)"
    and d: "decode_opened (mc_lib cfg) (log_data l) = Some (metadata, r, b, t)"
      "parse_json (mc_lib cfg) metadata = Some v"
    and rg: "as_str (json_get v ''region'') = Some rg" "rg \<notin> set (mc_regions cfg)"
    unfolding opens_elsewhere_def by blast
  let ?st1 = "?st\<lparr>balance := b, rate := r, original_rate := r,
    last_settled := duration_from_secs (saturating_to_u64 t)\<rparr>"
  obtain st' where "opened_metadata v ?st1 = Inl st'"
    using opened_elsewhere [OF rg(1), of ?st1] rg(2) by (auto simp: job_state_new_def)
  then have "process_opened (mc_lib cfg) (li_now i) (mc_rates cfg) (mc_gb_rates cfg) (mc_whitelist cfg)
      (mc_blacklist cfg) l ?st = Some (-2, st')"
    by (simp add: process_opened_def d Let_def)
  moreover have "select_branch ?st i = Some (LogReady (Some l))" using l(1) by (simp add: select_branch_def Let_def)
  ultimately show ?thesis
    using l(2) by (simp add: job_manager_once_def manager_step_def process_log_def topic0_def)
qed

text \<open>C16: The manager of a job only calls the provider for regions that have a client. When the clients are those of
  the regions the control plane was started with and the logs of a job start with its opening, then a whole life of
  the manager, over any connections, failures and schedules, is the same with the provider that panics for other
  regions as with the one that does not: \<open>Aws::client\<close> never panics there. An opening for
  another region ends the manager for good before its first call: the world, with any provider, is untouched.\<close>

theorem regions_have_clients:
  assumes "\<forall>ts now is. Session ts now is \<in> set as \<longrightarrow> opens_first (mc_lib cfg) is"
  shows "job_manager cfg (with_clients (mc_regions cfg) infra) job backoff (Some w) as =
    map_option (map_prod id (map_prod Some id)) (job_manager cfg infra job backoff w as)
    \<and> (\<forall>i rest ts now bs. opens_elsewhere cfg i \<longrightarrow>
        job_manager cfg infra job backoff w (Session ts now (i # rest) # bs) = Some ([], w, True))"
proof -
  have run: "job_manager cfg (with_clients (mc_regions cfg) infra) job backoff (Some w) as =
    map_option (map_prod id (map_prod Some id)) (job_manager cfg infra job backoff w as)" for backoff w
    using assms
  proof (induction as arbitrary: backoff w)
    case (Cons a as)
    then have IH: "\<And>b w. job_manager cfg (with_clients (mc_regions cfg) infra) job b (Some w) as =
        map_option (map_prod id (map_prod Some id)) (job_manager cfg infra job b w as)" by (simp add: id_def)
    show ?case
    proof (cases a)
      case (Session ts now "is")
      with Cons.prems have first: "opens_first (mc_lib cfg) is" by simp
      show ?thesis
        by (simp add: Session job_manager_once_clients [OF first] IH id_def split: option.split loop_result.split)
    qed (simp_all add: IH option.map_comp comp_def split_beta id_def)
  qed simp
  show ?thesis by (intro conjI allI impI run job_manager_elsewhere)
qed

theorem regions_have_clients_witness:
  "job_manager sample_config (with_clients [''ap-south-1''] (test_aws_provider sample_hasher)) sample_job 1 (Some test_aws_new)
       [ConnectError, Session 0 0 [sample_input 1 (Some (Some (sample_log 1 30))), sample_input 4 None]] =
     map_option (map_prod id (map_prod Some id))
       (job_manager sample_config (test_aws_provider sample_hasher) sample_job 1 test_aws_new
         [ConnectError, Session 0 0 [sample_input 1 (Some (Some (sample_log 1 30))), sample_input 4 None]]) \<and>
   job_manager sample_config (test_aws_provider sample_hasher) sample_job 1 test_aws_new
       [ConnectError, Session 0 0 [sample_input 1 (Some (Some (sample_log 1 30))), sample_input 4 None]] \<noteq> None"
proof
  have "opens_first (mc_lib sample_config) [sample_input 1 (Some (Some (sample_log 1 30))), sample_input 4 None]"
    by (simp add: opens_first_def manager_eval topic0_def vindex_def)
  with regions_have_clients [of "[ConnectError, Session 0 0 [sample_input 1 (Some (Some (sample_log 1 30))), sample_input 4 None]]"
      sample_config "test_aws_provider sample_hasher" sample_job 1 test_aws_new]
  show "job_manager sample_config (with_clients [''ap-south-1''] (test_aws_provider sample_hasher)) sample_job 1 (Some test_aws_new)
       [ConnectError, Session 0 0 [sample_input 1 (Some (Some (sample_log 1 30))), sample_input 4 None]] =
     map_option (map_prod id (map_prod Some id))
       (job_manager sample_config (test_aws_provider sample_hasher) sample_job 1 test_aws_new
         [ConnectError, Session 0 0 [sample_input 1 (Some (Some (sample_log 1 30))), sample_input 4 None]])"
    by (simp add: sample_config_def)
  show "job_manager sample_config (test_aws_provider sample_hasher) sample_job 1 test_aws_new
       [ConnectError, Session 0 0 [sample_input 1 (Some (Some (sample_log 1 30))), sample_input 4 None]] \<noteq> None"
    by (simp add: manager_eval)
qed

text \<open>The metadata server does not look at the region of a request: for one without a client the handler panics.\<close>

lemma ip_request_panics:
  "rg \<notin> set cs \<Longrightarrow> snd (handle_ip_request (get_job_ip (with_clients cs infra)) own (Some i) (Some rg) (Some w)) = None"
  by (simp add: handle_ip_request_def with_clients_def client_call_def)

text \<open>The clients of a started control plane are those of its regions, which it hands to the market loop.\<close>

lemma start_has_clients: "run_start lib out cli w = Some (Inr s, w') \<Longrightarrow> clients (se_aws s) = se_regions s"
  unfolding run_start_def Let_def then_some_Inr by (auto simp: lift_some_def aws_new_def)

end
