(* ===== verification/Spec2Isabelle.thy ===== *)
theory Spec2Isabelle
  imports CP_Aws CP_Vetting Indexer EX_Lifecycle EX_Sender EX_Node Scallop_Handshake Sdk_Attestation Guest_Verifier
    Raw_Proxy Tcp_Proxy CP_Startup OP_Quota Mock_Attestation EX_Listener EX_Runtime Enclave_Setup Program_Starts CP_Regions
begin

text \<open>
  A verification library for the Rust programs of the Oyster monorepo: a marketplace on which users rent enclaves.

  \<^bold>\<open>The programs.\<close> The market contract logs what happens to jobs. The operator's control plane follows the logs of its
  jobs, keeps the balance of each, and starts, updates and terminates instances through an infrastructure provider;
  the AWS provider drives EC2 and, over SSH, an instance that runs the enclave. The indexer turns the same logs into
  tables. The serverless executor runs user code inside an enclave for a jobs contract. Enclaves prove themselves by
  attestations, which the SDK, a signing verifier and a zero-knowledge guest check; the Scallop stream of the SDK is
  an encrypted connection whose ends may ask each other for one. The proxies carry the traffic of an enclave over vsock,
  and small programs give an enclave its keys, its address and its attestations.

  \<^bold>\<open>Conventions\<close> (\<open>Oyster_Prelude\<close>, \<open>Oyster_IO\<close>). A panic is \<open>None\<close>, a \<open>Result\<close> is a sum, integers have the width of
  the source and wrap or saturate as it does, durations are nanoseconds. What the system, the chain, a client library
  or a peer answers is an input of a step, so that a theorem over all inputs covers every schedule and failure; a
  library whose code is not in the repository (cryptography, encoders, parsers, the AWS client) is a record of
  functions, and what the code relies on is a hypothesis on that record. \<open>invariant_system\<close> is the interface of a
  transition system with an invariant; \<open>io_relation\<close> that of operations on a world which keep a relation.

  \<^bold>\<open>Control plane\<close> (\<open>operator/control-plane/src\<close>).
  \<^item> \<open>CP_Market\<close> models \<open>market.rs\<close>: the rate cards, \<open>JobState\<close> as the record \<open>job_state\<close>, its operations and
    \<open>process_log\<close> with every branch. Lemmas: the balance is the ledger of the logs, the deadline of insolvency, what an
    opening and an update schedule, what no later log can undo.
  \<^item> \<open>CP_Manager\<close> models the rest of \<open>market.rs\<close>: \<open>InfraProvider\<close> as the record \<open>infra_provider\<close> of operations on a
    world, with its contract \<open>infra_service\<close> (a call for one job touches no instance of another, and only a launch
    brings one to life); \<open>change_infra\<close>, the biased select of the event loop (\<open>select_branch\<close>,
    \<open>manager_step\<close>), the reconnecting loops and the log streams. \<open>CP_Test_Aws\<close> models the in-memory provider of
    \<open>test.rs\<close> and interprets the contract on it; \<open>CP_Lifecycle\<close> proves what holds of a job from its start to its exit:
    when it is launched, when it runs out of money, how its termination is retried, that it is only given up after
    one, and what a metadata update does (the last four for any provider, without the contract).
  \<^item> \<open>CP_Ec2\<close>, \<open>CP_Ssh\<close> and \<open>CP_Aws\<close> model \<open>aws.rs\<close>: the EC2 queries and launches, the commands on the instance, and
    the provider made of them, on which the contract is interpreted again: EC2 may list instances in any order, and a
    call that fails may have had its effect. \<open>CP_Shell\<close> reads a command the way the shell of the instance does and
    says which commands download and which start an enclave. \<open>CP_Vetting\<close> shows that no image is started which was
    not hashed and checked, against a host that answers anything, for addresses of images without a character
    that the shell interprets.
  \<^item> \<open>CP_Startup\<close> models the start: the key pair of the operator and its import into every region (\<open>aws.rs\<close>), the files
    of settings and \<open>run\<close> (\<open>main.rs\<close>), and the end points of \<open>server.rs\<close>; whatever fails, a start removes nothing.
    \<open>CP_Regions\<close> adds the panic of a call for a region without a client, and shows that the manager never reaches it.
  \<^item> \<open>OP_Quota\<close> models the quota monitor (\<open>operator/quota-monitor-aws\<close>): use, limit and requests from AWS's answers.

  \<^bold>\<open>Indexer\<close> (\<open>contracts/indexer/src\<close>): \<open>Indexer\<close> models the tables with their keys, the handlers, the transaction of a
  range of blocks and the event loop; the loop refines the folding of the handlers over the logs of the chain, keeps
  the ledger and the foreign keys, and reaches the head of the chain.

  \<^bold>\<open>Serverless executor\<close> (\<open>serverless/executor/src\<close>).
  \<^item> \<open>EX_Workerd\<close>: \<open>cgroups.rs\<close> with its interface, and what \<open>workerd.rs\<close> computes.
  \<^item> \<open>EX_Jobs\<close>: \<open>job_handler.rs\<close>, \<open>timeout_handler.rs\<close> and the handlers of \<open>event_handler.rs\<close>, as steps of one state
    \<open>executor\<close>; a task is cut where it awaits, its guards are what it holds, and a timer fires in three steps (the look at the
    running jobs, the sending, the unmarking). \<open>EX_Lifecycle\<close>: control groups are conserved, tasks end, one
    transaction per job, which timers can still slash after an answer, and what signatures bind.
  \<^item> \<open>EX_Listener\<close>: the loop of \<open>events_listener\<close> over its connections and subscriptions refines the steps of \<open>EX_Jobs\<close>.
    \<open>EX_Runtime\<close>: the files and requests of a job in \<open>workerd.rs\<close> on a disk with faults, with retries and removal.
  \<^item> \<open>EX_Sender\<close>: the sending and resending of transactions (nonces, gas). \<open>EX_Node\<close>: the configuration end points.

  \<^bold>\<open>SDK and attestations\<close> (\<open>sdks/rs/src\<close>, \<open>attestation\<close>).
  \<^item> \<open>Scallop_Stream\<close> models the polled stream of \<open>scallop.rs\<close> and the connection of two ends: it refines two queues of
    bytes. \<open>Scallop_Handshake\<close> models both handshakes over a connection that may do anything: authentication,
    completion, and the size that makes the server panic.
  \<^item> \<open>Sdk_Attestation\<close> models \<open>attestation.rs\<close> and the verifier's \<open>handler.rs\<close>: what exactly is accepted and signed.
  \<^item> \<open>Guest_Verifier\<close> models the guest of \<open>verifier-risczero\<close>: the byte offsets of its assertions are equivalent to a
    grammar of documents (\<open>doc_bytes\<close>) with a verified chain and signature, and the journal is what the grammar says
    and has a fixed layout (\<open>journal_typed\<close>).
  \<^item> \<open>Mock_Attestation\<close> models the attestation servers (\<open>attestation/server*\<close>) with the document that the mock server writes
    byte by byte; the guest accepts it exactly when the lengths of its fields fit the tags the guest knows.

  \<^bold>\<open>Starting\<close>. \<open>Enclave_Setup\<close> models \<open>initialization\<close> (the server of the host, its client, the key generators), the search
  for the network interface and the start of the attestation verifier: server, client and proxies agree on one
  address, and generated keys are those the verifier signs with. \<open>Program_Starts\<close> models the \<open>main\<close> functions of the
  indexer with its HTTP provider, the executor, the SDK, the host of the prover and the tools of the control plane, and
  connects them with what the other theories prove.

  \<^bold>\<open>Proxies\<close> (\<open>networking\<close>). \<open>Raw_Proxy\<close> models the four programs of \<open>raw-proxy\<close>: packets survive the connection and its
  failures whole and in order (bytes that a connection accepted are taken to arrive), and only packets whose own
  frame passes the checks leave. \<open>Tcp_Proxy\<close> models \<open>tcp-proxy\<close>: the
  original destination, its header, and the two copies of a transfer.

  \<^bold>\<open>Loops and fuel.\<close> No definition has a fuel parameter: loops recurse over the inputs they consume (a list that runs out
  means that the program waits), over a decreasing measure, or, where a loop of the code need not end
  (\<open>Scallop_Stream.poll_flush\<close>), are partial functions whose returning is proved under the hypothesis that makes it end.

  \<^bold>\<open>Not modelled.\<close> Parsing of arguments and configuration files, routing and listening of the HTTP servers, printing and
  tracing; what is behind the library calls whose results are inputs (HTTP, web sockets, PostgreSQL, the AWS client,
  libc); wakers and the scheduler of asynchronous tasks; examples, tests, Go, Nix, shell and build files.
\<close>

end
